(* ===== verification/PyText.thy ===== *)
theory PyText
  imports Prelude
begin

text \<open>
  Python's byte strings and text. A byte string is a list of 8-bit characters. A Python
  \<open>str\<close> is represented by its UTF-8 bytes (a lone surrogate by its three-byte form, the
  \<open>surrogatepass\<close> encoding), so equality, concatenation, substring search and the order by
  code points are those of the byte lists, while \<open>len\<close> and slicing count code points
  (\<open>py_len\<close>, \<open>py_take\<close>, over \<open>glyphs\<close>). The theory holds the parts of the standard library
  that the sources use: whitespace stripping, iteration over the lines of a file, decimal and
  hexadecimal rendering, UTF-8 validity, base64.
\<close>

type_synonym bytes = string

abbreviation code :: "char \<Rightarrow> nat" where
  "code c \<equiv> of_char c"

section \<open>Whitespace and lines\<close>

abbreviation nl :: char where
  "nl \<equiv> CHR 0x0A"

abbreviation cr :: char where
  "cr \<equiv> CHR 0x0D"

text \<open>The whitespace of \<open>bytes.strip\<close>.\<close>

definition is_bspace :: "char \<Rightarrow> bool" where
  "is_bspace c \<longleftrightarrow> c \<in> {CHR '' '', CHR 0x09, CHR 0x0A, CHR 0x0B, CHR 0x0C, CHR 0x0D}"

definition rstrip :: "('a \<Rightarrow> bool) \<Rightarrow> 'a list \<Rightarrow> 'a list" where
  "rstrip P xs = rev (dropWhile P (rev xs))"

definition strip_by :: "('a \<Rightarrow> bool) \<Rightarrow> 'a list \<Rightarrow> 'a list" where
  "strip_by P xs = rstrip P (dropWhile P xs)"

abbreviation bstrip :: "bytes \<Rightarrow> bytes" where
  "bstrip \<equiv> strip_by is_bspace"

text \<open>Iterating over a file opened in binary mode: each line keeps its newline.\<close>

fun py_lines :: "bytes \<Rightarrow> bytes list" where
  "py_lines [] = []"
| "py_lines (c # cs) =
     (if c = nl then [c] # py_lines cs
      else case py_lines cs of [] \<Rightarrow> [[c]] | l # ls \<Rightarrow> (c # l) # ls)"

definition ends_nl :: "bytes \<Rightarrow> bool" where
  "ends_nl s \<longleftrightarrow> s = [] \<or> last s = nl"

lemma concat_py_lines: "concat (py_lines s) = s"
  by (induction s) (auto split: list.splits)

lemma py_lines_line:
  "nl \<notin> set s \<Longrightarrow> py_lines (s @ nl # t) = (s @ [nl]) # py_lines t"
  by (induction s) auto

lemma py_lines_single: "nl \<notin> set s \<Longrightarrow> s \<noteq> [] \<Longrightarrow> py_lines s = [s]"
proof (induction s)
  case Nil
  then show ?case by simp
next
  case (Cons c s)
  then show ?case by (cases "s = []") auto
qed

lemma py_lines_Nil_iff [simp]: "py_lines s = [] \<longleftrightarrow> s = []"
  by (cases s) (auto split: list.splits)

lemma py_lines_append: "ends_nl s \<Longrightarrow> py_lines (s @ t) = py_lines s @ py_lines t"
proof (induction s)
  case Nil
  then show ?case by simp
next
  case (Cons c s)
  show ?case
  proof (cases "s = []")
    case True
    with Cons.prems show ?thesis by (simp add: ends_nl_def)
  next
    case False
    with Cons.prems have "ends_nl s" by (simp add: ends_nl_def)
    then have IH: "py_lines (s @ t) = py_lines s @ py_lines t" by (rule Cons.IH)
    from False have "py_lines s \<noteq> []" by simp
    then obtain l ls where "py_lines s = l # ls" by (cases "py_lines s") auto
    with IH show ?thesis by simp
  qed
qed

lemma rstrip_simps [simp]: "rstrip P [] = []"
  by (simp add: rstrip_def)

lemma rstrip_snoc: "rstrip P (xs @ [x]) = (if P x then rstrip P xs else xs @ [x])"
  by (simp add: rstrip_def)

lemma rstrip_append_all: "\<forall>y \<in> set ys. P y \<Longrightarrow> rstrip P (xs @ ys) = rstrip P xs"
proof -
  assume "\<forall>y \<in> set ys. P y"
  then have "\<forall>y \<in> set (rev ys). P y" by simp
  then have "dropWhile P (rev ys @ rev xs) = dropWhile P (rev xs)"
    by (induction "rev ys") (auto simp: dropWhile_append)
  then show ?thesis by (simp add: rstrip_def)
qed

lemma rstrip_id: "xs = [] \<or> \<not> P (last xs) \<Longrightarrow> rstrip P xs = xs"
  by (cases xs rule: rev_cases) (auto simp: rstrip_def)

lemma rstrip_prefix: "\<exists>ys. xs = rstrip P xs @ ys \<and> (\<forall>y \<in> set ys. P y)"
proof -
  have "rev xs = takeWhile P (rev xs) @ dropWhile P (rev xs)" by simp
  then have "xs = rstrip P xs @ rev (takeWhile P (rev xs))"
    unfolding rstrip_def by (metis rev_append rev_rev_ident)
  moreover have "\<forall>y \<in> set (rev (takeWhile P (rev xs))). P y"
    by (auto dest: set_takeWhileD)
  ultimately show ?thesis by blast
qed

lemma strip_by_id:
  assumes "xs = [] \<or> \<not> P (hd xs) \<and> \<not> P (last xs)"
  shows "strip_by P xs = xs"
proof (cases xs)
  case Nil
  then show ?thesis by (simp add: strip_by_def)
next
  case (Cons y ys)
  with assms have "dropWhile P xs = xs" by simp
  with assms Cons show ?thesis unfolding strip_by_def by (simp add: rstrip_id)
qed

lemma strip_by_line:
  assumes "xs \<noteq> []" and "\<not> P (hd xs)" and "\<not> P (last xs)" and "P y"
  shows "strip_by P (xs @ [y]) = xs"
proof -
  have "dropWhile P (xs @ [y]) = xs @ [y]" using assms by (cases xs) auto
  then show ?thesis using assms by (simp add: strip_by_def rstrip_snoc rstrip_id)
qed

section \<open>Decimal and hexadecimal\<close>

definition digit :: "nat \<Rightarrow> char" where
  "digit n = ''0123456789'' ! n"

fun dec_nat :: "nat \<Rightarrow> string" where
  "dec_nat n = (if n < 10 then [digit n] else dec_nat (n div 10) @ [digit (n mod 10)])"

declare dec_nat.simps [simp del]

definition dec_int :: "int \<Rightarrow> string" where
  "dec_int i = (if i < 0 then CHR ''-'' # dec_nat (nat (- i)) else dec_nat (nat i))"

definition is_digit :: "char \<Rightarrow> bool" where
  "is_digit c \<longleftrightarrow> 48 \<le> code c \<and> code c \<le> 57"

definition digit_val :: "char \<Rightarrow> nat" where
  "digit_val c = code c - 48"

definition read_nat :: "string \<Rightarrow> nat" where
  "read_nat s = foldl (\<lambda>a c. 10 * a + digit_val c) 0 s"

lemma less_10_cases:
  "n < (10::nat) \<Longrightarrow> n \<in> {0, 1, 2, 3, 4, 5, 6, 7, 8, 9}"
  by auto

lemma digit_props:
  assumes "n < 10"
  shows "is_digit (digit n)" and "digit_val (digit n) = n"
  using less_10_cases [OF assms]
  by (auto simp: digit_def is_digit_def digit_val_def)

lemma dec_nat_digits: "\<forall>c \<in> set (dec_nat n). is_digit c"
proof (induction n rule: dec_nat.induct)
  case (1 n)
  show ?case
  proof (cases "n < 10")
    case True
    then show ?thesis by (subst dec_nat.simps) (simp add: digit_props)
  next
    case False
    with 1 show ?thesis by (subst dec_nat.simps) (auto simp: digit_props)
  qed
qed

lemma dec_nat_not_Nil [simp]: "dec_nat n \<noteq> []"
  by (subst dec_nat.simps) simp

lemma read_dec_nat [simp]: "read_nat (dec_nat n) = n"
proof (induction n rule: dec_nat.induct)
  case (1 n)
  show ?case
  proof (cases "n < 10")
    case True
    then show ?thesis by (subst dec_nat.simps) (simp add: read_nat_def digit_props)
  next
    case False
    with 1 have "read_nat (dec_nat (n div 10)) = n div 10" by simp
    with False show ?thesis
      by (subst dec_nat.simps) (simp add: read_nat_def digit_props)
  qed
qed

lemma dec_nat_no_leading_zero: "hd (dec_nat n) = CHR ''0'' \<Longrightarrow> n = 0"
proof (induction n rule: dec_nat.induct)
  case (1 n)
  show ?case
  proof (cases "n < 10")
    case True
    with 1(2) show ?thesis
      using less_10_cases [OF True] by (auto simp: dec_nat.simps [of n] digit_def)
  next
    case False
    with 1(2) have "hd (dec_nat (n div 10)) = CHR ''0''"
      by (simp add: dec_nat.simps [of n])
    with 1(1) False have "n div 10 = 0" by simp
    with False show ?thesis by simp
  qed
qed

lemma inj_dec_nat: "dec_nat m = dec_nat n \<Longrightarrow> m = n"
  by (metis read_dec_nat)

definition hexdigit :: "nat \<Rightarrow> char" where
  "hexdigit n = ''0123456789abcdef'' ! n"

definition hex_byte :: "char \<Rightarrow> string" where
  "hex_byte c = [hexdigit (code c div 16), hexdigit (code c mod 16)]"

text \<open>\<open>bytes.hex\<close>.\<close>

definition to_hex :: "bytes \<Rightarrow> string" where
  "to_hex b = concat (map hex_byte b)"

definition is_hexchar :: "char \<Rightarrow> bool" where
  "is_hexchar c \<longleftrightarrow> c \<in> set ''0123456789abcdef''"

lemma less_16_cases:
  "n < (16::nat) \<Longrightarrow> n \<in> {0, 1, 2, 3, 4, 5, 6, 7, 8, 9, 10, 11, 12, 13, 14, 15}"
  by simp arith

lemma hexdigit_inj: "m < 16 \<Longrightarrow> n < 16 \<Longrightarrow> hexdigit m = hexdigit n \<Longrightarrow> m = n"
proof -
  assume "m < 16" "n < 16" "hexdigit m = hexdigit n"
  moreover have "distinct ''0123456789abcdef''" by simp
  ultimately show "m = n"
    unfolding hexdigit_def by (subst (asm) nth_eq_iff_index_eq) auto
qed

lemma hexdigit_hexchar: "n < 16 \<Longrightarrow> is_hexchar (hexdigit n)"
  unfolding is_hexchar_def hexdigit_def by (rule nth_mem) simp

lemma code_div_16 [simp]: "code c div 16 < 16"
proof -
  have "code c < 256" by (rule nat_of_char_less_256)
  then show ?thesis by presburger
qed

lemma hex_byte_inj: "hex_byte c = hex_byte d \<Longrightarrow> c = d"
proof -
  assume a: "hex_byte c = hex_byte d"
  from a have "hexdigit (code c div 16) = hexdigit (code d div 16)"
    and "hexdigit (code c mod 16) = hexdigit (code d mod 16)"
    by (simp_all add: hex_byte_def)
  then have "code c div 16 = code d div 16" and "code c mod 16 = code d mod 16"
    by (auto intro!: hexdigit_inj)
  then have "code c = code d" by (metis div_mult_mod_eq)
  then show "c = d" by simp
qed

lemma to_hex_inj: "to_hex a = to_hex b \<Longrightarrow> a = b"
proof (induction a arbitrary: b)
  case Nil
  then show ?case by (cases b) (auto simp: to_hex_def hex_byte_def)
next
  case (Cons c a)
  then obtain d b' where b: "b = d # b'" by (cases b) (auto simp: to_hex_def hex_byte_def)
  with Cons.prems have "hex_byte c = hex_byte d" and "to_hex a = to_hex b'"
    by (auto simp: to_hex_def hex_byte_def)
  with Cons.IH b show ?case by (auto dest: hex_byte_inj)
qed

lemma length_to_hex: "length (to_hex b) = 2 * length b"
  by (induction b) (auto simp: to_hex_def hex_byte_def)

lemma to_hex_chars: "\<forall>c \<in> set (to_hex b). is_hexchar c"
  by (induction b) (auto simp: to_hex_def hex_byte_def intro!: hexdigit_hexchar)

section \<open>Code points\<close>

definition is_cont :: "char \<Rightarrow> bool" where
  "is_cont c \<longleftrightarrow> 128 \<le> code c \<and> code c < 192"

function glyphs :: "string \<Rightarrow> string list" where
  "glyphs [] = []"
| "glyphs (c # cs) = (c # takeWhile is_cont cs) # glyphs (dropWhile is_cont cs)"
  by pat_completeness auto
termination
  by (relation "measure length") (auto simp: le_imp_less_Suc length_dropWhile_le)

text \<open>\<open>len\<close> and the slice \<open>[:n]\<close> of a \<open>str\<close>.\<close>

definition py_len :: "string \<Rightarrow> nat" where
  "py_len s = length (glyphs s)"

definition py_take :: "nat \<Rightarrow> string \<Rightarrow> string" where
  "py_take n s = concat (take n (glyphs s))"

lemma concat_glyphs [simp]: "concat (glyphs s) = s"
  by (induction s rule: glyphs.induct) simp_all

lemma py_take_all: "py_len s \<le> n \<Longrightarrow> py_take n s = s"
  by (simp add: py_take_def py_len_def)

lemma py_len_le: "py_len s \<le> length s"
  unfolding py_len_def
proof (induction s rule: glyphs.induct)
  case (2 c cs)
  have "length (dropWhile is_cont cs) \<le> length cs" by (rule length_dropWhile_le)
  with 2 show ?case by simp
qed simp

lemma glyphs_ascii: "\<forall>c \<in> set s. code c < 128 \<Longrightarrow> glyphs s = map (\<lambda>c. [c]) s"
proof (induction s rule: glyphs.induct)
  case (2 c cs)
  have nc: "\<forall>x \<in> set cs. \<not> is_cont x" using 2(2) by (auto simp: is_cont_def)
  then have "takeWhile is_cont cs = []" "dropWhile is_cont cs = cs" by (cases cs; simp)+
  with 2 show ?case by simp
qed simp

lemma py_len_ascii: "\<forall>c \<in> set s. code c < 128 \<Longrightarrow> py_len s = length s"
  by (simp add: py_len_def glyphs_ascii)

text \<open>A list of glyphs is what \<open>glyphs\<close> produces: a first byte, then continuation bytes.\<close>

lemma glyphs_shape: "g \<in> set (tl (glyphs s)) \<Longrightarrow> g \<noteq> [] \<and> \<not> is_cont (hd g) \<and> (\<forall>c \<in> set (tl g). is_cont c)"
proof (induction s rule: glyphs.induct)
  case (2 c cs)
  show ?case
  proof (cases "dropWhile is_cont cs")
    case Nil
    with 2(2) show ?thesis by simp
  next
    case (Cons d ds)
    then have d: "\<not> is_cont d" by (metis dropWhile_eq_Cons_conv)
    have "glyphs (d # ds) = (d # takeWhile is_cont ds) # glyphs (dropWhile is_cont ds)" by simp
    with Cons 2(2) consider "g = d # takeWhile is_cont ds"
      | "g \<in> set (tl (glyphs (dropWhile is_cont cs)))" by auto
    then show ?thesis
    proof cases
      case 1
      with d show ?thesis by (auto dest: set_takeWhileD)
    next
      case 2
      then show ?thesis by (rule "2.IH")
    qed
  qed
qed simp

lemma glyphs_append_glyph:
  assumes "t = [] \<or> \<not> is_cont (hd t)"
  shows "glyphs (s @ t) = glyphs s @ glyphs t"
proof (induction s rule: glyphs.induct)
  case 1
  then show ?case by simp
next
  case (2 c cs)
  have tw: "takeWhile is_cont (cs @ t) = takeWhile is_cont cs"
    and dw: "dropWhile is_cont (cs @ t) = dropWhile is_cont cs @ t"
    using assms by (induction cs) (cases t; auto)+
  with 2 show ?case by simp
qed

lemma py_len_append:
  "t = [] \<or> \<not> is_cont (hd t) \<Longrightarrow> py_len (s @ t) = py_len s + py_len t"
  by (simp add: py_len_def glyphs_append_glyph)

lemma hd_concat_glyphs: "gs \<noteq> [] \<Longrightarrow> hd gs \<noteq> [] \<Longrightarrow> hd (concat gs) = hd (hd gs)"
  by (cases gs) auto

lemma glyphs_concat:
  "\<forall>g \<in> set gs. g \<noteq> [] \<and> (\<forall>c \<in> set (tl g). is_cont c) \<Longrightarrow>
   \<forall>g \<in> set (tl gs). \<not> is_cont (hd g) \<Longrightarrow> glyphs (concat gs) = gs"
proof (induction gs)
  case Nil
  then show ?case by simp
next
  case (Cons g gs)
  from Cons.prems obtain c k where g: "g = c # k" and k: "\<forall>x \<in> set k. is_cont x"
    by (cases g) auto
  have rest: "concat gs = [] \<or> \<not> is_cont (hd (concat gs))"
    using Cons.prems by (cases gs) auto
  have "glyphs (concat gs) = gs" using Cons by (cases gs) auto
  moreover have "takeWhile is_cont (k @ concat gs) = k" "dropWhile is_cont (k @ concat gs) = concat gs"
    using takeWhile_append_stop [OF k rest] dropWhile_append_stop [OF k rest] by simp_all
  ultimately show ?case using g by simp
qed

lemma glyphs_nonempty: "g \<in> set (glyphs s) \<Longrightarrow> g \<noteq> [] \<and> (\<forall>c \<in> set (tl g). is_cont c)"
proof (induction s rule: glyphs.induct)
  case (2 c cs)
  then show ?case by (auto dest: set_takeWhileD)
qed simp

lemma glyphs_py_take: "glyphs (py_take n s) = take n (glyphs s)"
  unfolding py_take_def
proof (rule glyphs_concat)
  show "\<forall>g \<in> set (take n (glyphs s)). g \<noteq> [] \<and> (\<forall>c \<in> set (tl g). is_cont c)"
    by (auto dest!: in_set_takeD glyphs_nonempty)
  show "\<forall>g \<in> set (tl (take n (glyphs s))). \<not> is_cont (hd g)"
  proof
    fix g assume "g \<in> set (tl (take n (glyphs s)))"
    then have "g \<in> set (tl (glyphs s))"
      by (metis in_set_takeD tl_take)
    then show "\<not> is_cont (hd g)" using glyphs_shape by blast
  qed
qed

lemma py_len_take: "py_len (py_take n s) = min n (py_len s)"
  by (simp add: py_len_def glyphs_py_take min.commute)

end
