(* ===== verification/Codec.thy ===== *)
theory Codec
  imports PyText
begin

text \<open>
  The byte codecs of the standard library that the sources use: strict UTF-8 validity (what
  \<open>bytes.decode("utf-8")\<close> accepts), the code points of a text, Python's \<open>str.strip\<close>, and
  base64 as \<open>base64.b64encode\<close> and \<open>base64.b64decode(..., validate=True)\<close> compute it.
\<close>

section \<open>UTF-8\<close>

fun utf8_ok :: "bytes \<Rightarrow> bool" where
  "utf8_ok [] = True"
| "utf8_ok (a # r) =
     (if code a < 128 then utf8_ok r
      else if 194 \<le> code a \<and> code a \<le> 223 then
        (case r of b # r' \<Rightarrow> is_cont b \<and> utf8_ok r' | _ \<Rightarrow> False)
      else if 224 \<le> code a \<and> code a \<le> 239 then
        (case r of b # c # r' \<Rightarrow>
           is_cont b \<and> is_cont c \<and> (code a = 224 \<longrightarrow> 160 \<le> code b)
             \<and> (code a = 237 \<longrightarrow> code b < 160) \<and> utf8_ok r' | _ \<Rightarrow> False)
      else if 240 \<le> code a \<and> code a \<le> 244 then
        (case r of b # c # d # r' \<Rightarrow>
           is_cont b \<and> is_cont c \<and> is_cont d \<and> (code a = 240 \<longrightarrow> 144 \<le> code b)
             \<and> (code a = 244 \<longrightarrow> code b < 144) \<and> utf8_ok r' | _ \<Rightarrow> False)
      else False)"

lemma utf8_ok_ascii: "\<forall>c \<in> set s. code c < 128 \<Longrightarrow> utf8_ok s"
  by (induction s) auto

lemma utf8_ok_append: "utf8_ok s \<Longrightarrow> utf8_ok (s @ t) = utf8_ok t"
proof (induction s rule: utf8_ok.induct)
  case (2 a r)
  consider "code a < 128" | "194 \<le> code a \<and> code a \<le> 223" | "224 \<le> code a \<and> code a \<le> 239"
    | "240 \<le> code a \<and> code a \<le> 244"
    using "2.prems" by (auto split: if_splits)
  then show ?case
  proof cases
    case 1
    with 2 show ?thesis by simp
  next
    case two: 2
    with "2.prems" obtain b r' where r: "r = b # r'" and ok: "is_cont b" "utf8_ok r'"
      by (cases r) auto
    with two "2.IH"(2) show ?thesis by simp
  next
    case three: 3
    with "2.prems" obtain b c r' where r: "r = b # c # r'"
      by (cases r; cases "tl r") auto
    with three "2.prems" "2.IH"(3) show ?thesis by simp
  next
    case four: 4
    with "2.prems" obtain b c d r' where r: "r = b # c # d # r'"
      by (cases r; cases "tl r"; cases "tl (tl r)") auto
    with four "2.prems" "2.IH"(4) show ?thesis by simp
  qed
qed simp

lemma utf8_ok_cons_ascii: "code c < 128 \<Longrightarrow> utf8_ok (c # s) = utf8_ok s"
  by simp

text \<open>The UTF-8 (for surrogates: \<open>surrogatepass\<close>) bytes of a code point.\<close>

definition utf8_cp :: "nat \<Rightarrow> bytes" where
  "utf8_cp n =
     (if n < 128 then [char_of n]
      else if n < 2048 then [char_of (192 + n div 64), char_of (128 + n mod 64)]
      else if n < 65536 then
        [char_of (224 + n div 4096), char_of (128 + n div 64 mod 64), char_of (128 + n mod 64)]
      else
        [char_of (240 + n div 262144), char_of (128 + n div 4096 mod 64),
         char_of (128 + n div 64 mod 64), char_of (128 + n mod 64)])"

definition cp_of_glyph :: "string \<Rightarrow> nat" where
  "cp_of_glyph g =
     (case g of
        [a] \<Rightarrow> code a
      | [a, b] \<Rightarrow> (code a mod 32) * 64 + code b mod 64
      | [a, b, c] \<Rightarrow> (code a mod 16) * 4096 + (code b mod 64) * 64 + code c mod 64
      | [a, b, c, d] \<Rightarrow> (code a mod 8) * 262144 + (code b mod 64) * 4096
                        + (code c mod 64) * 64 + code d mod 64
      | _ \<Rightarrow> 0)"

text \<open>The code points of a \<open>str\<close>, and the text of a list of code points.\<close>

definition cps :: "string \<Rightarrow> nat list" where
  "cps s = map cp_of_glyph (glyphs s)"

definition of_cps :: "nat list \<Rightarrow> string" where
  "of_cps ns = concat (map utf8_cp ns)"

lemma cps_ascii: "\<forall>c \<in> set s. code c < 128 \<Longrightarrow> cps s = map of_char s"
  by (simp add: cps_def glyphs_ascii cp_of_glyph_def)

lemma of_cps_ascii: "\<forall>c \<in> set s. code c < 128 \<Longrightarrow> of_cps (map of_char s) = s"
  by (induction s) (auto simp: of_cps_def utf8_cp_def)

text \<open>The whitespace of \<open>str.strip\<close> and \<open>str.split\<close>, as code points.\<close>

definition is_uspace :: "nat \<Rightarrow> bool" where
  "is_uspace n \<longleftrightarrow>
     9 \<le> n \<and> n \<le> 13 \<or> 28 \<le> n \<and> n \<le> 32 \<or> n = 133 \<or> n = 160 \<or> n = 5760
     \<or> 8192 \<le> n \<and> n \<le> 8202 \<or> n = 8232 \<or> n = 8233 \<or> n = 8239 \<or> n = 8287 \<or> n = 12288"

definition py_strip :: "string \<Rightarrow> string" where
  "py_strip s = concat (strip_by (\<lambda>g. is_uspace (cp_of_glyph g)) (glyphs s))"

text \<open>\<open>str.split()\<close>: the maximal runs without whitespace.\<close>

fun split_glyphs :: "string \<Rightarrow> string list \<Rightarrow> string list" where
  "split_glyphs acc [] = (if acc = [] then [] else [acc])"
| "split_glyphs acc (g # gs) =
     (if is_uspace (cp_of_glyph g)
      then (if acc = [] then split_glyphs [] gs else acc # split_glyphs [] gs)
      else split_glyphs (acc @ g) gs)"

definition py_split :: "string \<Rightarrow> string list" where
  "py_split s = split_glyphs [] (glyphs s)"

fun join :: "string \<Rightarrow> string list \<Rightarrow> string" where
  "join sep [] = []"
| "join sep [x] = x"
| "join sep (x # y # ys) = x @ sep @ join sep (y # ys)"

section \<open>Substrings\<close>

definition starts_with :: "string \<Rightarrow> string \<Rightarrow> bool" where
  "starts_with p s \<longleftrightarrow> take (length p) s = p"

lemma starts_with_iff: "starts_with p s \<longleftrightarrow> (\<exists>t. s = p @ t)"
  unfolding starts_with_def by (metis append_eq_conv_conj append_take_drop_id)

fun contains :: "string \<Rightarrow> string \<Rightarrow> bool" where
  "contains p [] = (p = [])"
| "contains p (c # cs) = (starts_with p (c # cs) \<or> contains p cs)"

text \<open>\<open>str.replace\<close> with a non-empty pattern: leftmost, non-overlapping.\<close>

function replace_all :: "string \<Rightarrow> string \<Rightarrow> string \<Rightarrow> string" where
  "replace_all p r s =
     (case s of
        [] \<Rightarrow> []
      | c # cs \<Rightarrow> (if p \<noteq> [] \<and> starts_with p s then r @ replace_all p r (drop (length p) s)
                  else c # replace_all p r cs))"
  by pat_completeness auto
termination
  by (relation "measure (\<lambda>(p, r, s). length s)") auto

declare replace_all.simps [simp del]

lemma replace_all_Nil [simp]: "replace_all p r [] = []"
  by (simp add: replace_all.simps)

lemma replace_all_Cons:
  "replace_all p r (c # cs) =
     (if p \<noteq> [] \<and> starts_with p (c # cs) then r @ replace_all p r (drop (length p) (c # cs))
      else c # replace_all p r cs)"
  by (subst replace_all.simps) simp

lemma contains_iff: "contains p s \<longleftrightarrow> (\<exists>u v. s = u @ p @ v)"
proof (induction s)
  case Nil
  then show ?case by simp
next
  case (Cons c cs)
  show ?case
  proof
    assume "contains p (c # cs)"
    then consider "starts_with p (c # cs)" | "contains p cs" by auto
    then show "\<exists>u v. c # cs = u @ p @ v"
    proof cases
      case 1
      then obtain t where "c # cs = p @ t" by (auto simp: starts_with_iff)
      then have "c # cs = [] @ p @ t" by simp
      then show ?thesis by blast
    next
      case 2
      with Cons.IH obtain u v where "cs = u @ p @ v" by blast
      then have "c # cs = (c # u) @ p @ v" by simp
      then show ?thesis by blast
    qed
  next
    assume "\<exists>u v. c # cs = u @ p @ v"
    then obtain u v where eq: "c # cs = u @ p @ v" by blast
    show "contains p (c # cs)"
    proof (cases u)
      case Nil
      with eq have "starts_with p (c # cs)" by (auto simp: starts_with_iff)
      then show ?thesis by simp
    next
      case (Cons d u')
      with eq have "cs = u' @ p @ v" by simp
      with Cons.IH show ?thesis by auto
    qed
  qed
qed

lemma replace_all_no_match: "\<not> contains p s \<Longrightarrow> replace_all p r s = s"
  by (induction s) (auto simp: replace_all_Cons)

section \<open>Base64\<close>

definition b64_alphabet :: string where
  "b64_alphabet = ''ABCDEFGHIJKLMNOPQRSTUVWXYZabcdefghijklmnopqrstuvwxyz0123456789+/''"

definition b64_char :: "nat \<Rightarrow> char" where
  "b64_char n = b64_alphabet ! n"

definition b64_val :: "char \<Rightarrow> nat option" where
  "b64_val c =
     (let n = code c in
      if 65 \<le> n \<and> n \<le> 90 then Some (n - 65)
      else if 97 \<le> n \<and> n \<le> 122 then Some (n - 71)
      else if 48 \<le> n \<and> n \<le> 57 then Some (n + 4)
      else if n = 43 then Some 62 else if n = 47 then Some 63 else None)"

fun b64_encode :: "bytes \<Rightarrow> string" where
  "b64_encode [] = []"
| "b64_encode [a] = [b64_char (code a div 4), b64_char (code a mod 4 * 16), CHR ''='', CHR ''='']"
| "b64_encode [a, b] =
     [b64_char (code a div 4), b64_char (code a mod 4 * 16 + code b div 16),
      b64_char (code b mod 16 * 4), CHR ''='']"
| "b64_encode (a # b # c # r) =
     [b64_char (code a div 4), b64_char (code a mod 4 * 16 + code b div 16),
      b64_char (code b mod 16 * 4 + code c div 64), b64_char (code c mod 64)] @ b64_encode r"

fun b64_decode :: "string \<Rightarrow> bytes option" where
  "b64_decode [] = Some []"
| "b64_decode (w # x # y # z # r) =
     (case (b64_val w, b64_val x) of
        (Some w', Some x') \<Rightarrow>
          (if y = CHR ''='' then
             (if z = CHR ''='' \<and> r = [] then Some [char_of (w' * 4 + x' div 16)] else None)
           else (case b64_val y of
              None \<Rightarrow> None
            | Some y' \<Rightarrow>
                (if z = CHR ''='' then
                   (if r = [] then Some [char_of (w' * 4 + x' div 16),
                                         char_of (x' mod 16 * 16 + y' div 4)] else None)
                 else (case b64_val z of
                    None \<Rightarrow> None
                  | Some z' \<Rightarrow>
                      map_option (\<lambda>t. char_of (w' * 4 + x' div 16)
                          # char_of (x' mod 16 * 16 + y' div 4)
                          # char_of (y' mod 4 * 64 + z') # t) (b64_decode r)))))
      | _ \<Rightarrow> None)"
| "b64_decode _ = None"

lemma b64_val_char_all: "\<forall>n \<in> set [0..<64]. b64_val (b64_char n) = Some n \<and> b64_char n \<noteq> CHR ''=''"
  by (simp add: upt_conv_Cons b64_val_def b64_char_def b64_alphabet_def Let_def)

lemma b64_val_char [simp]:
  assumes "n < 64"
  shows "b64_val (b64_char n) = Some n" and "b64_char n \<noteq> CHR ''=''"
proof -
  from assms have "n \<in> set [0..<64]" by simp
  then show "b64_val (b64_char n) = Some n" "b64_char n \<noteq> CHR ''=''"
    using b64_val_char_all by blast+
qed

lemma mix_div_mod:
  fixes r d k :: nat
  assumes "d < k"
  shows "(r * k + d) div k = r" and "(r * k + d) mod k = d"
  using assms by simp_all

lemma sextets:
  fixes a b c :: nat
  assumes "a < 256" and "b < 256" and "c < 256"
  shows "a div 4 < 64" and "a mod 4 * 16 < 64" and "a mod 4 * 16 + b div 16 < 64"
    and "b mod 16 * 4 < 64" and "b mod 16 * 4 + c div 64 < 64" and "c mod 64 < 64"
  using assms by linarith+

lemma octets:
  fixes a b c :: nat
  assumes "a < 256" and "b < 256" and "c < 256"
  shows "a div 4 * 4 + (a mod 4 * 16) div 16 = a"
    and "a div 4 * 4 + (a mod 4 * 16 + b div 16) div 16 = a"
    and "(a mod 4 * 16 + b div 16) mod 16 * 16 + (b mod 16 * 4) div 4 = b"
    and "(a mod 4 * 16 + b div 16) mod 16 * 16 + (b mod 16 * 4 + c div 64) div 4 = b"
    and "(b mod 16 * 4 + c div 64) mod 4 * 64 + c mod 64 = c"
proof -
  have "b div 16 < 16" "c div 64 < 4" using assms by linarith+
  then show "a div 4 * 4 + (a mod 4 * 16) div 16 = a"
    and "a div 4 * 4 + (a mod 4 * 16 + b div 16) div 16 = a"
    and "(a mod 4 * 16 + b div 16) mod 16 * 16 + (b mod 16 * 4) div 4 = b"
    and "(a mod 4 * 16 + b div 16) mod 16 * 16 + (b mod 16 * 4 + c div 64) div 4 = b"
    and "(b mod 16 * 4 + c div 64) mod 4 * 64 + c mod 64 = c"
    by (simp_all only: mix_div_mod div_mult_mod_eq nonzero_mult_div_cancel_right if_True)
qed

lemma b64_roundtrip: "b64_decode (b64_encode bs) = Some bs"
proof (induction bs rule: b64_encode.induct)
  case (2 a)
  show ?case
    using sextets [of "code a" 0 0] octets [of "code a" 0 0] by simp
next
  case (3 a b)
  show ?case
    using sextets [of "code a" "code b" 0] octets [of "code a" "code b" 0] by simp
next
  case (4 a b c r)
  then show ?case
    using sextets [of "code a" "code b" "code c"] octets [of "code a" "code b" "code c"] by simp
qed simp

lemma b64_char_ascii: "n < 64 \<Longrightarrow> code (b64_char n) < 127"
proof -
  assume "n < 64"
  then have "b64_char n \<in> set b64_alphabet"
    unfolding b64_char_def by (intro nth_mem) (simp add: b64_alphabet_def)
  moreover have "\<forall>c \<in> set b64_alphabet. code c < 127" by code_simp
  ultimately show ?thesis by blast
qed

lemma b64_encode_ascii: "\<forall>c \<in> set (b64_encode b). code c < 127"
proof (induction b rule: b64_encode.induct)
  case (2 a)
  show ?case
    using sextets [of "code a" 0 0] nat_of_char_less_256 [of a] by (simp add: b64_char_ascii)
next
  case (3 a b)
  show ?case
    using sextets [of "code a" "code b" 0] nat_of_char_less_256 [of a] nat_of_char_less_256 [of b]
    by (simp add: b64_char_ascii)
next
  case (4 a b c r)
  then show ?case
    using sextets [of "code a" "code b" "code c"] nat_of_char_less_256 [of a]
      nat_of_char_less_256 [of b] nat_of_char_less_256 [of c]
    by (auto simp: b64_char_ascii)
qed simp

end
