(* ===== verification/Platform.thy ===== *)
theory Platform
  imports Codec
begin

text \<open>
  What the program runs on: the exceptions it raises (\<open>src/tesera/errors.py\<close> and the Python
  exceptions that reach its callers) and the record of the external functions it relies on.

  The record \<open>platform\<close> holds code that is not in the repository and has no short definition:
  SHA-256, Ed25519 (the \<open>cryptography\<close> package), the C library's text forms of floating point
  numbers, the Unicode character database, \<open>uuid4\<close> and the clock. Every definition of the
  model that needs one of them takes the platform as its first argument; what a theorem
  needs of it is a named hypothesis of that theorem.
\<close>

section \<open>Exceptions\<close>

datatype exn =
    KeyError
  | TypeError
  | ValueError
  | UnicodeEncodeError
  | AttributeError
  | OSError
  | OverflowError
  | UserError string
  | BaseInterrupt
  | ContractError
  | UnsupportedFunctionError
  | ToolWrapError
  | CanonicalizationError
  | RedactionError
  | ApprovalError
  | ApprovalUnavailableError
  | ActionDenied (denied_action: string)
  | DuplicateActionError (denied_action: string) (dup_key: string) (duplicate_of: "string option")
  | IdentityError
  | SigningError
  | JournalError
  | ExecutionCompletedEvidenceError (exn_decision: "string option") (exn_outcome: string)
  | EventShipError (exn_decision: "string option") (ship_executed: bool) (ship_outcome: "string option")
  | VerificationError
  | EvidencePrivacyInspectionError
  | EvidenceAuditError
  | ResolutionError
  | CountersignError
  | ArchiveError
  | PolicyError

text \<open>The class hierarchy of \<open>errors.py\<close>, one predicate per class that some handler names.\<close>

fun is_tesera_error :: "exn \<Rightarrow> bool" where
  "is_tesera_error KeyError = False"
| "is_tesera_error TypeError = False"
| "is_tesera_error ValueError = False"
| "is_tesera_error UnicodeEncodeError = False"
| "is_tesera_error AttributeError = False"
| "is_tesera_error OSError = False"
| "is_tesera_error OverflowError = False"
| "is_tesera_error (UserError _) = False"
| "is_tesera_error BaseInterrupt = False"
| "is_tesera_error _ = True"

fun is_contract_error :: "exn \<Rightarrow> bool" where
  "is_contract_error ContractError = True"
| "is_contract_error UnsupportedFunctionError = True"
| "is_contract_error ToolWrapError = True"
| "is_contract_error _ = False"

fun is_approval_error :: "exn \<Rightarrow> bool" where
  "is_approval_error ApprovalError = True"
| "is_approval_error ApprovalUnavailableError = True"
| "is_approval_error _ = False"

fun is_action_denied :: "exn \<Rightarrow> bool" where
  "is_action_denied (ActionDenied _) = True"
| "is_action_denied (DuplicateActionError _ _ _) = True"
| "is_action_denied _ = False"

fun is_journal_error :: "exn \<Rightarrow> bool" where
  "is_journal_error JournalError = True"
| "is_journal_error (EventShipError _ _ _) = True"
| "is_journal_error _ = False"

fun is_persistence_error :: "exn \<Rightarrow> bool" where
  "is_persistence_error (ExecutionCompletedEvidenceError _ _) = True"
| "is_persistence_error (EventShipError _ _ _) = True"
| "is_persistence_error _ = False"

text \<open>\<open>except Exception\<close> catches everything but \<open>KeyboardInterrupt\<close> and \<open>SystemExit\<close>.\<close>

definition is_exception :: "exn \<Rightarrow> bool" where
  "is_exception e \<longleftrightarrow> e \<noteq> BaseInterrupt"

text \<open>
  Whether the guarded function is known to have run: the attribute \<open>executed\<close> that
  \<open>ExecutionCompletedEvidenceError\<close> sets and \<open>EventShipError\<close> carries.
\<close>

fun exn_executed :: "exn \<Rightarrow> bool" where
  "exn_executed (ExecutionCompletedEvidenceError _ _) = True"
| "exn_executed (EventShipError _ x _) = x"
| "exn_executed _ = False"

lemma persistence_is_tesera: "is_persistence_error e \<Longrightarrow> is_tesera_error e"
  by (cases e) simp_all

lemma denied_is_tesera: "is_action_denied e \<Longrightarrow> is_tesera_error e \<and> \<not> exn_executed e"
  by (cases e) simp_all

section \<open>External functions\<close>

text \<open>A Python float: a finite value, as the rational it denotes, or one of the specials.\<close>

datatype flt = Fin rat | PInf | NInf | NaN

record platform =
  sha256 :: "bytes \<Rightarrow> bytes"
  ed_verify :: "bytes \<Rightarrow> bytes \<Rightarrow> bytes \<Rightarrow> bool" \<comment> \<open>raw public key, signature, message\<close>
  ed_sign :: "bytes \<Rightarrow> bytes \<Rightarrow> bytes" \<comment> \<open>private key, message\<close>
  ed_public :: "bytes \<Rightarrow> bytes" \<comment> \<open>private key to raw public key\<close>
  float_repr :: "rat \<Rightarrow> string"
  float_read :: "string \<Rightarrow> flt"
  nfkc :: "nat list \<Rightarrow> nat list"
  nfd :: "nat list \<Rightarrow> nat list"
  combining :: "nat \<Rightarrow> bool"
  casefold :: "nat list \<Rightarrow> nat list"
  uuid4 :: "nat \<Rightarrow> string" \<comment> \<open>the identifier drawn at the n-th call\<close>
  utc_now :: "nat \<Rightarrow> string" \<comment> \<open>the timestamp read at the n-th call\<close>
  float_round :: "rat \<Rightarrow> rat" \<comment> \<open>the float nearest to an exact result\<close>
  format_g :: "rat \<Rightarrow> string" \<comment> \<open>the format \<open>{:g}\<close>\<close>
  format_0f :: "rat \<Rightarrow> string" \<comment> \<open>the format \<open>{:.0f}\<close>\<close>
  exn_repr :: "exn \<Rightarrow> string" \<comment> \<open>repr() of an exception\<close>
  exn_str :: "exn \<Rightarrow> string" \<comment> \<open>str() of an exception\<close>
  repr_text :: "string \<Rightarrow> string" \<comment> \<open>repr() of a string, which depends on the printable characters\<close>

text \<open>
  A concrete platform, small enough to evaluate: the first bytes for the hash, the key and
  the hash for the signature, the identity for the Unicode functions, counted identifiers and a fixed clock.
  The concrete instances of the theorems are stated on it.
\<close>

definition toy_sha :: "bytes \<Rightarrow> bytes" where
  "toy_sha b = take 32 (b @ replicate 32 CHR ''0'')"

definition toy_platform :: platform where
  "toy_platform =
     \<lparr>sha256 = toy_sha,
      ed_verify = (\<lambda>pk sg m. sg = pk @ toy_sha m),
      ed_sign = (\<lambda>k m. k @ toy_sha m),
      ed_public = (\<lambda>k. k),
      float_repr = (\<lambda>q. ''1.5''),
      float_read = (\<lambda>s. Fin (3 / 2)),
      nfkc = (\<lambda>cs. cs),
      nfd = (\<lambda>cs. cs),
      combining = (\<lambda>c. False),
      casefold = (\<lambda>cs. cs),
      uuid4 = (\<lambda>n. ''id-'' @ dec_nat n),
      utc_now = (\<lambda>n. ''2026-01-01T00:00:00.000000Z''),
      float_round = (\<lambda>q. q),
      format_g = (\<lambda>q. ''1''),
      format_0f = (\<lambda>q. ''1''),
      exn_repr = (\<lambda>e. ''error''),
      exn_str = (\<lambda>e. ''error''),
      repr_text = (\<lambda>s. CHR 0x27 # s @ [CHR 0x27])\<rparr>"

end
