(* ===== verification/Json.thy ===== *)
theory Json
  imports Platform
begin

text \<open>
  JSON values as \<open>json.loads\<close> builds them, and the two directions of the \<open>json\<close> module that
  the sources use: \<open>dumps\<close> with sorted keys, given separators and \<open>ensure_ascii=False\<close>, and
  \<open>loads\<close>. An object is an insertion-ordered dictionary. The parser takes fuel, twice the
  length of the text plus one in \<open>json_loads\<close>, which is enough for every text that \<open>dumps\<close>
  writes (theory JsonRoundtrip). Python's recursion limit is not modelled.
\<close>

section \<open>Values\<close>

datatype json =
    JNull
  | JBool bool
  | JInt int
  | JFloat flt
  | JStr string
  | JArr "json list"
  | JObj "(string \<times> json) list"

type_synonym event = "(string, json) dict"

text \<open>\<open>d.get(k)\<close>: a missing key reads as \<open>None\<close>, like a null.\<close>

definition jget :: "event \<Rightarrow> string \<Rightarrow> json" where
  "jget e k = (case dget e k of None \<Rightarrow> JNull | Some v \<Rightarrow> v)"

text \<open>\<open>k in d\<close> and \<open>d[k]\<close>.\<close>

definition has_key :: "event \<Rightarrow> string \<Rightarrow> bool" where
  "has_key e k = (dget e k \<noteq> None)"

definition jindex :: "event \<Rightarrow> string \<Rightarrow> exn + json" where
  "jindex e k = (case dget e k of None \<Rightarrow> Inl KeyError | Some v \<Rightarrow> Inr v)"

fun is_str :: "json \<Rightarrow> bool" where
  "is_str (JStr _) = True"
| "is_str _ = False"

fun str_of :: "json \<Rightarrow> string option" where
  "str_of (JStr s) = Some s"
| "str_of _ = None"

text \<open>\<open>isinstance(v, int)\<close>: Python's booleans are integers.\<close>

fun int_of :: "json \<Rightarrow> int option" where
  "int_of (JInt i) = Some i"
| "int_of (JBool b) = Some (if b then 1 else 0)"
| "int_of _ = None"

fun is_obj :: "json \<Rightarrow> bool" where
  "is_obj (JObj _) = True"
| "is_obj _ = False"

text \<open>A list or a dictionary is unhashable: a membership test in a frozenset raises TypeError.\<close>

fun hashable :: "json \<Rightarrow> bool" where
  "hashable (JArr _) = False"
| "hashable (JObj _) = False"
| "hashable _ = True"

fun num_of :: "json \<Rightarrow> flt option" where
  "num_of (JInt i) = Some (Fin (of_int i))"
| "num_of (JBool b) = Some (Fin (if b then 1 else 0))"
| "num_of (JFloat x) = Some x"
| "num_of _ = None"

text \<open>Python's \<open>==\<close>: numbers compare by value, NaN differs from itself, dictionaries by content.\<close>

fun num_eq :: "flt \<Rightarrow> flt \<Rightarrow> bool" where
  "num_eq (Fin p) (Fin q) = (p = q)"
| "num_eq PInf PInf = True"
| "num_eq NInf NInf = True"
| "num_eq _ _ = False"

fun py_eq :: "json \<Rightarrow> json \<Rightarrow> bool"
  and py_eq_list :: "json list \<Rightarrow> json list \<Rightarrow> bool"
  and py_eq_members :: "(string \<times> json) list \<Rightarrow> (string \<times> json) list \<Rightarrow> bool" where
  "py_eq (JArr xs) y = (case y of JArr ys \<Rightarrow> py_eq_list xs ys | _ \<Rightarrow> False)"
| "py_eq (JObj d) y =
     (case y of JObj d' \<Rightarrow> length d = length d' \<and> py_eq_members d d' | _ \<Rightarrow> False)"
| "py_eq JNull y = (y = JNull)"
| "py_eq (JStr s) y = (y = JStr s)"
| "py_eq (JBool b) y = (case num_of y of None \<Rightarrow> False | Some q \<Rightarrow> num_eq (Fin (if b then 1 else 0)) q)"
| "py_eq (JInt i) y = (case num_of y of None \<Rightarrow> False | Some q \<Rightarrow> num_eq (Fin (of_int i)) q)"
| "py_eq (JFloat x) y = (case num_of y of None \<Rightarrow> False | Some q \<Rightarrow> num_eq x q)"
| "py_eq_list [] ys = (ys = [])"
| "py_eq_list (x # xs) ys = (case ys of [] \<Rightarrow> False | y # ys' \<Rightarrow> py_eq x y \<and> py_eq_list xs ys')"
| "py_eq_members [] d' = True"
| "py_eq_members ((k, v) # d) d' =
     ((case dget d' k of None \<Rightarrow> False | Some w \<Rightarrow> py_eq v w) \<and> py_eq_members d d')"

lemma py_eq_JStr_right [simp]: "py_eq v (JStr s) \<longleftrightarrow> v = JStr s"
  by (cases v) auto

lemma py_eq_JNull_right [simp]: "py_eq v JNull \<longleftrightarrow> v = JNull"
  by (cases v) auto

text \<open>Truthiness of \<open>v\<close> in a condition.\<close>

fun truthy :: "json \<Rightarrow> bool" where
  "truthy JNull = False"
| "truthy (JBool b) = b"
| "truthy (JInt i) = (i \<noteq> 0)"
| "truthy (JFloat x) = (x \<noteq> Fin 0)"
| "truthy (JStr s) = (s \<noteq> [])"
| "truthy (JArr xs) = (xs \<noteq> [])"
| "truthy (JObj d) = (d \<noteq> [])"

section \<open>Writing\<close>

abbreviation quote :: char where "quote \<equiv> CHR 0x22"
abbreviation bslash :: char where "bslash \<equiv> CHR 0x5C"

definition esc_char :: "char \<Rightarrow> string" where
  "esc_char c =
     (if c = quote then [bslash, quote]
      else if c = bslash then [bslash, bslash]
      else if code c = 10 then [bslash, CHR ''n'']
      else if code c = 13 then [bslash, CHR ''r'']
      else if code c = 9 then [bslash, CHR ''t'']
      else if code c = 12 then [bslash, CHR ''f'']
      else if code c = 8 then [bslash, CHR ''b'']
      else if code c < 32 then bslash # ''u00'' @ hex_byte c
      else [c])"

definition dump_str :: "string \<Rightarrow> string" where
  "dump_str s = quote # concat (map esc_char s) @ [quote]"

text \<open>\<open>dumps P isep ksep\<close>: the separators are those of the call (\<open>","\<close> and \<open>":"\<close>, or the defaults).\<close>

fun dumps :: "platform \<Rightarrow> string \<Rightarrow> string \<Rightarrow> json \<Rightarrow> string"
  and dump_items :: "platform \<Rightarrow> string \<Rightarrow> string \<Rightarrow> json list \<Rightarrow> string"
  and dump_members :: "platform \<Rightarrow> string \<Rightarrow> string \<Rightarrow> (string \<times> json) list \<Rightarrow> string" where
  "dumps P is ks JNull = ''null''"
| "dumps P is ks (JBool b) = (if b then ''true'' else ''false'')"
| "dumps P is ks (JInt i) = dec_int i"
| "dumps P is ks (JFloat x) =
     (case x of Fin q \<Rightarrow> float_repr P q | PInf \<Rightarrow> ''Infinity'' | NInf \<Rightarrow> ''-Infinity'' | NaN \<Rightarrow> ''NaN'')"
| "dumps P is ks (JStr s) = dump_str s"
| "dumps P is ks (JArr xs) = CHR ''['' # dump_items P is ks xs @ '']''"
| "dumps P is ks (JObj d) = CHR ''{'' # dump_members P is ks d @ ''}''"
| "dump_items P is ks [] = []"
| "dump_items P is ks (x # xs) =
     dumps P is ks x @ (if xs = [] then [] else is @ dump_items P is ks xs)"
| "dump_members P is ks [] = []"
| "dump_members P is ks ((k, v) # d) =
     dump_str k @ ks @ dumps P is ks v @ (if d = [] then [] else is @ dump_members P is ks d)"

text \<open>\<open>sort_keys=True\<close>, at every level.\<close>

fun jsort :: "json \<Rightarrow> json" where
  "jsort (JArr xs) = JArr (map jsort xs)"
| "jsort (JObj d) = JObj (sort_key fst (map (\<lambda>(k, v). (k, jsort v)) d))"
| "jsort j = j"

fun nonfinite :: "json \<Rightarrow> bool" where
  "nonfinite (JFloat x) = (case x of Fin _ \<Rightarrow> False | _ \<Rightarrow> True)"
| "nonfinite (JArr xs) = (\<exists>x \<in> set xs. nonfinite x)"
| "nonfinite (JObj d) = (\<exists>(k, v) \<in> set d. nonfinite v)"
| "nonfinite _ = False"

text \<open>The compact text with sorted keys: one journal line without its newline.\<close>

definition json_text :: "platform \<Rightarrow> json \<Rightarrow> string" where
  "json_text P j = dumps P '','' '':'' (jsort j)"

text \<open>The text with sorted keys and the default separators, as the summaries use it.\<close>

definition json_display :: "platform \<Rightarrow> json \<Rightarrow> string" where
  "json_display P j = dumps P '', '' '': '' (jsort j)"

section \<open>Reading\<close>

definition is_jspace :: "char \<Rightarrow> bool" where
  "is_jspace c \<longleftrightarrow> c \<in> {CHR '' '', CHR 0x09, CHR 0x0A, CHR 0x0D}"

abbreviation skip :: "string \<Rightarrow> string" where
  "skip \<equiv> dropWhile is_jspace"

definition hex_val :: "char \<Rightarrow> nat option" where
  "hex_val c =
     (let n = code c in
      if 48 \<le> n \<and> n \<le> 57 then Some (n - 48)
      else if 97 \<le> n \<and> n \<le> 102 then Some (n - 87)
      else if 65 \<le> n \<and> n \<le> 70 then Some (n - 55) else None)"

definition read_hex4 :: "string \<Rightarrow> (nat \<times> string) option" where
  "read_hex4 s =
     (case s of
        a # b # c # d # r \<Rightarrow>
          (case (hex_val a, hex_val b, hex_val c, hex_val d) of
             (Some w, Some x, Some y, Some z) \<Rightarrow> Some (((w * 16 + x) * 16 + y) * 16 + z, r)
           | _ \<Rightarrow> None)
      | _ \<Rightarrow> None)"

definition simple_escape :: "char \<Rightarrow> char option" where
  "simple_escape e =
     (if e = quote \<or> e = bslash \<or> e = CHR ''/'' then Some e
      else if e = CHR ''n'' then Some (CHR 0x0A)
      else if e = CHR ''r'' then Some (CHR 0x0D)
      else if e = CHR ''t'' then Some (CHR 0x09)
      else if e = CHR ''f'' then Some (CHR 0x0C)
      else if e = CHR ''b'' then Some (CHR 0x08)
      else None)"

text \<open>What follows a backslash: the bytes it stands for and the rest of the text.\<close>

definition read_escape :: "string \<Rightarrow> (string \<times> string) option" where
  "read_escape s =
     (case s of
        [] \<Rightarrow> None
      | e # r \<Rightarrow>
          if e = CHR ''u'' then
            (case read_hex4 r of
               None \<Rightarrow> None
             | Some (n, r1) \<Rightarrow>
                 (if 0xD800 \<le> n \<and> n \<le> 0xDBFF \<and> starts_with (bslash # ''u'') r1 then
                    (case read_hex4 (drop 2 r1) of
                       Some (m, r2) \<Rightarrow>
                         (if 0xDC00 \<le> m \<and> m \<le> 0xDFFF
                          then Some (utf8_cp (0x10000 + (n - 0xD800) * 0x400 + (m - 0xDC00)), r2)
                          else Some (utf8_cp n, r1))
                     | None \<Rightarrow> None)
                  else Some (utf8_cp n, r1)))
          else map_option (\<lambda>c. ([c], r)) (simple_escape e))"

lemma read_hex4_length: "read_hex4 s = Some (n, r) \<Longrightarrow> length r < length s"
  by (auto simp: read_hex4_def split: list.splits option.splits prod.splits)

lemma read_escape_length: "read_escape s = Some (t, r) \<Longrightarrow> length r < length s"
  by (auto simp: read_escape_def split: list.splits option.splits prod.splits if_splits
      dest!: read_hex4_length)

function read_str :: "string \<Rightarrow> (string \<times> string) option" where
  "read_str [] = None"
| "read_str (c # cs) =
     (if c = quote then Some ([], cs)
      else if c = bslash then
        (case read_escape cs of
           None \<Rightarrow> None
         | Some (t, r) \<Rightarrow> map_option (\<lambda>(u, r'). (t @ u, r')) (read_str r))
      else if code c < 32 then None
      else map_option (\<lambda>(u, r'). (c # u, r')) (read_str cs))"
  by pat_completeness auto
termination
  by (relation "measure length") (auto dest: read_escape_length)

definition scan_int :: "string \<Rightarrow> (string \<times> string) option" where
  "scan_int s =
     (case s of
        [] \<Rightarrow> None
      | c # cs \<Rightarrow>
          if c = CHR ''0'' then Some ([c], cs)
          else if is_digit c then Some (takeWhile is_digit s, dropWhile is_digit s)
          else None)"

definition scan_frac :: "string \<Rightarrow> string \<times> string" where
  "scan_frac s =
     (case s of
        c # d # r \<Rightarrow>
          if c = CHR ''.'' \<and> is_digit d
          then (c # takeWhile is_digit (d # r), dropWhile is_digit (d # r)) else ([], s)
      | _ \<Rightarrow> ([], s))"

definition scan_sign :: "string \<Rightarrow> string \<times> string" where
  "scan_sign s =
     (case s of c # r \<Rightarrow> if c = CHR ''+'' \<or> c = CHR ''-'' then ([c], r) else ([], s) | [] \<Rightarrow> ([], s))"

definition scan_exp :: "string \<Rightarrow> string \<times> string" where
  "scan_exp s =
     (case s of
        c # r \<Rightarrow>
          if c = CHR ''e'' \<or> c = CHR ''E'' then
            (let (sg, r1) = scan_sign r; ds = takeWhile is_digit r1
             in if ds = [] then ([], s) else (c # sg @ ds, dropWhile is_digit r1))
          else ([], s)
      | [] \<Rightarrow> ([], s))"

text \<open>The number token at the front of a text, and whether it denotes a float.\<close>

definition scan_num :: "string \<Rightarrow> (string \<times> bool \<times> string) option" where
  "scan_num s =
     (let (sg, r0) = (case s of c # r \<Rightarrow> if c = CHR ''-'' then ([c], r) else ([], s) | [] \<Rightarrow> ([], s))
      in case scan_int r0 of
           None \<Rightarrow> None
         | Some (i, r1) \<Rightarrow>
             (let (f, r2) = scan_frac r1; (e, r3) = scan_exp r2
              in Some (sg @ i @ f @ e, f \<noteq> [] \<or> e \<noteq> [], r3)))"

definition read_int :: "string \<Rightarrow> int" where
  "read_int s =
     (case s of c # r \<Rightarrow> if c = CHR ''-'' then - int (read_nat r) else int (read_nat s) | [] \<Rightarrow> 0)"

definition read_number :: "platform \<Rightarrow> string \<Rightarrow> (json \<times> string) option" where
  "read_number P s =
     (case scan_num s of
        None \<Rightarrow> None
      | Some (t, fl, r) \<Rightarrow> Some (if fl then JFloat (float_read P t) else JInt (read_int t), r))"

text \<open>\<open>dict(pairs)\<close>: a repeated key keeps its first position and its last value.\<close>

definition dict_of_pairs :: "(string \<times> json) list \<Rightarrow> (string \<times> json) list" where
  "dict_of_pairs ps = dupdate [] ps"

fun read_value :: "platform \<Rightarrow> nat \<Rightarrow> string \<Rightarrow> (json \<times> string) option"
  and read_items :: "platform \<Rightarrow> nat \<Rightarrow> string \<Rightarrow> (json list \<times> string) option"
  and read_members :: "platform \<Rightarrow> nat \<Rightarrow> string \<Rightarrow> ((string \<times> json) list \<times> string) option" where
  "read_value P 0 s = None"
| "read_value P (Suc n) s =
     (case s of
        [] \<Rightarrow> None
      | c # cs \<Rightarrow>
          if c = quote then map_option (\<lambda>(t, r). (JStr t, r)) (read_str cs)
          else if c = CHR ''{'' then
            (case skip cs of
               [] \<Rightarrow> None
             | d # r \<Rightarrow>
                 if d = CHR ''}'' then Some (JObj [], r)
                 else map_option (\<lambda>(ps, r'). (JObj (dict_of_pairs ps), r')) (read_members P n (d # r)))
          else if c = CHR ''['' then
            (case skip cs of
               [] \<Rightarrow> None
             | d # r \<Rightarrow>
                 if d = CHR '']'' then Some (JArr [], r)
                 else map_option (\<lambda>(vs, r'). (JArr vs, r')) (read_items P n (d # r)))
          else if starts_with ''null'' s then Some (JNull, drop 4 s)
          else if starts_with ''true'' s then Some (JBool True, drop 4 s)
          else if starts_with ''false'' s then Some (JBool False, drop 5 s)
          else if starts_with ''NaN'' s then Some (JFloat NaN, drop 3 s)
          else if starts_with ''Infinity'' s then Some (JFloat PInf, drop 8 s)
          else if starts_with ''-Infinity'' s then Some (JFloat NInf, drop 9 s)
          else read_number P s)"
| "read_items P 0 s = None"
| "read_items P (Suc n) s =
     (case read_value P n s of
        None \<Rightarrow> None
      | Some (v, r) \<Rightarrow>
          (case skip r of
             [] \<Rightarrow> None
           | d # r1 \<Rightarrow>
               if d = CHR '']'' then Some ([v], r1)
               else if d = CHR '','' then
                 map_option (\<lambda>(vs, r'). (v # vs, r')) (read_items P n (skip r1))
               else None))"
| "read_members P 0 s = None"
| "read_members P (Suc n) s =
     (case s of
        [] \<Rightarrow> None
      | c # cs \<Rightarrow>
          if c \<noteq> quote then None
          else (case read_str cs of
             None \<Rightarrow> None
           | Some (k, r) \<Rightarrow>
               (case skip r of
                  [] \<Rightarrow> None
                | d # r1 \<Rightarrow>
                    if d \<noteq> CHR '':'' then None
                    else (case read_value P n (skip r1) of
                       None \<Rightarrow> None
                     | Some (v, r2) \<Rightarrow>
                         (case skip r2 of
                            [] \<Rightarrow> None
                          | e # r3 \<Rightarrow>
                              if e = CHR ''}'' then Some ([(k, v)], r3)
                              else if e = CHR '','' then
                                map_option (\<lambda>(ps, r'). ((k, v) # ps, r')) (read_members P n (skip r3))
                              else None)))))"

definition read_fuel :: "string \<Rightarrow> nat" where
  "read_fuel s = 2 * length s + 1"

text \<open>\<open>json.loads(b.decode("utf-8"))\<close>: None is a \<open>ValueError\<close> or a \<open>UnicodeDecodeError\<close>.\<close>

definition json_loads :: "platform \<Rightarrow> bytes \<Rightarrow> json option" where
  "json_loads P b =
     (if utf8_ok b then
        (case read_value P (read_fuel b) (skip b) of
           None \<Rightarrow> None
         | Some (j, r) \<Rightarrow> (if skip r = [] then Some j else None))
      else None)"

end
