(* ===== verification/JsonRoundtrip.thy ===== *)
theory JsonRoundtrip
  imports Json
begin

text \<open>
  Writing and reading JSON are inverse: \<open>json_loads\<close> recovers every well-formed value from
  the text that \<open>dumps\<close> writes for it, whatever white space follows the separators. Hence the
  canonical text determines the value up to the order of keys, which is what the hash chain
  and the signatures of the journal rest on.
\<close>

section \<open>Well-formed values\<close>

text \<open>Where a number token may end.\<close>

definition num_stop :: "string \<Rightarrow> bool" where
  "num_stop r \<longleftrightarrow>
     (case r of [] \<Rightarrow> True
      | c # _ \<Rightarrow> \<not> is_digit c \<and> c \<noteq> CHR ''.'' \<and> c \<noteq> CHR ''e'' \<and> c \<noteq> CHR ''E'')"

text \<open>
  A float that the platform's codec recovers: its text is one float token that reads back.
\<close>

definition float_ok :: "platform \<Rightarrow> rat \<Rightarrow> bool" where
  "float_ok P q \<longleftrightarrow>
     scan_num (float_repr P q) = Some (float_repr P q, True, [])
     \<and> float_read P (float_repr P q) = Fin q
     \<and> list_all (\<lambda>c. 32 < code c \<and> code c < 128) (float_repr P q)"

fun json_wf :: "platform \<Rightarrow> json \<Rightarrow> bool" where
  "json_wf P (JFloat x) = (case x of Fin q \<Rightarrow> float_ok P q | _ \<Rightarrow> False)"
| "json_wf P (JStr s) = utf8_ok s"
| "json_wf P (JArr xs) = list_all (json_wf P) xs"
| "json_wf P (JObj d) =
     (distinct (map fst d) \<and> list_all (\<lambda>(k, v). utf8_ok k \<and> json_wf P v) d)"
| "json_wf P _ = True"

definition seps_ok :: "string \<Rightarrow> string \<Rightarrow> bool" where
  "seps_ok is ks \<longleftrightarrow>
     is \<noteq> [] \<and> hd is = CHR '','' \<and> list_all is_jspace (tl is)
     \<and> ks \<noteq> [] \<and> hd ks = CHR '':'' \<and> list_all is_jspace (tl ks)"

section \<open>Strings\<close>

lemma hex_val_digit: "n < 16 \<Longrightarrow> hex_val (hexdigit n) = Some n"
  using less_16_cases [of n] by (auto simp: hexdigit_def hex_val_def)

lemma read_hex4_byte: "read_hex4 (CHR ''0'' # CHR ''0'' # hex_byte c @ r) = Some (code c, r)"
proof -
  have "code c div 16 < 16" by simp
  then have "hex_val (hexdigit (code c div 16)) = Some (code c div 16)" by (rule hex_val_digit)
  moreover have "hex_val (hexdigit (code c mod 16)) = Some (code c mod 16)"
    by (rule hex_val_digit) simp
  moreover have "hex_val (CHR ''0'') = Some 0" by (simp add: hex_val_def)
  ultimately show ?thesis by (simp add: read_hex4_def hex_byte_def)
qed

lemma code_eq_char:
  "code c = 10 \<Longrightarrow> c = CHR 0x0A" "code c = 13 \<Longrightarrow> c = CHR 0x0D" "code c = 9 \<Longrightarrow> c = CHR 0x09"
  "code c = 12 \<Longrightarrow> c = CHR 0x0C" "code c = 8 \<Longrightarrow> c = CHR 0x08"
  by (subst of_char_eq_iff [symmetric, where 'a = nat], simp)+

lemma read_str_esc:
  assumes "read_str t = Some (u, rest)"
  shows "read_str (esc_char c @ t) = Some (c # u, rest)"
proof -
  consider (q) "c = quote" | (b) "c = bslash" | (n) "code c = 10" | (r) "code c = 13"
    | (t) "code c = 9" | (f) "code c = 12" | (bs) "code c = 8"
    | (u) "c \<noteq> quote" "c \<noteq> bslash" "code c \<notin> {8, 9, 10, 12, 13}" "code c < 32"
    | (plain) "c \<noteq> quote" "c \<noteq> bslash" "\<not> code c < 32"
    by auto
  then show ?thesis
  proof cases
    case u
    then have e: "esc_char c = bslash # ''u00'' @ hex_byte c" by (simp add: esc_char_def)
    from u have "utf8_cp (code c) = [c]" by (simp add: utf8_cp_def)
    moreover from u have "\<not> 0xD800 \<le> code c" by simp
    ultimately have "read_escape (''u00'' @ hex_byte c @ t) = Some ([c], t)"
      by (simp add: read_escape_def read_hex4_byte)
    with e assms show ?thesis by simp
  next
    case plain
    then have "esc_char c = [c]" by (auto simp: esc_char_def)
    with plain assms show ?thesis by simp
  qed (use assms in \<open>auto dest!: code_eq_char
        simp: esc_char_def read_escape_def simple_escape_def\<close>)
qed

lemma read_str_dump: "read_str (concat (map esc_char s) @ quote # rest) = Some (s, rest)"
  by (induction s) (simp_all add: read_str_esc)

section \<open>Numbers\<close>

lemma digits_stop:
  assumes "num_stop r"
  shows "takeWhile is_digit (s @ r) = takeWhile is_digit s"
    and "dropWhile is_digit (s @ r) = dropWhile is_digit s @ r"
  using assms by (induction s) (auto simp: num_stop_def split: list.splits)

lemma scan_int_append:
  assumes "scan_int s = Some (i, s')" and "num_stop r"
  shows "scan_int (s @ r) = Some (i, s' @ r)"
  using assms digits_stop [OF assms(2)]
  by (cases s) (auto simp: scan_int_def split: if_splits)

lemma scan_frac_append:
  assumes "num_stop r" and "s \<noteq> ''.''"
  shows "scan_frac (s @ r) = (fst (scan_frac s), snd (scan_frac s) @ r)"
proof (cases s)
  case Nil
  with assms show ?thesis by (auto simp: scan_frac_def num_stop_def split: list.splits)
next
  case (Cons c t)
  show ?thesis
  proof (cases t)
    case Nil
    with Cons assms show ?thesis by (auto simp: scan_frac_def split: list.splits)
  next
    case (Cons d t')
    with \<open>s = c # t\<close> digits_stop [OF assms(1), of t] show ?thesis
      by (auto simp: scan_frac_def)
  qed
qed

lemma scan_exp_append:
  assumes "scan_exp s = (e, [])" and "num_stop r"
  shows "scan_exp (s @ r) = (e, r)"
proof (cases s)
  case Nil
  with assms show ?thesis by (auto simp: scan_exp_def num_stop_def split: list.splits)
next
  case (Cons c t)
  with assms(1) have ce: "c = CHR ''e'' \<or> c = CHR ''E''"
    and ds: "takeWhile is_digit (snd (scan_sign t)) \<noteq> []"
    by (auto simp: scan_exp_def Let_def split: if_splits prod.splits)
  then have "t \<noteq> []" by (auto simp: scan_sign_def)
  then have "scan_sign (t @ r) = (fst (scan_sign t), snd (scan_sign t) @ r)"
    by (cases t) (auto simp: scan_sign_def)
  with Cons assms(1) ce ds digits_stop [OF assms(2)] show ?thesis
    by (auto simp: scan_exp_def Let_def split: prod.splits)
qed

lemma scan_exp_rest: "scan_exp s = (e, s') \<Longrightarrow> s' = [] \<Longrightarrow> s \<noteq> ''.''"
  by (auto simp: scan_exp_def split: if_splits)

lemma scan_num_append:
  assumes "scan_num t = Some (t', fl, [])" and "num_stop r"
  shows "scan_num (t @ r) = Some (t', fl, r)"
proof -
  define sg where "sg = (if t \<noteq> [] \<and> hd t = CHR ''-'' then ''-'' else [])"
  define r0 where "r0 = (if t \<noteq> [] \<and> hd t = CHR ''-'' then tl t else t)"
  have split: "(case t of c # r \<Rightarrow> if c = CHR ''-'' then ([c], r) else ([], t) | [] \<Rightarrow> ([], t)) = (sg, r0)"
    by (cases t) (auto simp: sg_def r0_def)
  obtain i r1 where i: "scan_int r0 = Some (i, r1)"
    using assms(1) by (auto simp: scan_num_def split Let_def split: option.splits)
  obtain f r2 where f: "scan_frac r1 = (f, r2)" by (cases "scan_frac r1")
  obtain e r3 where e: "scan_exp r2 = (e, r3)" by (cases "scan_exp r2")
  from assms(1) i f e have res: "t' = sg @ i @ f @ e" "fl = (f \<noteq> [] \<or> e \<noteq> [])" "r3 = []"
    by (auto simp: scan_num_def split Let_def)
  have "r0 \<noteq> []" using i by (auto simp: scan_int_def)
  then have "t \<noteq> []" by (auto simp: r0_def)
  then have split': "(case t @ r of c # r' \<Rightarrow> if c = CHR ''-'' then ([c], r') else ([], t @ r)
      | [] \<Rightarrow> ([], t @ r)) = (sg, r0 @ r)"
    by (cases t) (auto simp: sg_def r0_def)
  have "r1 \<noteq> ''.''"
  proof
    assume "r1 = ''.''"
    with f have "r2 = ''.''" by (simp add: scan_frac_def)
    with scan_exp_rest [OF e res(3)] show False by simp
  qed
  with f assms(2) have "scan_frac (r1 @ r) = (f, r2 @ r)" by (simp add: scan_frac_append)
  moreover have "scan_exp (r2 @ r) = (e, r)"
    using scan_exp_append [OF _ assms(2)] e res(3) by simp
  ultimately show ?thesis
    using scan_int_append [OF i assms(2)] res
    by (simp add: scan_num_def split' Let_def)
qed

lemma scan_num_dec: "num_stop r \<Longrightarrow> scan_num (dec_nat n @ r) = Some (dec_nat n, False, r)"
proof -
  assume r: "num_stop r"
  have d: "\<forall>c \<in> set (dec_nat n). is_digit c" by (rule dec_nat_digits)
  obtain c t where ct: "dec_nat n = c # t" by (cases "dec_nat n") auto
  with d have c: "is_digit c" by simp
  have "scan_int (dec_nat n) = Some (dec_nat n, [])"
  proof (cases "c = CHR ''0''")
    case True
    with ct have "n = 0" by (auto intro: dec_nat_no_leading_zero)
    then have "dec_nat n = ''0''" by (simp add: dec_nat.simps digit_def)
    then show ?thesis by (simp add: scan_int_def)
  next
    case False
    have "takeWhile is_digit (dec_nat n) = dec_nat n" "dropWhile is_digit (dec_nat n) = []"
      using d by (auto simp: takeWhile_eq_all_conv dropWhile_eq_Nil_conv)
    with False c ct show ?thesis by (simp add: scan_int_def)
  qed
  moreover have "c \<noteq> CHR ''-''" using c by (auto simp: is_digit_def)
  ultimately have "scan_num (dec_nat n) = Some (dec_nat n, False, [])"
    using ct by (simp add: scan_num_def scan_frac_def scan_exp_def)
  with r show ?thesis by (rule scan_num_append [rotated])
qed

lemma scan_num_dec_int: "num_stop r \<Longrightarrow> scan_num (dec_int i @ r) = Some (dec_int i, False, r)"
proof -
  assume r: "num_stop r"
  obtain c t where ct: "dec_nat (nat i) = c # t" by (cases "dec_nat (nat i)") auto
  show ?thesis
  proof (cases "i < 0")
    case True
    from scan_num_dec [of "[]" "nat (- i)"]
    have "scan_num (dec_nat (nat (- i))) = Some (dec_nat (nat (- i)), False, [])"
      by (simp add: num_stop_def)
    moreover obtain d u where du: "dec_nat (nat (- i)) = d # u" by (cases "dec_nat (nat (- i))") auto
    moreover have "is_digit d" using dec_nat_digits [of "nat (- i)"] du by simp
    then have "d \<noteq> CHR ''-''" by (auto simp: is_digit_def)
    ultimately have "scan_num (dec_int i) = Some (dec_int i, False, [])"
      using True
      by (auto simp: scan_num_def dec_int_def Let_def split: option.splits prod.splits)
    with r show ?thesis by (rule scan_num_append [rotated])
  next
    case False
    with r show ?thesis by (simp add: dec_int_def scan_num_dec)
  qed
qed

lemma read_dec_int: "read_int (dec_int i) = i"
proof (cases "i < 0")
  case True
  then show ?thesis by (simp add: read_int_def dec_int_def)
next
  case False
  obtain c t where ct: "dec_nat (nat i) = c # t" by (cases "dec_nat (nat i)") auto
  have "is_digit c" using dec_nat_digits [of "nat i"] ct by simp
  then have "c \<noteq> CHR ''-''" by (auto simp: is_digit_def)
  with False ct read_dec_nat [of "nat i"] show ?thesis by (simp add: read_int_def dec_int_def)
qed

text \<open>The first character of a number is a digit or a minus sign followed by a digit.\<close>

lemma scan_num_head:
  assumes "scan_num s = Some (t, fl, r)"
  shows "\<exists>c u. s = c # u \<and> (is_digit c \<or> c = CHR ''-'' \<and> (\<exists>d v. u = d # v \<and> is_digit d))"
proof -
  obtain c u where s: "s = c # u" using assms
    by (cases s) (auto simp: scan_num_def scan_int_def)
  have z: "is_digit (CHR ''0'')" by (simp add: is_digit_def)
  show ?thesis
  proof (cases "c = CHR ''-''")
    case True
    with assms s have "scan_int u \<noteq> None"
      by (auto simp: scan_num_def split: option.splits)
    with True s z show ?thesis
      by (cases u) (auto simp: scan_int_def split: if_splits)
  next
    case False
    with assms s have "scan_int s \<noteq> None"
      by (auto simp: scan_num_def split: option.splits)
    with s z show ?thesis by (auto simp: scan_int_def split: if_splits)
  qed
qed

lemma read_value_number:
  assumes "scan_num s = Some (t, fl, r)"
  shows "read_value P (Suc n) s = Some (if fl then JFloat (float_read P t) else JInt (read_int t), r)"
proof -
  from scan_num_head [OF assms] obtain c u where s: "s = c # u"
    and c: "is_digit c \<or> c = CHR ''-'' \<and> (\<exists>d v. u = d # v \<and> is_digit d)" by blast
  have "c \<noteq> quote" "c \<noteq> CHR ''{''" "c \<noteq> CHR ''[''" "c \<noteq> CHR ''n''" "c \<noteq> CHR ''t''"
    "c \<noteq> CHR ''f''" "c \<noteq> CHR ''N''" "c \<noteq> CHR ''I''"
    using c by (auto simp: is_digit_def)
  moreover from this have "\<not> starts_with ''null'' s" "\<not> starts_with ''true'' s"
    "\<not> starts_with ''false'' s" "\<not> starts_with ''NaN'' s" "\<not> starts_with ''Infinity'' s"
    by (simp_all add: starts_with_def s)
  moreover have "\<not> starts_with ''-Infinity'' s"
    using c s by (auto simp: starts_with_def is_digit_def)
  ultimately show ?thesis
    using s assms by (simp add: read_number_def)
qed

section \<open>The round trip\<close>

lemma skip_space: "list_all is_jspace w \<Longrightarrow> skip (w @ s) = skip s"
  by (induction w) auto

lemma skip_nonspace: "s = [] \<or> \<not> is_jspace (hd s) \<Longrightarrow> skip s = s"
  by (cases s) auto

lemma dumps_head: "json_wf P j \<Longrightarrow> \<exists>c u. dumps P is ks j = c # u \<and> \<not> is_jspace c \<and> c \<noteq> CHR '']'' \<and> c \<noteq> CHR ''}''"
proof (cases j)
  case (JInt i)
  from scan_num_head [OF scan_num_dec_int [of "[]" i]]
  obtain c u where "dec_int i = c # u" "is_digit c \<or> c = CHR ''-''" by (auto simp: num_stop_def)
  with JInt show ?thesis by (auto simp: is_digit_def is_jspace_def)
next
  case (JFloat x)
  assume "json_wf P j"
  with JFloat obtain q where x: "x = Fin q" and ok: "float_ok P q"
    by (auto split: flt.splits)
  from ok have "scan_num (float_repr P q) = Some (float_repr P q, True, [])"
    by (simp add: float_ok_def)
  from scan_num_head [OF this] obtain c u where "float_repr P q = c # u" "is_digit c \<or> c = CHR ''-''" by auto
  with JFloat x show ?thesis by (auto simp: is_digit_def is_jspace_def)
qed (auto simp: dump_str_def is_jspace_def)

lemma dupdate_distinct:
  "distinct (map fst (d @ ps)) \<Longrightarrow> dupdate d ps = d @ ps"
proof (induction ps arbitrary: d)
  case Nil
  then show ?case by (simp add: dupdate_def)
next
  case (Cons p ps)
  obtain k v where p: "p = (k, v)" by (cases p)
  from Cons.prems p have "k \<notin> set (map fst d)" by auto
  then have "dset k v d = d @ [(k, v)]" by (induction d) auto
  with Cons p show ?case by (simp add: dupdate_def)
qed

lemma dict_of_pairs_distinct: "distinct (map fst ps) \<Longrightarrow> dict_of_pairs ps = ps"
  by (simp add: dict_of_pairs_def dupdate_distinct)

definition reads_back :: "platform \<Rightarrow> string \<Rightarrow> string \<Rightarrow> json \<Rightarrow> bool" where
  "reads_back P is ks j \<longleftrightarrow>
     (\<forall>n r. 2 * length (dumps P is ks j) \<le> n \<longrightarrow> num_stop r \<longrightarrow>
        read_value P n (dumps P is ks j @ r) = Some (j, r))"

lemma reads_backD:
  "reads_back P is ks j \<Longrightarrow> 2 * length (dumps P is ks j) \<le> n \<Longrightarrow> num_stop r \<Longrightarrow>
   read_value P n (dumps P is ks j @ r) = Some (j, r)"
  by (simp add: reads_back_def)

lemma seps_split:
  assumes "seps_ok is ks"
  obtains w1 w2 where "is = CHR '','' # w1" and "list_all is_jspace w1"
    and "ks = CHR '':'' # w2" and "list_all is_jspace w2"
  using assms by (cases "is"; cases ks) (auto simp: seps_ok_def)

lemma num_stop_delim [simp]:
  "num_stop []" "num_stop (CHR '','' # r)" "num_stop (CHR '']'' # r)" "num_stop (CHR ''}'' # r)"
  by (simp_all add: num_stop_def is_digit_def)

lemma is_jspace_delim [simp]:
  "\<not> is_jspace (CHR '','')" "\<not> is_jspace (CHR '']'')" "\<not> is_jspace (CHR ''}'')"
  "\<not> is_jspace (CHR '':'')" "\<not> is_jspace quote"
  by (simp_all add: is_jspace_def)

lemma skip_dumps: "json_wf P j \<Longrightarrow> skip (dumps P is ks j @ r) = dumps P is ks j @ r"
  using dumps_head [of P j "is" ks] by auto

lemma read_dump_items:
  assumes sep: "seps_ok is ks"
    and "\<And>x. x \<in> set xs \<Longrightarrow> json_wf P x \<and> reads_back P is ks x"
    and "xs \<noteq> []" and "2 * length (dump_items P is ks xs) + 1 \<le> n"
  shows "read_items P n (dump_items P is ks xs @ CHR '']'' # r) = Some (xs, r)"
  using assms(2-4)
proof (induction xs arbitrary: n)
  case Nil
  then show ?case by simp
next
  case (Cons x xs)
  obtain w1 w2 where w: "is = CHR '','' # w1" "list_all is_jspace w1"
    using sep by (rule seps_split)
  obtain m where m: "n = Suc m" using Cons.prems(3) by (cases n) auto
  have rb: "reads_back P is ks x" using Cons.prems(1) by simp
  show ?case
  proof (cases "xs = []")
    case True
    with Cons.prems(3) m have "read_value P m (dumps P is ks x @ CHR '']'' # r) = Some (x, CHR '']'' # r)"
      by (intro reads_backD [OF rb]) auto
    with True m show ?thesis by simp
  next
    case False
    then obtain y ys where xs: "xs = y # ys" by (cases xs) auto
    let ?t = "dump_items P is ks xs @ CHR '']'' # r"
    have "2 * length (dump_items P is ks xs) + 1 \<le> m"
      using Cons.prems(3) m False w by simp
    with Cons False have IH: "read_items P m ?t = Some (xs, r)" by simp
    have "read_value P m (dumps P is ks x @ is @ ?t) = Some (x, is @ ?t)"
      using Cons.prems(3) m False w by (intro reads_backD [OF rb]) auto
    moreover have "skip (w1 @ ?t) = ?t"
    proof -
      from Cons.prems(1) xs have "json_wf P y" by simp
      then have "skip ?t = ?t" using xs skip_dumps [of P y "is" ks] by simp
      with w(2) show ?thesis by (simp add: skip_space)
    qed
    ultimately show ?thesis using IH m False w by simp
  qed
qed

lemma read_str_dump_str: "read_str (tl (dump_str k) @ r) = Some (k, r)"
  using read_str_dump [of k r] by (simp add: dump_str_def)

lemma dump_str_quote: "dump_str k = quote # tl (dump_str k)"
  by (simp add: dump_str_def)

lemma read_dump_members:
  assumes sep: "seps_ok is ks"
    and "\<And>k v. (k, v) \<in> set d \<Longrightarrow> json_wf P v \<and> reads_back P is ks v"
    and "d \<noteq> []" and "2 * length (dump_members P is ks d) + 1 \<le> n"
  shows "read_members P n (dump_members P is ks d @ CHR ''}'' # r) = Some (d, r)"
  using assms(2-4)
proof (induction d arbitrary: n)
  case Nil
  then show ?case by simp
next
  case (Cons p d)
  obtain k v where p: "p = (k, v)" by (cases p)
  obtain w1 w2 where w: "is = CHR '','' # w1" "list_all is_jspace w1"
    "ks = CHR '':'' # w2" "list_all is_jspace w2"
    using sep by (rule seps_split)
  obtain m where m: "n = Suc m" using Cons.prems(3) by (cases n) auto
  have wf: "json_wf P v" and rb: "reads_back P is ks v" using Cons.prems(1) p by auto
  have sk: "skip (w2 @ dumps P is ks v @ u) = dumps P is ks v @ u" for u
    using w(4) by (simp add: skip_space skip_dumps [OF wf])
  obtain s where q: "dump_str k = quote # s" and rs: "\<And>u. read_str (s @ u) = Some (k, u)"
    using dump_str_quote [of k] read_str_dump_str [of k] by blast
  show ?case
  proof (cases "d = []")
    case True
    with Cons.prems(3) m p have "read_value P m (dumps P is ks v @ CHR ''}'' # r) = Some (v, CHR ''}'' # r)"
      by (intro reads_backD [OF rb]) auto
    with True m p w sk show ?thesis
      by (simp add: q rs)
  next
    case False
    let ?t = "dump_members P is ks d @ CHR ''}'' # r"
    have "2 * length (dump_members P is ks d) + 1 \<le> m"
      using Cons.prems(3) m p False w by simp
    then have IH: "read_members P m ?t = Some (d, r)"
      using Cons.prems(1) by (intro Cons.IH [OF _ False]) auto
    have "read_value P m (dumps P is ks v @ is @ ?t) = Some (v, is @ ?t)"
      using Cons.prems(3) m p False w by (intro reads_backD [OF rb]) auto
    moreover have "skip (w1 @ ?t) = ?t"
    proof -
      from False obtain k' v' d' where "d = (k', v') # d'" by (cases d) auto
      then have "skip ?t = ?t"
        using dump_str_quote [of k'] by (simp add: dump_str_def is_jspace_def)
      with w(2) show ?thesis by (simp add: skip_space)
    qed
    ultimately show ?thesis using IH m p False w sk
      by (simp add: q rs)
  qed
qed

lemma length_dumps_pos: "json_wf P j \<Longrightarrow> 0 < length (dumps P is ks j)"
  using dumps_head [of P j "is" ks] by auto

lemma reads_backI:
  assumes "json_wf P j"
    and "\<And>m r. 2 * length (dumps P is ks j) \<le> Suc m \<Longrightarrow> num_stop r \<Longrightarrow>
           read_value P (Suc m) (dumps P is ks j @ r) = Some (j, r)"
  shows "reads_back P is ks j"
  unfolding reads_back_def
proof (intro allI impI)
  fix n r
  assume n: "2 * length (dumps P is ks j) \<le> n" and r: "num_stop r"
  have "n \<noteq> 0" using n length_dumps_pos [OF assms(1), of "is" ks] by linarith
  then obtain m where m: "n = Suc m" by (cases n) auto
  show "read_value P n (dumps P is ks j @ r) = Some (j, r)"
    using assms(2) [of m r] n r m by simp
qed

lemma read_dumps:
  assumes sep: "seps_ok is ks"
  shows "json_wf P j \<Longrightarrow> reads_back P is ks j"
proof (induction j)
  case JNull
  then show ?case by (intro reads_backI) (auto simp: starts_with_def)
next
  case (JBool b)
  then show ?case by (intro reads_backI) (auto simp: starts_with_def)
next
  case (JInt i)
  then show ?case
    by (intro reads_backI)
      (simp_all add: read_value_number [OF scan_num_dec_int] read_dec_int del: read_value.simps)
next
  case (JFloat x)
  then obtain q where x: "x = Fin q" and ok: "float_ok P q" by (auto split: flt.splits)
  from ok have s: "scan_num (float_repr P q) = Some (float_repr P q, True, [])"
    and f: "float_read P (float_repr P q) = Fin q"
    by (simp_all add: float_ok_def)
  show ?case
    using JFloat x f
    by (intro reads_backI)
      (simp_all add: read_value_number [OF scan_num_append [OF s]] del: read_value.simps)
next
  case (JStr s)
  then show ?case
    by (intro reads_backI) (simp_all add: dump_str_def read_str_dump)
next
  case (JArr xs)
  have el: "json_wf P x \<and> reads_back P is ks x" if "x \<in> set xs" for x
    using JArr that by (auto simp: list_all_iff)
  show ?case
  proof (rule reads_backI [OF JArr.prems])
    fix m r
    assume len: "2 * length (dumps P is ks (JArr xs)) \<le> Suc m" and r: "num_stop r"
    show "read_value P (Suc m) (dumps P is ks (JArr xs) @ r) = Some (JArr xs, r)"
    proof (cases "xs = []")
      case True
      then show ?thesis by simp
    next
      case False
      then obtain y ys where xs: "xs = y # ys" by (cases xs) auto
      let ?t = "dump_items P is ks xs @ CHR '']'' # r"
      from el xs have "json_wf P y" by simp
      from dumps_head [OF this, of "is" ks] obtain c u where
        "dumps P is ks y = c # u" "\<not> is_jspace c" "c \<noteq> CHR '']''" by blast
      then obtain v where t: "?t = c # v" "\<not> is_jspace c" "c \<noteq> CHR '']''"
        using xs by simp
      have "read_items P m ?t = Some (xs, r)"
        using sep el False len by (intro read_dump_items) auto
      with t show ?thesis by simp
    qed
  qed
next
  case (JObj d)
  have el: "json_wf P v \<and> reads_back P is ks v" if "(k, v) \<in> set d" for k v
    using JObj.IH [OF that] JObj.prems that by (force simp: list_all_iff)
  have dist: "distinct (map fst d)" using JObj.prems by simp
  show ?case
  proof (rule reads_backI [OF JObj.prems])
    fix m r
    assume len: "2 * length (dumps P is ks (JObj d)) \<le> Suc m" and r: "num_stop r"
    show "read_value P (Suc m) (dumps P is ks (JObj d) @ r) = Some (JObj d, r)"
    proof (cases "d = []")
      case True
      then show ?thesis by simp
    next
      case False
      then obtain k v d' where d: "d = (k, v) # d'" by (cases d) auto
      let ?t = "dump_members P is ks d @ CHR ''}'' # r"
      have "read_members P m ?t = Some (d, r)"
        using sep el False len by (intro read_dump_members) auto
      moreover have "skip ?t = ?t" "?t = quote # tl ?t"
        using d by (simp_all add: dump_str_def is_jspace_def)
      ultimately show ?thesis using dist
        by (cases ?t) (auto simp: dict_of_pairs_distinct)
    qed
  qed
qed

section \<open>Texts of well-formed values\<close>

lemma hexdigit_ascii: "n < 16 \<Longrightarrow> 32 < code (hexdigit n) \<and> code (hexdigit n) < 128"
  using less_16_cases [of n] by (auto simp: hexdigit_def)

lemma digit_char_range: "is_digit c \<Longrightarrow> 32 < code c \<and> code c < 128"
  by (auto simp: is_digit_def)

lemma dec_int_ascii: "c \<in> set (dec_int i) \<Longrightarrow> 32 < code c \<and> code c < 128"
  using dec_nat_digits by (auto simp: dec_int_def split: if_splits dest!: bspec digit_char_range)

lemma esc_char_ascii: "code c < 128 \<Longrightarrow> d \<in> set (esc_char c) \<Longrightarrow> 32 \<le> code d \<and> code d < 128"
  using hexdigit_ascii [of "code c div 16"] hexdigit_ascii [of "code c mod 16"]
  by (auto simp: esc_char_def hex_byte_def split: if_splits)

lemma esc_char_high: "128 \<le> code c \<Longrightarrow> esc_char c = [c]"
  by (auto simp: esc_char_def)

lemma esc_char_low: "code c < 128 \<Longrightarrow> utf8_ok (esc_char c @ t) = utf8_ok t"
proof -
  assume "code c < 128"
  then have "\<forall>d \<in> set (esc_char c). code d < 128" using esc_char_ascii by blast
  then show ?thesis by (intro utf8_ok_append utf8_ok_ascii)
qed

lemma is_cont_high: "is_cont c \<Longrightarrow> 128 \<le> code c"
  by (simp add: is_cont_def)

lemma utf8_ok_esc: "utf8_ok s \<Longrightarrow> utf8_ok (concat (map esc_char s) @ t) = utf8_ok t"
proof (induction s rule: utf8_ok.induct)
  case (2 a r)
  consider "code a < 128" | "194 \<le> code a \<and> code a \<le> 223" | "224 \<le> code a \<and> code a \<le> 239"
    | "240 \<le> code a \<and> code a \<le> 244"
    using "2.prems" by (auto split: if_splits)
  then show ?case
  proof cases
    case 1
    with 2 show ?thesis by (simp add: esc_char_low)
  next
    case two: 2
    with "2.prems" obtain b r' where r: "r = b # r'" "is_cont b" "utf8_ok r'"
      by (cases r) auto
    with two "2.IH"(2) show ?thesis by (simp add: esc_char_high is_cont_high)
  next
    case three: 3
    with "2.prems" obtain b c r' where r: "r = b # c # r'" "is_cont b" "is_cont c"
      by (cases r; cases "tl r") auto
    with three "2.prems" "2.IH"(3) show ?thesis by (simp add: esc_char_high is_cont_high)
  next
    case four: 4
    with "2.prems" obtain b c d r' where r: "r = b # c # d # r'" "is_cont b" "is_cont c" "is_cont d"
      by (cases r; cases "tl r"; cases "tl (tl r)") auto
    with four "2.prems" "2.IH"(4) show ?thesis by (simp add: esc_char_high is_cont_high)
  qed
qed simp

lemma utf8_ok_dump_str: "utf8_ok s \<Longrightarrow> utf8_ok (dump_str s @ t) = utf8_ok t"
  by (simp add: dump_str_def utf8_ok_esc)

lemma esc_char_no_nl: "nl \<notin> set (esc_char c)"
proof (cases "code c < 128")
  case True
  show ?thesis
  proof
    assume "nl \<in> set (esc_char c)"
    from esc_char_ascii [OF True this] show False by simp
  qed
next
  case False
  then show ?thesis by (auto simp: esc_char_high)
qed

definition ascii_sep :: "string \<Rightarrow> bool" where
  "ascii_sep s \<longleftrightarrow> list_all (\<lambda>c. 32 \<le> code c \<and> code c < 128) s"

lemma ascii_sep_utf8: "ascii_sep s \<Longrightarrow> utf8_ok (s @ t) = utf8_ok t"
  by (intro utf8_ok_append utf8_ok_ascii) (auto simp: ascii_sep_def list_all_iff)

lemma utf8_ok_float: "float_ok P q \<Longrightarrow> utf8_ok (float_repr P q @ t) = utf8_ok t"
  by (intro utf8_ok_append utf8_ok_ascii) (auto simp: float_ok_def list_all_iff)

lemma utf8_ok_dec_int: "utf8_ok (dec_int i @ t) = utf8_ok t"
  by (intro utf8_ok_append utf8_ok_ascii) (auto dest: dec_int_ascii)

lemma utf8_ok_dump_items:
  assumes "ascii_sep is" and "\<And>x t. x \<in> set xs \<Longrightarrow> utf8_ok (dumps P is ks x @ t) = utf8_ok t"
  shows "utf8_ok (dump_items P is ks xs @ t) = utf8_ok t"
  using assms(2) by (induction xs) (auto simp: ascii_sep_utf8 [OF assms(1)])

lemma utf8_ok_dump_members:
  assumes "ascii_sep is" and "ascii_sep ks"
    and "\<And>k v t. (k, v) \<in> set d \<Longrightarrow> utf8_ok k \<and> utf8_ok (dumps P is ks v @ t) = utf8_ok t"
  shows "utf8_ok (dump_members P is ks d @ t) = utf8_ok t"
  using assms(3)
proof (induction d)
  case Nil
  then show ?case by simp
next
  case (Cons p d)
  obtain k v where p: "p = (k, v)" by (cases p)
  have "utf8_ok k" and v: "\<And>t. utf8_ok (dumps P is ks v @ t) = utf8_ok t"
    using Cons.prems [of k v] Cons.prems p by auto
  moreover have "utf8_ok (dump_members P is ks d @ t) = utf8_ok t"
    using Cons by auto
  ultimately show ?case
    using p by (simp add: utf8_ok_dump_str ascii_sep_utf8 [OF assms(1)] ascii_sep_utf8 [OF assms(2)])
qed

lemma utf8_ok_dumps:
  assumes "ascii_sep is" and "ascii_sep ks"
  shows "json_wf P j \<Longrightarrow> utf8_ok (dumps P is ks j @ t) = utf8_ok t"
proof (induction j arbitrary: t)
  case (JArr xs)
  have "utf8_ok (dump_items P is ks xs @ CHR '']'' # t) = utf8_ok (CHR '']'' # t)"
    using JArr by (intro utf8_ok_dump_items [OF assms(1)]) (auto simp: list_all_iff)
  then show ?case by simp
next
  case (JObj d)
  have "utf8_ok (dump_members P is ks d @ CHR ''}'' # t) = utf8_ok (CHR ''}'' # t)"
  proof (rule utf8_ok_dump_members [OF assms])
    fix k v t
    assume "(k, v) \<in> set d"
    with JObj.prems JObj.IH [OF this] show "utf8_ok k \<and> utf8_ok (dumps P is ks v @ t) = utf8_ok t"
      by (force simp: list_all_iff)
  qed
  then show ?case by simp
qed (auto simp: utf8_ok_dec_int utf8_ok_float utf8_ok_dump_str split: flt.splits)

lemma no_nl_dumps:
  assumes "ascii_sep is" and "ascii_sep ks"
  shows "json_wf P j \<Longrightarrow> nl \<notin> set (dumps P is ks j)"
proof (induction j)
  case (JArr xs)
  have "nl \<notin> set (dump_items P is ks xs)"
    using JArr assms(1) by (induction xs) (auto simp: ascii_sep_def list_all_iff)
  then show ?case by simp
next
  case (JObj d)
  have el: "\<And>k v. (k, v) \<in> set d \<Longrightarrow> nl \<notin> set (dumps P is ks v)"
    using JObj by (force simp: list_all_iff)
  have seps: "nl \<notin> set is" "nl \<notin> set ks"
    using assms by (auto simp: ascii_sep_def list_all_iff)
  have "nl \<notin> set (dump_str k)" for k
    by (simp add: dump_str_def esc_char_no_nl)
  then have step: "nl \<notin> set (dump_members P is ks ((k, v) # d'))"
    if "nl \<notin> set (dumps P is ks v)" "nl \<notin> set (dump_members P is ks d')" for k v d'
    using seps that by simp
  have "nl \<notin> set (dump_members P is ks d)"
    using el
  proof (induction d)
    case (Cons p d)
    obtain k v where "p = (k, v)" by (cases p)
    with Cons show ?case by (metis list.set_intros step)
  qed simp
  then show ?case by simp
qed (auto simp: dump_str_def esc_char_no_nl float_ok_def list_all_iff dest: dec_int_ascii split: flt.splits)

section \<open>Sorted values\<close>

lemma distinct_sort_key: "distinct (map fst (sort_key f d)) = distinct (map fst d)"
  by (simp add: distinct_map)

lemma fst_comp_snd [simp]: "fst \<circ> (\<lambda>(k, v). (k, f v)) = fst"
  by auto

lemma json_wf_jsort: "json_wf P j \<Longrightarrow> json_wf P (jsort j)"
proof (induction j)
  case (JArr xs)
  then show ?case by (auto simp: list_all_iff)
next
  case (JObj d)
  let ?d = "map (\<lambda>(k, v). (k, jsort v)) d"
  from JObj.prems have "distinct (map fst (sort_key fst ?d))"
    by (simp add: distinct_sort_key)
  moreover have "utf8_ok k \<and> json_wf P (jsort v)" if "(k, v) \<in> set d" for k v
    using that JObj.prems JObj.IH [OF that] by (force simp: list_all_iff)
  then have "list_all (\<lambda>(k, v). utf8_ok k \<and> json_wf P v) (sort_key fst ?d)"
    by (auto simp: list_all_iff)
  ultimately show ?case by simp
qed simp_all

lemma map_of_sort_key:
  "distinct (map fst d) \<Longrightarrow> map_of (sort_key f d) k = map_of d k"
proof -
  assume d: "distinct (map fst d)"
  then have "distinct (map fst (sort_key f d))" by (simp add: distinct_sort_key)
  moreover have "set (sort_key f d) = set d" by simp
  ultimately show ?thesis using d by (metis map_of_eqI map_of_inject_set)
qed

lemma dget_map_snd: "map_of (map (\<lambda>(k, v). (k, f v)) d) k = map_option f (map_of d k)"
  by (induction d) auto

definition sort_members :: "event \<Rightarrow> event" where
  "sort_members d = sort_key fst (map (\<lambda>(k, v). (k, jsort v)) d)"

lemma jsort_JObj: "jsort (JObj d) = JObj (sort_members d)"
  by (simp add: sort_members_def)

lemma dget_sort_members:
  assumes "distinct (map fst d)"
  shows "dget (sort_members d) k = map_option jsort (dget d k)"
proof -
  from assms have "distinct (map fst (map (\<lambda>(k, v). (k, jsort v)) d))" by simp
  from map_of_sort_key [OF this] show ?thesis
    unfolding sort_members_def by (simp add: dget_map_snd)
qed

lemma compact_seps [simp]: "seps_ok '','' '':''" "ascii_sep '',''" "ascii_sep '':''"
  by (simp_all add: seps_ok_def ascii_sep_def)

lemma display_seps [simp]: "seps_ok '', '' '': ''" "ascii_sep '', ''" "ascii_sep '': ''"
  by (simp_all add: seps_ok_def ascii_sep_def is_jspace_def)

lemma utf8_ok_json_text: "json_wf P j \<Longrightarrow> utf8_ok (json_text P j)"
  using utf8_ok_dumps [OF compact_seps(2,3) json_wf_jsort, of P j "[]"]
  by (simp add: json_text_def del: jsort.simps)

lemma no_nl_json_text: "json_wf P j \<Longrightarrow> nl \<notin> set (json_text P j)"
  unfolding json_text_def by (intro no_nl_dumps json_wf_jsort) simp_all

lemma num_stop_space: "list_all is_jspace w \<Longrightarrow> num_stop w"
  by (cases w) (auto simp: num_stop_def is_jspace_def is_digit_def)

lemma utf8_ok_space: "list_all is_jspace w \<Longrightarrow> utf8_ok w"
proof (rule utf8_ok_ascii)
  assume "list_all is_jspace w"
  moreover have "is_jspace c \<Longrightarrow> code c < 128" for c by (auto simp: is_jspace_def)
  ultimately show "\<forall>c \<in> set w. code c < 128" by (auto simp: list_all_iff)
qed

lemma loads_text_space:
  assumes wf: "json_wf P j" and w: "list_all is_jspace w"
  shows "json_loads P (json_text P j @ w) = Some (jsort j)"
proof -
  have wf': "json_wf P (jsort j)" using wf by (rule json_wf_jsort)
  from dumps_head [OF wf', of "'',''" "'':''"]
  have sk: "skip (json_text P j @ w) = json_text P j @ w" by (auto simp: json_text_def)
  have "read_value P (read_fuel (json_text P j @ w)) (json_text P j @ w) = Some (jsort j, w)"
    unfolding json_text_def
    by (rule reads_backD [OF read_dumps [OF _ wf']])
      (simp_all add: read_fuel_def num_stop_space w)
  moreover have "skip w = []" using w by (induction w) auto
  moreover have "utf8_ok (json_text P j @ w)"
    using wf w by (simp add: utf8_ok_append utf8_ok_json_text utf8_ok_space)
  ultimately show ?thesis by (simp add: json_loads_def sk)
qed

lemma loads_text: "json_wf P j \<Longrightarrow> json_loads P (json_text P j) = Some (jsort j)"
  using loads_text_space [of P j "[]"] by simp

lemma json_text_inj:
  "json_wf P j \<Longrightarrow> json_wf P j' \<Longrightarrow> json_text P j = json_text P j' \<Longrightarrow> jsort j = jsort j'"
  by (metis loads_text option.inject)

lemma jsort_eq_simps:
  "jsort v = JStr s \<longleftrightarrow> v = JStr s" "jsort v = JBool b \<longleftrightarrow> v = JBool b" "jsort v = JNull \<longleftrightarrow> v = JNull"
  "is_str (jsort v) = is_str v" "str_of (jsort v) = str_of v"
  by (cases v; simp)+

lemma dget_filter: "dget d k = map_option snd (find (\<lambda>p. True) (filter (\<lambda>p. fst p = k) d))"
  by (induction d) auto

lemma dget_sort_key: "dget (sort_key fst d) k = dget d (k :: string)"
  unfolding dget_filter [of _ k] by (simp add: sort_key_stable)

lemma jget_sort_members [simp]: "jget (sort_members e) k = jsort (jget e k)"
  by (simp add: jget_def sort_members_def dget_sort_key dget_map_snd split: option.splits)

lemma has_key_sort_members [simp]: "has_key (sort_members e) k = has_key e k"
  by (simp add: has_key_def sort_members_def dget_sort_key dget_map_snd)

lemma jsort_idem: "jsort (jsort j) = jsort j"
proof (induction j)
  case (JArr xs)
  then show ?case by simp
next
  case (JObj d)
  let ?d = "sort_key fst (map (\<lambda>(k, v). (k, jsort v)) d)"
  have "(case p of (k, v) \<Rightarrow> (k, jsort v)) = p" if "p \<in> set ?d" for p
    using that JObj.IH by auto
  then have "map (\<lambda>(k, v). (k, jsort v)) ?d = ?d" by (rule map_idI)
  then show ?case by (simp add: sort_key_id_if_sorted sorted_sort_key)
qed simp_all

lemma sort_members_idem [simp]: "sort_members (sort_members e) = sort_members e"
  using jsort_idem [of "JObj e"] by (simp add: jsort_JObj del: jsort.simps)

end
