(* ===== verification/Canonical.thy ===== *)
theory Canonical
  imports JsonRoundtrip
begin

text \<open>
  The fused redact-and-canonicalize traversal of \<open>src/tesera/canonical.py\<close>.

  Python values live in a heap, so that shared and cyclic containers are what they are in the
  program: a scalar is a value, a container is an address. \<open>walk\<close> is \<open>_walk\<close>; its first number
  is the remaining depth, \<open>MAX_DEPTH + 1 - _depth\<close>, so the recursion ends because the code
  bounds the depth. The list of collected secrets is threaded through as the code appends to it.
  \<open>str()\<close> of an object is user code and is the parameter \<open>shw\<close>; a compiled pattern is used
  only through \<open>search\<close> and \<open>sub\<close>.
\<close>

section \<open>Values\<close>

datatype pyval =
    PNone
  | PBool bool
  | PInt int
  | PFloat flt
  | PStr string
  | PRef nat

datatype pyobj =
    ODict "(pyval \<times> pyval) list"
  | ODataclass "(string \<times> pyval) list"
  | ONamedTuple (nt_fields: "pyval list") (nt_items: "pyval list")
  | OSeq "pyval list"
  | OOther string \<comment> \<open>any other object, with its dotted type name\<close>

type_synonym heap = "nat \<Rightarrow> pyobj"

record pattern =
  p_search :: "string \<Rightarrow> bool"
  p_sub :: "string \<Rightarrow> string \<Rightarrow> string" \<comment> \<open>replacement, text\<close>

section \<open>Names\<close>

definition MAX_DEPTH :: nat where "MAX_DEPTH = 64"
definition REDACTED :: string where "REDACTED = ''<REDACTED>''"
definition UNSUPPORTED_MARKER :: string where "UNSUPPORTED_MARKER = ''<unsupported:''"
definition NON_STRING_KEY_MARKER :: string where
  "NON_STRING_KEY_MARKER = ''<unsupported:mapping-with-non-string-keys>''"

definition unsupported_marker :: "string \<Rightarrow> string" where
  "unsupported_marker tn = UNSUPPORTED_MARKER @ tn @ ''>''"

definition confusable_to_ascii :: "(nat \<times> char) list" where
  "confusable_to_ascii =
    [(0x0430, CHR ''a''), (0x0432, CHR ''b''), (0x0435, CHR ''e''), (0x0451, CHR ''e''),
     (0x0456, CHR ''i''), (0x0457, CHR ''i''), (0x0458, CHR ''j''), (0x043a, CHR ''k''),
     (0x043c, CHR ''m''), (0x043d, CHR ''h''), (0x043e, CHR ''o''), (0x0440, CHR ''p''),
     (0x0441, CHR ''c''), (0x0442, CHR ''t''), (0x0443, CHR ''y''), (0x0445, CHR ''x''),
     (0x0446, CHR ''u''), (0x0448, CHR ''w''), (0x0449, CHR ''w''), (0x044a, CHR ''b''),
     (0x044c, CHR ''b''), (0x044f, CHR ''r''), (0x0455, CHR ''s''),
     (0x03b1, CHR ''a''), (0x03b2, CHR ''b''), (0x03b3, CHR ''y''), (0x03b5, CHR ''e''),
     (0x03b9, CHR ''i''), (0x03ba, CHR ''k''), (0x03bc, CHR ''u''), (0x03bd, CHR ''v''),
     (0x03bf, CHR ''o''), (0x03c1, CHR ''p''), (0x03c2, CHR ''s''), (0x03c3, CHR ''s''),
     (0x03c4, CHR ''t''), (0x03c5, CHR ''u''), (0x03c7, CHR ''x''), (0x03c9, CHR ''w''),
     (0x03f0, CHR ''k''), (0x03f1, CHR ''p''), (0x03f2, CHR ''c''), (0x03f5, CHR ''e''),
     (0x00b5, CHR ''u''), (0x00ba, CHR ''o'')]"

definition translate_confusable :: "nat \<Rightarrow> nat" where
  "translate_confusable n =
     (case map_of confusable_to_ascii n of None \<Rightarrow> n | Some c \<Rightarrow> code c)"

definition fold_name :: "platform \<Rightarrow> string \<Rightarrow> string" where
  "fold_name P name =
     (let folded = nfkc P (cps name);
          folded = map translate_confusable folded;
          folded = nfd P folded
      in of_cps (casefold P (filter (\<lambda>c. \<not> combining P c) folded)))"

definition is_sensitive_name :: "platform \<Rightarrow> string list \<Rightarrow> string \<Rightarrow> bool" where
  "is_sensitive_name P sensitive name \<longleftrightarrow> fold_name P name \<in> set sensitive"

section \<open>The traversal\<close>

text \<open>\<open>_redact\<close>: what it appends to the collected secrets.\<close>

definition redact_collect :: "(pyval \<Rightarrow> string) \<Rightarrow> pyval \<Rightarrow> string list \<Rightarrow> string list" where
  "redact_collect shw v collected =
     (case v of
        PStr s \<Rightarrow> if s \<noteq> [] then collected @ [s] else collected
      | PNone \<Rightarrow> collected
      | _ \<Rightarrow> if shw v \<noteq> [] then collected @ [shw v] else collected)"

definition all_strings :: "pyval list \<Rightarrow> string list option" where
  "all_strings vs =
     (if list_all (\<lambda>v. case v of PStr _ \<Rightarrow> True | _ \<Rightarrow> False) vs
      then Some (map (\<lambda>v. case v of PStr s \<Rightarrow> s | _ \<Rightarrow> []) vs) else None)"

text \<open>\<open>_field_names\<close>, with the values the names are read from.\<close>

definition named_fields :: "pyobj \<Rightarrow> (string \<times> pyval) list option" where
  "named_fields ob =
     (case ob of
        ONamedTuple fs items \<Rightarrow> map_option (\<lambda>names. zip names items) (all_strings fs)
      | ODataclass fs \<Rightarrow> Some fs
      | _ \<Rightarrow> None)"

type_synonym walked = "exn + json \<times> string list"

fun walk_fields ::
  "(string \<Rightarrow> bool) \<Rightarrow> (pyval \<Rightarrow> string) \<Rightarrow> (pyval \<Rightarrow> string list \<Rightarrow> walked)
     \<Rightarrow> (string \<times> pyval) list \<Rightarrow> string list \<Rightarrow> exn + (string \<times> json) list \<times> string list" where
  "walk_fields sens shw descend [] c = Inr ([], c)"
| "walk_fields sens shw descend ((k, v) # fs) c =
     (if sens k then
        bindR (walk_fields sens shw descend fs (redact_collect shw v c))
          (\<lambda>(ms, c'). Inr ((k, JStr REDACTED) # ms, c'))
      else
        bindR (descend v c) (\<lambda>(j, c1).
          bindR (walk_fields sens shw descend fs c1) (\<lambda>(ms, c'). Inr ((k, j) # ms, c'))))"

fun walk_seq ::
  "(pyval \<Rightarrow> string list \<Rightarrow> walked) \<Rightarrow> pyval list \<Rightarrow> string list \<Rightarrow> exn + json list \<times> string list" where
  "walk_seq descend [] c = Inr ([], c)"
| "walk_seq descend (v # vs) c =
     bindR (descend v c) (\<lambda>(j, c1).
       bindR (walk_seq descend vs c1) (\<lambda>(js, c'). Inr (j # js, c')))"

fun walk ::
  "(string \<Rightarrow> bool) \<Rightarrow> pattern list \<Rightarrow> (pyval \<Rightarrow> string) \<Rightarrow> heap \<Rightarrow> nat \<Rightarrow> nat list
     \<Rightarrow> pyval \<Rightarrow> string list \<Rightarrow> walked" where
  "walk sens pats shw h 0 seen v c = Inl CanonicalizationError"
| "walk sens pats shw h (Suc n) seen v c =
     (case v of
        PNone \<Rightarrow> Inr (JNull, c)
      | PBool b \<Rightarrow> Inr (JBool b, c)
      | PInt i \<Rightarrow> Inr (JInt i, c)
      | PStr s \<Rightarrow>
          (if s \<noteq> [] \<and> (\<exists>p \<in> set pats. p_search p s)
           then Inr (JStr REDACTED, redact_collect shw v c) else Inr (JStr s, c))
      | PFloat x \<Rightarrow> (case x of Fin _ \<Rightarrow> Inr (JFloat x, c) | _ \<Rightarrow> Inl CanonicalizationError)
      | PRef a \<Rightarrow>
          (case h a of
             ODict kvs \<Rightarrow>
               (if a \<in> set seen then Inl CanonicalizationError
                else case all_strings (map fst kvs) of
                  None \<Rightarrow> Inr (JStr NON_STRING_KEY_MARKER, c)
                | Some ks \<Rightarrow>
                    bindR (walk_fields sens shw (walk sens pats shw h n (a # seen))
                             (zip ks (map snd kvs)) c)
                      (\<lambda>(ms, c'). Inr (JObj ms, c')))
           | OOther tn \<Rightarrow> Inr (JStr (unsupported_marker tn), c)
           | ob \<Rightarrow>
               (if a \<in> set seen then Inl CanonicalizationError
                else case named_fields ob of
                  Some fs \<Rightarrow>
                    bindR (walk_fields sens shw (walk sens pats shw h n (a # seen)) fs c)
                      (\<lambda>(ms, c'). Inr (JObj ms, c'))
                | None \<Rightarrow>
                    bindR (walk_seq (walk sens pats shw h n (a # seen))
                             (case ob of OSeq vs \<Rightarrow> vs | ONamedTuple _ vs \<Rightarrow> vs | _ \<Rightarrow> []) c)
                      (\<lambda>(js, c'). Inr (JArr js, c')))))"

definition canonicalize ::
  "platform \<Rightarrow> string list \<Rightarrow> pattern list \<Rightarrow> (pyval \<Rightarrow> string) \<Rightarrow> heap \<Rightarrow> pyval \<Rightarrow> walked" where
  "canonicalize P sensitive pats shw h v =
     walk (is_sensitive_name P sensitive) pats shw h (Suc MAX_DEPTH) [] v []"

text \<open>
  \<open>canonical_json_bytes\<close>: \<open>allow_nan=False\<close> makes a non-finite float a CanonicalizationError;
  a lone surrogate makes \<open>encode\<close> raise, outside the handler.
\<close>

definition canonical_json_bytes :: "platform \<Rightarrow> json \<Rightarrow> exn + bytes" where
  "canonical_json_bytes P j =
     (if nonfinite j then Inl CanonicalizationError
      else if \<not> utf8_ok (json_text P j) then Inl UnicodeEncodeError
      else Inr (json_text P j))"

definition sha256_hex :: "platform \<Rightarrow> bytes \<Rightarrow> string" where
  "sha256_hex P b = to_hex (sha256 P b)"

definition canonical_hash ::
  "platform \<Rightarrow> string list \<Rightarrow> pattern list \<Rightarrow> (pyval \<Rightarrow> string) \<Rightarrow> heap \<Rightarrow> pyval \<Rightarrow> exn + string" where
  "canonical_hash P sensitive pats shw h v =
     bindR (canonicalize P sensitive pats shw h v) (\<lambda>(j, _).
       bindR (canonical_json_bytes P j) (\<lambda>b. Inr (sha256_hex P b)))"

section \<open>Secrets do not influence the canonical form\<close>

text \<open>
  Two heaps are low-equivalent when they agree everywhere but in slots with a sensitive name.
\<close>

definition low_fields :: "(string \<Rightarrow> bool) \<Rightarrow> (string \<times> pyval) list \<Rightarrow> (string \<times> pyval) list \<Rightarrow> bool" where
  "low_fields sens fs gs \<longleftrightarrow>
     list_all2 (\<lambda>(k, v) (k', v'). k = k' \<and> (sens k \<or> v = v')) fs gs"

definition low_obj :: "(string \<Rightarrow> bool) \<Rightarrow> pyobj \<Rightarrow> pyobj \<Rightarrow> bool" where
  "low_obj sens ob ob' \<longleftrightarrow>
     ob = ob'
     \<or> (case (ob, ob') of
          (ODict d, ODict d') \<Rightarrow>
            map fst d = map fst d'
            \<and> (case all_strings (map fst d) of
                 None \<Rightarrow> False
               | Some ks \<Rightarrow> low_fields sens (zip ks (map snd d)) (zip ks (map snd d')))
        | (ODataclass fs, ODataclass fs') \<Rightarrow> low_fields sens fs fs'
        | (ONamedTuple fs vs, ONamedTuple fs' vs') \<Rightarrow>
            fs = fs'
            \<and> (case all_strings fs of
                 None \<Rightarrow> False
               | Some ks \<Rightarrow> low_fields sens (zip ks vs) (zip ks vs'))
        | _ \<Rightarrow> False)"

definition low_heap :: "(string \<Rightarrow> bool) \<Rightarrow> heap \<Rightarrow> heap \<Rightarrow> bool" where
  "low_heap sens h h' \<longleftrightarrow> (\<forall>a. low_obj sens (h a) (h' a))"

definition canon_part :: "exn + 'a \<times> string list \<Rightarrow> exn + 'a" where
  "canon_part r = bindR r (\<lambda>(j, _). Inr j)"

lemma canon_part_simps [simp]: "canon_part (Inl e) = Inl e" "canon_part (Inr (j, c)) = Inr j"
  by (simp_all add: canon_part_def)

lemma canon_part_bind:
  "canon_part (bindR r (\<lambda>(j, c). Inr (f j, c))) = bindR (canon_part r) (\<lambda>j. Inr (f j))"
  by (cases r) (auto simp: canon_part_def)

lemma low_fields_refl: "low_fields sens fs fs"
  by (auto simp: low_fields_def intro!: list.rel_refl)

lemma walk_fields_low:
  assumes d: "\<And>v c c'. canon_part (d1 v c) = canon_part (d2 v c')"
  shows "low_fields sens fs gs \<Longrightarrow>
    canon_part (walk_fields sens shw d1 fs c) = canon_part (walk_fields sens shw d2 gs c')"
proof (induction fs arbitrary: gs c c')
  case Nil
  then show ?case by (simp add: low_fields_def canon_part_def)
next
  case (Cons f fs)
  obtain k v where f: "f = (k, v)" by (cases f)
  from Cons.prems f obtain v' gs' where gs: "gs = (k, v') # gs'" and v: "sens k \<or> v = v'"
    and low: "low_fields sens fs gs'"
    by (auto simp: low_fields_def list_all2_Cons1)
  show ?case
  proof (cases "sens k")
    case True
    have "canon_part (walk_fields sens shw d1 fs (redact_collect shw v c))
        = canon_part (walk_fields sens shw d2 gs' (redact_collect shw v' c'))"
      by (rule Cons.IH [OF low])
    with True f gs show ?thesis by (simp add: canon_part_bind)
  next
    case False
    with v have v': "v = v'" by simp
    show ?thesis
    proof (cases "d1 v c")
      case (Inl e)
      with d [of v c c'] have "d2 v c' = Inl e"
        by (cases "d2 v c'") (auto simp: canon_part_def)
      with Inl False f gs v' show ?thesis by (simp add: canon_part_def)
    next
      case (Inr p)
      obtain j c1 where p: "p = (j, c1)" by (cases p)
      with Inr d [of v c c'] obtain c2 where "d2 v c' = Inr (j, c2)"
        by (cases "d2 v c'") (auto simp: canon_part_def)
      with Inr p False f gs v' Cons.IH [OF low, of c1 c2] show ?thesis
        by (simp add: canon_part_bind)
    qed
  qed
qed

lemma walk_seq_low:
  assumes d: "\<And>v c c'. canon_part (d1 v c) = canon_part (d2 v c')"
  shows "canon_part (walk_seq d1 vs c) = canon_part (walk_seq d2 vs c')"
proof (induction vs arbitrary: c c')
  case Nil
  then show ?case by (simp add: canon_part_def)
next
  case (Cons v vs)
  show ?case
  proof (cases "d1 v c")
    case (Inl e)
    with d [of v c c'] have "d2 v c' = Inl e" by (cases "d2 v c'") (auto simp: canon_part_def)
    with Inl show ?thesis by (simp add: canon_part_def)
  next
    case (Inr p)
    obtain j c1 where p: "p = (j, c1)" by (cases p)
    with Inr d [of v c c'] obtain c2 where "d2 v c' = Inr (j, c2)"
      by (cases "d2 v c'") (auto simp: canon_part_def)
    with Inr p Cons.IH [of c1 c2] show ?thesis by (simp add: canon_part_bind)
  qed
qed

lemma walk_low:
  assumes "low_heap sens h h'"
  shows "canon_part (walk sens pats shw h n seen v c) = canon_part (walk sens pats shw h' n seen v c')"
proof (induction n arbitrary: seen v c c')
  case 0
  then show ?case by (simp add: canon_part_def)
next
  case (Suc n)
  show ?case
  proof (cases v)
    case (PFloat x)
    then show ?thesis by (cases x) (simp_all add: canon_part_def)
  next
    case (PRef a)
    let ?w = "walk sens pats shw h n (a # seen)" and ?w' = "walk sens pats shw h' n (a # seen)"
    have fields: "low_fields sens fs gs \<Longrightarrow>
        canon_part (walk_fields sens shw ?w fs c) = canon_part (walk_fields sens shw ?w' gs c')" for fs gs
      by (rule walk_fields_low [OF Suc.IH])
    have seq: "canon_part (walk_seq ?w vs c) = canon_part (walk_seq ?w' vs c')" for vs
      by (rule walk_seq_low [OF Suc.IH])
    note same = fields [OF low_fields_refl] seq
    have "low_obj sens (h a) (h' a)" using assms by (simp add: low_heap_def)
    then consider "h a = h' a"
      | (d) d d' ks where "h a = ODict d" "h' a = ODict d'" "map fst d = map fst d'"
          "all_strings (map fst d') = Some ks" "low_fields sens (zip ks (map snd d)) (zip ks (map snd d'))"
      | (c) fs fs' where "h a = ODataclass fs" "h' a = ODataclass fs'" "low_fields sens fs fs'"
      | (t) fs ks vs vs' where "h a = ONamedTuple fs vs" "h' a = ONamedTuple fs vs'"
          "all_strings fs = Some ks" "low_fields sens (zip ks vs) (zip ks vs')"
      by (cases "h a"; cases "h' a") (auto simp: low_obj_def split: option.splits)
    then show ?thesis
    proof cases
      case 1
      show ?thesis
      proof (cases "h' a")
        case (ODict d)
        with 1 PRef show ?thesis
          by (cases "all_strings (map fst d)")
            (simp_all add: canon_part_bind same(1))
      next
        case (ODataclass fs)
        with 1 PRef show ?thesis
          by (simp add: canon_part_bind same(1) named_fields_def)
      next
        case (ONamedTuple fs vs)
        with 1 PRef show ?thesis
          by (cases "all_strings fs")
            (simp_all add: canon_part_bind same named_fields_def)
      next
        case (OSeq vs)
        with 1 PRef show ?thesis
          by (simp add: canon_part_bind same named_fields_def)
      next
        case (OOther tn)
        with 1 PRef show ?thesis by (simp add: canon_part_def)
      qed
    next
      case d
      with PRef show ?thesis
        by (simp add: canon_part_bind fields)
    next
      case c
      with PRef show ?thesis
        by (simp add: canon_part_bind fields named_fields_def)
    next
      case t
      with PRef show ?thesis
        by (simp add: canon_part_bind fields named_fields_def)
    qed
  qed (simp_all add: canon_part_def)
qed

section \<open>What the canonical form contains\<close>

text \<open>
  A value fit for evidence: no named position with a sensitive name holds anything but the
  redaction marker, no text matches a secret pattern, and every float is finite.
\<close>

definition text_safe :: "pattern list \<Rightarrow> string \<Rightarrow> bool" where
  "text_safe pats s \<longleftrightarrow>
     s = [] \<or> s = REDACTED \<or> starts_with UNSUPPORTED_MARKER s \<or> \<not> (\<exists>p \<in> set pats. p_search p s)"

fun evidence_safe :: "(string \<Rightarrow> bool) \<Rightarrow> pattern list \<Rightarrow> json \<Rightarrow> bool" where
  "evidence_safe sens pats (JStr s) = text_safe pats s"
| "evidence_safe sens pats (JFloat x) = (case x of Fin _ \<Rightarrow> True | _ \<Rightarrow> False)"
| "evidence_safe sens pats (JArr xs) = list_all (evidence_safe sens pats) xs"
| "evidence_safe sens pats (JObj d) =
     list_all (\<lambda>(k, v). (sens k \<longrightarrow> v = JStr REDACTED) \<and> evidence_safe sens pats v) d"
| "evidence_safe sens pats _ = True"

fun json_depth :: "json \<Rightarrow> nat" where
  "json_depth (JArr xs) = Suc (foldr (\<lambda>x m. max (json_depth x) m) xs 0)"
| "json_depth (JObj d) = Suc (foldr (\<lambda>(k, v) m. max (json_depth v) m) d 0)"
| "json_depth _ = 0"

lemma foldr_max_le: "(\<forall>x \<in> set xs. f x \<le> n) \<Longrightarrow> foldr (\<lambda>x m. max (f x) m) xs 0 \<le> (n::nat)"
  by (induction xs) auto

lemma text_safe_REDACTED [simp]: "text_safe pats REDACTED"
  by (simp add: text_safe_def)

lemma text_safe_unsupported [simp]: "text_safe pats (unsupported_marker tn)"
  by (auto simp: text_safe_def unsupported_marker_def starts_with_iff)

lemma text_safe_nonstring [simp]: "text_safe pats NON_STRING_KEY_MARKER"
  by (auto simp: text_safe_def NON_STRING_KEY_MARKER_def UNSUPPORTED_MARKER_def starts_with_def)

text \<open>A property of single values that the traversal gives its results at every level.\<close>

lemma walk_fields_all:
  assumes "\<And>v c j c'. d v c = Inr (j, c') \<Longrightarrow> Q j" and "Q (JStr REDACTED)"
  shows "walk_fields sens shw d fs c = Inr (ms, c') \<Longrightarrow>
    list_all (\<lambda>(k, v). (sens k \<longrightarrow> v = JStr REDACTED) \<and> Q v) ms"
  by (induction fs arbitrary: c ms c')
    (auto simp: bindR_Inr_iff assms split: if_splits dest: assms(1))

lemma walk_seq_all:
  assumes "\<And>v c j c'. d v c = Inr (j, c') \<Longrightarrow> Q j"
  shows "walk_seq d vs c = Inr (js, c') \<Longrightarrow> list_all Q js"
  by (induction vs arbitrary: c js c') (auto simp: bindR_Inr_iff dest: assms)

text \<open>The cases of a successful step of the traversal.\<close>

lemma walk_Suc_cases:
  assumes "walk sens pats shw h (Suc n) seen v c = Inr (j, c')"
  obtains (atom) "\<not> (\<exists>a. v = PRef a)" "\<not> (\<exists>s. j = JStr s)" "json_depth j = 0" "evidence_safe sens pats j"
  | (str) s where "v = PStr s" "j = JStr s" "text_safe pats s"
  | (marker) s where "j = JStr s" "s = REDACTED \<or> starts_with UNSUPPORTED_MARKER s"
  | (obj) a fs ms where "v = PRef a" "a \<notin> set seen" "j = JObj ms"
      "walk_fields sens shw (walk sens pats shw h n (a # seen)) fs c = Inr (ms, c')"
  | (arr) a vs js where "v = PRef a" "a \<notin> set seen" "j = JArr js"
      "walk_seq (walk sens pats shw h n (a # seen)) vs c = Inr (js, c')"
proof (cases v)
  case (PStr s)
  with assms that(2,3) show ?thesis by (auto simp: text_safe_def split: if_splits)
next
  case (PFloat x)
  with assms that(1) show ?thesis by (auto split: flt.splits)
next
  case (PRef a)
  have um: "starts_with UNSUPPORTED_MARKER (unsupported_marker tn)" for tn
    by (auto simp: starts_with_iff unsupported_marker_def)
  have nm: "starts_with UNSUPPORTED_MARKER NON_STRING_KEY_MARKER"
    by (simp add: starts_with_def NON_STRING_KEY_MARKER_def UNSUPPORTED_MARKER_def)
  from PRef assms that(3-5) um nm show ?thesis
    by (cases "h a") (auto simp: bindR_Inr_iff named_fields_def split: if_splits option.splits)
qed (use assms that(1) in auto)

lemma walk_safe: "walk sens pats shw h n seen v c = Inr (j, c') \<Longrightarrow> evidence_safe sens pats j"
proof (induction n arbitrary: seen v c j c')
  case 0
  then show ?case by simp
next
  case (Suc n)
  from Suc.prems show ?case
  proof (cases rule: walk_Suc_cases)
    case (marker s)
    then show ?thesis by (auto simp: text_safe_def)
  next
    case (obj a fs ms)
    from walk_fields_all [where Q = "evidence_safe sens pats", OF Suc.IH _ obj(4)] obj(3)
    show ?thesis by simp
  next
    case (arr a vs js)
    from walk_seq_all [where Q = "evidence_safe sens pats", OF Suc.IH arr(4)] arr(3)
    show ?thesis by simp
  qed simp_all
qed

lemma walk_depth: "walk sens pats shw h n seen v c = Inr (j, c') \<Longrightarrow> json_depth j \<le> n"
proof (induction n arbitrary: seen v c j c')
  case 0
  then show ?case by simp
next
  case (Suc n)
  from Suc.prems show ?case
  proof (cases rule: walk_Suc_cases)
    case (obj a fs ms)
    have "list_all (\<lambda>(k, v). (sens k \<longrightarrow> v = JStr REDACTED) \<and> json_depth v \<le> n) ms"
      by (rule walk_fields_all [OF _ _ obj(4)]) (auto dest: Suc.IH)
    then have "foldr (\<lambda>x m. max (json_depth (snd x)) m) ms 0 \<le> n"
      by (intro foldr_max_le) (auto simp: list_all_iff)
    then have "foldr (\<lambda>(k, v) m. max (json_depth v) m) ms 0 \<le> n"
      by (simp add: case_prod_beta')
    with obj(3) show ?thesis by simp
  next
    case (arr a vs js)
    have "list_all (\<lambda>v. json_depth v \<le> n) js"
      by (rule walk_seq_all [OF _ arr(4)]) (auto dest: Suc.IH)
    then have "foldr (\<lambda>x m. max (json_depth x) m) js 0 \<le> n"
      by (intro foldr_max_le) (auto simp: list_all_iff)
    with arr(3) show ?thesis by simp
  qed simp_all
qed

section \<open>Which secrets are collected\<close>

text \<open>
  The named slots and the elements of a container, as the traversal sees them, and the strings
  that sit in a sensitive slot reachable through slots that are not sensitive.
\<close>

definition slots :: "pyobj \<Rightarrow> (string \<times> pyval) list" where
  "slots ob =
     (case ob of
        ODict kvs \<Rightarrow> (case all_strings (map fst kvs) of None \<Rightarrow> [] | Some ks \<Rightarrow> zip ks (map snd kvs))
      | _ \<Rightarrow> (case named_fields ob of None \<Rightarrow> [] | Some fs \<Rightarrow> fs))"

definition elems :: "pyobj \<Rightarrow> pyval list" where
  "elems ob =
     (case ob of
        OSeq vs \<Rightarrow> vs
      | ONamedTuple fs vs \<Rightarrow> (if all_strings fs = None then vs else [])
      | _ \<Rightarrow> [])"

inductive holds_secret :: "(string \<Rightarrow> bool) \<Rightarrow> heap \<Rightarrow> pyval \<Rightarrow> string \<Rightarrow> bool"
  for sens :: "string \<Rightarrow> bool" and h :: heap where
  slot: "(k, PStr s) \<in> set (slots (h a)) \<Longrightarrow> sens k \<Longrightarrow> s \<noteq> [] \<Longrightarrow> holds_secret sens h (PRef a) s"
| field: "(k, v) \<in> set (slots (h a)) \<Longrightarrow> \<not> sens k \<Longrightarrow> holds_secret sens h v s \<Longrightarrow>
    holds_secret sens h (PRef a) s"
| elem: "v \<in> set (elems (h a)) \<Longrightarrow> holds_secret sens h v s \<Longrightarrow> holds_secret sens h (PRef a) s"

inductive_cases holds_secret_RefE: "holds_secret sens h (PRef a) s"

lemma redact_collect_mono: "set c \<subseteq> set (redact_collect shw v c)"
  by (auto simp: redact_collect_def split: pyval.splits)

lemma walk_fields_collected:
  assumes mono: "\<And>v c j c'. d v c = Inr (j, c') \<Longrightarrow> set c \<subseteq> set c'"
  shows "walk_fields sens shw d fs c = Inr (ms, c') \<Longrightarrow>
    set c \<subseteq> set c'
    \<and> (\<forall>k s. (k, PStr s) \<in> set fs \<longrightarrow> sens k \<longrightarrow> s \<noteq> [] \<longrightarrow> s \<in> set c')
    \<and> (\<forall>k v. (k, v) \<in> set fs \<longrightarrow> \<not> sens k \<longrightarrow> (\<exists>j c1 c2. d v c1 = Inr (j, c2) \<and> set c2 \<subseteq> set c'))"
proof (induction fs arbitrary: c ms)
  case (Cons f fs)
  obtain k v where f: "f = (k, v)" by (cases f)
  show ?case
  proof (cases "sens k")
    case True
    with Cons.prems f obtain ms' where
      "walk_fields sens shw d fs (redact_collect shw v c) = Inr (ms', c')"
      by (auto simp: bindR_Inr_iff)
    from Cons.IH [OF this] redact_collect_mono [of c shw v] True f show ?thesis
      by (auto simp: redact_collect_def)
  next
    case False
    with Cons.prems f obtain j c1 ms' where d: "d v c = Inr (j, c1)"
      "walk_fields sens shw d fs c1 = Inr (ms', c')"
      by (auto simp: bindR_Inr_iff)
    with Cons.IH [OF d(2)] mono [OF d(1)] False f show ?thesis by (auto; blast)
  qed
qed simp

lemma walk_seq_collected:
  assumes mono: "\<And>v c j c'. d v c = Inr (j, c') \<Longrightarrow> set c \<subseteq> set c'"
  shows "walk_seq d vs c = Inr (js, c') \<Longrightarrow>
    set c \<subseteq> set c' \<and> (\<forall>v \<in> set vs. \<exists>j c1 c2. d v c1 = Inr (j, c2) \<and> set c2 \<subseteq> set c')"
proof (induction vs arbitrary: c js)
  case (Cons v vs)
  then obtain j c1 js' where d: "d v c = Inr (j, c1)" "walk_seq d vs c1 = Inr (js', c')"
    by (auto simp: bindR_Inr_iff)
  with Cons.IH [OF d(2)] mono [OF d(1)] show ?case by (auto; blast)
qed simp

lemma walk_RefE:
  assumes "walk sens pats shw h (Suc n) seen (PRef a) c = Inr (j, c')"
  obtains ms where "walk_fields sens shw (walk sens pats shw h n (a # seen)) (slots (h a)) c = Inr (ms, c')"
      "elems (h a) = []"
  | js where "walk_seq (walk sens pats shw h n (a # seen)) (elems (h a)) c = Inr (js, c')"
      "slots (h a) = []"
  using assms
  by (cases "h a")
    (auto simp: bindR_Inr_iff slots_def elems_def named_fields_def split: if_splits option.splits)

lemma walk_mono: "walk sens pats shw h n seen v c = Inr (j, c') \<Longrightarrow> set c \<subseteq> set c'"
proof (induction n arbitrary: seen v c j c')
  case (Suc n)
  show ?case
  proof (cases v)
    case (PRef a)
    from Suc.prems [unfolded PRef] show ?thesis
      by (cases rule: walk_RefE) (use walk_fields_collected walk_seq_collected Suc.IH in metis)+
  next
    case (PStr s)
    with Suc.prems redact_collect_mono [of c shw v] show ?thesis by (auto split: if_splits)
  next
    case (PFloat x)
    with Suc.prems show ?thesis by (auto split: flt.splits)
  qed (use Suc.prems in auto)
qed simp

lemma walk_slot_collected:
  assumes "walk_fields sens shw (walk sens pats shw h n seen) fs c = Inr (ms, c')"
  shows "(k, PStr s) \<in> set fs \<Longrightarrow> sens k \<Longrightarrow> s \<noteq> [] \<Longrightarrow> s \<in> set c'"
    and "(k, v) \<in> set fs \<Longrightarrow> \<not> sens k \<Longrightarrow>
      \<exists>j c1 c2. walk sens pats shw h n seen v c1 = Inr (j, c2) \<and> set c2 \<subseteq> set c'"
  using walk_fields_collected [where d = "walk sens pats shw h n seen", OF _ assms] walk_mono by blast+

lemma walk_elem_collected:
  assumes "walk_seq (walk sens pats shw h n seen) vs c = Inr (js, c')" and "v \<in> set vs"
  shows "\<exists>j c1 c2. walk sens pats shw h n seen v c1 = Inr (j, c2) \<and> set c2 \<subseteq> set c'"
  using walk_seq_collected [where d = "walk sens pats shw h n seen", OF _ assms(1)] walk_mono assms(2)
  by blast

lemma walk_collects:
  "holds_secret sens h v s \<Longrightarrow> walk sens pats shw h n seen v c = Inr (j, c') \<Longrightarrow> s \<in> set c'"
proof (induction arbitrary: n seen c j c' rule: holds_secret.induct)
  case (slot k s a)
  then obtain m where n: "n = Suc m" by (cases n) auto
  from slot.prems [unfolded n] show ?case
  proof (cases rule: walk_RefE)
    case (1 ms)
    with walk_slot_collected(1) [OF 1(1)] slot.hyps show ?thesis by blast
  next
    case (2 js)
    with slot.hyps show ?thesis by simp
  qed
next
  case (field k v a s)
  then obtain m where n: "n = Suc m" by (cases n) auto
  from field.prems [unfolded n] show ?case
  proof (cases rule: walk_RefE)
    case (1 ms)
    with walk_slot_collected(2) [OF 1(1) field.hyps(1,2)] field.IH show ?thesis by blast
  next
    case (2 js)
    with field.hyps show ?thesis by simp
  qed
next
  case (elem v a s)
  then obtain m where n: "n = Suc m" by (cases n) auto
  from elem.prems [unfolded n] show ?case
  proof (cases rule: walk_RefE)
    case (1 ms)
    with elem.hyps show ?thesis by simp
  next
    case (2 js)
    with walk_elem_collected [OF 2(1) elem.hyps(1)] elem.IH show ?thesis by blast
  qed
qed

section \<open>Properties\<close>


definition demo_heap :: "string \<Rightarrow> heap" where
  "demo_heap pw = (\<lambda>a. if a = 0 then ODict [(PStr ''user'', PStr ''bob''), (PStr ''opts'', PRef 1)]
                       else ODict [(PStr ''password'', PStr pw), (PStr ''n'', PInt 3)])"




text \<open>
  Every string in a sensitive slot that the traversal passes by, however deep and through
  whatever mix of dictionaries, dataclasses, named tuples and sequences, is in the list of
  collected secrets that error messages are scrubbed with.
\<close>

theorem canonicalize_collects_secrets:
  assumes "canonicalize P sensitive pats shw h v = Inr (j, c)"
    and "holds_secret (is_sensitive_name P sensitive) h v s"
  shows "s \<in> set c"
  using walk_collects [OF assms(2)] assms(1) unfolding canonicalize_def by blast

lemma canonicalize_collects_secrets_witness:
  "\<exists>j c. canonicalize toy_platform [''password''] [] (\<lambda>v. []) (demo_heap ''hunter2'') (PRef 0) = Inr (j, c)
     \<and> ''hunter2'' \<in> set c"
proof -
  let ?s = "is_sensitive_name toy_platform [''password'']" and ?h = "demo_heap ''hunter2''"
  have "canonicalize toy_platform [''password''] [] (\<lambda>v. []) ?h (PRef 0) =
    Inr (JObj [(''user'', JStr ''bob''), (''opts'', JObj [(''password'', JStr REDACTED), (''n'', JInt 3)])],
         [''hunter2''])"
    by code_simp
  moreover have pw: "?s ''password''" and op: "\<not> ?s ''opts''" by code_simp+
  have "holds_secret ?s ?h (PRef 1) ''hunter2''"
    by (rule holds_secret.slot [where k = "''password''"]) (simp_all add: slots_def demo_heap_def all_strings_def pw)
  then have "holds_secret ?s ?h (PRef 0) ''hunter2''"
    using holds_secret.field [of "''opts''" "PRef 1" ?h 0 ?s "''hunter2''"]
    by (simp add: slots_def demo_heap_def all_strings_def op)
  ultimately show ?thesis using canonicalize_collects_secrets by blast
qed

text \<open>
  C29: Canonical JSON is one line of UTF-8 that reads back as the value with its keys sorted, so
  two values have the same canonical bytes exactly when they are equal up to key order.
\<close>

theorem canonical_json_roundtrip:
  assumes "json_wf P j" and "canonical_json_bytes P j = Inr b"
  shows "json_loads P b = Some (jsort j) \<and> nl \<notin> set b \<and> utf8_ok b
    \<and> (json_wf P j' \<longrightarrow> canonical_json_bytes P j' = Inr b \<longrightarrow> jsort j' = jsort j)"
proof -
  have b: "b = json_text P j" using assms(2) by (auto simp: canonical_json_bytes_def split: if_splits)
  have "jsort j' = jsort j" if "json_wf P j'" "canonical_json_bytes P j' = Inr b"
  proof -
    have "b = json_text P j'" using that(2) by (auto simp: canonical_json_bytes_def split: if_splits)
    with b loads_text [OF that(1)] loads_text [OF assms(1)] show ?thesis by simp
  qed
  with b loads_text no_nl_json_text utf8_ok_json_text assms(1) show ?thesis by blast
qed

lemma canonical_json_roundtrip_witness:
  "canonical_json_bytes toy_platform (JObj [(''b'', JInt 2), (''a'', JArr [JNull])])
     = Inr ''{\"a\":[null],\"b\":2}''
   \<and> json_loads toy_platform ''{\"a\":[null],\"b\":2}'' = Some (JObj [(''a'', JArr [JNull]), (''b'', JInt 2)])"
proof -
  have b: "canonical_json_bytes toy_platform (JObj [(''b'', JInt 2), (''a'', JArr [JNull])])
     = Inr ''{\"a\":[null],\"b\":2}''" by code_simp
  have wf: "json_wf toy_platform (JObj [(''b'', JInt 2), (''a'', JArr [JNull])])" by simp
  have "jsort (JObj [(''b'', JInt 2), (''a'', JArr [JNull])]) = JObj [(''a'', JArr [JNull]), (''b'', JInt 2)]"
    by code_simp
  with canonical_json_roundtrip [OF wf b] b show ?thesis by simp
qed

end
