(* ===== verification/Redaction.thy ===== *)
theory Redaction
  imports Canonical
begin

text \<open>
  \<open>src/tesera/redaction.py\<close>: the sensitive names, the default secret patterns, the bounded
  summary of an already redacted structure and the scrubbing of free text.

  The default patterns are sequences of literals and character classes with a bounded or
  unbounded repetition, so a small backtracking matcher is enough to run them; it is proved
  equal to the words of the pattern. Their classes are ASCII, hence matching bytes is
  matching code points. A pattern given by the user is compiled by \<open>re\<close>, the parameter
  \<open>re_compile\<close> of \<open>compile_value_patterns\<close>.
\<close>

section \<open>Patterns\<close>

datatype item =
    Lit char
  | Cls "char \<Rightarrow> bool" nat "nat option" \<comment> \<open>class, least and greatest number of repetitions\<close>

type_synonym regex = "item list"

fun try_down :: "(nat \<Rightarrow> 'a option) \<Rightarrow> nat \<Rightarrow> nat \<Rightarrow> 'a option" where
  "try_down f lo 0 = (if lo = 0 then f 0 else None)"
| "try_down f lo (Suc n) =
     (if Suc n < lo then None
      else case f (Suc n) of Some x \<Rightarrow> Some x | None \<Rightarrow> try_down f lo n)"

text \<open>Greedy matching with backtracking: the text after the match.\<close>

fun re_match :: "regex \<Rightarrow> string \<Rightarrow> string option" where
  "re_match [] s = Some s"
| "re_match (Lit c # r) s =
     (case s of [] \<Rightarrow> None | d # s' \<Rightarrow> if d = c then re_match r s' else None)"
| "re_match (Cls p lo hi # r) s =
     (let run = length (takeWhile p s);
          top = (case hi of None \<Rightarrow> run | Some h \<Rightarrow> min run h)
      in try_down (\<lambda>n. re_match r (drop n s)) lo top)"

fun re_search :: "regex \<Rightarrow> string \<Rightarrow> bool" where
  "re_search r [] = (re_match r [] \<noteq> None)"
| "re_search r (c # s) = (re_match r (c # s) \<noteq> None \<or> re_search r s)"

text \<open>
  Substitution of every non-overlapping match, leftmost first. \<open>m\<close> gives the text after a
  match at the current position; none of the patterns matches the empty word, so a match that
  consumes nothing is not a match.
\<close>

function rewrite :: "(string \<Rightarrow> string option) \<Rightarrow> string \<Rightarrow> string \<Rightarrow> string" where
  "rewrite m rep s =
     (case s of
        [] \<Rightarrow> []
      | c # cs \<Rightarrow>
          (case m s of
             Some t \<Rightarrow> if length t < length s then rep @ rewrite m rep t else c # rewrite m rep cs
           | None \<Rightarrow> c # rewrite m rep cs))"
  by pat_completeness auto
termination
  by (relation "measure (\<lambda>(m, rep, s). length s)") auto

declare rewrite.simps [simp del]

definition re_sub :: "regex \<Rightarrow> string \<Rightarrow> string \<Rightarrow> string" where
  "re_sub r rep s = rewrite (re_match r) rep s"

definition regex_pattern :: "regex \<Rightarrow> pattern" where
  "regex_pattern r = \<lparr>p_search = re_search r, p_sub = re_sub r\<rparr>"

lemma regex_pattern_sel [simp]:
  "p_search (regex_pattern r) = re_search r" "p_sub (regex_pattern r) = re_sub r"
  by (simp_all add: regex_pattern_def)

definition is_upper :: "char \<Rightarrow> bool" where "is_upper c \<longleftrightarrow> 65 \<le> code c \<and> code c \<le> 90"
definition is_lower :: "char \<Rightarrow> bool" where "is_lower c \<longleftrightarrow> 97 \<le> code c \<and> code c \<le> 122"
definition is_alnum :: "char \<Rightarrow> bool" where "is_alnum c \<longleftrightarrow> is_upper c \<or> is_lower c \<or> is_digit c"

abbreviation lits :: "string \<Rightarrow> regex" where "lits \<equiv> map Lit"

abbreviation alnum_dash :: "char \<Rightarrow> bool" where
  "alnum_dash \<equiv> \<lambda>c. is_alnum c \<or> c = CHR ''-''"
abbreviation alnum_us_dash :: "char \<Rightarrow> bool" where
  "alnum_us_dash \<equiv> \<lambda>c. is_alnum c \<or> c = CHR ''_'' \<or> c = CHR ''-''"

definition DEFAULT_VALUE_PATTERNS :: "regex list" where
  "DEFAULT_VALUE_PATTERNS =
    [lits ''sk-live-'' @ [Cls alnum_us_dash 8 None],
     lits ''sk-test-'' @ [Cls alnum_us_dash 8 None],
     lits ''ghp_'' @ [Cls is_alnum 8 None],
     lits ''gho_'' @ [Cls is_alnum 8 None],
     lits ''xox'' @ [Cls (\<lambda>c. c \<in> set ''bap'') 1 (Some 1), Lit CHR ''-'', Cls alnum_dash 8 None],
     lits ''AKIA'' @ [Cls (\<lambda>c. is_digit c \<or> is_upper c) 16 (Some 16)],
     lits ''-----BEGIN '' @ [Cls (\<lambda>c. is_upper c \<or> is_digit c \<or> c = CHR '' '') 0 None]
       @ lits ''PRIVATE KEY-----'',
     lits ''eyJ'' @ [Cls alnum_us_dash 8 None, Lit CHR ''.'', Cls alnum_us_dash 8 None,
       Lit CHR ''.'', Cls alnum_us_dash 8 None]]"

definition compiled_defaults :: "pattern list" where
  "compiled_defaults = map regex_pattern DEFAULT_VALUE_PATTERNS"

text \<open>An entry is None where the caller gave something that is not a string.\<close>

fun compile_value_patterns ::
  "(string \<Rightarrow> pattern option) \<Rightarrow> string option list \<Rightarrow> exn + pattern list" where
  "compile_value_patterns re_compile extra =
     bindR (mapR (\<lambda>raw. case raw of
                None \<Rightarrow> Inl ContractError
              | Some s \<Rightarrow> if s = [] then Inl ContractError
                          else (case re_compile s of None \<Rightarrow> Inl ContractError | Some p \<Rightarrow> Inr p)) extra)
       (\<lambda>ps. Inr (compiled_defaults @ ps))"

definition value_matches_patterns :: "string \<Rightarrow> pattern list \<Rightarrow> bool" where
  "value_matches_patterns text pats \<longleftrightarrow> (\<exists>p \<in> set pats. p_search p text)"

section \<open>Names\<close>

definition SENSITIVE_NAMES :: "string list" where
  "SENSITIVE_NAMES =
    [''access_token'', ''api_key'', ''apikey'', ''auth_header'', ''authorization'',
     ''client_secret'', ''credential'', ''credentials'', ''passwd'', ''password'',
     ''private_key'', ''refresh_token'', ''secret'', ''secret_key'', ''session_token'', ''token'']"

definition build_sensitive_set :: "platform \<Rightarrow> string option list \<Rightarrow> exn + string list" where
  "build_sensitive_set P extra =
     bindR (mapR (\<lambda>raw. case raw of
                None \<Rightarrow> Inl ContractError
              | Some s \<Rightarrow> (let name = fold_name P s in
                  if py_strip name = [] then Inl ContractError else Inr name)) extra)
       (\<lambda>names. Inr (SENSITIVE_NAMES @ names))"

section \<open>Summaries and scrubbing\<close>

definition TRUNCATED :: string where "TRUNCATED = ''...(truncated)''"

definition truncate_text :: "string \<Rightarrow> nat \<Rightarrow> string" where
  "truncate_text text limit = (if py_len text \<le> limit then text else py_take limit text @ TRUNCATED)"

definition MAX_SUMMARY_VALUE_CHARS :: nat where "MAX_SUMMARY_VALUE_CHARS = 120"
definition MAX_SUMMARY_TOTAL_CHARS :: nat where "MAX_SUMMARY_TOTAL_CHARS = 2000"
definition MIN_SCRUBBABLE_LENGTH :: nat where "MIN_SCRUBBABLE_LENGTH = 4"

fun bounded_summary :: "platform \<Rightarrow> json \<Rightarrow> string" where
  "bounded_summary P (JObj d) =
     truncate_text
       (join '', '' (map (\<lambda>(k, v). k @ ''='' @ truncate_text (json_display P v) MAX_SUMMARY_VALUE_CHARS)
          (sort_key fst d))) MAX_SUMMARY_TOTAL_CHARS"
| "bounded_summary P j = truncate_text (json_display P j) MAX_SUMMARY_TOTAL_CHARS"

text \<open>
  The values to replace, longest first. The source sorts a set: values of equal length come in
  the set's iteration order, here in the order of their first occurrence.
\<close>

definition scrub_order :: "string list \<Rightarrow> string list" where
  "scrub_order vs =
     sort_key (\<lambda>v. - int (py_len v)) (remdups (filter (\<lambda>v. MIN_SCRUBBABLE_LENGTH \<le> py_len v) vs))"

definition scrub_body :: "string \<Rightarrow> string list \<Rightarrow> pattern list \<Rightarrow> string" where
  "scrub_body text vs pats =
     fold (\<lambda>p t. p_sub p REDACTED t) pats (fold (\<lambda>v t. replace_all v REDACTED t) (scrub_order vs) text)"

definition scrub_text :: "string \<Rightarrow> string list \<Rightarrow> pattern list \<Rightarrow> nat \<Rightarrow> string" where
  "scrub_text text vs pats max_chars = truncate_text (scrub_body text vs pats) max_chars"

section \<open>The matcher\<close>

text \<open>The words of a pattern.\<close>

fun re_word :: "regex \<Rightarrow> string \<Rightarrow> bool" where
  "re_word [] w = (w = [])"
| "re_word (Lit c # r) w = (\<exists>w'. w = c # w' \<and> re_word r w')"
| "re_word (Cls p lo hi # r) w =
     (\<exists>u v. w = u @ v \<and> lo \<le> length u \<and> (case hi of None \<Rightarrow> True | Some h \<Rightarrow> length u \<le> h)
        \<and> list_all p u \<and> re_word r v)"

lemma try_down_Some: "try_down f lo n = Some x \<Longrightarrow> \<exists>k. lo \<le> k \<and> k \<le> n \<and> f k = Some x"
  by (induction f lo n rule: try_down.induct)
    (auto split: if_splits option.splits intro: le_SucI simp: not_less)

lemma try_down_None: "try_down f lo n = None \<Longrightarrow> lo \<le> k \<Longrightarrow> k \<le> n \<Longrightarrow> f k = None"
  by (induction f lo n rule: try_down.induct) (auto split: if_splits option.splits simp: le_Suc_eq)

lemma take_le_takeWhile: "k \<le> length (takeWhile p s) \<Longrightarrow> list_all p (take k s)"
proof (induction s arbitrary: k)
  case (Cons c s)
  then show ?case by (cases k) (auto split: if_splits)
qed simp

lemma le_takeWhile_append: "list_all p u \<Longrightarrow> length u \<le> length (takeWhile p (u @ v))"
  by (simp add: list_all_iff takeWhile_append2)

lemma re_word_ClsI:
  "lo \<le> length u \<Longrightarrow> (case hi of None \<Rightarrow> True | Some h \<Rightarrow> length u \<le> h) \<Longrightarrow> list_all p u \<Longrightarrow>
   re_word r v \<Longrightarrow> re_word (Cls p lo hi # r) (u @ v)"
  unfolding re_word.simps by blast

lemma re_word_ClsE:
  assumes "re_word (Cls p lo hi # r) w"
  obtains u v where "w = u @ v" "lo \<le> length u" "case hi of None \<Rightarrow> True | Some h \<Rightarrow> length u \<le> h"
    "list_all p u" "re_word r v"
  using assms unfolding re_word.simps by blast

lemma re_match_word: "re_match r s = Some t \<Longrightarrow> \<exists>w. s = w @ t \<and> re_word r w"
proof (induction r arbitrary: s)
  case Nil
  then show ?case by simp
next
  case (Cons it r)
  show ?case
  proof (cases it)
    case (Lit c)
    with Cons.prems obtain s' where s': "s = c # s'" "re_match r s' = Some t"
      by (cases s) (auto split: if_splits)
    from Cons.IH [OF s'(2)] obtain w where "s' = w @ t" "re_word r w" by blast
    with s'(1) Lit show ?thesis by (intro exI [of _ "c # w"]) simp
  next
    case (Cls p lo hi)
    let ?top = "case hi of None \<Rightarrow> length (takeWhile p s) | Some h \<Rightarrow> min (length (takeWhile p s)) h"
    from Cons.prems Cls have "try_down (\<lambda>n. re_match r (drop n s)) lo ?top = Some t"
      by (simp add: Let_def)
    from try_down_Some [OF this] obtain k
      where k: "lo \<le> k" "k \<le> ?top" "re_match r (drop k s) = Some t" by blast
    from Cons.IH [OF k(3)] obtain w where w: "drop k s = w @ t" "re_word r w" by auto
    have "?top \<le> length (takeWhile p s)" by (cases hi) auto
    with k(2) have kl: "k \<le> length (takeWhile p s)" by simp
    with length_takeWhile_le [of p s] have len: "length (take k s) = k" by simp
    have "s = (take k s @ w) @ t" using w(1) by (metis append_assoc append_take_drop_id)
    moreover have "case hi of None \<Rightarrow> True | Some h \<Rightarrow> k \<le> h" using k(2) by (cases hi) auto
    then have "re_word (it # r) (take k s @ w)"
      unfolding Cls using w(2) k(1) take_le_takeWhile [OF kl] len
      by (intro re_word_ClsI) (simp_all only: len)
    ultimately show ?thesis by blast
  qed
qed

lemma re_word_match: "re_word r w \<Longrightarrow> re_match r (w @ t) \<noteq> None"
proof (induction r arbitrary: w)
  case (Cons it r)
  show ?case
  proof (cases it)
    case (Lit c)
    with Cons show ?thesis by auto
  next
    case (Cls p lo hi)
    with Cons.prems have "re_word (Cls p lo hi # r) w" by simp
    then obtain u v where uv: "w = u @ v" "lo \<le> length u"
      "case hi of None \<Rightarrow> True | Some h \<Rightarrow> length u \<le> h" "list_all p u" "re_word r v"
      by (rule re_word_ClsE)
    let ?s = "w @ t"
    let ?top = "case hi of None \<Rightarrow> length (takeWhile p ?s) | Some h \<Rightarrow> min (length (takeWhile p ?s)) h"
    have "length u \<le> ?top"
      using uv(3) le_takeWhile_append [OF uv(4), of "v @ t"] by (cases hi) (simp_all add: uv(1))
    moreover have "re_match r (drop (length u) ?s) \<noteq> None"
      using Cons.IH [OF uv(5)] by (simp add: uv(1))
    ultimately have "try_down (\<lambda>n. re_match r (drop n ?s)) lo ?top \<noteq> None"
      using try_down_None [OF _ uv(2), of "\<lambda>n. re_match r (drop n ?s)" ?top] by metis
    with Cls show ?thesis by (simp add: Let_def)
  qed
qed simp

lemma re_search_suffix: "re_search r s \<longleftrightarrow> (\<exists>u t. s = u @ t \<and> re_match r t \<noteq> None)"
proof (induction s)
  case Nil
  then show ?case by simp
next
  case (Cons c s)
  show ?case (is "?l = ?r")
  proof
    assume ?l
    then consider "re_match r (c # s) \<noteq> None" | "re_search r s" by auto
    then show ?r
    proof cases
      case 1
      then have "c # s = [] @ (c # s) \<and> re_match r (c # s) \<noteq> None" by simp
      then show ?thesis by blast
    next
      case 2
      with Cons.IH obtain u t where "s = u @ t" "re_match r t \<noteq> None" by blast
      then show ?thesis by (intro exI [of _ "c # u"] exI [of _ t]) auto
    qed
  next
    assume ?r
    then obtain u t where ut: "c # s = u @ t" "re_match r t \<noteq> None" by blast
    show ?l
    proof (cases u)
      case Nil
      with ut have "re_match r (c # s) \<noteq> None" by simp
      then show ?thesis by simp
    next
      case (Cons d u')
      with ut have "s = u' @ t" by simp
      with ut(2) Cons.IH show ?thesis by auto
    qed
  qed
qed

text \<open>A search succeeds exactly when some word of the pattern occurs in the text.\<close>

lemma re_search_iff: "re_search r s \<longleftrightarrow> (\<exists>w. contains w s \<and> re_word r w)"
proof
  assume "re_search r s"
  then obtain u t x where "s = u @ t" "re_match r t = Some x" by (auto simp: re_search_suffix)
  with re_match_word obtain w where "s = u @ w @ x" "re_word r w" by metis
  then show "\<exists>w. contains w s \<and> re_word r w" by (auto simp: contains_iff)
next
  assume "\<exists>w. contains w s \<and> re_word r w"
  then obtain w u v where "s = u @ w @ v" "re_word r w" by (auto simp: contains_iff)
  with re_word_match show "re_search r s" unfolding re_search_suffix by blast
qed

section \<open>What rewriting leaves\<close>

text \<open>
  A word that avoids the brackets of the marker and is not inside it can only occur in a
  rewritten text where it occurred before, at a place where nothing matched.
\<close>

definition unmarked :: "string \<Rightarrow> bool" where
  "unmarked w \<longleftrightarrow> w \<noteq> [] \<and> CHR ''<'' \<notin> set w \<and> CHR ''>'' \<notin> set w \<and> \<not> contains w REDACTED"

definition consumes :: "(string \<Rightarrow> string option) \<Rightarrow> string \<Rightarrow> bool" where
  "consumes m s = (case m s of None \<Rightarrow> False | Some t \<Rightarrow> length t < length s)"

lemma rewrite_Nil [simp]: "rewrite m rep [] = []"
  by (simp add: rewrite.simps)

lemma rewrite_consumes:
  "consumes m s \<Longrightarrow> rewrite m rep s = rep @ rewrite m rep (the (m s))"
  by (subst rewrite.simps) (auto simp: consumes_def split: list.splits option.splits if_splits)

lemma rewrite_skip: "\<not> consumes m (c # cs) \<Longrightarrow> rewrite m rep (c # cs) = c # rewrite m rep cs"
  by (subst rewrite.simps) (auto simp: consumes_def split: option.splits)

lemma rewrite_induct [case_names Nil match skip]:
  assumes "Q []" and "\<And>s. consumes m s \<Longrightarrow> Q (the (m s)) \<Longrightarrow> Q s"
    and "\<And>c s. \<not> consumes m (c # s) \<Longrightarrow> Q s \<Longrightarrow> Q (c # s)"
  shows "Q s"
proof (induction s rule: length_induct)
  case (1 s)
  show ?case
  proof (cases s)
    case Nil
    with assms(1) show ?thesis by simp
  next
    case (Cons c cs)
    show ?thesis
    proof (cases "consumes m s")
      case True
      with 1 have "Q (the (m s))" by (auto simp: consumes_def split: option.splits)
      with True assms(2) show ?thesis by blast
    next
      case False
      with 1 Cons assms(3) show ?thesis by auto
    qed
  qed
qed

lemma replace_all_rewrite:
  assumes "p \<noteq> []"
  shows "replace_all p rep s =
    rewrite (\<lambda>s. if starts_with p s then Some (drop (length p) s) else None) rep s" (is "_ = rewrite ?m _ _")
proof (induction s rule: rewrite_induct [where m = ?m])
  case (match s)
  then show ?case
    using assms by (cases s)
      (auto simp: rewrite_consumes replace_all_Cons consumes_def split: if_splits)
next
  case (skip c s)
  then have "\<not> starts_with p (c # s)" using assms by (auto simp: consumes_def starts_with_iff)
  with skip show ?case by (simp add: rewrite_skip replace_all_Cons)
qed simp

lemma rewrite_prefix:
  "rewrite m REDACTED s = w @ v \<Longrightarrow> CHR ''<'' \<notin> set w \<Longrightarrow> w \<noteq> [] \<Longrightarrow>
   (\<exists>b. s = w @ b) \<and> \<not> consumes m s"
proof (induction s arbitrary: w rule: rewrite_induct [where m = m])
  case (match s)
  then have "REDACTED @ rewrite m REDACTED (the (m s)) = w @ v" by (simp add: rewrite_consumes)
  then have "hd w = CHR ''<''" using match.prems(3) by (cases w) (simp_all add: REDACTED_def)
  with match.prems(2,3) show ?case by (metis list.set_sel(1))
next
  case (skip c s)
  then obtain w' where w: "w = c # w'" "rewrite m REDACTED s = w' @ v"
    by (cases w) (auto simp: rewrite_skip)
  show ?case
  proof (cases "w' = []")
    case True
    with w skip show ?thesis by simp
  next
    case False
    with skip.IH [OF w(2)] skip.prems(2) w(1) obtain b where "s = w' @ b" by auto
    with w(1) skip.hyps show ?thesis by auto
  qed
qed simp

lemma factor_after_marker:
  assumes "REDACTED @ t = u @ w @ v" and "unmarked w"
  shows "\<exists>u'. t = u' @ w @ v"
proof -
  have len: "length REDACTED = 10" by (simp add: REDACTED_def)
  have nine: "REDACTED ! 9 = CHR ''>''" by (simp add: REDACTED_def)
  consider "10 \<le> length u" | "length u < 10" "length u + length w \<le> 10" | "length u < 10" "10 < length u + length w"
    by linarith
  then show ?thesis
  proof cases
    case 1
    with assms(1) len have "t = drop 10 u @ w @ v"
      by (metis append_eq_append_conv_if drop_append append_take_drop_id)
    then show ?thesis by blast
  next
    case 2
    have "REDACTED = take 10 (REDACTED @ t)" using len by simp
    also have "\<dots> = u @ w @ take (10 - length u - length w) v" using assms(1) 2 by simp
    finally have "contains w REDACTED" unfolding contains_iff by blast
    with assms(2) show ?thesis by (simp add: unmarked_def)
  next
    case 3
    have "(REDACTED @ t) ! 9 = CHR ''>''" using nine len by (simp add: nth_append)
    moreover have lt: "9 - length u < length w" using 3 by linarith
    ultimately have "w ! (9 - length u) = CHR ''>''"
      using assms(1) 3 by (simp add: nth_append)
    with lt have "CHR ''>'' \<in> set w" by (metis nth_mem)
    with assms(2) show ?thesis by (simp add: unmarked_def)
  qed
qed

lemma rewrite_factor:
  assumes "rewrite m REDACTED s = u @ w @ v" and "unmarked w"
    and suffix: "\<And>s t. m s = Some t \<Longrightarrow> \<exists>x. s = x @ t"
  shows "\<exists>a b. s = a @ w @ b \<and> \<not> consumes m (w @ b)"
  using assms(1)
proof (induction s arbitrary: u rule: rewrite_induct [where m = m])
  case Nil
  with assms(2) show ?case by (simp add: unmarked_def)
next
  case (match s)
  then have "REDACTED @ rewrite m REDACTED (the (m s)) = u @ w @ v" by (simp add: rewrite_consumes)
  from factor_after_marker [OF this assms(2)] match.IH obtain a b where
    ab: "the (m s) = a @ w @ b" "\<not> consumes m (w @ b)" by blast
  from match.hyps suffix obtain x where "s = x @ the (m s)"
    by (auto simp: consumes_def split: option.splits)
  with ab have "s = (x @ a) @ w @ b" by simp
  with ab(2) show ?case by blast
next
  case (skip c s)
  show ?case
  proof (cases u)
    case Nil
    with skip.prems rewrite_prefix [of m "c # s" w v] assms(2) show ?thesis
      by (fastforce simp: unmarked_def)
  next
    case (Cons d u')
    with skip.prems skip.hyps have "rewrite m REDACTED s = u' @ w @ v" by (simp add: rewrite_skip)
    with skip.IH obtain a b where "s = a @ w @ b" "\<not> consumes m (w @ b)" by blast
    then show ?thesis by (intro exI [of _ "c # a"] exI [of _ b]) simp
  qed
qed


lemma suffix_re_match: "re_match r s = Some t \<Longrightarrow> \<exists>x. s = x @ t"
  using re_match_word by blast

lemma re_sub_factor:
  assumes "rewrite (re_match r) REDACTED s = u @ w @ v" and "unmarked w"
  shows "\<exists>a b. s = a @ w @ b \<and> \<not> consumes (re_match r) (w @ b)"
  by (rule rewrite_factor [OF assms]) (rule suffix_re_match)

lemma contains_re_sub:
  assumes "contains w (re_sub r REDACTED s)" and "unmarked w"
  shows "contains w s"
proof -
  from assms(1) obtain u v where "rewrite (re_match r) REDACTED s = u @ w @ v"
    by (auto simp: re_sub_def contains_iff)
  from re_sub_factor [OF this assms(2)] show ?thesis by (auto simp: contains_iff)
qed

lemma contains_replace_all:
  assumes "contains w (replace_all p REDACTED s)" and "unmarked w" and "p \<noteq> []"
  shows "contains w s \<and> w \<noteq> p"
proof -
  let ?m = "\<lambda>s. if starts_with p s then Some (drop (length p) s) else None"
  have suffix: "\<exists>x. s = x @ t" if "?m s = Some t" for s t
    using that append_take_drop_id [of "length p" s] by (metis option.distinct(1) option.inject)
  from assms(1) obtain u v where "rewrite ?m REDACTED s = u @ w @ v"
    by (auto simp: replace_all_rewrite [OF assms(3)] contains_iff)
  from rewrite_factor [OF this assms(2) suffix] obtain a b where
    ab: "s = a @ w @ b" "\<not> consumes ?m (w @ b)" by blast
  have "w \<noteq> p"
  proof
    assume "w = p"
    then have "consumes ?m (w @ b)" using assms(3) by (auto simp: consumes_def starts_with_iff)
    with ab(2) show False by simp
  qed
  with ab(1) show ?thesis by (auto simp: contains_iff)
qed

lemma re_sub_no_word:
  assumes "re_word r w" and "unmarked w" and "\<not> re_word r []"
  shows "\<not> contains w (re_sub r REDACTED s)"
proof
  assume "contains w (re_sub r REDACTED s)"
  then obtain u v where "rewrite (re_match r) REDACTED s = u @ w @ v"
    by (auto simp: re_sub_def contains_iff)
  from re_sub_factor [OF this assms(2)] obtain a b where
    "\<not> consumes (re_match r) (w @ b)" by blast
  moreover from re_word_match [OF assms(1)] obtain t where t: "re_match r (w @ b) = Some t" by blast
  moreover from re_match_word [OF t] assms(3) obtain x where "w @ b = x @ t" "x \<noteq> []" by metis
  then have "length t < length (w @ b)" by simp
  ultimately show False by (simp add: consumes_def)
qed

text \<open>
  A pattern whose words are longer than the marker and cannot contain its brackets.
\<close>

fun min_word :: "regex \<Rightarrow> nat" where
  "min_word [] = 0"
| "min_word (Lit c # r) = Suc (min_word r)"
| "min_word (Cls p lo hi # r) = lo + min_word r"

fun avoids_char :: "char \<Rightarrow> regex \<Rightarrow> bool" where
  "avoids_char d [] = True"
| "avoids_char d (Lit c # r) = (c \<noteq> d \<and> avoids_char d r)"
| "avoids_char d (Cls p lo hi # r) = (\<not> p d \<and> avoids_char d r)"

definition scrubbable :: "regex \<Rightarrow> bool" where
  "scrubbable r \<longleftrightarrow> 10 < min_word r \<and> avoids_char CHR ''<'' r \<and> avoids_char CHR ''>'' r"

lemma min_word_le: "re_word r w \<Longrightarrow> min_word r \<le> length w"
proof (induction r w rule: re_word.induct)
  case (3 p lo hi r w)
  from "3.prems" show ?case
    by (rule re_word_ClsE) (use "3.IH" in fastforce)
qed auto

lemma avoids_char_word: "re_word r w \<Longrightarrow> avoids_char d r \<Longrightarrow> d \<notin> set w"
proof (induction r w rule: re_word.induct)
  case (3 p lo hi r w)
  from "3.prems"(1) show ?case
    by (rule re_word_ClsE) (use "3.IH" "3.prems"(2) in \<open>auto simp: list_all_iff\<close>)
qed auto

lemma scrubbable_word: "re_word r w \<Longrightarrow> scrubbable r \<Longrightarrow> unmarked w"
proof -
  assume w: "re_word r w" and r: "scrubbable r"
  from w r have len: "10 < length w" using min_word_le by (fastforce simp: scrubbable_def)
  have "\<not> contains w REDACTED"
  proof
    assume "contains w REDACTED"
    then obtain u v where "REDACTED = u @ w @ v" by (auto simp: contains_iff)
    from arg_cong [OF this, of length] have "length w \<le> 10" by (simp add: REDACTED_def)
    with len show False by simp
  qed
  with len avoids_char_word [OF w] r show ?thesis by (auto simp: scrubbable_def unmarked_def)
qed

lemma scrubbable_defaults: "list_all scrubbable DEFAULT_VALUE_PATTERNS"
  by (simp add: DEFAULT_VALUE_PATTERNS_def scrubbable_def is_alnum_def is_upper_def is_lower_def is_digit_def)

section \<open>What scrubbing leaves\<close>

lemma fold_sub_contains:
  assumes "unmarked w" and "contains w (fold (\<lambda>p t. p_sub p REDACTED t) (map regex_pattern rs) s)"
  shows "contains w s"
  using assms(2)
proof (induction rs arbitrary: s)
  case (Cons r rs)
  then have "contains w (re_sub r REDACTED s)" by simp
  with contains_re_sub assms(1) show ?case by blast
qed simp

lemma fold_replace_contains:
  assumes "unmarked w" and "contains w (fold (\<lambda>v t. replace_all v REDACTED t) vs s)" and "[] \<notin> set vs"
  shows "contains w s \<and> w \<notin> set vs"
  using assms(2,3)
proof (induction vs arbitrary: s)
  case (Cons v vs)
  then have "contains w (replace_all v REDACTED s)" "w \<notin> set vs" by auto
  with contains_replace_all [OF this(1) assms(1)] Cons.prems(2) show ?case by auto
qed simp

lemma Nil_scrub_order: "[] \<notin> set (scrub_order vs)"
  by (simp add: scrub_order_def MIN_SCRUBBABLE_LENGTH_def py_len_def)

lemma set_scrub_order: "set (scrub_order vs) = {v \<in> set vs. MIN_SCRUBBABLE_LENGTH \<le> py_len v}"
  by (auto simp: scrub_order_def)

lemma scrub_body_contains:
  assumes "unmarked w" and "contains w (scrub_body text vs (map regex_pattern rs))"
  shows "contains w text \<and> w \<notin> set (scrub_order vs)"
  using fold_replace_contains [OF assms(1) _ Nil_scrub_order] fold_sub_contains [OF assms(1)] assms(2)
  unfolding scrub_body_def by blast

lemma fold_sub_no_word:
  assumes w: "re_word r w" "unmarked w" "\<not> re_word r []" and "r \<in> set rs"
  shows "\<not> contains w (fold (\<lambda>p t. p_sub p REDACTED t) (map regex_pattern rs) s)"
  using assms(4)
proof (induction rs arbitrary: s)
  case (Cons q rs)
  show ?case
  proof (cases "r \<in> set rs")
    case True
    with Cons.IH show ?thesis by simp
  next
    case False
    with Cons.prems have "q = r" by simp
    with fold_sub_contains [OF w(2), of rs "re_sub r REDACTED s"] re_sub_no_word [OF w]
    show ?thesis by auto
  qed
qed simp

lemma scrub_body_no_match:
  assumes "r \<in> set rs" and "scrubbable r"
  shows "\<not> re_search r (scrub_body text vs (map regex_pattern rs))"
proof
  assume "re_search r (scrub_body text vs (map regex_pattern rs))"
  then obtain w where w: "re_word r w" "contains w (scrub_body text vs (map regex_pattern rs))"
    by (auto simp: re_search_iff)
  moreover have "\<not> re_word r []" using min_word_le [of r "[]"] assms(2) by (auto simp: scrubbable_def)
  ultimately show False
    using fold_sub_no_word [OF w(1) scrubbable_word [OF w(1) assms(2)] _ assms(1)]
    unfolding scrub_body_def by blast
qed

lemma contains_around:
  assumes "contains w (a @ d # b)" and "d \<notin> set w"
  shows "contains w a \<or> contains w b"
proof -
  from assms(1) obtain u v where eq: "a @ d # b = u @ w @ v" by (auto simp: contains_iff)
  show ?thesis
  proof (cases "length u + length w \<le> length a")
    case True
    have "a = take (length a) (a @ d # b)" by simp
    also have "\<dots> = u @ w @ take (length a - length u - length w) v" using True by (simp add: eq)
    finally show ?thesis unfolding contains_iff by blast
  next
    case False
    show ?thesis
    proof (cases "length a < length u")
      case True
      have "b = drop (Suc (length a)) (a @ d # b)" by simp
      also have "\<dots> = drop (Suc (length a)) u @ w @ v" using True by (simp add: eq)
      finally show ?thesis unfolding contains_iff by blast
    next
      case inside: False
      have "(a @ d # b) ! length a = d" by simp
      moreover have lt: "length a - length u < length w" using inside False by linarith
      ultimately have "w ! (length a - length u) = d" using eq inside False by (simp add: nth_append)
      with lt have "d \<in> set w" by (metis nth_mem)
      with assms(2) show ?thesis by simp
    qed
  qed
qed

lemma contains_prefix: "contains w (py_take n s) \<Longrightarrow> contains w s"
proof -
  assume "contains w (py_take n s)"
  moreover have "s = py_take n s @ concat (drop n (glyphs s))"
    unfolding py_take_def by (metis append_take_drop_id concat_append concat_glyphs)
  ultimately show ?thesis unfolding contains_iff by (metis append.assoc)
qed

lemma contains_truncated:
  assumes "contains w (truncate_text s n)" and "CHR ''.'' \<notin> set w" and "\<not> contains w ''(truncated)''"
  shows "contains w s"
proof (rule ccontr)
  assume no: "\<not> contains w s"
  with assms(1) have "contains w (py_take n s @ TRUNCATED)"
    by (simp add: truncate_text_def split: if_splits)
  then have "contains w (py_take n s @ CHR ''.'' # CHR ''.'' # CHR ''.'' # ''(truncated)'')"
    by (simp add: TRUNCATED_def)
  from contains_around [OF this assms(2)] no contains_prefix
  have "contains w ([] @ CHR ''.'' # CHR ''.'' # ''(truncated)'')" by auto
  from contains_around [OF this assms(2)] have "contains w ([] @ CHR ''.'' # ''(truncated)'')"
    by (auto simp: starts_with_iff)
  from contains_around [OF this assms(2)] assms(3) show False by (auto simp: starts_with_iff)
qed

lemma py_len_truncate: "py_len (truncate_text s n) \<le> n + 14"
proof (cases "py_len s \<le> n")
  case False
  have "py_len (py_take n s @ TRUNCATED) = py_len (py_take n s) + py_len TRUNCATED"
    by (rule py_len_append) (simp add: TRUNCATED_def is_cont_def)
  also have "py_len TRUNCATED = 14" by (simp add: TRUNCATED_def py_len_def is_cont_def)
  finally show ?thesis using False by (simp add: truncate_text_def py_len_take)
qed (simp add: truncate_text_def)



text \<open>
  No text matching one of the built-in secret patterns survives in what scrubbing keeps of
  a message: the kept text, before the truncation suffix, contains no match of any of them.
\<close>

theorem scrub_text_hides_default_patterns:
  "\<exists>kept. (scrub_text text vs (compiled_defaults @ map regex_pattern rs) n = kept
         \<or> scrub_text text vs (compiled_defaults @ map regex_pattern rs) n = kept @ TRUNCATED)
     \<and> \<not> value_matches_patterns kept compiled_defaults"
proof -
  let ?b = "scrub_body text vs (compiled_defaults @ map regex_pattern rs)"
  have no: "\<not> re_search r ?b" if "r \<in> set DEFAULT_VALUE_PATTERNS" for r
    using scrub_body_no_match [of r "DEFAULT_VALUE_PATTERNS @ rs" "text" vs] that scrubbable_defaults
    by (simp add: compiled_defaults_def list_all_iff)
  have "\<not> value_matches_patterns kept compiled_defaults" if "kept = ?b \<or> kept = py_take n ?b" for kept
    using that no contains_prefix
    by (auto simp: value_matches_patterns_def compiled_defaults_def re_search_iff)
  then show ?thesis
    by (cases "py_len ?b \<le> n") (auto simp: scrub_text_def truncate_text_def)
qed

text \<open>
  Everything shown or stored as a summary or a scrubbed message is bounded: at most 2014
  code points for a summary, the given bound plus the 14 of the truncation suffix for a message.
\<close>

theorem summaries_bounded:
  "py_len (bounded_summary P j) \<le> MAX_SUMMARY_TOTAL_CHARS + 14
   \<and> py_len (scrub_text text vs pats n) \<le> n + 14"
  by (cases j) (simp_all add: scrub_text_def py_len_truncate)

end
