(* ===== verification/Identity.thy ===== *)
theory Identity
  imports Redaction
begin

text \<open>
  \<open>src/tesera/identity.py\<close>: key identifiers, the signing identities, signature checks, the
  trusted set and key rotation. A public key is its 32 raw bytes, a private key is opaque
  bytes; Ed25519 itself is the platform's. A key file holds a key, a key of another kind or
  unreadable text; PEM encryption and directory permissions are not modelled.
\<close>

section \<open>Key identifiers and signatures\<close>

definition public_key_fingerprint :: "platform \<Rightarrow> bytes \<Rightarrow> string" where
  "public_key_fingerprint P pk = sha256_hex P pk"

definition key_id_for :: "platform \<Rightarrow> bytes \<Rightarrow> string" where
  "key_id_for P pk = ''ed25519:'' @ take 16 (public_key_fingerprint P pk)"

text \<open>An identity is what the guard needs of it: its key id and its signing function.\<close>

record signer =
  s_key_id :: string
  s_sign :: "bytes \<Rightarrow> exn + string"

text \<open>\<open>LocalSigningIdentity\<close> and \<open>EphemeralSigningIdentity\<close> sign alike.\<close>

definition local_sign :: "platform \<Rightarrow> bytes \<Rightarrow> bytes \<Rightarrow> exn + string" where
  "local_sign P sk digest = Inr (b64_encode (ed_sign P sk digest))"

definition local_signer :: "platform \<Rightarrow> bytes \<Rightarrow> signer" where
  "local_signer P sk = \<lparr>s_key_id = key_id_for P (ed_public P sk), s_sign = local_sign P sk\<rparr>"

text \<open>
  \<open>CallbackSigningIdentity\<close>: the external signer raises, returns something that is not a
  string (None) or returns a text.
\<close>

definition callback_signer ::
  "platform \<Rightarrow> bytes \<Rightarrow> (bytes \<Rightarrow> exn + string option) \<Rightarrow> string option \<Rightarrow> signer" where
  "callback_signer P pk sign_fn kid =
     \<lparr>s_key_id = (case kid of Some k \<Rightarrow> if k \<noteq> [] then k else key_id_for P pk | None \<Rightarrow> key_id_for P pk),
      s_sign = (\<lambda>digest. case sign_fn digest of
         Inl e \<Rightarrow> (if is_exception e then Inl SigningError else Inl e)
       | Inr None \<Rightarrow> Inl SigningError
       | Inr (Some s) \<Rightarrow> Inr s)\<rparr>"

definition verify_signature :: "platform \<Rightarrow> bytes \<Rightarrow> bytes \<Rightarrow> string \<Rightarrow> bool" where
  "verify_signature P pk digest sig64 =
     (case b64_decode sig64 of None \<Rightarrow> False | Some sg \<Rightarrow> ed_verify P pk sg digest)"

text \<open>\<open>_to_keyring\<close> of the verifier: later keys overwrite earlier ones with the same id.\<close>

type_synonym keyring = "(string, bytes) dict"

definition to_keyring :: "platform \<Rightarrow> bytes list \<Rightarrow> keyring" where
  "to_keyring P keys = fold (\<lambda>pk ring. dset (key_id_for P pk) pk ring) keys []"

text \<open>Ed25519 accepts what the private key signs.\<close>

definition ed_correct :: "platform \<Rightarrow> bytes \<Rightarrow> bool" where
  "ed_correct P sk \<longleftrightarrow> (\<forall>m. ed_verify P (ed_public P sk) (ed_sign P sk m) m)"

lemma verify_local_sign:
  "ed_correct P sk \<Longrightarrow> local_sign P sk d = Inr s \<Longrightarrow> verify_signature P (ed_public P sk) d s"
  by (auto simp: local_sign_def verify_signature_def b64_roundtrip ed_correct_def)

lemma ed_correct_toy: "ed_correct toy_platform sk"
  by (simp add: ed_correct_def toy_platform_def)

lemma dget_keyring_fold:
  "dget (fold (\<lambda>pk ring. dset (key_id_for P pk) pk ring) keys ring) k = Some pk \<Longrightarrow>
   (pk \<in> set keys \<and> k = key_id_for P pk) \<or> dget ring k = Some pk"
proof (induction keys arbitrary: ring)
  case (Cons a keys)
  from Cons.prems have "dget (fold (\<lambda>pk ring. dset (key_id_for P pk) pk ring) keys
      (dset (key_id_for P a) a ring)) k = Some pk" by simp
  from Cons.IH [OF this] show ?case by (auto split: if_splits)
qed simp

lemma dget_to_keyring_mem: "dget (to_keyring P keys) k = Some pk \<Longrightarrow> pk \<in> set keys \<and> k = key_id_for P pk"
  using dget_keyring_fold [of P keys "[]" k pk] by (simp add: to_keyring_def)

section \<open>Passwords\<close>

datatype password = NoPassword | BytesPassword bytes | TextPassword string

definition password_bytes :: "password \<Rightarrow> exn + bytes option" where
  "password_bytes pw =
     (case pw of
        NoPassword \<Rightarrow> Inr None
      | BytesPassword b \<Rightarrow> if b = [] then Inl IdentityError else Inr (Some b)
      | TextPassword s \<Rightarrow>
          if \<not> utf8_ok s then Inl UnicodeEncodeError
          else if s = [] then Inl IdentityError else Inr (Some s))"

section \<open>The evidence home\<close>

text \<open>A key file: an Ed25519 key, a key of another algorithm, or something that does not load.\<close>

datatype keyfile = EdKey bytes | OtherKey | BadFile

text \<open>
  The files of the home that concern keys. \<open>hm_shared\<close> is whether the permission bits of the
  private key give others access (never on a platform without them). The trusted set is the
  directory \<open>trusted_keys\<close>, a map from file stem to key file.
\<close>

record home =
  hm_private :: "keyfile option"
  hm_shared :: bool
  hm_public :: "keyfile option"
  hm_trusted :: "(string, keyfile) dict"

definition empty_home :: home where
  "empty_home = \<lparr>hm_private = None, hm_shared = False, hm_public = None, hm_trusted = []\<rparr>"

definition load_key :: "keyfile \<Rightarrow> exn + bytes" where
  "load_key f = (case f of EdKey k \<Rightarrow> Inr k | _ \<Rightarrow> Inl IdentityError)"

text \<open>\<open>register_public_key\<close>: a file already there is left as it is.\<close>

definition register_public_key :: "platform \<Rightarrow> bytes \<Rightarrow> home \<Rightarrow> home" where
  "register_public_key P pk hm =
     (let stem = public_key_fingerprint P pk in
      if dget (hm_trusted hm) stem \<noteq> None then hm
      else hm\<lparr>hm_trusted := dset stem (EdKey pk) (hm_trusted hm)\<rparr>)"

text \<open>\<open>load_trusted_public_keys\<close>, in the order of the file names.\<close>

definition load_trusted_public_keys :: "home \<Rightarrow> exn + bytes list" where
  "load_trusted_public_keys hm =
     bindR (mapR (\<lambda>(stem, f). load_key f) (sort_key fst (hm_trusted hm))) (\<lambda>keys.
       if keys \<noteq> [] then Inr keys
       else (case hm_public hm of
          None \<Rightarrow> Inr []
        | Some f \<Rightarrow> bindR (load_key f) (\<lambda>k. Inr [k])))"

text \<open>\<open>LocalSigningIdentity.load_or_create\<close>; \<open>fresh\<close> is the key the library would generate.\<close>

definition load_or_create :: "platform \<Rightarrow> bytes \<Rightarrow> home \<Rightarrow> exn + bytes \<times> home" where
  "load_or_create P fresh hm =
     (let ready = (\<lambda>sk hm.
            let hm = (if hm_public hm = None then hm\<lparr>hm_public := Some (EdKey (ed_public P sk))\<rparr> else hm)
            in Inr (sk, register_public_key P (ed_public P sk) hm))
      in case hm_private hm of
           Some f \<Rightarrow>
             (if hm_shared hm then Inl IdentityError else bindR (load_key f) (\<lambda>sk. ready sk hm))
         | None \<Rightarrow>
             ready fresh (hm\<lparr>hm_private := Some (EdKey fresh), hm_shared := False,
                            hm_public := Some (EdKey (ed_public P fresh))\<rparr>))"

text \<open>\<open>generate_private_key\<close>: refuses to overwrite.\<close>

definition generate_private_key :: "bytes \<Rightarrow> password \<Rightarrow> keyfile option \<Rightarrow> exn + keyfile" where
  "generate_private_key fresh pw existing =
     (if existing \<noteq> None then Inl IdentityError
      else bindR (password_bytes pw) (\<lambda>_. Inr (EdKey fresh)))"

lemma dget_register:
  "dget (hm_trusted (register_public_key P pk hm)) stem =
     (if stem = public_key_fingerprint P pk \<and> dget (hm_trusted hm) stem = None then Some (EdKey pk)
      else dget (hm_trusted hm) stem)"
  by (auto simp: register_public_key_def Let_def)

text \<open>A home whose trusted set was only ever written by the library.\<close>

definition home_wf :: "platform \<Rightarrow> home \<Rightarrow> bool" where
  "home_wf P hm \<longleftrightarrow>
     distinct (map fst (hm_trusted hm))
     \<and> list_all (\<lambda>(stem, f). \<exists>pk. f = EdKey pk \<and> stem = public_key_fingerprint P pk) (hm_trusted hm)"

lemma home_wf_register: "home_wf P hm \<Longrightarrow> home_wf P (register_public_key P pk hm)"
  by (auto simp: home_wf_def register_public_key_def Let_def list_all_iff dest!: dset_values)

definition fingerprints_distinct :: "platform \<Rightarrow> bool" where
  "fingerprints_distinct P \<longleftrightarrow> inj (sha256 P)"

lemma mapR_load_trusted:
  assumes "list_all (\<lambda>(stem, f). \<exists>pk. f = EdKey pk \<and> stem = public_key_fingerprint P pk) tr"
  shows "\<exists>keys. mapR (\<lambda>(stem, f). load_key f) tr = Inr keys
    \<and> set keys = {pk. \<exists>stem. (stem, EdKey pk) \<in> set tr}"
  using assms
  by (induction tr) (auto simp: load_key_def)

lemma load_trusted_wf:
  assumes "home_wf P hm" and "hm_trusted hm \<noteq> []"
  shows "\<exists>keys. load_trusted_public_keys hm = Inr keys
    \<and> set keys = {pk. \<exists>stem. (stem, EdKey pk) \<in> set (hm_trusted hm)}"
proof -
  have "list_all (\<lambda>(stem, f). \<exists>pk. f = EdKey pk \<and> stem = public_key_fingerprint P pk)
      (sort_key fst (hm_trusted hm))"
    using assms(1) by (auto simp: home_wf_def list_all_iff)
  from mapR_load_trusted [OF this] obtain keys where
    k: "mapR (\<lambda>(stem, f). load_key f) (sort_key fst (hm_trusted hm)) = Inr keys"
    "set keys = {pk. \<exists>stem. (stem, EdKey pk) \<in> set (hm_trusted hm)}" by auto
  from k(1) assms(2) have "keys \<noteq> []"
    using mapR_length [OF k(1)] by auto
  with k show ?thesis by (simp add: load_trusted_public_keys_def)
qed

end
