(* ===== verification/JournalFile.thy ===== *)
theory JournalFile
  imports Identity
begin

text \<open>
  The journal as a file (\<open>src/tesera/journal.py\<close>): events and their digests, one JSON object
  per line, the backward search for the last line and the forward scans. A file is its bytes.
\<close>

section \<open>Events\<close>

definition EVENT_SCHEMA_VERSION :: string where "EVENT_SCHEMA_VERSION = ''1''"

text \<open>An optional string as a JSON value: \<open>None\<close> is null.\<close>

definition opt_str :: "string option \<Rightarrow> json" where
  "opt_str s = (case s of None \<Rightarrow> JNull | Some t \<Rightarrow> JStr t)"

definition unsigned_payload :: "event \<Rightarrow> event" where
  "unsigned_payload e = filter (\<lambda>(k, v). k \<notin> {''event_hash'', ''signature''}) e"

definition event_digest :: "platform \<Rightarrow> event \<Rightarrow> exn + bytes" where
  "event_digest P payload =
     bindR (canonical_json_bytes P (JObj payload)) (\<lambda>b. Inr (sha256 P b))"

definition finalize_event :: "platform \<Rightarrow> event \<Rightarrow> (bytes \<Rightarrow> exn + string) \<Rightarrow> exn + event" where
  "finalize_event P payload sign =
     bindR (event_digest P payload) (\<lambda>digest.
       bindR (sign digest) (\<lambda>s.
         Inr (dset ''signature'' (JStr s) (dset ''event_hash'' (JStr (to_hex digest)) payload))))"

section \<open>Lines\<close>

text \<open>One event per line: the text that is appended, newline included.\<close>

definition event_line :: "platform \<Rightarrow> event \<Rightarrow> exn + bytes" where
  "event_line P e =
     (let line = json_text P (JObj e) in
      if utf8_ok line then Inr (line @ [nl]) else Inl UnicodeEncodeError)"

text \<open>A line of a scan: blank and corrupt lines and values that are not objects are skipped.\<close>

definition scan_line :: "platform \<Rightarrow> bytes \<Rightarrow> event option" where
  "scan_line P raw =
     (let line = bstrip raw in
      if line = [] then None
      else case json_loads P line of Some (JObj e) \<Rightarrow> Some e | _ \<Rightarrow> None)"

definition scan_events :: "platform \<Rightarrow> bytes \<Rightarrow> event list" where
  "scan_events P f = List.map_filter (scan_line P) (py_lines f)"

definition count_event_lines :: "bytes \<Rightarrow> nat" where
  "count_event_lines f = length (filter (\<lambda>raw. bstrip raw \<noteq> []) (py_lines f))"

section \<open>The last line\<close>

definition event_hash_from_line :: "platform \<Rightarrow> bytes \<Rightarrow> exn + string" where
  "event_hash_from_line P line =
     (case json_loads P line of
        None \<Rightarrow> Inl JournalError
      | Some (JObj e) \<Rightarrow>
          (case dget e ''event_hash'' of
             None \<Rightarrow> Inl JournalError
           | Some (JStr h) \<Rightarrow> Inr h
           | Some _ \<Rightarrow> Inl JournalError)
      | Some _ \<Rightarrow> Inl TypeError)" \<comment> \<open>indexing a value that is not an object\<close>

definition TAIL_READ_BYTES :: nat where "TAIL_READ_BYTES = 65536"

definition is_crlf :: "char \<Rightarrow> bool" where "is_crlf c \<longleftrightarrow> c = cr \<or> c = nl"

text \<open>\<open>rfind(b"\\n")\<close>: what follows the last newline, if there is one.\<close>

definition after_last_nl :: "bytes \<Rightarrow> bytes" where
  "after_last_nl s = rev (takeWhile (\<lambda>c. c \<noteq> nl) (rev s))"

lemma window_grows:
  "n - TAIL_READ_BYTES * 2 ^ k \<noteq> 0 \<Longrightarrow>
   n - TAIL_READ_BYTES * 2 ^ Suc k < n - TAIL_READ_BYTES * 2 ^ k"
proof -
  assume "n - TAIL_READ_BYTES * 2 ^ k \<noteq> 0"
  moreover have "TAIL_READ_BYTES * 2 ^ k < TAIL_READ_BYTES * 2 ^ Suc k"
    by (simp add: TAIL_READ_BYTES_def)
  ultimately show ?thesis by linarith
qed

text \<open>
  The backward read: the k-th window is the last \<open>TAIL_READ_BYTES * 2 ^ k\<close> bytes, and the
  window doubles as long as it holds no complete line.
\<close>

function tail_hash :: "platform \<Rightarrow> bytes \<Rightarrow> nat \<Rightarrow> exn + string option" where
  "tail_hash P f k =
     (let start = length f - TAIL_READ_BYTES * 2 ^ k;
          stripped = rstrip is_crlf (drop start f)
      in if stripped = [] then (if start = 0 then Inr None else tail_hash P f (Suc k))
         else if nl \<in> set stripped then
           bindR (event_hash_from_line P (after_last_nl stripped)) (\<lambda>h. Inr (Some h))
         else if start = 0 then bindR (event_hash_from_line P stripped) (\<lambda>h. Inr (Some h))
         else tail_hash P f (Suc k))"
  by pat_completeness auto
termination
  by (relation "measure (\<lambda>(P, f, k). length f - TAIL_READ_BYTES * 2 ^ k)")
    (use window_grows in \<open>auto simp del: power_Suc diff_is_0_eq\<close>)

declare tail_hash.simps [simp del]

definition read_last_event_hash :: "platform \<Rightarrow> bytes \<Rightarrow> exn + string option" where
  "read_last_event_hash P f = (if f = [] then Inr None else tail_hash P f 0)"

text \<open>\<open>_read_last_event_hash_scan\<close>, the forward reference the sources keep.\<close>

definition read_last_event_hash_scan :: "platform \<Rightarrow> bytes \<Rightarrow> exn + string option" where
  "read_last_event_hash_scan P f =
     (let lines = filter (\<lambda>l. l \<noteq> []) (map bstrip (py_lines f)) in
      if lines = [] then Inr None
      else bindR (event_hash_from_line P (last lines)) (\<lambda>h. Inr (Some h)))"

definition locked_handle_state :: "platform \<Rightarrow> bytes \<Rightarrow> exn + nat \<times> string option" where
  "locked_handle_state P f =
     (if f = [] then Inr (0, None)
      else bindR (read_last_event_hash P f) (\<lambda>h. Inr (length f, h)))"

section \<open>The window finds the last line\<close>

text \<open>What the backward read computes, without windows.\<close>

definition last_line_hash :: "platform \<Rightarrow> bytes \<Rightarrow> exn + string option" where
  "last_line_hash P f =
     (let s = rstrip is_crlf f in
      if s = [] then Inr None
      else bindR (event_hash_from_line P (after_last_nl s)) (\<lambda>h. Inr (Some h)))"

lemma after_last_nl_no_nl: "nl \<notin> set s \<Longrightarrow> after_last_nl s = s"
proof -
  assume "nl \<notin> set s"
  then have "takeWhile (\<lambda>c. c \<noteq> nl) (rev s) = rev s" by (auto simp: takeWhile_eq_all_conv)
  then show ?thesis unfolding after_last_nl_def by (metis rev_rev_ident)
qed

lemma after_last_nl_append: "nl \<in> set t \<Longrightarrow> after_last_nl (s @ t) = after_last_nl t"
proof -
  assume "nl \<in> set t"
  then have "takeWhile (\<lambda>c. c \<noteq> nl) (rev t @ rev s) = takeWhile (\<lambda>c. c \<noteq> nl) (rev t)"
    by (intro takeWhile_append1 [of nl]) auto
  then show ?thesis by (simp add: after_last_nl_def)
qed

lemma after_last_nl_split: "nl \<notin> set t \<Longrightarrow> after_last_nl (s @ nl # t) = t"
proof -
  assume "nl \<notin> set t"
  then have "takeWhile (\<lambda>c. c \<noteq> nl) (rev t @ nl # rev s) = rev t"
    by (intro takeWhile_append_stop) auto
  then show ?thesis by (simp add: after_last_nl_def)
qed

lemma rstrip_append_keep: "rstrip Q t \<noteq> [] \<Longrightarrow> rstrip Q (s @ t) = s @ rstrip Q t"
proof -
  assume "rstrip Q t \<noteq> []"
  then have "dropWhile Q (rev t) \<noteq> []" by (simp add: rstrip_def)
  then obtain c where "c \<in> set (rev t)" "\<not> Q c" by (metis dropWhile_eq_Nil_conv)
  then have "dropWhile Q (rev t @ rev s) = dropWhile Q (rev t) @ rev s"
    by (rule dropWhile_append1)
  then show ?thesis by (simp add: rstrip_def)
qed

lemma tail_hash_unfold:
  assumes "start = length f - TAIL_READ_BYTES * 2 ^ k" and "s = rstrip is_crlf (drop start f)"
  shows "tail_hash P f k =
     (if s = [] then (if start = 0 then Inr None else tail_hash P f (Suc k))
      else if nl \<in> set s then bindR (event_hash_from_line P (after_last_nl s)) (\<lambda>h. Inr (Some h))
      else if start = 0 then bindR (event_hash_from_line P s) (\<lambda>h. Inr (Some h))
      else tail_hash P f (Suc k))"
  by (subst tail_hash.simps) (simp only: Let_def assms)

lemma tail_hash_last_line: "tail_hash P f k = last_line_hash P f"
proof (induction "length f - TAIL_READ_BYTES * 2 ^ k" arbitrary: k rule: less_induct)
  case less
  define start where "start = length f - TAIL_READ_BYTES * 2 ^ k"
  define s where "s = rstrip is_crlf (drop start f)"
  note unfold = tail_hash_unfold [OF start_def s_def, of P]
  have again: "tail_hash P f (Suc k) = last_line_hash P f" if "start \<noteq> 0"
    using less [of "Suc k"] window_grows that unfolding start_def by blast
  show ?case
  proof (cases "s = []")
    case True
    then have "start = 0 \<Longrightarrow> last_line_hash P f = Inr None"
      unfolding s_def last_line_hash_def by simp
    with True again show ?thesis unfolding unfold by simp
  next
    case False
    then have full: "rstrip is_crlf f = take start f @ s"
      using rstrip_append_keep [of is_crlf "drop start f" "take start f"] unfolding s_def by simp
    have last: "last_line_hash P f = bindR (event_hash_from_line P (after_last_nl (take start f @ s)))
        (\<lambda>h. Inr (Some h))"
      using False by (simp add: last_line_hash_def full)
    show ?thesis
    proof (cases "nl \<in> set s")
      case True
      with False after_last_nl_append [OF True] show ?thesis unfolding unfold last by simp
    next
      case no: False
      show ?thesis
      proof (cases "start = 0")
        case True
        with False no show ?thesis unfolding unfold last by (simp add: after_last_nl_no_nl)
      next
        case start: False
        with False no again show ?thesis unfolding unfold by simp
      qed
    qed
  qed
qed

lemma read_last_event_hash_eq: "read_last_event_hash P f = last_line_hash P f"
  by (simp add: read_last_event_hash_def tail_hash_last_line last_line_hash_def rstrip_def)

section \<open>Files of event lines\<close>

abbreviation event_wf :: "platform \<Rightarrow> event \<Rightarrow> bool" where
  "event_wf P e \<equiv> json_wf P (JObj e)"

definition line_of :: "platform \<Rightarrow> event \<Rightarrow> bytes" where
  "line_of P e = json_text P (JObj e) @ [nl]"

text \<open>A file that may be extended by a line: empty, or ending with a newline.\<close>

definition line_end :: "bytes \<Rightarrow> bool" where
  "line_end f \<longleftrightarrow> f = [] \<or> ends_nl f"

lemma event_line_wf: "event_wf P e \<Longrightarrow> event_line P e = Inr (line_of P e)"
  using utf8_ok_json_text [of P "JObj e"] by (simp add: event_line_def line_of_def Let_def)

lemma event_line_Inr: "event_line P e = Inr b \<Longrightarrow> b = line_of P e"
  by (auto simp: event_line_def line_of_def Let_def split: if_splits)

lemma json_text_obj: "json_text P (JObj e) = CHR ''{'' # dump_members P '','' '':'' (sort_members e) @ ''}''"
  by (simp add: json_text_def jsort_JObj del: jsort.simps)

lemma json_text_no_space:
  "json_text P (JObj e) \<noteq> [] \<and> \<not> is_bspace (hd (json_text P (JObj e))) \<and> \<not> is_bspace (last (json_text P (JObj e)))
   \<and> \<not> is_crlf (last (json_text P (JObj e)))"
  by (simp add: json_text_obj is_bspace_def is_crlf_def)

lemma bstrip_line: "bstrip (line_of P e) = json_text P (JObj e)"
  unfolding line_of_def using json_text_no_space [of P e] by (intro strip_by_line) (auto simp: is_bspace_def)

lemma line_end_line [simp]: "line_end (f @ line_of P e)"
  by (simp add: line_end_def line_of_def ends_nl_def)

lemma line_end_Nil [simp]: "line_end []"
  by (simp add: line_end_def)

lemma py_lines_extend:
  assumes "line_end f" and "event_wf P e"
  shows "py_lines (f @ line_of P e) = py_lines f @ [line_of P e]"
proof -
  have "py_lines (line_of P e) = [line_of P e]"
    unfolding line_of_def using no_nl_json_text [OF assms(2)] py_lines_line by force
  with assms(1) show ?thesis by (auto simp: line_end_def py_lines_append)
qed

lemma scan_line_line: "event_wf P e \<Longrightarrow> scan_line P (line_of P e) = Some (sort_members e)"
  using json_text_no_space [of P e] loads_text [of P "JObj e"]
  by (simp add: scan_line_def bstrip_line Let_def jsort_JObj del: jsort.simps json_wf.simps)

lemma scan_events_extend:
  "line_end f \<Longrightarrow> event_wf P e \<Longrightarrow>
   scan_events P (f @ line_of P e) = scan_events P f @ [sort_members e]"
  by (simp add: scan_events_def py_lines_extend List.map_filter_def scan_line_line del: json_wf.simps)

lemma count_event_lines_extend:
  "line_end f \<Longrightarrow> event_wf P e \<Longrightarrow> count_event_lines (f @ line_of P e) = Suc (count_event_lines f)"
  using json_text_no_space [of P e]
  by (simp add: count_event_lines_def py_lines_extend bstrip_line del: json_wf.simps)

lemma event_hash_from_text:
  assumes "event_wf P e" and "dget e ''event_hash'' = Some (JStr h)"
  shows "event_hash_from_line P (json_text P (JObj e)) = Inr h"
proof -
  from assms(1) have "distinct (map fst e)" by simp
  from dget_sort_members [OF this, of "''event_hash''"] assms(2)
  have "dget (sort_members e) ''event_hash'' = Some (JStr h)" by simp
  with loads_text [OF assms(1)] show ?thesis
    by (simp add: event_hash_from_line_def jsort_JObj del: jsort.simps)
qed

lemma last_line_extend:
  assumes "line_end f" and "event_wf P e"
  shows "after_last_nl (rstrip is_crlf (f @ line_of P e)) = json_text P (JObj e)
    \<and> rstrip is_crlf (f @ line_of P e) \<noteq> []"
proof -
  let ?t = "json_text P (JObj e)"
  have "rstrip is_crlf (?t @ [nl]) = ?t"
    using json_text_no_space [of P e] by (simp add: rstrip_snoc rstrip_id is_crlf_def)
  moreover have ne: "?t \<noteq> []" using json_text_no_space by blast
  ultimately have "rstrip is_crlf (f @ line_of P e) = f @ ?t"
    by (metis line_of_def rstrip_append_keep)
  moreover have "after_last_nl (f @ ?t) = ?t"
  proof (cases "f = []")
    case True
    then show ?thesis using after_last_nl_no_nl [OF no_nl_json_text [OF assms(2)]] by simp
  next
    case False
    with assms(1) obtain g where "f = g @ [nl]"
      by (auto simp: line_end_def ends_nl_def) (metis append_butlast_last_id)
    then show ?thesis using after_last_nl_split [OF no_nl_json_text [OF assms(2)]] by simp
  qed
  ultimately show ?thesis using ne by simp
qed

lemma read_last_extend:
  assumes "line_end f" and "event_wf P e" and "dget e ''event_hash'' = Some (JStr h)"
  shows "read_last_event_hash P (f @ line_of P e) = Inr (Some h)"
  using last_line_extend [OF assms(1,2)] event_hash_from_text [OF assms(2,3)]
  by (simp add: read_last_event_hash_eq last_line_hash_def Let_def del: json_wf.simps)

text \<open>
  C31: The backward tail read is exact: for every file, whatever its size and content, the
  doubling window returns what reading the last line of the whole file would return. On a file
  whose last line is an event the library wrote, the forward scan kept as the reference agrees.
\<close>

theorem tail_read_exact:
  "read_last_event_hash P f = last_line_hash P f
   \<and> (line_end g \<and> event_wf P e \<longrightarrow>
        read_last_event_hash P (g @ line_of P e) = read_last_event_hash_scan P (g @ line_of P e))"
proof -
  have "read_last_event_hash P (g @ line_of P e) = read_last_event_hash_scan P (g @ line_of P e)"
    if "line_end g" "event_wf P e"
    using last_line_extend [OF that] json_text_no_space [of P e] that
    by (simp add: read_last_event_hash_eq last_line_hash_def read_last_event_hash_scan_def Let_def
        py_lines_extend bstrip_line del: json_wf.simps)
  then show ?thesis by (simp add: read_last_event_hash_eq del: json_wf.simps)
qed

definition demo_event :: event where
  "demo_event = [(''event_type'', JStr ''decision''), (''event_hash'', JStr ''ab'')]"

lemma tail_read_exact_witness:
  "read_last_event_hash toy_platform (line_of toy_platform demo_event)
     = read_last_event_hash_scan toy_platform (line_of toy_platform demo_event)
   \<and> read_last_event_hash toy_platform (line_of toy_platform demo_event) = Inr (Some ''ab'')"
proof
  have wf: "event_wf toy_platform demo_event" by (simp add: demo_event_def)
  with tail_read_exact [of toy_platform "[]" "[]" demo_event]
  show "read_last_event_hash toy_platform (line_of toy_platform demo_event)
     = read_last_event_hash_scan toy_platform (line_of toy_platform demo_event)"
    by (simp del: json_wf.simps)
  show "read_last_event_hash toy_platform (line_of toy_platform demo_event) = Inr (Some ''ab'')"
    using read_last_extend [of "[]" toy_platform demo_event "''ab''"] wf
    by (simp add: demo_event_def)
qed

end
