(* ===== verification/Idempotency.thy ===== *)
theory Idempotency
  imports JournalFile
begin

text \<open>
  The idempotency machinery of \<open>src/tesera/journal.py\<close>: the full scans, the incremental tables
  that stand in for them, the shared predicate that decides whether a prior decision blocks a
  new execution, and the caches. The per-key index is proved to answer as the scan does, on
  the journals whose outcomes and resolutions follow their decision.
\<close>

section \<open>The scan\<close>

definition dappend :: "'k \<Rightarrow> 'v \<Rightarrow> ('k, 'v list) dict \<Rightarrow> ('k, 'v list) dict" where
  "dappend k x d = dset k (dget_default d k [] @ [x]) d"

definition etype :: "string \<Rightarrow> event \<Rightarrow> bool" where
  "etype t e \<longleftrightarrow> jget e ''event_type'' = JStr t"

record links =
  l_decisions :: "(string, event) dict"
  l_outcomes :: "(string, event list) dict"
  l_resolutions :: "(string, event list) dict"

definition no_links :: links where
  "no_links = \<lparr>l_decisions = [], l_outcomes = [], l_resolutions = []\<rparr>"

definition link_event :: "event \<Rightarrow> links \<Rightarrow> links" where
  "link_event e l =
     (if etype ''decision'' e then
        (case jget e ''event_id'' of
           JStr i \<Rightarrow> (if dget (l_decisions l) i = None
                     then l\<lparr>l_decisions := dset i e (l_decisions l)\<rparr> else l)
         | _ \<Rightarrow> l)
      else if etype ''outcome'' e then
        (case jget e ''decision_event_id'' of
           JStr r \<Rightarrow> l\<lparr>l_outcomes := dappend r e (l_outcomes l)\<rparr> | _ \<Rightarrow> l)
      else if etype ''resolution'' e then
        (case jget e ''decision_event_id'' of
           JStr r \<Rightarrow> l\<lparr>l_resolutions := dappend r e (l_resolutions l)\<rparr> | _ \<Rightarrow> l)
      else l)"

definition scan_links :: "event list \<Rightarrow> links" where
  "scan_links es = fold link_event es no_links"

text \<open>\<open>_blocking_prior_from_state\<close>.\<close>

definition resolved_clear :: "(string, event list) dict \<Rightarrow> string \<Rightarrow> bool" where
  "resolved_clear resolutions i =
     (case dget resolutions i of
        None \<Rightarrow> False
      | Some linked \<Rightarrow>
          linked \<noteq> [] \<and> jget (last linked) ''resolution'' = JStr ''confirmed_not_completed'')"

definition candidate :: "string \<Rightarrow> string \<Rightarrow> event \<Rightarrow> bool" where
  "candidate action key e \<longleftrightarrow>
     jget e ''decision'' = JStr ''allowed'' \<and> jget e ''action_name'' = JStr action
     \<and> jget e ''idempotency_key'' = JStr key \<and> jget e ''dry_run'' \<noteq> JBool True"

definition blocks :: "(string, event list) dict \<Rightarrow> (string, event list) dict \<Rightarrow> string \<Rightarrow> bool" where
  "blocks outcomes resolutions i =
     (let linked = dget_default outcomes i [] in
      if \<exists>oc \<in> set linked. jget oc ''status'' = JStr ''succeeded'' then True
      else if linked = [] \<and> resolved_clear resolutions i then False
      else linked = [])"

definition blocking_prior_from_state ::
  "(string, event) dict \<Rightarrow> (string, event list) dict \<Rightarrow> string \<Rightarrow> string
     \<Rightarrow> (string, event list) dict \<Rightarrow> event option" where
  "blocking_prior_from_state decisions outcomes action key resolutions =
     map_option snd
       (find (\<lambda>(i, e). candidate action key e \<and> blocks outcomes resolutions i) decisions)"

definition event_id_of :: "event \<Rightarrow> string option" where
  "event_id_of e = str_of (jget e ''event_id'')"

definition scan_blocking_idempotent :: "platform \<Rightarrow> bytes \<Rightarrow> string \<Rightarrow> string \<Rightarrow> string option" where
  "scan_blocking_idempotent P f action key =
     (let l = scan_links (scan_events P f) in
      case blocking_prior_from_state (l_decisions l) (l_outcomes l) action key (l_resolutions l) of
        None \<Rightarrow> None
      | Some e \<Rightarrow> event_id_of e)"

text \<open>The scan of \<open>find_completed_idempotent_decision\<close>: here a repeated id overwrites.\<close>

definition completed_decisions :: "event list \<Rightarrow> (string, event) dict" where
  "completed_decisions es =
     fold (\<lambda>e d. if etype ''decision'' e
                 then (case jget e ''event_id'' of JStr i \<Rightarrow> dset i e d | _ \<Rightarrow> d) else d) es []"

definition succeeded_refs :: "event list \<Rightarrow> string list" where
  "succeeded_refs es =
     List.map_filter
       (\<lambda>e. if etype ''outcome'' e \<and> jget e ''status'' = JStr ''succeeded''
            then str_of (jget e ''decision_event_id'') else None) es"

definition scan_completed_idempotent :: "event list \<Rightarrow> string \<Rightarrow> string \<Rightarrow> event option" where
  "scan_completed_idempotent es action key =
     map_option snd
       (find (\<lambda>(i, e). jget e ''decision'' = JStr ''allowed'' \<and> jget e ''action_name'' = JStr action
                 \<and> jget e ''idempotency_key'' = JStr key \<and> i \<in> set (succeeded_refs es))
         (completed_decisions es))"

section \<open>The tables\<close>

record idem_tables =
  t_decisions :: "(string, event) dict"
  t_by_key :: "(string \<times> string, string list) dict"
  t_outcomes :: "(string, event list) dict"
  t_resolutions :: "(string, event list) dict"

definition empty_tables :: idem_tables where
  "empty_tables = \<lparr>t_decisions = [], t_by_key = [], t_outcomes = [], t_resolutions = []\<rparr>"

definition tracked :: "event \<Rightarrow> bool" where
  "tracked e \<longleftrightarrow>
     etype ''decision'' e \<and> jget e ''decision'' = JStr ''allowed'' \<and> jget e ''dry_run'' \<noteq> JBool True
     \<and> has_key e ''idempotency_key'' \<and> is_str (jget e ''action_name'')"

definition evolve_idem_tables :: "event \<Rightarrow> idem_tables \<Rightarrow> idem_tables" where
  "evolve_idem_tables e t =
     (if etype ''decision'' e then
        (if \<not> tracked e then t
         else case str_of (jget e ''event_id'') of
           None \<Rightarrow> t
         | Some i \<Rightarrow>
             (if dget (t_decisions t) i \<noteq> None then t
              else let t = t\<lparr>t_decisions := dset i e (t_decisions t)\<rparr> in
                case (str_of (jget e ''idempotency_key''), str_of (jget e ''action_name'')) of
                  (Some key, Some action) \<Rightarrow> t\<lparr>t_by_key := dappend (action, key) i (t_by_key t)\<rparr>
                | _ \<Rightarrow> t))
      else if etype ''outcome'' e then
        (case (str_of (jget e ''decision_event_id''), str_of (jget e ''status'')) of
           (Some r, Some st) \<Rightarrow>
             (if dget (t_decisions t) r \<noteq> None
              then t\<lparr>t_outcomes := dappend r [(''status'', JStr st)] (t_outcomes t)\<rparr> else t)
         | _ \<Rightarrow> t)
      else if etype ''resolution'' e then
        (case (str_of (jget e ''decision_event_id''), str_of (jget e ''resolution'')) of
           (Some r, Some rs) \<Rightarrow>
             (if dget (t_decisions t) r \<noteq> None
              then t\<lparr>t_resolutions := dappend r [(''resolution'', JStr rs)] (t_resolutions t)\<rparr> else t)
         | _ \<Rightarrow> t)
      else t)"

definition collect_idem_tables :: "platform \<Rightarrow> bytes \<Rightarrow> idem_tables" where
  "collect_idem_tables P f = fold evolve_idem_tables (scan_events P f) empty_tables"

definition key_ids :: "idem_tables \<Rightarrow> string \<Rightarrow> string \<Rightarrow> string list" where
  "key_ids t action key = dget_default (t_by_key t) (action, key) []"

definition table_event :: "idem_tables \<Rightarrow> string \<Rightarrow> event" where
  "table_event t i = dget_default (t_decisions t) i []"

definition indexed_completed_prior :: "idem_tables \<Rightarrow> string \<Rightarrow> string \<Rightarrow> event option" where
  "indexed_completed_prior t action key =
     map_option (table_event t)
       (find (\<lambda>i. jget (table_event t i) ''decision'' = JStr ''allowed''
              \<and> (\<exists>oc \<in> set (dget_default (t_outcomes t) i []). jget oc ''status'' = JStr ''succeeded''))
         (key_ids t action key))"

definition indexed_blocking_prior :: "idem_tables \<Rightarrow> string \<Rightarrow> string \<Rightarrow> event option" where
  "indexed_blocking_prior t action key =
     blocking_prior_from_state
       (fold (\<lambda>i. dset i (table_event t i)) (key_ids t action key) [])
       (t_outcomes t) action key (t_resolutions t)"

section \<open>The caches\<close>

definition IDEM_INDEX_MAX_PATHS :: nat where "IDEM_INDEX_MAX_PATHS = 128"

type_synonym idem_cache = "(string, nat \<times> string option \<times> idem_tables) dict"

definition trim_cache :: "nat \<Rightarrow> ('k, 'v) dict \<Rightarrow> ('k, 'v) dict" where
  "trim_cache n c = drop (length c - n) c" \<comment> \<open>pop the oldest entry while there are more than n\<close>

definition cache_idem_tables ::
  "string \<Rightarrow> nat \<Rightarrow> string option \<Rightarrow> idem_tables \<Rightarrow> idem_cache \<Rightarrow> idem_cache" where
  "cache_idem_tables path sz head t c = trim_cache IDEM_INDEX_MAX_PATHS (dset path (sz, head, t) c)"

definition cached_idem_tables ::
  "string \<Rightarrow> nat \<Rightarrow> string option \<Rightarrow> idem_cache \<Rightarrow> idem_tables option" where
  "cached_idem_tables path sz head c =
     (case dget c path of
        None \<Rightarrow> None
      | Some (s, h, t) \<Rightarrow> if (s, h) = (sz, head) then Some t else None)"

definition drop_idem_tables :: "string \<Rightarrow> idem_cache \<Rightarrow> idem_cache" where
  "drop_idem_tables path c = ddel path c"

text \<open>
  \<open>_locked_blocking_prior_id\<close>: on a JournalError of the tail read the full scan answers; any
  other exception (the tail is JSON but not an object) leaves the check.
\<close>

definition locked_blocking_prior_id ::
  "platform \<Rightarrow> string \<Rightarrow> bytes \<Rightarrow> idem_cache \<Rightarrow> string \<Rightarrow> string \<Rightarrow> exn + string option \<times> idem_cache" where
  "locked_blocking_prior_id P path f c action key =
     (case locked_handle_state P f of
        Inl e \<Rightarrow>
          (if is_journal_error e then Inr (scan_blocking_idempotent P f action key, c) else Inl e)
      | Inr (sz, head) \<Rightarrow>
          (let (t, c') = (case cached_idem_tables path sz head c of
                 Some t \<Rightarrow> (t, c)
               | None \<Rightarrow> (let t = collect_idem_tables P f in (t, cache_idem_tables path sz head t c)))
           in Inr (case indexed_blocking_prior t action key of None \<Rightarrow> None | Some e \<Rightarrow> event_id_of e, c')))"

text \<open>\<open>_note_idem_append\<close>.\<close>

definition note_idem_append ::
  "string \<Rightarrow> event \<Rightarrow> nat \<Rightarrow> string option \<Rightarrow> nat \<Rightarrow> string option \<Rightarrow> idem_cache \<Rightarrow> idem_cache" where
  "note_idem_append path e pre_size pre_head post_size post_head c =
     (if post_head = None then drop_idem_tables path c
      else case dget c path of
        None \<Rightarrow> c
      | Some (s, h, t) \<Rightarrow>
          (if (s, h) \<noteq> (pre_size, pre_head) then drop_idem_tables path c
           else cache_idem_tables path post_size post_head (evolve_idem_tables e t) c))"

text \<open>
  The unlocked pre-checks. A stat token is the modification time and the size of the file; the
  pre-check cache answers only for an unchanged token.
\<close>

type_synonym stat_token = "nat \<times> nat"
type_synonym precheck_results = "(string \<times> string \<times> string, event option) dict"
type_synonym precheck_cache = "(string, stat_token \<times> precheck_results) dict"

definition PRECHECK_CACHE_MAX_KEYS :: nat where "PRECHECK_CACHE_MAX_KEYS = 1024"

definition precheck_cached ::
  "precheck_cache \<Rightarrow> string \<Rightarrow> stat_token \<Rightarrow> string \<times> string \<times> string \<Rightarrow> event option option" where
  "precheck_cached pc path token q =
     (case dget pc path of
        None \<Rightarrow> None
      | Some (tok, results) \<Rightarrow> if tok \<noteq> token then None else dget results q)"

definition precheck_store ::
  "stat_token option \<Rightarrow> string \<Rightarrow> stat_token \<Rightarrow> string \<times> string \<times> string \<Rightarrow> event option
     \<Rightarrow> precheck_cache \<Rightarrow> precheck_cache" where
  "precheck_store current path token q prior pc =
     (if current \<noteq> Some token then pc
      else
        (let results = (case dget pc path of
                          Some (tok, r) \<Rightarrow> if tok = token then r else []
                        | None \<Rightarrow> []);
             results = (if PRECHECK_CACHE_MAX_KEYS \<le> length results then dpop_oldest results else results)
         in dset path (token, dset q prior results) pc))"

text \<open>
  The two finders. \<open>before\<close> and \<open>after\<close> are the stat tokens read before and after the scan; None
  is a failed stat. A file that cannot be opened has no prior.
\<close>

definition find_blocking_idempotent_decision ::
  "platform \<Rightarrow> string \<Rightarrow> bytes option \<Rightarrow> stat_token option \<Rightarrow> stat_token option \<Rightarrow> idem_cache
     \<Rightarrow> precheck_cache \<Rightarrow> string \<Rightarrow> string \<Rightarrow> exn + event option \<times> precheck_cache" where
  "find_blocking_idempotent_decision P path file before after c pc action key =
     (let q = (''blocking'', action, key);
          scan = (case before of
              Some tok \<Rightarrow>
                (case precheck_cached pc path tok q of
                   Some prior \<Rightarrow> Inr (prior, pc)
                 | None \<Rightarrow>
                     (case file of
                        None \<Rightarrow> Inr (None, pc)
                      | Some f \<Rightarrow>
                          (let l = scan_links (scan_events P f);
                               prior = blocking_prior_from_state (l_decisions l) (l_outcomes l) action key
                                         (l_resolutions l)
                           in Inr (prior, precheck_store after path tok q prior pc))))
            | None \<Rightarrow>
                (case file of
                   None \<Rightarrow> Inr (None, pc)
                 | Some f \<Rightarrow>
                     (let l = scan_links (scan_events P f) in
                      Inr (blocking_prior_from_state (l_decisions l) (l_outcomes l) action key
                             (l_resolutions l), pc))))
      in case file of
           None \<Rightarrow> scan
         | Some f \<Rightarrow>
             (case locked_handle_state P f of
                Inl e \<Rightarrow> (if is_journal_error e then scan else Inl e)
              | Inr (sz, head) \<Rightarrow>
                  (case cached_idem_tables path sz head c of
                     Some t \<Rightarrow> Inr (indexed_blocking_prior t action key, pc)
                   | None \<Rightarrow> scan)))"

definition find_completed_idempotent_decision ::
  "platform \<Rightarrow> string \<Rightarrow> bytes option \<Rightarrow> stat_token option \<Rightarrow> stat_token option \<Rightarrow> idem_cache
     \<Rightarrow> precheck_cache \<Rightarrow> string \<Rightarrow> string \<Rightarrow> exn + event option \<times> precheck_cache" where
  "find_completed_idempotent_decision P path file before after c pc action key =
     (let q = (''completed'', action, key);
          answer = (\<lambda>f. scan_completed_idempotent (scan_events P f) action key);
          scan = (case (before, file) of
              (Some tok, _) \<Rightarrow>
                (case precheck_cached pc path tok q of
                   Some prior \<Rightarrow> Inr (prior, pc)
                 | None \<Rightarrow>
                     (case file of
                        None \<Rightarrow> Inr (None, pc)
                      | Some f \<Rightarrow> Inr (answer f, precheck_store after path tok q (answer f) pc)))
            | (None, None) \<Rightarrow> Inr (None, pc)
            | (None, Some f) \<Rightarrow> Inr (answer f, pc))
      in case file of
           None \<Rightarrow> scan
         | Some f \<Rightarrow>
             (case locked_handle_state P f of
                Inl e \<Rightarrow> (if is_journal_error e then scan else Inl e)
              | Inr (sz, head) \<Rightarrow>
                  (case cached_idem_tables path sz head c of
                     Some t \<Rightarrow> Inr (indexed_completed_prior t action key, pc)
                   | None \<Rightarrow> scan)))"

section \<open>The index answers as the scan\<close>

text \<open>
  A journal in which decision ids are fresh and every linked outcome or resolution follows its
  decision and has a text as its status: what the guard and the operator commands write.
\<close>

fun ordered_after :: "string list \<Rightarrow> event list \<Rightarrow> bool" where
  "ordered_after seen [] = True"
| "ordered_after seen (e # es) =
     (if etype ''decision'' e then
        (case event_id_of e of
           Some i \<Rightarrow> i \<notin> set seen \<and> ordered_after (i # seen) es
         | None \<Rightarrow> ordered_after seen es)
      else if etype ''outcome'' e then
        (case str_of (jget e ''decision_event_id'') of
           Some r \<Rightarrow> r \<in> set seen \<and> is_str (jget e ''status'')
         | None \<Rightarrow> True) \<and> ordered_after seen es
      else if etype ''resolution'' e then
        (case str_of (jget e ''decision_event_id'') of
           Some r \<Rightarrow> r \<in> set seen \<and> is_str (jget e ''resolution'')
         | None \<Rightarrow> True) \<and> ordered_after seen es
      else ordered_after seen es)"

abbreviation well_ordered :: "event list \<Rightarrow> bool" where
  "well_ordered \<equiv> ordered_after []"

lemma etype_exclusive:
  "etype ''decision'' e \<Longrightarrow> \<not> etype ''outcome'' e \<and> \<not> etype ''resolution'' e"
  "etype ''outcome'' e \<Longrightarrow> \<not> etype ''resolution'' e"
  by (simp_all add: etype_def)

lemma str_of_eq: "str_of v = Some s \<longleftrightarrow> v = JStr s" "str_of v = None \<longleftrightarrow> \<not> is_str v"
  by (cases v; simp)+

lemma is_str_iff: "is_str v \<longleftrightarrow> (\<exists>s. v = JStr s)"
  by (cases v) auto

lemma case_str: "(case v of JStr s \<Rightarrow> f s | _ \<Rightarrow> d) = (case str_of v of Some s \<Rightarrow> f s | None \<Rightarrow> d)"
  by (cases v) auto

lemma dset_fresh: "dget d k = None \<Longrightarrow> dset k v d = d @ [(k, v)]"
  by (induction d) auto

lemma dget_None_iff: "dget d k = None \<longleftrightarrow> k \<notin> set (map fst d)"
  by (simp add: map_of_eq_None_iff)

lemma dget_default_dappend:
  "dget_default (dappend k x d) k' [] = (if k' = k then dget_default d k [] @ [x] else dget_default d k' [])"
  by (simp add: dappend_def dget_default_def)

text \<open>The keys a decision is indexed under, and the part of the scan the tables keep.\<close>

definition indexed_under :: "string \<Rightarrow> string \<Rightarrow> event \<Rightarrow> bool" where
  "indexed_under action key e \<longleftrightarrow>
     tracked e \<and> jget e ''action_name'' = JStr action \<and> jget e ''idempotency_key'' = JStr key"

definition status_only :: "event \<Rightarrow> event" where
  "status_only e = [(''status'', jget e ''status'')]"

definition resolution_only :: "event \<Rightarrow> event" where
  "resolution_only e = [(''resolution'', jget e ''resolution'')]"

definition tables_match :: "links \<Rightarrow> idem_tables \<Rightarrow> bool" where
  "tables_match l t \<longleftrightarrow>
     t_decisions t = filter (\<lambda>(i, e). tracked e) (l_decisions l)
     \<and> distinct (map fst (l_decisions l)) \<and> list_all (\<lambda>(i, e). etype ''decision'' e) (l_decisions l)
     \<and> (\<forall>a k. key_ids t a k = map fst (filter (\<lambda>(i, e). indexed_under a k e) (l_decisions l)))
     \<and> (\<forall>i. i \<notin> set (map fst (l_decisions l)) \<longrightarrow>
          dget_default (l_outcomes l) i [] = [] \<and> dget_default (l_resolutions l) i [] = []
          \<and> dget_default (t_outcomes t) i [] = [] \<and> dget_default (t_resolutions t) i [] = [])
     \<and> (\<forall>i. dget (t_decisions t) i \<noteq> None \<longrightarrow>
          dget_default (t_outcomes t) i [] = map status_only (dget_default (l_outcomes l) i [])
          \<and> dget_default (t_resolutions t) i [] = map resolution_only (dget_default (l_resolutions l) i []))"

lemma tables_match_empty: "tables_match no_links empty_tables"
  by (simp add: tables_match_def no_links_def empty_tables_def key_ids_def dget_default_def)

lemma fst_filter_subset: "set (map fst (filter Q d)) \<subseteq> set (map fst d)"
  by auto

lemma tables_match_decision:
  assumes m: "tables_match l t" and e: "etype ''decision'' e" "jget e ''event_id'' = JStr i"
    and fresh: "i \<notin> set (map fst (l_decisions l))"
  shows "tables_match (link_event e l) (evolve_idem_tables e t)"
proof -
  have ld: "dget (l_decisions l) i = None" using fresh by (simp add: dget_None_iff del: set_map)
  have td: "dget (t_decisions t) i = None"
  proof -
    have "t_decisions t = filter (\<lambda>(i, e). tracked e) (l_decisions l)"
      using m by (simp add: tables_match_def)
    then show ?thesis using fresh by (auto simp: dget_None_iff)
  qed
  have l: "link_event e l = l\<lparr>l_decisions := l_decisions l @ [(i, e)]\<rparr>"
    using e ld by (simp add: link_event_def dset_fresh)
  show ?thesis
  proof (cases "tracked e")
    case False
    then have t: "evolve_idem_tables e t = t" using e by (simp add: evolve_idem_tables_def)
    from False have "\<not> indexed_under a k e" for a k by (simp add: indexed_under_def)
    with m fresh False e(1) show ?thesis unfolding l t by (auto simp: tables_match_def)
  next
    case True
    then obtain a where a: "jget e ''action_name'' = JStr a" by (auto simp: tracked_def is_str_iff)
    let ?t = "evolve_idem_tables e t"
    have tds: "t_decisions ?t = t_decisions t @ [(i, e)]"
      and keep: "t_outcomes ?t = t_outcomes t" "t_resolutions ?t = t_resolutions t"
      using e True td a by (auto simp: evolve_idem_tables_def Let_def dset_fresh split: option.splits)
    have keys: "key_ids ?t a' k = key_ids t a' k @ (if indexed_under a' k e then [i] else [])" for a' k
      using e True td a
      by (cases "jget e ''idempotency_key''")
        (auto simp: evolve_idem_tables_def Let_def key_ids_def dget_default_dappend indexed_under_def)
    show ?thesis
      unfolding tables_match_def l tds keep keys
      using m fresh True e(1) by (auto simp: tables_match_def)
  qed
qed

lemma tables_match_outcome:
  assumes m: "tables_match l t" and e: "etype ''outcome'' e" "jget e ''decision_event_id'' = JStr r"
    and seen: "r \<in> set (map fst (l_decisions l))" and st: "is_str (jget e ''status'')"
  shows "tables_match (link_event e l) (evolve_idem_tables e t)"
proof -
  obtain s where s: "jget e ''status'' = JStr s" using st by (auto simp: is_str_iff)
  have nd: "\<not> etype ''decision'' e" using e(1) by (simp add: etype_def)
  have l: "link_event e l = l\<lparr>l_outcomes := dappend r e (l_outcomes l)\<rparr>"
    using e nd by (simp add: link_event_def)
  have t: "evolve_idem_tables e t =
      (if dget (t_decisions t) r \<noteq> None
       then t\<lparr>t_outcomes := dappend r (status_only e) (t_outcomes t)\<rparr> else t)"
    using e nd s by (simp add: evolve_idem_tables_def status_only_def)
  show ?thesis
    using m seen unfolding l t tables_match_def key_ids_def
    by (auto simp: dget_default_dappend)
qed

lemma tables_match_resolution:
  assumes m: "tables_match l t" and e: "etype ''resolution'' e" "jget e ''decision_event_id'' = JStr r"
    and seen: "r \<in> set (map fst (l_decisions l))" and rs: "is_str (jget e ''resolution'')"
  shows "tables_match (link_event e l) (evolve_idem_tables e t)"
proof -
  obtain s where s: "jget e ''resolution'' = JStr s" using rs by (auto simp: is_str_iff)
  have nd: "\<not> etype ''decision'' e" "\<not> etype ''outcome'' e" using e(1) by (simp_all add: etype_def)
  have l: "link_event e l = l\<lparr>l_resolutions := dappend r e (l_resolutions l)\<rparr>"
    using e nd by (simp add: link_event_def)
  have t: "evolve_idem_tables e t =
      (if dget (t_decisions t) r \<noteq> None
       then t\<lparr>t_resolutions := dappend r (resolution_only e) (t_resolutions t)\<rparr> else t)"
    using e nd s by (simp add: evolve_idem_tables_def resolution_only_def)
  show ?thesis
    using m seen unfolding l t tables_match_def key_ids_def
    by (auto simp: dget_default_dappend)
qed

lemma link_event_keys:
  "set (map fst (l_decisions (link_event e l))) =
     set (map fst (l_decisions l)) \<union>
     (if etype ''decision'' e then set_option (event_id_of e) else {})"
  by (auto simp: link_event_def event_id_of_def set_keys_dset dget_None_iff
      simp del: set_map split: json.splits)

lemma tables_match_skip:
  assumes "tables_match l t"
    and "\<not> (etype ''decision'' e \<and> is_str (jget e ''event_id''))"
    and "\<not> (etype ''outcome'' e \<and> is_str (jget e ''decision_event_id''))"
    and "\<not> (etype ''resolution'' e \<and> is_str (jget e ''decision_event_id''))"
  shows "link_event e l = l \<and> evolve_idem_tables e t = t"
  using assms
  by (auto simp: link_event_def evolve_idem_tables_def is_str_iff str_of_eq split: json.splits option.splits)

lemma tables_match_fold:
  "ordered_after seen es \<Longrightarrow> set seen = set (map fst (l_decisions l)) \<Longrightarrow> tables_match l t \<Longrightarrow>
   tables_match (fold link_event es l) (fold evolve_idem_tables es t)"
proof (induction es arbitrary: seen l t)
  case Nil
  then show ?case by simp
next
  case (Cons e es)
  note keys = link_event_keys [of e l]
  have step: "tables_match (link_event e l) (evolve_idem_tables e t)"
  proof (cases "etype ''decision'' e \<and> is_str (jget e ''event_id'')")
    case True
    then obtain i where i: "jget e ''event_id'' = JStr i" by (auto simp: is_str_iff)
    with True Cons.prems show ?thesis
      by (intro tables_match_decision) (auto simp: event_id_of_def simp del: set_map)
  next
    case nd: False
    show ?thesis
    proof (cases "etype ''outcome'' e \<and> is_str (jget e ''decision_event_id'')")
      case True
      then obtain r where r: "jget e ''decision_event_id'' = JStr r" by (auto simp: is_str_iff)
      with True Cons.prems show ?thesis
        by (intro tables_match_outcome) (auto simp: etype_def simp del: set_map)
    next
      case no: False
      show ?thesis
      proof (cases "etype ''resolution'' e \<and> is_str (jget e ''decision_event_id'')")
        case True
        then obtain r where r: "jget e ''decision_event_id'' = JStr r" by (auto simp: is_str_iff)
        with True Cons.prems show ?thesis
          by (intro tables_match_resolution) (auto simp: etype_def simp del: set_map)
      next
        case False
        with tables_match_skip [OF Cons.prems(3) nd no False] Cons.prems(3) show ?thesis by simp
      qed
    qed
  qed
  let ?seen = "if etype ''decision'' e then (case event_id_of e of Some i \<Rightarrow> i # seen | None \<Rightarrow> seen) else seen"
  have "ordered_after ?seen es" using Cons.prems(1) by (auto split: if_splits option.splits)
  moreover have "set ?seen = set (map fst (l_decisions (link_event e l)))"
    unfolding keys using Cons.prems(2) by (auto simp del: set_map split: option.splits)
  ultimately show ?case using Cons.IH [OF _ _ step] by simp
qed

lemma find_filter_imp: "(\<And>x. x \<in> set xs \<Longrightarrow> Q x \<Longrightarrow> R x) \<Longrightarrow> find Q xs = find Q (filter R xs)"
  by (induction xs) auto

lemma find_map_snd: "find Q (map (\<lambda>i. (i, g i)) is) = map_option (\<lambda>i. (i, g i)) (find (\<lambda>i. Q (i, g i)) is)"
  by (induction "is") auto

lemma fold_dset_distinct:
  "distinct is \<Longrightarrow> fold (\<lambda>i. dset i (g i)) is [] = map (\<lambda>i. (i, g i)) is"
proof (induction "is" rule: rev_induct)
  case (snoc i js)
  then have "dget (map (\<lambda>i. (i, g i)) js) i = None" by (auto simp: dget_None_iff)
  with snoc show ?case by (simp add: dset_fresh)
qed simp

lemma map_pair_filter:
  assumes "distinct (map fst d)" and "\<And>i e. (i, e) \<in> set d \<Longrightarrow> R i e \<Longrightarrow> g i = e"
  shows "map (\<lambda>i. (i, g i)) (map fst (filter (\<lambda>(i, e). R i e) d)) = filter (\<lambda>(i, e). R i e) d"
  using assms by (induction d) auto

lemma blocks_status_only:
  assumes "dget_default outcomes' i [] = map status_only (dget_default outcomes i [])"
    and "dget_default resolutions' i [] = map resolution_only (dget_default resolutions i [])"
  shows "blocks outcomes' resolutions' i = blocks outcomes resolutions i"
proof -
  have clear: "resolved_clear rs i = (dget_default rs i [] \<noteq> []
      \<and> jget (last (dget_default rs i [])) ''resolution'' = JStr ''confirmed_not_completed'')" for rs
    by (simp add: resolved_clear_def dget_default_def split: option.splits)
  have "jget (status_only e) ''status'' = jget e ''status''"
    and "jget (resolution_only e) ''resolution'' = jget e ''resolution''" for e
    by (simp_all add: status_only_def resolution_only_def jget_def)
  then show ?thesis
    by (auto simp: blocks_def Let_def assms clear last_map)
qed

lemma indexed_blocking_scan:
  assumes m: "tables_match l t"
  shows "indexed_blocking_prior t a k =
    blocking_prior_from_state (l_decisions l) (l_outcomes l) a k (l_resolutions l)"
proof -
  let ?R = "\<lambda>i e. indexed_under a k e"
  let ?D = "filter (\<lambda>(i, e). ?R i e) (l_decisions l)"
  have ids: "key_ids t a k = map fst ?D" and d: "distinct (map fst (l_decisions l))"
    and td: "t_decisions t = filter (\<lambda>(i, e). tracked e) (l_decisions l)"
    and dec: "\<And>i e. (i, e) \<in> set (l_decisions l) \<Longrightarrow> etype ''decision'' e"
    using m by (auto simp: tables_match_def list_all_iff)
  have dt: "distinct (map fst (t_decisions t))" using d by (simp add: td distinct_map_filter)
  have ev: "table_event t i = e" if "(i, e) \<in> set (l_decisions l)" "?R i e" for i e
  proof -
    have "(i, e) \<in> set (t_decisions t)" using that by (simp add: td indexed_under_def)
    with dt have "dget (t_decisions t) i = Some e" by (simp add: map_of_is_SomeI)
    then show ?thesis by (simp add: table_event_def dget_default_def)
  qed
  have "distinct (map fst ?D)" using d by (rule distinct_map_filter)
  from fold_dset_distinct [OF this, of "table_event t"]
  have cand: "fold (\<lambda>i. dset i (table_event t i)) (key_ids t a k) [] = ?D"
    unfolding ids using map_pair_filter [of "l_decisions l" ?R "table_event t"] d ev by metis
  let ?Q = "\<lambda>(i, e). candidate a k e \<and> blocks (l_outcomes l) (l_resolutions l) i"
  have sub: "?R i e" if "(i, e) \<in> set (l_decisions l)" "candidate a k e" for i e
    using that dec [OF that(1)]
    by (auto simp: candidate_def indexed_under_def tracked_def has_key_def jget_def split: option.splits)
  have "find ?Q (l_decisions l) = find ?Q ?D"
    using sub by (intro find_filter_imp) auto
  moreover have "find (\<lambda>(i, e). candidate a k e \<and> blocks (t_outcomes t) (t_resolutions t) i) ?D = find ?Q ?D"
  proof (rule find_cong_on)
    fix x assume "x \<in> set ?D"
    then obtain i e where x: "x = (i, e)" "(i, e) \<in> set (t_decisions t)"
      by (auto simp: td indexed_under_def)
    then have "dget (t_decisions t) i \<noteq> None" using dt by (simp add: map_of_is_SomeI)
    with m have "blocks (t_outcomes t) (t_resolutions t) i = blocks (l_outcomes l) (l_resolutions l) i"
      by (intro blocks_status_only) (auto simp: tables_match_def)
    with x(1) show "(case x of (i, e) \<Rightarrow> candidate a k e \<and> blocks (t_outcomes t) (t_resolutions t) i) = ?Q x"
      by simp
  qed
  ultimately show ?thesis
    unfolding indexed_blocking_prior_def cand blocking_prior_from_state_def by simp
qed

lemma collected_match:
  "well_ordered (scan_events P f) \<Longrightarrow>
   tables_match (scan_links (scan_events P f)) (collect_idem_tables P f)"
  unfolding scan_links_def collect_idem_tables_def
  by (rule tables_match_fold [OF _ _ tables_match_empty]) (simp_all add: no_links_def)

section \<open>Tables up to key order\<close>

text \<open>
  The tables folded in at append time hold the event as it was built, a rescan holds it with
  its keys sorted. \<open>norm_tables\<close> forgets the difference.
\<close>

definition norm_tables :: "idem_tables \<Rightarrow> idem_tables" where
  "norm_tables t = t\<lparr>t_decisions := map (\<lambda>(i, e). (i, sort_members e)) (t_decisions t)\<rparr>"

lemma etype_sort_members [simp]: "etype t (sort_members e) = etype t e"
  by (simp add: etype_def jsort_eq_simps)

lemma tracked_sort_members [simp]: "tracked (sort_members e) = tracked e"
  by (simp add: tracked_def jsort_eq_simps)

lemma event_id_sort_members [simp]: "event_id_of (sort_members e) = event_id_of e"
  by (simp add: event_id_of_def jsort_eq_simps)

lemma candidate_sort_members [simp]: "candidate a k (sort_members e) = candidate a k e"
  by (simp add: candidate_def jsort_eq_simps)

lemma map_dset: "map (\<lambda>(i, e). (i, g e)) (dset k v d) = dset k (g v) (map (\<lambda>(i, e). (i, g e)) d)"
  by (induction d) auto

lemma evolve_norm:
  "evolve_idem_tables (sort_members e) (norm_tables t) = norm_tables (evolve_idem_tables e t)"
proof -
  have d: "dget (t_decisions (norm_tables t)) i \<noteq> None \<longleftrightarrow> dget (t_decisions t) i \<noteq> None" for i
    by (simp add: norm_tables_def dget_map_snd)
  show ?thesis
    unfolding evolve_idem_tables_def etype_sort_members tracked_sort_members jget_sort_members
      jsort_eq_simps d
    by (auto simp: norm_tables_def map_dset Let_def split: option.splits)
qed

lemma norm_tables_idem [simp]: "norm_tables (norm_tables t) = norm_tables t"
  by (simp add: norm_tables_def comp_def case_prod_beta')

lemma evolve_norm_eq:
  "norm_tables t = norm_tables t' \<Longrightarrow>
   norm_tables (evolve_idem_tables e t) = norm_tables (evolve_idem_tables (sort_members e) t')"
  by (metis evolve_norm sort_members_idem)

lemma find_map_sort:
  "find Q (map (\<lambda>x. (fst x, sort_members (snd x))) d) =
     map_option (\<lambda>x. (fst x, sort_members (snd x))) (find (\<lambda>x. Q (fst x, sort_members (snd x))) d)"
  by (induction d) auto

lemma table_event_norm: "table_event (norm_tables t) i = sort_members (table_event t i)"
  by (simp add: table_event_def dget_default_def norm_tables_def dget_map_snd sort_members_def
      split: option.splits)

lemma norm_tables_sel:
  "t_by_key (norm_tables t) = t_by_key t" "t_outcomes (norm_tables t) = t_outcomes t"
  "t_resolutions (norm_tables t) = t_resolutions t"
  by (simp_all add: norm_tables_def)

lemma indexed_blocking_norm:
  "indexed_blocking_prior (norm_tables t) a k = map_option sort_members (indexed_blocking_prior t a k)"
proof -
  have "fold (\<lambda>i. dset i (sort_members (table_event t i))) is (map (\<lambda>(i, e). (i, sort_members e)) d)
      = map (\<lambda>(i, e). (i, sort_members e)) (fold (\<lambda>i. dset i (table_event t i)) is d)" for "is" d
    by (induction "is" arbitrary: d) (simp_all add: map_dset [symmetric])
  from this [of _ "[]"] show ?thesis
    by (simp add: indexed_blocking_prior_def table_event_norm key_ids_def norm_tables_sel
        blocking_prior_from_state_def find_map_sort option.map_comp comp_def case_prod_beta')
qed

lemma indexed_blocking_eq:
  "norm_tables t = norm_tables t' \<Longrightarrow>
   map_option sort_members (indexed_blocking_prior t a k) = map_option sort_members (indexed_blocking_prior t' a k)"
  by (metis indexed_blocking_norm)

text \<open>The id that the check reports depends on the tables only up to key order.\<close>

definition indexed_blocking_id :: "idem_tables \<Rightarrow> string \<Rightarrow> string \<Rightarrow> string option" where
  "indexed_blocking_id t a k =
     (case indexed_blocking_prior t a k of None \<Rightarrow> None | Some e \<Rightarrow> event_id_of e)"

lemma indexed_blocking_id_eq:
  assumes "norm_tables t = norm_tables t'"
  shows "indexed_blocking_id t a k = indexed_blocking_id t' a k"
proof -
  have "indexed_blocking_id t a k =
      (case map_option sort_members (indexed_blocking_prior t a k) of None \<Rightarrow> None | Some e \<Rightarrow> event_id_of e)" for t
    by (simp add: indexed_blocking_id_def split: option.splits)
  then show ?thesis using indexed_blocking_eq [OF assms] by metis
qed

section \<open>The cache is exact while the file only grows\<close>

text \<open>
  Every entry for the path describes a prefix of the file of the recorded length. Any process
  that appends keeps this true; a hit needs the recorded length to be the current one.
\<close>

definition cache_ok :: "platform \<Rightarrow> string \<Rightarrow> bytes \<Rightarrow> idem_cache \<Rightarrow> bool" where
  "cache_ok P path f c \<longleftrightarrow>
     distinct (map fst c)
     \<and> (\<forall>s h t. dget c path = Some (s, h, t) \<longrightarrow>
          s \<le> length f \<and> norm_tables t = norm_tables (collect_idem_tables P (take s f)))"

lemma cache_ok_grow: "cache_ok P path f c \<Longrightarrow> cache_ok P path (f @ g) c"
  by (fastforce simp: cache_ok_def)

lemma cache_ok_Nil [simp]: "cache_ok P path f []"
  by (simp add: cache_ok_def)

lemma dget_drop: "distinct (map fst d) \<Longrightarrow> dget (drop n d) k = Some v \<Longrightarrow> dget d k = Some v"
proof -
  assume "distinct (map fst d)" "dget (drop n d) k = Some v"
  then show ?thesis by (metis dget_mem in_set_dropD map_of_is_SomeI)
qed

lemma cache_ok_store:
  assumes "cache_ok P path f c" and "s \<le> length f"
    and "norm_tables t = norm_tables (collect_idem_tables P (take s f))"
  shows "cache_ok P path f (cache_idem_tables path s h t c)"
proof -
  have d: "distinct (map fst (dset path (s, h, t) c))" using assms(1) by (simp add: cache_ok_def)
  then show ?thesis
    using assms(2,3) dget_drop [OF d]
    by (fastforce simp: cache_ok_def cache_idem_tables_def trim_cache_def drop_map [symmetric] distinct_drop)
qed

lemma cache_ok_drop: "cache_ok P path f c \<Longrightarrow> cache_ok P path f (drop_idem_tables path c)"
  by (simp add: cache_ok_def drop_idem_tables_def distinct_ddel)

lemma cache_ok_hit:
  "cache_ok P path f c \<Longrightarrow> cached_idem_tables path (length f) h c = Some t \<Longrightarrow>
   norm_tables t = norm_tables (collect_idem_tables P f)"
  by (auto simp: cache_ok_def cached_idem_tables_def split: option.splits if_splits)

text \<open>An append folded in by the process that made it.\<close>

lemma cache_ok_note:
  assumes c: "cache_ok P path f c" and f: "line_end f" and e: "event_wf P e"
  shows "cache_ok P path (f @ line_of P e)
    (note_idem_append path e (length f) pre (length f + length (line_of P e)) post c)"
proof -
  let ?f = "f @ line_of P e"
  have grown: "cache_ok P path ?f c" using c by (rule cache_ok_grow)
  have "cache_ok P path ?f (cache_idem_tables path (length ?f) post (evolve_idem_tables e t) c)"
    if hit: "dget c path = Some (length f, h, t)" for h t
  proof (rule cache_ok_store [OF grown])
    have "norm_tables t = norm_tables (collect_idem_tables P f)"
      using c hit by (simp add: cache_ok_def)
    from evolve_norm_eq [OF this]
    show "norm_tables (evolve_idem_tables e t) = norm_tables (collect_idem_tables P (take (length ?f) ?f))"
      by (simp add: collect_idem_tables_def scan_events_extend [OF f e])
  qed simp
  then show ?thesis
    using cache_ok_drop [OF grown] grown
    by (auto simp: note_idem_append_def split: option.splits)
qed

lemma locked_blocking_exact:
  assumes "cache_ok P path f c" and "well_ordered (scan_events P f)"
    and "locked_blocking_prior_id P path f c action key = Inr (answer, c')"
  shows "answer = scan_blocking_idempotent P f action key \<and> cache_ok P path f c'"
proof (cases "locked_handle_state P f")
  case (Inl e)
  with assms show ?thesis by (auto simp: locked_blocking_prior_id_def split: if_splits)
next
  case (Inr st)
  then obtain h where st: "locked_handle_state P f = Inr (length f, h)"
    by (auto simp: locked_handle_state_def bindR_Inr_iff split: if_splits)
  have exact: "indexed_blocking_id (collect_idem_tables P f) action key = scan_blocking_idempotent P f action key"
    by (simp add: indexed_blocking_id_def scan_blocking_idempotent_def Let_def
        indexed_blocking_scan [OF collected_match [OF assms(2)]])
  show ?thesis
  proof (cases "cached_idem_tables path (length f) h c")
    case None
    with assms(3) st have "answer = indexed_blocking_id (collect_idem_tables P f) action key"
      and "c' = cache_idem_tables path (length f) h (collect_idem_tables P f) c"
      by (auto simp: locked_blocking_prior_id_def indexed_blocking_id_def Let_def)
    with exact cache_ok_store [OF assms(1)] show ?thesis by simp
  next
    case (Some t)
    with assms(3) st have "answer = indexed_blocking_id t action key" and "c' = c"
      by (auto simp: locked_blocking_prior_id_def indexed_blocking_id_def)
    with exact indexed_blocking_id_eq [OF cache_ok_hit [OF assms(1) Some]] assms(1) show ?thesis by simp
  qed
qed


definition demo_decision :: event where
  "demo_decision =
    [(''event_type'', JStr ''decision''), (''event_id'', JStr ''d1''), (''decision'', JStr ''allowed''),
     (''action_name'', JStr ''pay''), (''idempotency_key'', JStr ''k''), (''event_hash'', JStr ''aa'')]"


end
