(* ===== verification/Journal.thy ===== *)
theory Journal
  imports Idempotency
begin

text \<open>
  The append operations of \<open>FileJournal\<close> (\<open>src/tesera/journal.py\<close>). One call runs under the
  process lock and the file lock, so it is one step on the file and on the in-process index.
  What the operating system may do to a call is the parameter \<open>fault\<close>: the file cannot be
  prepared, the write stops after some bytes, or the data is written but the sync fails.
\<close>

datatype fault = NoFault | OpenFails | WriteFails nat | SyncFails

text \<open>\<open>except OSError\<close> around the whole body.\<close>

definition as_journal_error :: "exn \<Rightarrow> exn" where
  "as_journal_error e = (if e = OSError then JournalError else e)"

definition event_hash_of :: "event \<Rightarrow> string option" where
  "event_hash_of e = str_of (jget e ''event_hash'')"

type_synonym appended = "(exn + event) \<times> bytes \<times> idem_cache"

definition write_event ::
  "platform \<Rightarrow> string \<Rightarrow> fault \<Rightarrow> string option \<Rightarrow> event \<Rightarrow> bytes \<Rightarrow> idem_cache \<Rightarrow> appended" where
  "write_event P path fault previous_hash e f c =
     (case event_line P e of
        Inl x \<Rightarrow> (Inl x, f, c)
      | Inr encoded \<Rightarrow>
          (case fault of
             WriteFails n \<Rightarrow> (Inl JournalError, f @ take n encoded, c)
           | SyncFails \<Rightarrow> (Inl JournalError, f @ encoded, c)
           | _ \<Rightarrow>
               (Inr e, f @ encoded,
                note_idem_append path e (length f) previous_hash (length f + length encoded)
                  (event_hash_of e) c)))"

definition append_event ::
  "platform \<Rightarrow> string \<Rightarrow> fault \<Rightarrow> (string option \<Rightarrow> exn + event) \<Rightarrow> bytes \<Rightarrow> idem_cache \<Rightarrow> appended" where
  "append_event P path fault build f c =
     (if fault = OpenFails then (Inl JournalError, f, c)
      else case bindR (read_last_event_hash P f) (\<lambda>prev. bindR (build prev) (\<lambda>e. Inr (prev, e))) of
        Inl x \<Rightarrow> (Inl (as_journal_error x), f, c)
      | Inr (prev, e) \<Rightarrow> write_event P path fault prev e f c)"

definition append_checkpoint ::
  "platform \<Rightarrow> string \<Rightarrow> fault \<Rightarrow> (nat \<Rightarrow> string option \<Rightarrow> exn + event) \<Rightarrow> bytes \<Rightarrow> idem_cache \<Rightarrow> appended" where
  "append_checkpoint P path fault build f c =
     append_event P path fault (build (count_event_lines f)) f c"

definition archive_stats :: "platform \<Rightarrow> fault \<Rightarrow> bytes \<Rightarrow> exn + nat \<times> string option" where
  "archive_stats P fault f =
     (if fault = OpenFails then Inl JournalError
      else if f = [] then Inr (0, None)
      else bindR (read_last_event_hash P f) (\<lambda>h. Inr (count_event_lines f, h)))"

definition append_event_atomic ::
  "platform \<Rightarrow> string \<Rightarrow> fault \<Rightarrow> (string option \<Rightarrow> string option \<Rightarrow> exn + event)
     \<Rightarrow> (string \<times> string) option \<Rightarrow> bytes \<Rightarrow> idem_cache \<Rightarrow> appended" where
  "append_event_atomic P path fault build query f c =
     (if fault = OpenFails then (Inl JournalError, f, c)
      else case (case query of
                   None \<Rightarrow> Inr (None, c)
                 | Some (action, key) \<Rightarrow> locked_blocking_prior_id P path f c action key) of
        Inl x \<Rightarrow> (Inl (as_journal_error x), f, c)
      | Inr (blocking, c') \<Rightarrow>
          (case bindR (read_last_event_hash P f)
                  (\<lambda>prev. bindR (build prev blocking) (\<lambda>e. Inr (prev, e))) of
             Inl x \<Rightarrow> (Inl (as_journal_error x), f, c')
           | Inr (prev, e) \<Rightarrow> write_event P path fault prev e f c'))"

section \<open>Appending\<close>

lemma write_event_grows: "\<exists>g. fst (snd (write_event P path fault prev e f c)) = f @ g"
  by (auto simp: write_event_def split: sum.splits fault.splits)

lemma append_event_grows: "\<exists>g. fst (snd (append_event P path fault build f c)) = f @ g"
  using write_event_grows by (auto simp: append_event_def split: sum.splits)

lemma append_atomic_grows: "\<exists>g. fst (snd (append_event_atomic P path fault build q f c)) = f @ g"
  using write_event_grows by (auto simp: append_event_atomic_def split: sum.splits)

lemma write_event_ok:
  "write_event P path fault prev e f c = (Inr e', f', c') \<Longrightarrow>
   e' = e \<and> f' = f @ line_of P e
   \<and> c' = note_idem_append path e (length f) prev (length f + length (line_of P e)) (event_hash_of e) c"
  by (auto simp: write_event_def dest!: event_line_Inr split: sum.splits fault.splits)

lemma write_event_error:
  "write_event P path fault prev e f c = (Inl x, f', c') \<Longrightarrow>
   c' = c \<and> (\<exists>n. f' = f @ take n (line_of P e)) \<and> (fault \<in> {NoFault, OpenFails} \<longrightarrow> f' = f)"
  by (auto simp: write_event_def dest!: event_line_Inr split: sum.splits fault.splits)
    (rule exI [of _ "length (line_of P e)"], simp)

lemma append_event_ok:
  assumes "append_event P path fault build f c = (Inr e, f', c')"
  obtains prev where "read_last_event_hash P f = Inr prev" "build prev = Inr e" "f' = f @ line_of P e"
    "c' = note_idem_append path e (length f) prev (length f + length (line_of P e)) (event_hash_of e) c"
  using assms write_event_ok [of P path fault _ _ f c e f' c']
  by (auto simp: append_event_def bindR_Inr_iff split: if_splits sum.splits)

lemma append_atomic_ok:
  assumes "append_event_atomic P path fault build query f c = (Inr e, f', c')"
  obtains prev blocking c1 where "read_last_event_hash P f = Inr prev" "build prev blocking = Inr e"
    "f' = f @ line_of P e"
    "(case query of None \<Rightarrow> Inr (None, c)
      | Some (action, key) \<Rightarrow> locked_blocking_prior_id P path f c action key) = Inr (blocking, c1)"
    "c' = note_idem_append path e (length f) prev (length f + length (line_of P e)) (event_hash_of e) c1"
  using assms write_event_ok [of P path fault _ _ f _ e f' c']
  by (auto simp: append_event_atomic_def bindR_Inr_iff split: if_splits sum.splits) metis

lemma locked_cache_ok:
  assumes "cache_ok P path f c" and "locked_blocking_prior_id P path f c a k = Inr (b, c')"
  shows "cache_ok P path f c'"
proof (cases "locked_handle_state P f")
  case (Inl e)
  with assms show ?thesis by (auto simp: locked_blocking_prior_id_def split: if_splits)
next
  case (Inr st)
  then obtain h where "locked_handle_state P f = Inr (length f, h)"
    by (auto simp: locked_handle_state_def bindR_Inr_iff split: if_splits)
  with assms show ?thesis
    by (cases "cached_idem_tables path (length f) h c")
      (auto simp: locked_blocking_prior_id_def Let_def intro!: cache_ok_store)
qed

text \<open>
  C10: The journal is append-only and a reported success is durable: whatever the fault, the old
  content is a prefix of the new; success means exactly the line of the returned event was added
  and the event was built on the hash of the last line; and an error without a write fault
  leaves the file untouched.
\<close>

theorem append_only:
  assumes "append_event_atomic P path fault build query f c = (r, f', c')"
  shows "(\<exists>g. f' = f @ g)
    \<and> (\<forall>e. r = Inr e \<longrightarrow> f' = f @ line_of P e
          \<and> (\<exists>prev blocking. read_last_event_hash P f = Inr prev \<and> build prev blocking = Inr e))
    \<and> (\<forall>x. r = Inl x \<longrightarrow> fault \<in> {NoFault, OpenFails} \<longrightarrow> f' = f)"
proof (cases r)
  case (Inr e)
  note ok = assms [unfolded Inr]
  show ?thesis using Inr by (auto intro: append_atomic_ok [OF ok])
next
  case (Inl x)
  with assms show ?thesis
    by (auto simp: append_event_atomic_def split: if_splits sum.splits dest!: write_event_error)
qed

lemma append_only_witness:
  "\<exists>f' c'. append_event_atomic toy_platform ''j'' (WriteFails 3) (\<lambda>prev blocking. Inr demo_decision) None [] []
      = (Inl JournalError, f', c') \<and> f' = [] @ take 3 (line_of toy_platform demo_decision) \<and> (\<exists>g. f' = [] @ g)"
proof -
  have "append_event_atomic toy_platform ''j'' (WriteFails 3) (\<lambda>prev blocking. Inr demo_decision) None [] []
      = (Inl JournalError, take 3 (line_of toy_platform demo_decision), [])"
    by code_simp
  with append_only [OF this] show ?thesis by auto
qed

end
