(* ===== verification/Verification.thy ===== *)
theory Verification
  imports Journal
begin

text \<open>
  Offline verification, \<open>src/tesera/verification.py\<close>. An issue is its line and its code (the
  message is not modelled). Where the code raises instead of reporting an issue, the result is
  the exception: an unhashable value tested for membership in a frozenset, a non-finite float
  or a lone surrogate in an event, a checkpoint in the journal without a usable count.
\<close>

section \<open>Text of a value\<close>

fun py_repr :: "platform \<Rightarrow> json \<Rightarrow> string" where
  "py_repr P JNull = ''None''"
| "py_repr P (JBool b) = (if b then ''True'' else ''False'')"
| "py_repr P (JInt i) = dec_int i"
| "py_repr P (JFloat x) =
     (case x of Fin q \<Rightarrow> float_repr P q | PInf \<Rightarrow> ''inf'' | NInf \<Rightarrow> ''-inf'' | NaN \<Rightarrow> ''nan'')"
| "py_repr P (JStr s) = repr_text P s"
| "py_repr P (JArr xs) = CHR ''['' # join '', '' (map (py_repr P) xs) @ '']''"
| "py_repr P (JObj d) =
     CHR ''{'' # join '', '' (map (\<lambda>(k, v). repr_text P k @ '': '' @ py_repr P v) d) @ ''}''"

definition py_str :: "platform \<Rightarrow> json \<Rightarrow> string" where
  "py_str P v = (case v of JStr s \<Rightarrow> s | _ \<Rightarrow> py_repr P v)"

text \<open>\<open>int(v)\<close> of a JSON value; of a text, the ASCII decimal literals.\<close>

fun digits_us :: "string \<Rightarrow> string option" where
  "digits_us [] = None"
| "digits_us [c] = (if is_digit c then Some [c] else None)"
| "digits_us (c # d # cs) =
     (if \<not> is_digit c then None
      else if d = CHR ''_'' then map_option (\<lambda>r. c # r) (digits_us cs)
      else map_option (\<lambda>r. c # r) (digits_us (d # cs)))"

definition int_of_text :: "string \<Rightarrow> int option" where
  "int_of_text s =
     (case py_strip s of
        [] \<Rightarrow> None
      | c # cs \<Rightarrow>
          (if c = CHR ''-'' then map_option (\<lambda>d. - int (read_nat d)) (digits_us cs)
           else if c = CHR ''+'' then map_option (\<lambda>d. int (read_nat d)) (digits_us cs)
           else map_option (\<lambda>d. int (read_nat d)) (digits_us (c # cs))))"

fun py_int :: "json \<Rightarrow> exn + int" where
  "py_int (JInt i) = Inr i"
| "py_int (JBool b) = Inr (if b then 1 else 0)"
| "py_int (JFloat x) =
     (case x of Fin q \<Rightarrow> Inr (if 0 \<le> q then \<lfloor>q\<rfloor> else - \<lfloor>- q\<rfloor>) | NaN \<Rightarrow> Inl ValueError | _ \<Rightarrow> Inl OverflowError)"
| "py_int (JStr s) = (case int_of_text s of None \<Rightarrow> Inl ValueError | Some i \<Rightarrow> Inr i)"
| "py_int _ = Inl TypeError"

fun flt_less :: "flt \<Rightarrow> flt \<Rightarrow> bool" where
  "flt_less (Fin p) (Fin q) = (p < q)"
| "flt_less (Fin _) PInf = True"
| "flt_less NInf (Fin _) = True"
| "flt_less NInf PInf = True"
| "flt_less _ _ = False"

section \<open>Fields\<close>

definition KNOWN_SCHEMA_VERSIONS :: "string list" where
  "KNOWN_SCHEMA_VERSIONS = [EVENT_SCHEMA_VERSION]"

definition KNOWN_EVENT_TYPES :: "string list" where
  "KNOWN_EVENT_TYPES =
    [''decision'', ''outcome'', ''checkpoint'', ''resolution'', ''countersignature'', ''archive'', ''rotation'']"

definition KNOWN_RESOLUTIONS :: "string list" where
  "KNOWN_RESOLUTIONS = [''confirmed_completed'', ''confirmed_not_completed'']"

definition SHARED_REQUIRED_FIELDS :: "string list" where
  "SHARED_REQUIRED_FIELDS =
    [''schema_version'', ''event_type'', ''event_id'', ''action_id'', ''action_name'', ''contract_hash'',
     ''timestamp_utc'', ''key_id'', ''event_hash'', ''signature'']"

definition DECISION_REQUIRED_FIELDS :: "string list" where
  "DECISION_REQUIRED_FIELDS =
    [''decision'', ''risk'', ''approval_mode'', ''redacted_input_summary'', ''input_hash'']"

definition OUTCOME_REQUIRED_FIELDS :: "string list" where
  "OUTCOME_REQUIRED_FIELDS = [''status'', ''decision_event_id'']"

definition LINKED_REQUIRED_FIELDS :: "string list" where \<comment> \<open>the common start of the short forms\<close>
  "LINKED_REQUIRED_FIELDS =
    [''schema_version'', ''event_type'', ''event_id'', ''timestamp_utc'', ''key_id'',
     ''previous_event_hash'', ''event_hash'', ''signature'']"

definition CHECKPOINT_REQUIRED_FIELDS :: "string list" where
  "CHECKPOINT_REQUIRED_FIELDS = LINKED_REQUIRED_FIELDS @ [''checkpoint_count'', ''head_sha256'']"

definition RESOLUTION_REQUIRED_FIELDS :: "string list" where
  "RESOLUTION_REQUIRED_FIELDS = SHARED_REQUIRED_FIELDS @ [''decision_event_id'', ''resolution'', ''note'']"

definition COUNTERSIGNATURE_REQUIRED_FIELDS :: "string list" where
  "COUNTERSIGNATURE_REQUIRED_FIELDS =
     LINKED_REQUIRED_FIELDS @ [''checkpoint_event_id'', ''checkpoint_count'', ''head_sha256'']"

definition ARCHIVE_REQUIRED_FIELDS :: "string list" where
  "ARCHIVE_REQUIRED_FIELDS = LINKED_REQUIRED_FIELDS @ [''prior_count'', ''prior_head'', ''archived_path'']"

definition ROTATION_REQUIRED_FIELDS :: "string list" where
  "ROTATION_REQUIRED_FIELDS =
     LINKED_REQUIRED_FIELDS @ [''prior_key_id'', ''successor_key_id'', ''successor_fingerprint'']"

definition required_fields :: "string \<Rightarrow> string list" where
  "required_fields ty =
     (if ty = ''checkpoint'' then CHECKPOINT_REQUIRED_FIELDS
      else if ty = ''resolution'' then RESOLUTION_REQUIRED_FIELDS
      else if ty = ''countersignature'' then COUNTERSIGNATURE_REQUIRED_FIELDS
      else if ty = ''archive'' then ARCHIVE_REQUIRED_FIELDS
      else if ty = ''rotation'' then ROTATION_REQUIRED_FIELDS
      else SHARED_REQUIRED_FIELDS
        @ (if ty = ''decision'' then DECISION_REQUIRED_FIELDS else OUTCOME_REQUIRED_FIELDS))"

definition missing_fields :: "string list \<Rightarrow> event \<Rightarrow> string list" where
  "missing_fields names e = filter (\<lambda>k. \<not> has_key e k) names"

section \<open>Shapes\<close>

text \<open>\<open>not isinstance(count, int) or count < bound\<close>.\<close>

definition bad_count :: "int \<Rightarrow> json \<Rightarrow> bool" where
  "bad_count bound v = (case int_of v of None \<Rightarrow> True | Some n \<Rightarrow> n < bound)"

definition when_code :: "bool \<Rightarrow> string \<Rightarrow> string list" where
  "when_code b c = (if b then [c] else [])"

definition checkpoint_shape :: "event \<Rightarrow> string list" where
  "checkpoint_shape e =
     when_code (\<not> py_eq (jget e ''head_sha256'') (jget e ''previous_event_hash'')) ''checkpoint_head_mismatch''
     @ when_code (bad_count 0 (jget e ''checkpoint_count'')) ''checkpoint_bad_count''"

definition resolution_shape :: "event \<Rightarrow> exn + string list" where
  "resolution_shape e =
     (let r = jget e ''resolution'' in
      if \<not> hashable r then Inl TypeError
      else Inr (when_code (r \<notin> JStr ` set KNOWN_RESOLUTIONS) ''resolution_bad_value''
        @ when_code (\<not> is_str (jget e ''decision_event_id'')) ''resolution_bad_reference''
        @ when_code (\<not> is_str (jget e ''note'')) ''resolution_bad_note''))"

definition countersignature_shape :: "(string, event) dict \<Rightarrow> event \<Rightarrow> string list" where
  "countersignature_shape known e =
     (case (case jget e ''checkpoint_event_id'' of JStr r \<Rightarrow> dget known r | _ \<Rightarrow> None) of
        None \<Rightarrow> [''countersignature_orphan'']
      | Some cp \<Rightarrow>
          when_code (\<not> py_eq (jget e ''checkpoint_count'') (jget cp ''checkpoint_count''))
            ''countersignature_count_mismatch''
          @ when_code (\<not> py_eq (jget e ''head_sha256'') (jget cp ''head_sha256''))
              ''countersignature_head_mismatch'')
     @ when_code (bad_count 0 (jget e ''checkpoint_count'')) ''countersignature_bad_count''"

definition outcome_shape :: "event \<Rightarrow> string list" where
  "outcome_shape e =
     when_code (has_key e ''receipt'' \<and> \<not> is_obj (jget e ''receipt'')) ''outcome_bad_receipt''"

definition bare_file_name :: "string \<Rightarrow> bool" where
  "bare_file_name p \<longleftrightarrow> CHR ''/'' \<notin> set p \<and> bslash \<notin> set p \<and> p \<notin> {''.'', ''..''}"

definition archive_shape :: "event \<Rightarrow> string list" where
  "archive_shape e =
     when_code (jget e ''previous_event_hash'' \<noteq> JNull) ''archive_not_first''
     @ when_code (bad_count 1 (jget e ''prior_count'')) ''archive_bad_count''
     @ (case jget e ''archived_path'' of
          JStr p \<Rightarrow> when_code (\<not> bare_file_name p) ''archive_bad_path''
        | _ \<Rightarrow> [''archive_bad_path''])"

definition is_fingerprint :: "json \<Rightarrow> bool" where
  "is_fingerprint v = (case v of JStr f \<Rightarrow> py_len f = 64 \<and> list_all is_hexchar f | _ \<Rightarrow> False)"

definition rotation_shape :: "event \<Rightarrow> string list" where
  "rotation_shape e =
     (let prior = jget e ''prior_key_id''; successor = jget e ''successor_key_id'';
          fingerprint = jget e ''successor_fingerprint'' in
      when_code (\<not> py_eq prior (jget e ''key_id'')) ''rotation_signer_mismatch''
      @ when_code (case successor of JStr s \<Rightarrow> \<not> starts_with ''ed25519:'' s | _ \<Rightarrow> True) ''rotation_bad_successor''
      @ (if \<not> is_fingerprint fingerprint then [''rotation_bad_fingerprint'']
         else case (successor, fingerprint) of
            (JStr s, JStr f) \<Rightarrow> when_code (s \<noteq> ''ed25519:'' @ take 16 f) ''rotation_fingerprint_mismatch''
          | _ \<Rightarrow> [])
      @ when_code (is_str prior \<and> prior = successor) ''rotation_self_successor'')"

definition shape_codes :: "string \<Rightarrow> (string, event) dict \<Rightarrow> event \<Rightarrow> exn + string list" where
  "shape_codes ty known e =
     (if ty = ''checkpoint'' then Inr (checkpoint_shape e)
      else if ty = ''resolution'' then resolution_shape e
      else if ty = ''countersignature'' then Inr (countersignature_shape known e)
      else if ty = ''outcome'' then Inr (outcome_shape e)
      else if ty = ''archive'' then Inr (archive_shape e)
      else if ty = ''rotation'' then Inr (rotation_shape e)
      else Inr [])"

section \<open>One event\<close>

text \<open>The hash and signature checks, shared with the checkpoint witness.\<close>

definition hash_matches :: "event \<Rightarrow> bytes \<Rightarrow> bool" where
  "hash_matches e digest \<longleftrightarrow> jget e ''event_hash'' = JStr (to_hex digest)"

definition signer_of :: "keyring \<Rightarrow> event \<Rightarrow> bytes option" where
  "signer_of trusted e = (case jget e ''key_id'' of JStr k \<Rightarrow> dget trusted k | _ \<Rightarrow> None)"

definition integrity_codes :: "platform \<Rightarrow> string option \<Rightarrow> keyring \<Rightarrow> event \<Rightarrow> exn + string list" where
  "integrity_codes P expected trusted e =
     bindR (event_digest P (unsigned_payload e)) (\<lambda>digest.
       Inr (when_code (jget e ''previous_event_hash'' \<noteq> opt_str expected) ''chain_break''
         @ when_code (\<not> hash_matches e digest) ''hash_mismatch''
         @ (case signer_of trusted e of
              None \<Rightarrow> [''unknown_key'']
            | Some pk \<Rightarrow>
                when_code (\<not> verify_signature P pk digest (py_str P (jget e ''signature''))) ''bad_signature'')))"

definition event_codes ::
  "platform \<Rightarrow> event \<Rightarrow> string option \<Rightarrow> keyring \<Rightarrow> (string, event) dict \<Rightarrow> exn + string list" where
  "event_codes P e expected trusted known =
     (let sv = jget e ''schema_version''; et = jget e ''event_type'' in
      if \<not> hashable sv then Inl TypeError
      else if sv \<notin> JStr ` set KNOWN_SCHEMA_VERSIONS then Inr [''unknown_schema'']
      else if \<not> hashable et then Inl TypeError
      else case et of
        JStr ty \<Rightarrow>
          (if ty \<notin> set KNOWN_EVENT_TYPES then Inr [''unknown_event_type'']
           else if missing_fields (required_fields ty @ [''previous_event_hash'']) e \<noteq> []
             then Inr [''missing_fields'']
           else bindR (shape_codes ty known e) (\<lambda>sh.
             bindR (integrity_codes P expected trusted e) (\<lambda>ic. Inr (sh @ ic))))
      | _ \<Rightarrow> Inr [''unknown_event_type''])"

section \<open>The journal\<close>

type_synonym issue = "nat \<times> string" \<comment> \<open>1-based line, 0 for the file; code\<close>

record vstate =
  v_issues :: "issue list"
  v_events :: "event list"
  v_previous :: "string option"
  v_verified :: nat
  v_line :: nat
  v_newest :: "event option"
  v_checkpoints :: "(string, event) dict"
  v_total :: nat
  v_found :: bool

definition vstart :: "issue list \<Rightarrow> vstate" where
  "vstart issues =
     \<lparr>v_issues = issues, v_events = [], v_previous = None, v_verified = 0, v_line = 0,
      v_newest = None, v_checkpoints = [], v_total = 0, v_found = False\<rparr>"

text \<open>The body of the loop for a line that parsed to an object.\<close>

definition verify_step ::
  "platform \<Rightarrow> keyring \<Rightarrow> (event \<Rightarrow> event) \<Rightarrow> string option \<Rightarrow> event \<Rightarrow> vstate \<Rightarrow> exn + vstate" where
  "verify_step P trusted project wid e s =
     bindR (event_codes P e (v_previous s) trusted (v_checkpoints s)) (\<lambda>codes.
       let cp = etype ''checkpoint'' e in
       Inr (s\<lparr>v_issues := v_issues s @ map (\<lambda>c. (v_line s, c)) codes,
              v_events := v_events s @ [project e],
              v_previous := event_hash_of e,
              v_verified := (if codes = [] then Suc (v_verified s) else v_verified s),
              v_newest := (if cp then Some e else v_newest s),
              v_checkpoints := (case (cp, event_id_of e) of
                 (True, Some i) \<Rightarrow> dset i e (v_checkpoints s) | _ \<Rightarrow> v_checkpoints s),
              v_total := Suc (v_total s),
              v_found := (v_found s \<or> (wid \<noteq> None \<and> jget e ''event_id'' = opt_str wid))\<rparr>))"

text \<open>The loop over the lines; the unparseable line ends it.\<close>

fun verify_lines ::
  "platform \<Rightarrow> keyring \<Rightarrow> (event \<Rightarrow> event) \<Rightarrow> string option \<Rightarrow> bytes list \<Rightarrow> vstate \<Rightarrow> exn + vstate" where
  "verify_lines P trusted project wid [] s = Inr s"
| "verify_lines P trusted project wid (raw # lines) s =
     (let s = s\<lparr>v_line := Suc (v_line s)\<rparr>; line = bstrip raw in
      if line = [] then verify_lines P trusted project wid lines s
      else case json_loads P line of
        None \<Rightarrow> Inr (s\<lparr>v_issues := v_issues s @ [(v_line s, ''malformed_json'')]\<rparr>)
      | Some (JObj e) \<Rightarrow>
          bindR (verify_step P trusted project wid e s) (\<lambda>s'. verify_lines P trusted project wid lines s')
      | Some _ \<Rightarrow> Inr (s\<lparr>v_issues := v_issues s @ [(v_line s, ''malformed_event'')]\<rparr>))"

section \<open>Checkpoint coverage\<close>

text \<open>\<open>_load_checkpoint_witness\<close>; None is a file that cannot be read.\<close>

definition witness_invalid :: "exn + event option \<times> issue list" where
  "witness_invalid = Inr (None, [(0, ''checkpoint_witness_invalid'')])"

definition load_checkpoint_witness ::
  "platform \<Rightarrow> keyring \<Rightarrow> bytes option \<Rightarrow> exn + event option \<times> issue list" where
  "load_checkpoint_witness P trusted file =
     (case file of
        None \<Rightarrow> Inr (None, [(0, ''checkpoint_witness_unreadable'')])
      | Some content \<Rightarrow>
          (let raw = bstrip content in
           if raw = [] then witness_invalid
           else case json_loads P raw of
             Some (JObj e) \<Rightarrow>
               (let sv = jget e ''schema_version'' in
                if \<not> hashable sv then Inl TypeError
                else if sv \<notin> JStr ` set KNOWN_SCHEMA_VERSIONS then witness_invalid
                else if \<not> etype ''checkpoint'' e then witness_invalid
                else if missing_fields CHECKPOINT_REQUIRED_FIELDS e \<noteq> [] then witness_invalid
                else if checkpoint_shape e \<noteq> [] then witness_invalid
                else bindR (event_digest P (unsigned_payload e)) (\<lambda>digest.
                  if \<not> hash_matches e digest then witness_invalid
                  else case signer_of trusted e of
                    None \<Rightarrow> witness_invalid
                  | Some pk \<Rightarrow>
                      (if verify_signature P pk digest (py_str P (jget e ''signature''))
                       then Inr (Some e, []) else witness_invalid)))
           | _ \<Rightarrow> witness_invalid))"

definition truncation_issue :: "nat \<Rightarrow> event \<Rightarrow> exn + issue list" where
  "truncation_issue cnt cp =
     bindR (jindex cp ''checkpoint_count'') (\<lambda>v. bindR (py_int v) (\<lambda>n.
       Inr (if int cnt < n then [(0, ''checkpoint_truncation'')] else [])))"

text \<open>
  \<open>max(candidates, key=...)\<close>: the newest checkpoint of the journal, unless the witness commits
  to a larger count. The witness has an integer count, the other one may have anything.
\<close>

definition effective_checkpoint :: "event option \<Rightarrow> event option \<Rightarrow> exn + event option" where
  "effective_checkpoint newest witness =
     (case (newest, witness) of
        (None, None) \<Rightarrow> Inr None
      | (Some n, None) \<Rightarrow> bindR (jindex n ''checkpoint_count'') (\<lambda>_. Inr (Some n))
      | (None, Some w) \<Rightarrow> bindR (jindex w ''checkpoint_count'') (\<lambda>_. Inr (Some w))
      | (Some n, Some w) \<Rightarrow>
          bindR (jindex n ''checkpoint_count'') (\<lambda>cn. bindR (jindex w ''checkpoint_count'') (\<lambda>cw.
            case (num_of cn, num_of cw) of
              (Some x, Some y) \<Rightarrow> Inr (Some (if flt_less x y then w else n))
            | _ \<Rightarrow> Inl TypeError)))"

definition checkpoint_coverage :: "event option \<Rightarrow> event option \<Rightarrow> bool \<Rightarrow> nat \<Rightarrow> exn + issue list" where
  "checkpoint_coverage newest witness found cnt =
     bindR (case witness of
              Some w \<Rightarrow> if found then Inr []
                else bindR (truncation_issue cnt w) (\<lambda>t. Inr ((0, ''checkpoint_not_found'') # t))
            | None \<Rightarrow> Inr []) (\<lambda>missing.
       bindR (effective_checkpoint newest (if found then witness else None)) (\<lambda>eff.
         case eff of
           None \<Rightarrow> Inr missing
         | Some cp \<Rightarrow> bindR (truncation_issue cnt cp) (\<lambda>t. Inr (missing @ t))))"

section \<open>Verification\<close>

record vresult =
  r_valid :: bool
  r_verified :: nat
  r_issues :: "issue list"

text \<open>
  \<open>_read_and_verify\<close>. The journal is None when it cannot be opened; the outer option of the
  witness is whether a checkpoint path was given.
\<close>

definition read_and_verify ::
  "platform \<Rightarrow> bytes option \<Rightarrow> keyring \<Rightarrow> bytes option option \<Rightarrow> (event \<Rightarrow> event) \<Rightarrow> exn + vresult \<times> event list" where
  "read_and_verify P file trusted checkpoint project =
     bindR (case checkpoint of None \<Rightarrow> Inr (None, []) | Some w \<Rightarrow> load_checkpoint_witness P trusted w)
       (\<lambda>(witness, issues).
         let wid = map_option (\<lambda>w. py_str P (jget w ''event_id'')) witness in
         case file of
           None \<Rightarrow> Inr (\<lparr>r_valid = False, r_verified = 0, r_issues = [(0, ''unreadable'')]\<rparr>, [])
         | Some f \<Rightarrow>
             bindR (verify_lines P trusted project wid (py_lines f) (vstart issues)) (\<lambda>s.
               bindR (checkpoint_coverage (v_newest s) witness (v_found s) (v_total s)) (\<lambda>cov.
                 let all = v_issues s @ cov in
                 Inr (\<lparr>r_valid = (all = []), r_verified = v_verified s, r_issues = all\<rparr>, v_events s))))"

definition verify_journal ::
  "platform \<Rightarrow> bytes option \<Rightarrow> bytes list \<Rightarrow> bytes option option \<Rightarrow> exn + vresult" where
  "verify_journal P file keys checkpoint =
     bindR (read_and_verify P file (to_keyring P keys) checkpoint (\<lambda>e. e)) (\<lambda>(r, _). Inr r)"

definition load_journal_snapshot ::
  "platform \<Rightarrow> bytes option \<Rightarrow> bytes list \<Rightarrow> (event \<Rightarrow> event) \<Rightarrow> exn + vresult \<times> event list" where
  "load_journal_snapshot P file keys project = read_and_verify P file (to_keyring P keys) None project"

section \<open>What a valid journal is\<close>

text \<open>
  The specification: the lines hold objects, and each event passes its checks against the hash
  of the event before it and the checkpoints seen so far. No line numbers, no issue list.
\<close>

definition known_after :: "event \<Rightarrow> (string, event) dict \<Rightarrow> (string, event) dict" where
  "known_after e known =
     (case (etype ''checkpoint'' e, event_id_of e) of (True, Some i) \<Rightarrow> dset i e known | _ \<Rightarrow> known)"

fun valid_from ::
  "platform \<Rightarrow> keyring \<Rightarrow> string option \<Rightarrow> (string, event) dict \<Rightarrow> event list \<Rightarrow> bool" where
  "valid_from P trusted prev known [] = True"
| "valid_from P trusted prev known (e # es) =
     (event_codes P e prev trusted known = Inr []
      \<and> valid_from P trusted (event_hash_of e) (known_after e known) es)"

fun parse_lines :: "platform \<Rightarrow> bytes list \<Rightarrow> event list option" where
  "parse_lines P [] = Some []"
| "parse_lines P (raw # lines) =
     (if bstrip raw = [] then parse_lines P lines
      else case json_loads P (bstrip raw) of
        Some (JObj e) \<Rightarrow> map_option (\<lambda>es. e # es) (parse_lines P lines)
      | _ \<Rightarrow> None)"

definition last_hash :: "string option \<Rightarrow> event list \<Rightarrow> string option" where
  "last_hash prev es = (if es = [] then prev else event_hash_of (last es))"

definition last_checkpoint :: "event option \<Rightarrow> event list \<Rightarrow> event option" where
  "last_checkpoint newest es = fold (\<lambda>e n. if etype ''checkpoint'' e then Some e else n) es newest"

text \<open>The state the loop reaches on a list of events without an issue.\<close>

definition reached :: "string option \<Rightarrow> event list \<Rightarrow> vstate \<Rightarrow> vstate \<Rightarrow> bool" where
  "reached wid es s s' \<longleftrightarrow>
     v_events s' = v_events s @ es \<and> v_previous s' = last_hash (v_previous s) es
     \<and> v_verified s' = v_verified s + length es \<and> v_total s' = v_total s + length es
     \<and> v_newest s' = last_checkpoint (v_newest s) es
     \<and> v_checkpoints s' = fold known_after es (v_checkpoints s)
     \<and> (v_found s' \<longleftrightarrow> v_found s \<or> wid \<noteq> None \<and> (\<exists>e \<in> set es. jget e ''event_id'' = opt_str wid))"

lemma verify_step_issues:
  "verify_step P trusted project wid e s = Inr s' \<Longrightarrow>
   \<exists>codes. event_codes P e (v_previous s) trusted (v_checkpoints s) = Inr codes
     \<and> v_issues s' = v_issues s @ map (\<lambda>c. (v_line s, c)) codes"
  by (auto simp: verify_step_def bindR_Inr_iff Let_def)

lemma verify_step_ok:
  assumes "event_codes P e (v_previous s) trusted (v_checkpoints s) = Inr []"
  shows "\<exists>s'. verify_step P trusted (\<lambda>e. e) wid e s = Inr s' \<and> v_issues s' = v_issues s
    \<and> reached wid [e] s s' \<and> v_checkpoints s' = known_after e (v_checkpoints s)"
  using assms
  by (simp add: verify_step_def Let_def reached_def last_hash_def last_checkpoint_def known_after_def)

lemma reached_trans: "reached wid es s s' \<Longrightarrow> reached wid es' s' s'' \<Longrightarrow> reached wid (es @ es') s s''"
  by (auto simp: reached_def last_hash_def last_checkpoint_def)

lemma reached_line: "reached wid es (s\<lparr>v_line := n\<rparr>) s' = reached wid es s s'"
  by (simp add: reached_def)

lemma verify_lines_issues:
  "verify_lines P trusted project wid lines s = Inr s' \<Longrightarrow> \<exists>is. v_issues s' = v_issues s @ is"
proof (induction lines arbitrary: s)
  case (Cons raw lines)
  show ?case
  proof (cases "bstrip raw = []")
    case True
    with Cons.prems have "verify_lines P trusted project wid lines (s\<lparr>v_line := Suc (v_line s)\<rparr>) = Inr s'"
      by simp
    from Cons.IH [OF this] show ?thesis by simp
  next
    case False
    show ?thesis
    proof (cases "\<exists>e. json_loads P (bstrip raw) = Some (JObj e)")
      case True
      with False Cons.prems obtain e s1 where
        s1: "verify_step P trusted project wid e (s\<lparr>v_line := Suc (v_line s)\<rparr>) = Inr s1"
        "verify_lines P trusted project wid lines s1 = Inr s'"
        by (auto simp: bindR_Inr_iff Let_def)
      from verify_step_issues [OF s1(1)] Cons.IH [OF s1(2)] show ?thesis by auto
    next
      case no: False
      with False Cons.prems show ?thesis
        by (auto simp: Let_def split: option.splits json.splits)
    qed
  qed
qed simp

lemma verify_lines_sound:
  "verify_lines P trusted (\<lambda>e. e) wid lines s = Inr s' \<Longrightarrow> v_issues s' = [] \<Longrightarrow>
   \<exists>es. parse_lines P lines = Some es \<and> valid_from P trusted (v_previous s) (v_checkpoints s) es
     \<and> reached wid es s s'"
proof (induction lines arbitrary: s)
  case Nil
  then show ?case by (simp add: reached_def last_hash_def last_checkpoint_def)
next
  case (Cons raw lines)
  let ?s = "s\<lparr>v_line := Suc (v_line s)\<rparr>"
  show ?case
  proof (cases "bstrip raw = []")
    case True
    with Cons.prems have "verify_lines P trusted (\<lambda>e. e) wid lines ?s = Inr s'" by simp
    from Cons.IH [OF this Cons.prems(2)] True show ?thesis by (simp add: reached_line)
  next
    case False
    have "\<exists>e. json_loads P (bstrip raw) = Some (JObj e)"
      using False Cons.prems by (auto simp: Let_def split: option.splits json.splits)
    then obtain e where e: "json_loads P (bstrip raw) = Some (JObj e)" by blast
    with False Cons.prems obtain s1 where
      s1: "verify_step P trusted (\<lambda>e. e) wid e ?s = Inr s1"
      "verify_lines P trusted (\<lambda>e. e) wid lines s1 = Inr s'"
      by (auto simp: bindR_Inr_iff Let_def)
    obtain "is" where "v_issues s' = v_issues s1 @ is" using verify_lines_issues [OF s1(2)] by blast
    with Cons.prems(2) have "v_issues s1 = []" by simp
    with verify_step_issues [OF s1(1)]
    have ok: "event_codes P e (v_previous s) trusted (v_checkpoints s) = Inr []" by auto
    with verify_step_ok [of P e ?s trusted wid] s1(1)
    have r: "reached wid [e] s s1" "v_checkpoints s1 = known_after e (v_checkpoints s)"
      by (auto simp: reached_line)
    from Cons.IH [OF s1(2) Cons.prems(2)] obtain es where es: "parse_lines P lines = Some es"
      "valid_from P trusted (v_previous s1) (v_checkpoints s1) es" "reached wid es s1 s'" by blast
    have "v_previous s1 = event_hash_of e" using r(1) by (simp add: reached_def last_hash_def)
    with es r ok False e reached_trans [OF r(1) es(3)] show ?thesis by simp
  qed
qed

lemma verify_lines_complete:
  "parse_lines P lines = Some es \<Longrightarrow> valid_from P trusted (v_previous s) (v_checkpoints s) es \<Longrightarrow>
   \<exists>s'. verify_lines P trusted (\<lambda>e. e) wid lines s = Inr s' \<and> v_issues s' = v_issues s \<and> reached wid es s s'"
proof (induction lines arbitrary: s es)
  case Nil
  then show ?case by (simp add: reached_def last_hash_def last_checkpoint_def)
next
  case (Cons raw lines)
  let ?s = "s\<lparr>v_line := Suc (v_line s)\<rparr>"
  show ?case
  proof (cases "bstrip raw = []")
    case True
    with Cons.prems Cons.IH [of es ?s] show ?thesis by (auto simp: reached_line)
  next
    case False
    with Cons.prems obtain e es' where e: "json_loads P (bstrip raw) = Some (JObj e)"
      "parse_lines P lines = Some es'" "es = e # es'"
      by (auto split: option.splits json.splits)
    with Cons.prems(2) have ok: "event_codes P e (v_previous ?s) trusted (v_checkpoints ?s) = Inr []"
      and rest: "valid_from P trusted (event_hash_of e) (known_after e (v_checkpoints s)) es'" by simp_all
    from verify_step_ok [OF ok, of wid] obtain s1 where
      s1: "verify_step P trusted (\<lambda>e. e) wid e ?s = Inr s1" "v_issues s1 = v_issues s"
      "reached wid [e] s s1" "v_checkpoints s1 = known_after e (v_checkpoints s)"
      by (auto simp: reached_line)
    have "v_previous s1 = event_hash_of e" using s1(3) by (simp add: reached_def last_hash_def)
    with rest s1(4) Cons.IH [OF e(2), of s1] obtain s' where
      "verify_lines P trusted (\<lambda>e. e) wid lines s1 = Inr s'" "v_issues s' = v_issues s1"
      "reached wid es' s1 s'" by auto
    with s1 e False reached_trans [OF s1(3), of es' s'] show ?thesis by (simp add: Let_def)
  qed
qed

text \<open>The code and the specification agree.\<close>

definition journal_valid :: "platform \<Rightarrow> keyring \<Rightarrow> bytes \<Rightarrow> event list \<Rightarrow> bool" where
  "journal_valid P trusted f es \<longleftrightarrow>
     parse_lines P (py_lines f) = Some es \<and> valid_from P trusted None [] es"

lemma read_and_verify_valid:
  assumes "read_and_verify P (Some f) trusted checkpoint (\<lambda>e. e) = Inr (r, es)" and "r_valid r"
  shows "\<exists>witness. journal_valid P trusted f es \<and> r_verified r = length es
    \<and> (case checkpoint of None \<Rightarrow> witness = None | Some w \<Rightarrow> load_checkpoint_witness P trusted w = Inr (witness, []))
    \<and> checkpoint_coverage (last_checkpoint None es) witness
        (\<exists>w. witness = Some w \<and> (\<exists>e \<in> set es. jget e ''event_id'' = JStr (py_str P (jget w ''event_id''))))
        (length es) = Inr []"
proof -
  let ?load = "case checkpoint of None \<Rightarrow> Inr (None, []) | Some w \<Rightarrow> load_checkpoint_witness P trusted w"
  from assms(1) obtain witness issues s cov where
    load: "?load = Inr (witness, issues)"
    and lines: "verify_lines P trusted (\<lambda>e. e) (map_option (\<lambda>w. py_str P (jget w ''event_id'')) witness)
        (py_lines f) (vstart issues) = Inr s"
    and cov: "checkpoint_coverage (v_newest s) witness (v_found s) (v_total s) = Inr cov"
    and r: "r = \<lparr>r_valid = (v_issues s @ cov = []), r_verified = v_verified s, r_issues = v_issues s @ cov\<rparr>"
      "es = v_events s"
    by (auto simp: read_and_verify_def bindR_Inr_iff Let_def)
  from r assms(2) have ok: "v_issues s = []" "cov = []" by simp_all
  from verify_lines_issues [OF lines] ok have "issues = []" by (auto simp: vstart_def)
  from verify_lines_sound [OF lines ok(1)] obtain es' where
    "parse_lines P (py_lines f) = Some es'"
    "valid_from P trusted None [] es'"
    "reached (map_option (\<lambda>w. py_str P (jget w ''event_id'')) witness) es' (vstart issues) s"
    by (auto simp: vstart_def)
  then show ?thesis
    using r load cov ok \<open>issues = []\<close>
    by (intro exI [of _ witness])
      (cases witness; cases checkpoint; auto simp: reached_def vstart_def journal_valid_def opt_str_def)
qed

lemma read_and_verify_complete:
  assumes "journal_valid P trusted f es"
    and "(case checkpoint of None \<Rightarrow> Inr (None, []) | Some w \<Rightarrow> load_checkpoint_witness P trusted w)
           = Inr (witness, [])"
  shows "read_and_verify P (Some f) trusted checkpoint (\<lambda>e. e) =
    bindR (checkpoint_coverage (last_checkpoint None es) witness
        (\<exists>w. witness = Some w \<and> (\<exists>e \<in> set es. jget e ''event_id'' = JStr (py_str P (jget w ''event_id''))))
        (length es)) (\<lambda>cov.
      Inr (\<lparr>r_valid = (cov = []), r_verified = length es, r_issues = cov\<rparr>, es))"
proof -
  let ?wid = "map_option (\<lambda>w. py_str P (jget w ''event_id'')) witness"
  from assms(1) have "parse_lines P (py_lines f) = Some es"
    "valid_from P trusted (v_previous (vstart [])) (v_checkpoints (vstart [])) es"
    by (simp_all add: journal_valid_def vstart_def)
  from verify_lines_complete [OF this, of ?wid] obtain s where
    "verify_lines P trusted (\<lambda>e. e) ?wid (py_lines f) (vstart []) = Inr s" "v_issues s = []"
    "reached ?wid es (vstart []) s" by (auto simp: vstart_def)
  then show ?thesis
    using assms(2) by (cases witness) (simp_all add: read_and_verify_def reached_def vstart_def Let_def opt_str_def)
qed

end
