(* ===== verification/Chain.thy ===== *)
theory Chain
  imports Verification
begin

text \<open>
  What a valid journal guarantees: every event is signed by a trusted key over its own payload,
  the chain head determines the whole journal, a checkpoint witness bounds its length, and
  appending a finalized event keeps it valid.
\<close>

section \<open>Sound events\<close>

definition payload_text :: "platform \<Rightarrow> event \<Rightarrow> bytes" where
  "payload_text P e = json_text P (JObj (unsigned_payload e))"

lemma event_digest_Inr: "event_digest P p = Inr d \<Longrightarrow> d = sha256 P (json_text P (JObj p))"
  by (auto simp: event_digest_def canonical_json_bytes_def bindR_Inr_iff split: if_splits)

lemma when_code_Nil: "when_code b c = [] \<longleftrightarrow> \<not> b"
  by (simp add: when_code_def)

lemma event_codes_integrity:
  assumes "event_codes P e prev trusted known = Inr []"
  shows "integrity_codes P prev trusted e = Inr []
    \<and> (\<exists>ty. jget e ''event_type'' = JStr ty \<and> ty \<in> set KNOWN_EVENT_TYPES
          \<and> shape_codes ty known e = Inr []
          \<and> missing_fields (required_fields ty @ [''previous_event_hash'']) e = [])"
  using assms by (auto simp: event_codes_def Let_def bindR_Inr_iff split: if_splits json.splits)

lemma event_codes_sound:
  assumes "event_codes P e prev trusted known = Inr []"
  shows "jget e ''previous_event_hash'' = opt_str prev
    \<and> jget e ''event_hash'' = JStr (to_hex (sha256 P (payload_text P e)))
    \<and> (\<exists>k pk. jget e ''key_id'' = JStr k \<and> dget trusted k = Some pk
         \<and> verify_signature P pk (sha256 P (payload_text P e)) (py_str P (jget e ''signature'')))"
proof -
  from event_codes_integrity [OF assms] have "integrity_codes P prev trusted e = Inr []" by blast
  then obtain d where d: "event_digest P (unsigned_payload e) = Inr d"
    and codes: "jget e ''previous_event_hash'' = opt_str prev" "hash_matches e d"
      "\<exists>pk. signer_of trusted e = Some pk \<and> verify_signature P pk d (py_str P (jget e ''signature''))"
    by (auto simp: integrity_codes_def bindR_Inr_iff when_code_Nil split: option.splits)
  from event_digest_Inr [OF d] have "d = sha256 P (payload_text P e)" by (simp add: payload_text_def)
  with codes show ?thesis
    by (auto simp: hash_matches_def signer_of_def split: json.splits)
qed

lemma valid_from_append:
  "valid_from P trusted prev known (xs @ ys) \<longleftrightarrow>
     valid_from P trusted prev known xs
     \<and> valid_from P trusted (last_hash prev xs) (fold known_after xs known) ys"
  by (induction xs arbitrary: prev known) (auto simp: last_hash_def)

lemma valid_from_sound:
  "valid_from P trusted prev known es \<Longrightarrow> e \<in> set es \<Longrightarrow>
   \<exists>prev' known'. event_codes P e prev' trusted known' = Inr []"
  by (induction es arbitrary: prev known) auto

text \<open>
  C7: A journal that verifies is authentic: every event carries the hash of its own canonical
  payload and a signature over that hash that one of the trusted keys accepts, under the key id
  the event names.
\<close>

theorem valid_journal_authentic:
  assumes "verify_journal P (Some f) keys checkpoint = Inr r" and "r_valid r"
  shows "\<exists>es. parse_lines P (py_lines f) = Some es \<and> r_verified r = length es
    \<and> (\<forall>e \<in> set es. \<exists>pk \<in> set keys.
          jget e ''key_id'' = JStr (key_id_for P pk)
          \<and> jget e ''event_hash'' = JStr (to_hex (sha256 P (payload_text P e)))
          \<and> verify_signature P pk (sha256 P (payload_text P e)) (py_str P (jget e ''signature'')))"
proof -
  from assms(1) obtain es where
    "read_and_verify P (Some f) (to_keyring P keys) checkpoint (\<lambda>e. e) = Inr (r, es)"
    by (auto simp: verify_journal_def bindR_Inr_iff)
  from read_and_verify_valid [OF this assms(2)]
  have v: "parse_lines P (py_lines f) = Some es" "valid_from P (to_keyring P keys) None [] es"
    "r_verified r = length es" by (auto simp: journal_valid_def)
  have "\<exists>pk \<in> set keys. jget e ''key_id'' = JStr (key_id_for P pk)
      \<and> jget e ''event_hash'' = JStr (to_hex (sha256 P (payload_text P e)))
      \<and> verify_signature P pk (sha256 P (payload_text P e)) (py_str P (jget e ''signature''))"
    if "e \<in> set es" for e
  proof -
    from valid_from_sound [OF v(2) that] obtain prev known where
      "event_codes P e prev (to_keyring P keys) known = Inr []" by blast
    from event_codes_sound [OF this] dget_to_keyring_mem show ?thesis by metis
  qed
  with v show ?thesis by blast
qed

section \<open>The head determines the journal\<close>

lemma unsigned_get:
  "k \<notin> {''event_hash'', ''signature''} \<Longrightarrow> jget (unsigned_payload e) k = jget e k"
proof -
  assume k: "k \<notin> {''event_hash'', ''signature''}"
  have "dget (filter (\<lambda>(k, v). k \<notin> {''event_hash'', ''signature''}) e) k = dget e k"
    using k by (induction e) auto
  then show ?thesis by (simp add: jget_def unsigned_payload_def)
qed

lemma json_wf_unsigned: "event_wf P e \<Longrightarrow> event_wf P (unsigned_payload e)"
  by (auto simp: unsigned_payload_def list_all_iff distinct_map_filter)

lemma same_payload:
  assumes "event_wf P e" and "event_wf P e'" and "payload_text P e = payload_text P e'"
  shows "sort_members (unsigned_payload e) = sort_members (unsigned_payload e')
    \<and> jsort (jget e ''previous_event_hash'') = jsort (jget e' ''previous_event_hash'')"
proof -
  from json_text_inj [OF json_wf_unsigned [OF assms(1)] json_wf_unsigned [OF assms(2)]] assms(3)
  have eq: "sort_members (unsigned_payload e) = sort_members (unsigned_payload e')"
    by (simp add: payload_text_def jsort_JObj del: jsort.simps)
  have "jsort (jget e ''previous_event_hash'') = jget (sort_members (unsigned_payload e)) ''previous_event_hash''" for e
    by (simp add: unsigned_get)
  with eq show ?thesis by metis
qed

lemma opt_str_inj: "jsort (opt_str a) = jsort (opt_str b) \<Longrightarrow> a = b"
  by (auto simp: opt_str_def split: option.splits)

lemma chain_unique:
  assumes "valid_from P tr None [] es" and "valid_from P tr' None [] es'"
    and "es \<noteq> []" and "es' \<noteq> []" and "event_hash_of (last es) = event_hash_of (last es')"
    and "\<forall>e \<in> set es \<union> set es'. event_wf P e"
    and "inj_on (sha256 P) (payload_text P ` (set es \<union> set es'))"
  shows "map (\<lambda>e. sort_members (unsigned_payload e)) es = map (\<lambda>e. sort_members (unsigned_payload e)) es'"
  using assms
proof (induction es arbitrary: es' rule: rev_induct)
  case Nil
  then show ?case by simp
next
  case (snoc x xs)
  from snoc.prems(4) obtain y ys where es': "es' = ys @ [y]" by (metis append_butlast_last_id)
  from snoc.prems(1) have x: "valid_from P tr None [] xs"
    "event_codes P x (last_hash None xs) tr (fold known_after xs []) = Inr []"
    by (simp_all add: valid_from_append)
  from snoc.prems(2) es' have y: "valid_from P tr' None [] ys"
    "event_codes P y (last_hash None ys) tr' (fold known_after ys []) = Inr []"
    by (simp_all add: valid_from_append)
  note sx = event_codes_sound [OF x(2)] and sy = event_codes_sound [OF y(2)]
  from snoc.prems(5) es' sx sy have "sha256 P (payload_text P x) = sha256 P (payload_text P y)"
    by (auto simp: event_hash_of_def dest: to_hex_inj)
  then have "payload_text P x = payload_text P y"
    by (rule inj_onD [OF snoc.prems(7)]) (simp_all add: es')
  from same_payload [OF _ _ this] snoc.prems(6) es'
  have same: "sort_members (unsigned_payload x) = sort_members (unsigned_payload y)"
    "jsort (jget x ''previous_event_hash'') = jsort (jget y ''previous_event_hash'')" by auto
  with sx sy opt_str_inj have prev: "last_hash None xs = last_hash None ys" by metis
  have hash: "\<exists>h. event_hash_of (last zs) = Some h"
    if "valid_from P t None [] zs" "zs \<noteq> []" for t zs
    using valid_from_sound [OF that(1), of "last zs"] that(2) event_codes_sound
    by (fastforce simp: event_hash_of_def)
  show ?case
  proof (cases "xs = []")
    case True
    with prev hash [OF y(1)] have "ys = []" by (auto simp: last_hash_def split: if_splits)
    with True same es' show ?thesis by simp
  next
    case False
    with prev hash [OF x(1)] have ys: "ys \<noteq> []" by (auto simp: last_hash_def split: if_splits)
    have "inj_on (sha256 P) (payload_text P ` (set xs \<union> set ys))"
      using snoc.prems(7) es' by (elim inj_on_subset) auto
    with snoc.IH [OF x(1) y(1) False ys] prev False ys snoc.prems(6) es' same show ?thesis
      by (simp add: last_hash_def)
  qed
qed

text \<open>
  C8: Tamper evidence: two journals that both verify (even against different key sets) and end
  in the same event hash hold the same events, unless a collision of SHA-256 among their
  payloads is exhibited. Hence changing, reordering, inserting or deleting events before the
  head changes the head.
\<close>

theorem head_determines_journal:
  assumes "journal_valid P tr f es" and "journal_valid P tr' f' es'"
    and "es \<noteq> []" and "es' \<noteq> []" and "event_hash_of (last es) = event_hash_of (last es')"
    and "\<forall>e \<in> set es \<union> set es'. event_wf P e"
    and "inj_on (sha256 P) (payload_text P ` (set es \<union> set es'))"
  shows "map (\<lambda>e. sort_members (unsigned_payload e)) es = map (\<lambda>e. sort_members (unsigned_payload e)) es'"
  using chain_unique assms unfolding journal_valid_def by blast

section \<open>Appending to a valid journal\<close>

lemma parse_lines_extend:
  "line_end f \<Longrightarrow> event_wf P e \<Longrightarrow> parse_lines P (py_lines f) = Some es \<Longrightarrow>
   parse_lines P (py_lines (f @ line_of P e)) = Some (es @ [sort_members e])"
proof -
  have app: "parse_lines P ls = Some es \<Longrightarrow>
      parse_lines P (ls @ [l]) = map_option (\<lambda>m. es @ m) (parse_lines P [l])" for ls l es
  proof (induction ls arbitrary: es)
    case (Cons a ls)
    then show ?case
      by (auto split: if_splits option.splits json.splits simp: option.map_comp comp_def)
  next
    case Nil
    then show ?case by (cases "parse_lines P [l]") auto
  qed
  assume f: "line_end f" and e: "event_wf P e" and p: "parse_lines P (py_lines f) = Some es"
  have "parse_lines P [line_of P e] = Some [sort_members e]"
    using json_text_no_space [of P e] loads_text [OF e]
    by (simp add: bstrip_line jsort_JObj del: jsort.simps json_wf.simps)
  with app [OF p, of "line_of P e"] py_lines_extend [OF f e] show ?thesis by simp
qed

lemma filter_sort_key: "filter Q (sort_key f xs) = sort_key f (filter Q xs)"
  by (induction xs) (auto simp: filter_insort filter_insort_triv)

lemma unsigned_sort_members: "unsigned_payload (sort_members e) = sort_members (unsigned_payload e)"
proof -
  have "filter (\<lambda>(k, v). k \<notin> {''event_hash'', ''signature''}) (map (\<lambda>(k, v). (k, jsort v)) e)
      = map (\<lambda>(k, v). (k, jsort v)) (filter (\<lambda>(k, v). k \<notin> {''event_hash'', ''signature''}) e)"
    by (induction e) auto
  then show ?thesis by (simp add: unsigned_payload_def sort_members_def filter_sort_key)
qed

lemma json_text_sort_members: "json_text P (JObj (sort_members e)) = json_text P (JObj e)"
  by (simp add: json_text_def jsort_JObj del: jsort.simps)

lemma nonfinite_jsort [simp]: "nonfinite (jsort j) = nonfinite j"
proof (induction j)
  case (JObj d)
  then show ?case by force
qed simp_all

lemma event_digest_sort: "event_digest P (sort_members p) = event_digest P p"
proof -
  have "nonfinite (JObj (sort_members p)) = nonfinite (JObj p)"
    by (metis jsort_JObj nonfinite_jsort)
  then show ?thesis
    by (simp only: event_digest_def canonical_json_bytes_def json_text_sort_members)
qed

lemma payload_text_sort: "payload_text P (sort_members e) = payload_text P e"
  by (simp add: payload_text_def unsigned_sort_members json_text_sort_members)

text \<open>A payload ready to be finalized: no hash or signature yet.\<close>

definition unsigned :: "event \<Rightarrow> bool" where
  "unsigned p \<longleftrightarrow> \<not> has_key p ''event_hash'' \<and> \<not> has_key p ''signature''"

lemma unsigned_id: "unsigned p \<Longrightarrow> unsigned_payload p = p"
  by (force simp: unsigned_def has_key_def unsigned_payload_def dget_None_iff intro!: filter_True)

lemma unsigned_dset:
  "k \<in> {''event_hash'', ''signature''} \<Longrightarrow> unsigned_payload (dset k v p) = unsigned_payload p"
  unfolding unsigned_payload_def by (induction p) auto

lemma finalize_unsigned:
  assumes "finalize_event P p sign = Inr e" and "unsigned p"
  shows "unsigned_payload e = p" "payload_text P e = json_text P (JObj p)"
  using assms by (auto simp: finalize_event_def bindR_Inr_iff unsigned_dset unsigned_id payload_text_def)

lemma finalize_get:
  assumes "finalize_event P p sign = Inr e"
  shows "jget e k = (if k = ''signature'' then JStr (the (str_of (jget e ''signature'')))
    else if k = ''event_hash'' then JStr (to_hex (sha256 P (json_text P (JObj p)))) else jget p k)"
  using assms by (auto simp: finalize_event_def bindR_Inr_iff jget_def dest: event_digest_Inr)

lemma event_wf_dset:
  assumes "event_wf P q" and "utf8_ok k" and "json_wf P v"
  shows "event_wf P (dset k v q)"
proof -
  have "distinct (map fst (dset k v q))" using assms(1) by simp
  moreover have "utf8_ok k' \<and> json_wf P v'" if "(k', v') \<in> set (dset k v q)" for k' v'
    using dset_values [OF that] assms by (auto simp: list_all_iff)
  ultimately show ?thesis by (auto simp: list_all_iff)
qed

lemma utf8_ok_to_hex: "utf8_ok (to_hex b)"
proof (rule utf8_ok_ascii)
  show "\<forall>c \<in> set (to_hex b). code c < 128"
  proof
    fix c assume "c \<in> set (to_hex b)"
    with to_hex_chars have "c \<in> set ''0123456789abcdef''" unfolding is_hexchar_def by blast
    moreover have "\<forall>c \<in> set ''0123456789abcdef''. code c < 128" by code_simp
    ultimately show "code c < 128" by blast
  qed
qed

lemma finalize_wf:
  assumes "finalize_event P p sign = Inr e" and "event_wf P p" and "\<And>d s. sign d = Inr s \<Longrightarrow> utf8_ok s"
  shows "event_wf P e"
proof -
  have k: "utf8_ok ''event_hash''" "utf8_ok ''signature''" by code_simp+
  from assms(1) obtain d s where e: "sign d = Inr s"
    "e = dset ''signature'' (JStr s) (dset ''event_hash'' (JStr (to_hex d)) p)"
    by (auto simp: finalize_event_def bindR_Inr_iff)
  have "event_wf P (dset ''event_hash'' (JStr (to_hex d)) p)"
    by (rule event_wf_dset [OF assms(2) k(1)]) (simp add: utf8_ok_to_hex)
  then show ?thesis
    unfolding e(2) by (rule event_wf_dset [OF _ k(2)]) (simp add: assms(3) [OF e(1)])
qed

text \<open>Which payloads of which type pass the checks, before they are signed.\<close>

definition payload_ok :: "string option \<Rightarrow> string \<Rightarrow> (string, event) dict \<Rightarrow> event \<Rightarrow> bool" where
  "payload_ok prev kid known p \<longleftrightarrow>
     unsigned p \<and> jget p ''schema_version'' = JStr ''1''
     \<and> jget p ''previous_event_hash'' = opt_str prev \<and> has_key p ''previous_event_hash''
     \<and> jget p ''key_id'' = JStr kid
     \<and> (\<exists>ty. jget p ''event_type'' = JStr ty \<and> ty \<in> set KNOWN_EVENT_TYPES
          \<and> missing_fields (required_fields ty) p = filter (\<lambda>k. k \<in> {''event_hash'', ''signature''}) (required_fields ty)
          \<and> shape_codes ty known (sort_members p) = Inr [])"

text \<open>The shape checks read neither the hash nor the signature of the event they check.\<close>

lemma shape_codes_cong:
  assumes "\<And>k. k \<notin> {''event_hash'', ''signature''} \<Longrightarrow> jget e k = jget e' k"
    and "has_key e ''receipt'' = has_key e' ''receipt''"
  shows "shape_codes ty known e = shape_codes ty known e'"
proof -
  have g: "jget e ''head_sha256'' = jget e' ''head_sha256''"
    "jget e ''previous_event_hash'' = jget e' ''previous_event_hash''"
    "jget e ''checkpoint_count'' = jget e' ''checkpoint_count''"
    "jget e ''resolution'' = jget e' ''resolution''"
    "jget e ''decision_event_id'' = jget e' ''decision_event_id''" "jget e ''note'' = jget e' ''note''"
    "jget e ''checkpoint_event_id'' = jget e' ''checkpoint_event_id''"
    "jget e ''receipt'' = jget e' ''receipt''" "jget e ''prior_count'' = jget e' ''prior_count''"
    "jget e ''archived_path'' = jget e' ''archived_path''" "jget e ''prior_key_id'' = jget e' ''prior_key_id''"
    "jget e ''successor_key_id'' = jget e' ''successor_key_id''" "jget e ''key_id'' = jget e' ''key_id''"
    "jget e ''successor_fingerprint'' = jget e' ''successor_fingerprint''"
    by (simp_all add: assms(1))
  show ?thesis
    unfolding shape_codes_def checkpoint_shape_def resolution_shape_def countersignature_shape_def
      outcome_shape_def archive_shape_def rotation_shape_def g assms(2) by (rule refl)
qed

lemma finalize_event_codes:
  assumes fin: "finalize_event P p (local_sign P sk) = Inr e"
    and p: "payload_ok prev kid known p" and ring: "dget trusted kid = Some (ed_public P sk)"
    and ed: "ed_correct P sk"
  shows "event_codes P (sort_members e) prev trusted known = Inr []"
proof -
  from p have un: "unsigned p" by (simp add: payload_ok_def)
  from fin obtain d s where d: "event_digest P p = Inr d" "local_sign P sk d = Inr s"
    and e: "e = dset ''signature'' (JStr s) (dset ''event_hash'' (JStr (to_hex d)) p)"
    by (auto simp: finalize_event_def bindR_Inr_iff)
  have get: "jget e k = (if k = ''signature'' then JStr s else if k = ''event_hash'' then JStr (to_hex d) else jget p k)" for k
    by (simp add: e jget_def)
  have has: "has_key e k \<longleftrightarrow> k \<in> {''signature'', ''event_hash''} \<or> has_key p k" for k
    by (simp add: e has_key_def)
  obtain ty where ty: "jget p ''event_type'' = JStr ty" "ty \<in> set KNOWN_EVENT_TYPES"
    "missing_fields (required_fields ty) p = filter (\<lambda>k. k \<in> {''event_hash'', ''signature''}) (required_fields ty)"
    "shape_codes ty known (sort_members p) = Inr []"
    using p by (auto simp: payload_ok_def)
  have "missing_fields (required_fields ty @ [''previous_event_hash'']) (sort_members e) = []"
  proof -
    have "has_key e k" if "k \<in> set (required_fields ty)" for k
    proof (rule ccontr)
      assume no: "\<not> has_key e k"
      then have "k \<in> set (missing_fields (required_fields ty) p)"
        using that by (simp add: missing_fields_def has)
      with ty(3) no show False by (simp add: has)
    qed
    with p show ?thesis by (auto simp: missing_fields_def has payload_ok_def)
  qed
  moreover have "shape_codes ty known (sort_members e) = Inr []"
    using ty(4) by (subst shape_codes_cong [of _ "sort_members p"]) (auto simp: get has)
  moreover have "integrity_codes P prev trusted (sort_members e) = Inr []"
  proof -
    have "unsigned_payload (sort_members e) = sort_members p"
      using finalize_unsigned(1) [OF fin un] by (simp add: unsigned_sort_members)
    then have "event_digest P (unsigned_payload (sort_members e)) = Inr d"
      using d(1) by (simp add: event_digest_sort)
    moreover have "jsort (opt_str prev) = opt_str prev" by (simp add: opt_str_def split: option.splits)
    ultimately show ?thesis
      using p ring verify_local_sign [OF ed d(2)]
      by (simp add: integrity_codes_def hash_matches_def signer_of_def get payload_ok_def when_code_def py_str_def)
  qed
  moreover have "jget p ''schema_version'' = JStr ''1''" using p by (simp add: payload_ok_def)
  ultimately show ?thesis
    using ty by (simp add: event_codes_def Let_def get KNOWN_SCHEMA_VERSIONS_def EVENT_SCHEMA_VERSION_def)
qed

text \<open>
  A healthy journal: it verifies, it ends with a newline (or is empty), and the tail read finds
  the hash of its last event.
\<close>

definition healthy :: "platform \<Rightarrow> keyring \<Rightarrow> bytes \<Rightarrow> event list \<Rightarrow> bool" where
  "healthy P trusted f es \<longleftrightarrow>
     line_end f \<and> journal_valid P trusted f es \<and> read_last_event_hash P f = Inr (last_hash None es)"

lemma healthy_Nil [simp]: "healthy P trusted [] []"
  by (simp add: healthy_def journal_valid_def read_last_event_hash_def last_hash_def)

lemma healthy_extend:
  assumes h: "healthy P trusted f es" and e: "event_wf P e" "dget e ''event_hash'' = Some (JStr x)"
    and ok: "event_codes P (sort_members e) (last_hash None es) trusted (fold known_after es []) = Inr []"
  shows "healthy P trusted (f @ line_of P e) (es @ [sort_members e])"
proof -
  from h have f: "line_end f" and v: "parse_lines P (py_lines f) = Some es" "valid_from P trusted None [] es"
    by (simp_all add: healthy_def journal_valid_def)
  have "jget e ''event_hash'' = JStr x" using e(2) by (simp add: jget_def)
  then have "last_hash None (es @ [sort_members e]) = Some x"
    by (simp add: last_hash_def event_hash_of_def jsort_eq_simps)
  then show ?thesis
    using v ok parse_lines_extend [OF f e(1) v(1)] read_last_extend [OF f e]
    by (simp add: healthy_def journal_valid_def valid_from_append del: json_wf.simps)
qed

text \<open>A healthy journal without checkpoints passes the verifier with every event counted.\<close>

lemma finalize_hash: "finalize_event P p sign = Inr e \<Longrightarrow> \<exists>x. dget e ''event_hash'' = Some (JStr x)"
  by (auto simp: finalize_event_def bindR_Inr_iff)

lemma local_sign_utf8: "local_sign P sk d = Inr s \<Longrightarrow> utf8_ok s"
  using b64_encode_ascii by (fastforce simp: local_sign_def intro!: utf8_ok_ascii)

text \<open>
  C9: Appending a well-formed payload that the writer signs with a trusted key to a healthy
  journal gives a healthy journal again: the chain the writer extends is the chain the verifier
  follows, whatever was in it before.
\<close>

theorem append_keeps_valid:
  assumes "healthy P trusted f es"
    and "append_event_atomic P path fault build query f c = (Inr e, f', c')"
    and "\<And>blocking e. build (last_hash None es) blocking = Inr e \<Longrightarrow>
          \<exists>p. finalize_event P p (local_sign P sk) = Inr e \<and> event_wf P p
            \<and> payload_ok (last_hash None es) kid (fold known_after es []) p"
    and "dget trusted kid = Some (ed_public P sk)" and "ed_correct P sk"
  shows "healthy P trusted f' (es @ [sort_members e])"
proof -
  from append_atomic_ok [OF assms(2)] obtain prev blocking where
    a: "read_last_event_hash P f = Inr prev" "build prev blocking = Inr e" "f' = f @ line_of P e" by metis
  from assms(1) a(1) have prev: "prev = last_hash None es" by (simp add: healthy_def)
  from assms(3) [of blocking e] a(2) prev obtain p where
    p: "finalize_event P p (local_sign P sk) = Inr e" "event_wf P p"
    "payload_ok prev kid (fold known_after es []) p" by auto
  from finalize_wf [OF p(1,2)] local_sign_utf8 have wf: "event_wf P e" by blast
  from finalize_hash [OF p(1)] obtain x where "dget e ''event_hash'' = Some (JStr x)" by blast
  from healthy_extend [OF assms(1) wf this] finalize_event_codes [OF p(1,3) assms(4,5)] prev a(3)
  show ?thesis by simp
qed

section \<open>Truncation\<close>

lemma load_witness_ok:
  assumes "load_checkpoint_witness P trusted file = Inr (witness, [])"
  shows "\<exists>w n. witness = Some w \<and> int_of (jget w ''checkpoint_count'') = Some n \<and> 0 \<le> n"
  using assms
  by (auto simp: load_checkpoint_witness_def witness_invalid_def Let_def bindR_Inr_iff checkpoint_shape_def
      when_code_Nil bad_count_def split: option.splits json.splits if_splits)

lemma int_of_py_int: "int_of v = Some n \<Longrightarrow> py_int v = Inr n"
  by (cases v) auto

lemma int_of_num_of: "int_of v = Some n \<Longrightarrow> num_of v = Some (Fin (of_int n))"
  by (cases v) auto

lemma jindex_jget: "int_of (jget e k) = Some n \<Longrightarrow> jindex e k = Inr (jget e k)"
  by (auto simp: jindex_def jget_def split: option.splits)

lemma truncation_issue_int:
  "int_of (jget cp ''checkpoint_count'') = Some n \<Longrightarrow>
   truncation_issue m cp = Inr (if int m < n then [(0, ''checkpoint_truncation'')] else [])"
  by (simp add: truncation_issue_def jindex_jget int_of_py_int)

lemma effective_covers:
  assumes "effective_checkpoint newest (Some w) = Inr (Some cp)"
    and "int_of (jget w ''checkpoint_count'') = Some n"
    and "\<And>e. newest = Some e \<Longrightarrow> \<exists>k. int_of (jget e ''checkpoint_count'') = Some k"
  shows "\<exists>k. int_of (jget cp ''checkpoint_count'') = Some k \<and> n \<le> k"
proof (cases newest)
  case None
  with assms(1,2) show ?thesis by (auto simp: effective_checkpoint_def bindR_Inr_iff)
next
  case (Some e)
  with assms(3) obtain k where k: "int_of (jget e ''checkpoint_count'') = Some k" by blast
  from assms(1) Some k assms(2) have "cp = (if flt_less (Fin (of_int k)) (Fin (of_int n)) then w else e)"
    by (simp add: effective_checkpoint_def jindex_jget int_of_num_of)
  then show ?thesis using k assms(2) by (cases "k < n") simp_all
qed

lemma last_checkpoint_mem:
  "last_checkpoint newest es = Some e \<Longrightarrow> newest = Some e \<or> (e \<in> set es \<and> etype ''checkpoint'' e)"
  unfolding last_checkpoint_def
proof (induction es arbitrary: newest)
  case (Cons a es)
  from Cons.prems Cons.IH [of "if etype ''checkpoint'' a then Some a else newest"]
  show ?case by (auto split: if_splits)
qed simp

lemma checkpoint_count_int:
  assumes "event_codes P e prev trusted known = Inr []" and "etype ''checkpoint'' e"
  shows "\<exists>n. int_of (jget e ''checkpoint_count'') = Some n \<and> 0 \<le> n"
proof -
  from event_codes_integrity [OF assms(1)] assms(2) have "shape_codes ''checkpoint'' known e = Inr []"
    by (auto simp: etype_def)
  then show ?thesis
    by (auto simp: shape_codes_def checkpoint_shape_def when_code_Nil bad_count_def split: option.splits)
qed

lemma coverage_bound:
  assumes "read_and_verify P (Some f) trusted (Some w) (\<lambda>e. e) = Inr (r, es)" and "r_valid r"
  shows "\<exists>cp n. load_checkpoint_witness P trusted w = Inr (Some cp, [])
    \<and> int_of (jget cp ''checkpoint_count'') = Some n \<and> n \<le> int (length es)
    \<and> (\<exists>e \<in> set es. jget e ''event_id'' = JStr (py_str P (jget cp ''event_id'')))"
proof -
  from read_and_verify_valid [OF assms] obtain witness where
    load: "load_checkpoint_witness P trusted w = Inr (witness, [])"
    and valid: "valid_from P trusted None [] es"
    and cov: "checkpoint_coverage (last_checkpoint None es) witness
        (\<exists>w. witness = Some w \<and> (\<exists>e \<in> set es. jget e ''event_id'' = JStr (py_str P (jget w ''event_id''))))
        (length es) = Inr []"
    by (auto simp: journal_valid_def)
  from load_witness_ok [OF load] obtain cp n where
    cp: "witness = Some cp" "int_of (jget cp ''checkpoint_count'') = Some n" by blast
  let ?found = "\<exists>e \<in> set es. jget e ''event_id'' = JStr (py_str P (jget cp ''event_id''))"
  have found: "?found"
    using cov cp(1) by (auto simp: checkpoint_coverage_def bindR_Inr_iff split: if_splits option.splits)
  from cov cp found obtain eff where eff: "effective_checkpoint (last_checkpoint None es) (Some cp) = Inr eff"
    and rest: "(case eff of None \<Rightarrow> Inr [] | Some c \<Rightarrow> bindR (truncation_issue (length es) c) (\<lambda>t. Inr t)) = Inr []"
    by (auto simp: checkpoint_coverage_def bindR_Inr_iff split: option.splits)
  have newest: "\<exists>k. int_of (jget e ''checkpoint_count'') = Some k" if "last_checkpoint None es = Some e" for e
    using last_checkpoint_mem [OF that] valid_from_sound [OF valid] checkpoint_count_int by blast
  have "eff \<noteq> None"
    using eff by (auto simp: effective_checkpoint_def bindR_Inr_iff split: option.splits)
  then obtain c where c: "eff = Some c" by blast
  from effective_covers [OF eff [unfolded c] cp(2) newest] obtain k where
    k: "int_of (jget c ''checkpoint_count'') = Some k" "n \<le> k" by blast
  from rest c truncation_issue_int [OF k(1)] have "k \<le> int (length es)"
    by (auto split: if_splits)
  with k(2) load cp found show ?thesis by auto
qed

text \<open>
  C14: Truncation is detected: when verification against an external checkpoint witness
  succeeds, the witness is a checkpoint signed by a trusted key, its event is in the journal,
  and the journal has at least the number of events the checkpoint commits to.
\<close>

theorem truncation_detected:
  assumes "verify_journal P (Some f) keys (Some w) = Inr r" and "r_valid r"
  shows "\<exists>cp n es. load_checkpoint_witness P (to_keyring P keys) w = Inr (Some cp, [])
    \<and> int_of (jget cp ''checkpoint_count'') = Some n
    \<and> parse_lines P (py_lines f) = Some es \<and> n \<le> int (length es)
    \<and> (\<exists>e \<in> set es. jget e ''event_id'' = JStr (py_str P (jget cp ''event_id'')))"
proof -
  from assms(1) obtain es where
    rv: "read_and_verify P (Some f) (to_keyring P keys) (Some w) (\<lambda>e. e) = Inr (r, es)"
    by (auto simp: verify_journal_def bindR_Inr_iff)
  from read_and_verify_valid [OF rv assms(2)] have "parse_lines P (py_lines f) = Some es"
    by (auto simp: journal_valid_def)
  with coverage_bound [OF rv assms(2)] show ?thesis by blast
qed

end
