(* ===== verification/JsonAscii.thy ===== *)
theory JsonAscii
  imports JsonRoundtrip
begin

text \<open>
  The ASCII form of JSON texts that the witness files and the policy state files are written in,
  and its agreement with the UTF-8 form of the journal on printable ASCII values.
\<close>

section \<open>The text\<close>

text \<open>\<open>json.dumps\<close> with \<open>ensure_ascii\<close>: what is not printable ASCII is escaped by code unit.\<close>

definition hex4 :: "nat \<Rightarrow> string" where
  "hex4 u = [hexdigit (u div 4096 mod 16), hexdigit (u div 256 mod 16), hexdigit (u div 16 mod 16), hexdigit (u mod 16)]"

definition ascii_glyph :: "string \<Rightarrow> string" where
  "ascii_glyph g =
     (case g of
        [c] \<Rightarrow> if code c < 127 then [c] else bslash # ''u'' @ hex4 (cp_of_glyph g)
      | _ \<Rightarrow>
          (let u = cp_of_glyph g in
           if u < 0x10000 then bslash # ''u'' @ hex4 u
           else bslash # ''u'' @ hex4 (0xD800 + (u - 0x10000) div 1024)
             @ bslash # ''u'' @ hex4 (0xDC00 + (u - 0x10000) mod 1024)))"

definition json_text_ascii :: "platform \<Rightarrow> json \<Rightarrow> string" where
  "json_text_ascii P j = concat (map ascii_glyph (glyphs (json_text P j)))"

section \<open>Printable ASCII values\<close>

definition ascii_text :: "string \<Rightarrow> bool" where
  "ascii_text s \<longleftrightarrow> (\<forall>c \<in> set s. code c < 127)"

lemma ascii_text_utf8: "ascii_text s \<Longrightarrow> utf8_ok s"
  by (intro utf8_ok_ascii) (force simp: ascii_text_def)

lemma ascii_text_simps [simp]:
  "ascii_text []" "ascii_text (c # s) \<longleftrightarrow> code c < 127 \<and> ascii_text s"
  "ascii_text (s @ t) \<longleftrightarrow> ascii_text s \<and> ascii_text t"
  by (auto simp: ascii_text_def)

lemma ascii_glyphs: "ascii_text s \<Longrightarrow> concat (map ascii_glyph (glyphs s)) = s"
proof -
  assume a: "ascii_text s"
  then have "glyphs s = map (\<lambda>c. [c]) s" by (intro glyphs_ascii) (force simp: ascii_text_def)
  moreover have "concat (map ascii_glyph (map (\<lambda>c. [c]) s)) = s"
    using a by (induction s) (auto simp: ascii_glyph_def)
  ultimately show ?thesis by simp
qed

lemma ascii_esc: "ascii_text s \<Longrightarrow> ascii_text (concat (map esc_char s))"
proof (induction s)
  case (Cons c s)
  have "ascii_text (hex_byte c)"
  proof -
    have "hexdigit n \<in> set ''0123456789abcdef''" if "n < 16" for n
      using hexdigit_hexchar [OF that] by (simp add: is_hexchar_def del: list.set)
    moreover have "\<forall>c \<in> set ''0123456789abcdef''. code c < 127" by code_simp
    ultimately have "code (hexdigit n) < 127" if "n < 16" for n using that by blast
    then show ?thesis by (simp add: hex_byte_def)
  qed
  with Cons show ?case by (simp add: esc_char_def)
qed simp

fun ascii_json :: "json \<Rightarrow> bool" where
  "ascii_json (JStr s) = ascii_text s"
| "ascii_json (JFloat x) = False"
| "ascii_json (JArr xs) = list_all ascii_json xs"
| "ascii_json (JObj d) = list_all (\<lambda>(k, v). ascii_text k \<and> ascii_json v) d"
| "ascii_json _ = True"

lemma ascii_dec_int: "ascii_text (dec_int i)"
proof -
  have "code (c :: char) < 127" if "is_digit c" for c
    using that by (simp add: is_digit_def)
  then have "ascii_text (dec_nat n)" for n using dec_nat_digits [of n] by (auto simp: ascii_text_def)
  then show ?thesis by (simp add: dec_int_def)
qed

lemma ascii_dumps:
  "ascii_json j \<Longrightarrow> ascii_text (dumps P '','' '':'' j)"
  "list_all ascii_json xs \<Longrightarrow> ascii_text (dump_items P '','' '':'' xs)"
  "list_all (\<lambda>(k, v). ascii_text k \<and> ascii_json v) d \<Longrightarrow> ascii_text (dump_members P '','' '':'' d)"
proof (induction P "'',''" "'':''" j and P "'',''" "'':''" xs and P "'',''" "'':''" d
    rule: dumps_dump_items_dump_members.induct)
qed (simp_all add: dump_str_def ascii_esc ascii_dec_int)

lemma ascii_jsort: "ascii_json j \<Longrightarrow> ascii_json (jsort j)"
proof (induction j)
  case (JArr xs)
  then show ?case by (auto simp: list_all_iff)
next
  case (JObj d)
  then show ?case by (fastforce simp: list_all_iff)
qed simp_all

lemma json_text_ascii_id: "ascii_text (json_text P j) \<Longrightarrow> json_text_ascii P j = json_text P j"
  unfolding json_text_ascii_def by (rule ascii_glyphs)

lemma json_text_ascii_eq: "ascii_json j \<Longrightarrow> json_text_ascii P j = json_text P j"
  unfolding json_text_ascii_def json_text_def by (intro ascii_glyphs ascii_dumps ascii_jsort)

end
