(* ===== verification/Records.thy ===== *)
theory Records
  imports Chain JsonAscii
begin

text \<open>
  The operator's records: checkpoints (\<open>checkpoint.py\<close>), counter-signatures (\<open>cosign.py\<close>),
  resolutions (\<open>resolve.py\<close>), the shipped witnesses (\<open>witness.py\<close>) and key rotation
  (\<open>rotate_key\<close> and \<open>record_rotation_event\<close> of \<open>identity.py\<close>). Each appends one signed event;
  \<open>n\<close> numbers the draw of the identifier and the reading of the clock. A journal that does not
  exist reads as an empty one.
\<close>

section \<open>Checkpoints\<close>

definition checkpoint_payload :: "platform \<Rightarrow> signer \<Rightarrow> nat \<Rightarrow> nat \<Rightarrow> string option \<Rightarrow> event" where
  "checkpoint_payload P sg n cnt previous_hash =
     [(''schema_version'', JStr EVENT_SCHEMA_VERSION),
      (''event_type'', JStr ''checkpoint''),
      (''event_id'', JStr (uuid4 P n)),
      (''timestamp_utc'', JStr (utc_now P n)),
      (''key_id'', JStr (s_key_id sg)),
      (''previous_event_hash'', opt_str previous_hash),
      (''checkpoint_count'', JInt (int cnt)),
      (''head_sha256'', opt_str previous_hash)]"

text \<open>The report is the event and the content of the witness file.\<close>

definition checkpoint_journal ::
  "platform \<Rightarrow> string \<Rightarrow> fault \<Rightarrow> signer \<Rightarrow> nat \<Rightarrow> bytes \<Rightarrow> idem_cache
     \<Rightarrow> (exn + event \<times> bytes) \<times> bytes \<times> idem_cache" where
  "checkpoint_journal P path fault sg n f c =
     (case append_checkpoint P path fault
             (\<lambda>cnt prev. finalize_event P (checkpoint_payload P sg n cnt prev) (s_sign sg)) f c of
        (Inl x, f', c') \<Rightarrow> (Inl x, f', c')
      | (Inr e, f', c') \<Rightarrow> (Inr (e, json_text_ascii P (JObj e)), f', c'))"

section \<open>Counter-signatures\<close>

definition newest_checkpoint :: "platform \<Rightarrow> bytes \<Rightarrow> event option" where
  "newest_checkpoint P f = last_checkpoint None (scan_events P f)"

definition countersignature_payload ::
  "platform \<Rightarrow> signer \<Rightarrow> nat \<Rightarrow> string \<Rightarrow> json \<Rightarrow> json \<Rightarrow> string option \<Rightarrow> event" where
  "countersignature_payload P sg n cp_id cp_count head previous_hash =
     [(''schema_version'', JStr EVENT_SCHEMA_VERSION),
      (''event_type'', JStr ''countersignature''),
      (''event_id'', JStr (uuid4 P n)),
      (''timestamp_utc'', JStr (utc_now P n)),
      (''key_id'', JStr (s_key_id sg)),
      (''previous_event_hash'', opt_str previous_hash),
      (''checkpoint_event_id'', JStr cp_id),
      (''checkpoint_count'', cp_count),
      (''head_sha256'', head)]"

record countersigned =
  cs_event :: event
  cs_checkpoint_id :: string
  cs_count :: int
  cs_head :: json
  cs_superseded :: bool

text \<open>
  \<open>key\<close> is the outcome of loading the counter key. \<open>between\<close> is what another process appends
  between the append and the second look-up of the newest checkpoint.
\<close>

definition countersign_journal ::
  "platform \<Rightarrow> string \<Rightarrow> fault \<Rightarrow> exn + signer \<Rightarrow> nat \<Rightarrow> bytes \<Rightarrow> bytes \<Rightarrow> idem_cache
     \<Rightarrow> (exn + countersigned) \<times> bytes \<times> idem_cache" where
  "countersign_journal P path fault key n between f c =
     (case newest_checkpoint P f of
        None \<Rightarrow> (Inl CountersignError, f, c)
      | Some cp \<Rightarrow>
          (case key of
             Inl x \<Rightarrow> (Inl (if is_exception x then CountersignError else x), f, c)
           | Inr sg \<Rightarrow>
               (case bindR (jindex cp ''event_id'') (\<lambda>i.
                       bindR (jindex cp ''checkpoint_count'') (\<lambda>k.
                         bindR (jindex cp ''head_sha256'') (\<lambda>h. Inr (py_str P i, k, h)))) of
                  Inl x \<Rightarrow> (Inl x, f, c)
                | Inr (i, k, h) \<Rightarrow>
                    (case append_event P path fault
                            (\<lambda>prev. finalize_event P (countersignature_payload P sg n i k h prev) (s_sign sg)) f c of
                       (Inl x, f', c') \<Rightarrow> (Inl x, f', c')
                     | (Inr e, f', c') \<Rightarrow>
                         (let f'' = f' @ between;
                              superseded = (case newest_checkpoint P f'' of
                                              None \<Rightarrow> True
                                            | Some l \<Rightarrow> py_str P (jget l ''event_id'') \<noteq> i)
                          in (bindR (py_int k) (\<lambda>m.
                                Inr \<lparr>cs_event = e, cs_checkpoint_id = i, cs_count = m, cs_head = h,
                                     cs_superseded = superseded\<rparr>), f'', c'))))))"

section \<open>Resolutions\<close>

definition MAX_NOTE_CHARS :: nat where "MAX_NOTE_CHARS = 1000"

definition ellipsis :: string where "ellipsis = [CHR 0xE2, CHR 0x80, CHR 0xA6]"

definition bound_note :: "string \<Rightarrow> string" where
  "bound_note note =
     (if MAX_NOTE_CHARS < py_len note then py_take (MAX_NOTE_CHARS - 1) note @ ellipsis else note)"

definition find_decision :: "platform \<Rightarrow> bytes \<Rightarrow> string \<Rightarrow> event option" where
  "find_decision P f i =
     find (\<lambda>e. etype ''decision'' e \<and> jget e ''event_id'' = JStr i) (scan_events P f)"

definition resolution_payload ::
  "platform \<Rightarrow> signer \<Rightarrow> nat \<Rightarrow> event \<Rightarrow> string \<Rightarrow> string \<Rightarrow> string \<Rightarrow> string option \<Rightarrow> exn + event" where
  "resolution_payload P sg n decision i resolution note previous_hash =
     bindR (jindex decision ''action_id'') (\<lambda>aid.
       bindR (jindex decision ''action_name'') (\<lambda>an.
         bindR (jindex decision ''contract_hash'') (\<lambda>ch. Inr
           [(''schema_version'', JStr EVENT_SCHEMA_VERSION),
            (''event_type'', JStr ''resolution''),
            (''event_id'', JStr (uuid4 P n)),
            (''action_id'', aid),
            (''action_name'', an),
            (''contract_hash'', ch),
            (''timestamp_utc'', JStr (utc_now P n)),
            (''key_id'', JStr (s_key_id sg)),
            (''previous_event_hash'', opt_str previous_hash),
            (''decision_event_id'', JStr i),
            (''resolution'', JStr resolution),
            (''note'', JStr note)])))"

text \<open>The note is None when the caller gives something that is not a string.\<close>

definition resolve_journal ::
  "platform \<Rightarrow> string \<Rightarrow> fault \<Rightarrow> signer \<Rightarrow> nat \<Rightarrow> string \<Rightarrow> string \<Rightarrow> string option \<Rightarrow> bytes \<Rightarrow> idem_cache
     \<Rightarrow> appended" where
  "resolve_journal P path fault sg n i resolution note f c =
     (if resolution \<notin> set KNOWN_RESOLUTIONS then (Inl ResolutionError, f, c)
      else case note of
        None \<Rightarrow> (Inl ResolutionError, f, c)
      | Some text \<Rightarrow>
          (case find_decision P f i of
             None \<Rightarrow> (Inl ResolutionError, f, c)
           | Some d \<Rightarrow>
               (if jget d ''decision'' \<noteq> JStr ''allowed'' then (Inl ResolutionError, f, c)
                else if jget d ''dry_run'' = JBool True then (Inl ResolutionError, f, c)
                else append_event P path fault
                  (\<lambda>prev. bindR (resolution_payload P sg n d i resolution (bound_note text) prev)
                     (\<lambda>p. finalize_event P p (s_sign sg))) f c)))"

section \<open>Key rotation\<close>

definition rotation_payload :: "platform \<Rightarrow> nat \<Rightarrow> string \<Rightarrow> bytes \<Rightarrow> string option \<Rightarrow> event" where
  "rotation_payload P n prior_key_id successor previous_hash =
     [(''schema_version'', JStr EVENT_SCHEMA_VERSION),
      (''event_type'', JStr ''rotation''),
      (''event_id'', JStr (uuid4 P n)),
      (''timestamp_utc'', JStr (utc_now P n)),
      (''key_id'', JStr prior_key_id),
      (''previous_event_hash'', opt_str previous_hash),
      (''prior_key_id'', JStr prior_key_id),
      (''successor_key_id'', JStr (key_id_for P successor)),
      (''successor_fingerprint'', JStr (public_key_fingerprint P successor))]"

definition record_rotation_event ::
  "platform \<Rightarrow> string \<Rightarrow> fault \<Rightarrow> nat \<Rightarrow> string \<Rightarrow> (bytes \<Rightarrow> exn + string) \<Rightarrow> bytes \<Rightarrow> bytes \<Rightarrow> idem_cache
     \<Rightarrow> appended" where
  "record_rotation_event P path fault n prior_key_id sign successor f c =
     (case append_event P path fault
             (\<lambda>prev. finalize_event P (rotation_payload P n prior_key_id successor prev) sign) f c of
        (Inl x, f', c') \<Rightarrow> (Inl (if is_exception x then IdentityError else x), f', c')
      | ok \<Rightarrow> ok)"

text \<open>
  \<open>rotate_key\<close>: the outgoing keys are registered first; a file that does not load is skipped.
  The journal is None when the file does not exist. A failed witness append does not stop the
  rotation.
\<close>

definition rotate_key ::
  "platform \<Rightarrow> string \<Rightarrow> fault \<Rightarrow> nat \<Rightarrow> bool \<Rightarrow> bytes \<Rightarrow> home \<Rightarrow> bytes option \<Rightarrow> idem_cache
     \<Rightarrow> (exn + bytes) \<times> home \<times> bytes option \<times> idem_cache" where
  "rotate_key P path fault n rec new_key hm journal c =
     (let hm = (case hm_public hm of Some (EdKey pk) \<Rightarrow> register_public_key P pk hm | _ \<Rightarrow> hm);
          prior = (case hm_private hm of
                     Some (EdKey sk) \<Rightarrow> if hm_shared hm then None else Some sk
                   | _ \<Rightarrow> None);
          hm = (case prior of Some sk \<Rightarrow> register_public_key P (ed_public P sk) hm | None \<Rightarrow> hm);
          done = (\<lambda>journal c.
            (let hm = hm\<lparr>hm_private := Some (EdKey new_key), hm_shared := False,
                         hm_public := Some (EdKey (ed_public P new_key))\<rparr>
             in (Inr new_key, register_public_key P (ed_public P new_key) hm, journal, c)))
      in case (rec, prior, journal) of
           (True, Some sk, Some f) \<Rightarrow>
             (case record_rotation_event P path fault n (key_id_for P (ed_public P sk)) (local_sign P sk)
                     (ed_public P new_key) f c of
                (Inl x, f', c') \<Rightarrow>
                  (if x = IdentityError then done (Some f') c' else (Inl x, hm, Some f', c'))
              | (Inr _, f', c') \<Rightarrow> done (Some f') c')
         | _ \<Rightarrow> done journal c)"

section \<open>Shipped witnesses\<close>

text \<open>A directory: names to content, modification time and whether the entry is a regular file.\<close>

record dir_entry =
  de_content :: bytes
  de_mtime :: nat
  de_regular :: bool

type_synonym directory = "(string, dir_entry) dict"

definition witness_name :: "string \<Rightarrow> nat \<Rightarrow> string" where
  "witness_name stamp index =
     (if index \<le> 1 then ''checkpoint-'' @ stamp @ ''.checkpoint''
      else ''checkpoint-'' @ stamp @ ''-'' @ dec_nat index @ ''.checkpoint'')"

text \<open>The first free name; with more tries than entries one is free.\<close>

definition free_index :: "(nat \<Rightarrow> bool) \<Rightarrow> nat \<Rightarrow> nat" where
  "free_index taken bound = (case find (\<lambda>i. \<not> taken i) [1..<Suc bound] of Some i \<Rightarrow> i | None \<Rightarrow> Suc bound)"

definition ship_witness :: "bytes \<Rightarrow> string \<Rightarrow> nat \<Rightarrow> directory \<Rightarrow> string \<times> directory" where
  "ship_witness witness stamp mtime d =
     (let target = witness_name stamp (free_index (\<lambda>i. dget d (witness_name stamp i) \<noteq> None) (length d));
          entry = \<lparr>de_content = witness, de_mtime = mtime, de_regular = True\<rparr>
      in (target, dset ''latest.checkpoint'' entry (dset target entry d)))"

text \<open>The report is the checkpoint, the shipped file and the identifier of the counter-signature, if asked for.\<close>

definition witness_journal ::
  "platform \<Rightarrow> string \<Rightarrow> fault \<Rightarrow> signer \<Rightarrow> (exn + signer) option \<Rightarrow> nat \<Rightarrow> string \<Rightarrow> nat \<Rightarrow> bytes \<Rightarrow> idem_cache
     \<Rightarrow> directory \<Rightarrow> (exn + event \<times> string \<times> string option) \<times> bytes \<times> idem_cache \<times> directory" where
  "witness_journal P path fault sg counter n stamp mtime f c d =
     (case checkpoint_journal P path fault sg n f c of
        (Inl x, f', c') \<Rightarrow> (Inl x, f', c', d)
      | (Inr (e, witness), f', c') \<Rightarrow>
          (let (target, d') = ship_witness witness stamp mtime d in
           case counter of
             None \<Rightarrow> (Inr (e, target, None), f', c', d')
           | Some key \<Rightarrow>
               (case countersign_journal P path fault key (Suc n) [] f' c' of
                  (Inl x, f'', c'') \<Rightarrow>
                    (Inl (if x = CountersignError \<or> \<not> is_exception x then x else JournalError), f'', c'', d')
                | (Inr cs, f'', c'') \<Rightarrow>
                    (Inr (e, target, Some (py_str P (jget (cs_event cs) ''event_id''))), f'', c'', d'))))"

definition ends_with :: "string \<Rightarrow> string \<Rightarrow> bool" where
  "ends_with suffix s \<longleftrightarrow> starts_with (rev suffix) (rev s)"

definition stamped_witness :: "string \<Rightarrow> bool" where
  "stamped_witness name \<longleftrightarrow> ends_with ''.checkpoint'' name \<and> name \<noteq> ''latest.checkpoint''"

text \<open>One status per stamped witness: name, committed count if readable, covered.\<close>

definition witness_count :: "platform \<Rightarrow> bytes \<Rightarrow> int option" where
  "witness_count P content =
     (case json_loads P content of Some (JObj e) \<Rightarrow> int_of (jget e ''checkpoint_count'') | _ \<Rightarrow> None)"

definition audit_witnesses ::
  "platform \<Rightarrow> directory \<Rightarrow> bytes option \<Rightarrow> bytes list \<Rightarrow> exn + (string \<times> int option \<times> bool) list" where
  "audit_witnesses P d journal keys =
     mapR (\<lambda>(name, entry).
         bindR (verify_journal P journal keys (Some (Some (de_content entry)))) (\<lambda>r.
           Inr (name, witness_count P (de_content entry), r_valid r)))
       (sort_key fst (filter (\<lambda>(name, _). stamped_witness name) d))"

definition witness_audit_valid :: "(string \<times> int option \<times> bool) list \<Rightarrow> bool" where
  "witness_audit_valid statuses \<longleftrightarrow> statuses \<noteq> [] \<and> list_all (\<lambda>(_, _, covered). covered) statuses"

text \<open>
  \<open>prune_witnesses\<close>: the regular stamped files, oldest first by time and name; all but the
  newest \<open>keep\<close> are deleted. \<open>undeletable\<close> are the files whose removal fails.
\<close>

definition prune_order :: "directory \<Rightarrow> string list" where
  "prune_order d =
     map fst (sort_key (\<lambda>(name, e). de_mtime e)
       (sort_key fst (filter (\<lambda>(name, e). stamped_witness name \<and> de_regular e) d)))"

definition prune_witnesses ::
  "nat \<Rightarrow> string list \<Rightarrow> directory option \<Rightarrow> (exn + string list \<times> string list) \<times> directory option" where
  "prune_witnesses keep undeletable dir =
     (if keep < 1 then (Inl ValueError, dir)
      else case dir of
        None \<Rightarrow> (Inl JournalError, dir)
      | Some d \<Rightarrow>
          (let paths = prune_order d;
               victims = take (length paths - keep) paths;
               kept = drop (length victims) paths;
               unassessed = map fst (filter (\<lambda>(name, e). stamped_witness name \<and> \<not> de_regular e) (sort_key fst d));
               deleted = filter (\<lambda>v. v \<notin> set undeletable) victims;
               d' = fold ddel deleted d
           in ((if deleted \<noteq> victims then Inl JournalError else Inr (kept @ unassessed, deleted)), Some d')))"

section \<open>The payloads pass the checks\<close>

lemmas field_defs =
  required_fields_def SHARED_REQUIRED_FIELDS_def LINKED_REQUIRED_FIELDS_def DECISION_REQUIRED_FIELDS_def
  OUTCOME_REQUIRED_FIELDS_def CHECKPOINT_REQUIRED_FIELDS_def RESOLUTION_REQUIRED_FIELDS_def
  COUNTERSIGNATURE_REQUIRED_FIELDS_def ARCHIVE_REQUIRED_FIELDS_def ROTATION_REQUIRED_FIELDS_def

lemma opt_str_simps [simp]:
  "jsort (opt_str s) = opt_str s" "py_eq (opt_str s) (opt_str t) \<longleftrightarrow> s = t" "hashable (opt_str s)"
  "json_wf P (opt_str s) \<longleftrightarrow> (case s of None \<Rightarrow> True | Some t \<Rightarrow> utf8_ok t)"
  "opt_str s = opt_str t \<longleftrightarrow> s = t" "opt_str s = JNull \<longleftrightarrow> s = None" "opt_str s = JStr u \<longleftrightarrow> s = Some u"
  by (auto simp: opt_str_def split: option.splits)

lemma checkpoint_payload_ok:
  "payload_ok prev (s_key_id sg) known (checkpoint_payload P sg n cnt prev)"
  by (simp add: payload_ok_def checkpoint_payload_def unsigned_def has_key_def jget_def
      EVENT_SCHEMA_VERSION_def KNOWN_EVENT_TYPES_def missing_fields_def field_defs shape_codes_def
      checkpoint_shape_def when_code_def bad_count_def jget_sort_members [unfolded jget_def])

lemma rotation_payload_ok:
  assumes "\<And>b. length (sha256 P b) = 32" and "kid \<noteq> key_id_for P successor"
  shows "payload_ok prev kid known (rotation_payload P n kid successor prev)"
proof -
  let ?f = "public_key_fingerprint P successor"
  have chars: "\<forall>c \<in> set ?f. is_hexchar c"
    by (simp add: public_key_fingerprint_def sha256_hex_def to_hex_chars)
  have "\<forall>c \<in> set ''0123456789abcdef''. code c < 128" by code_simp
  with chars have "py_len ?f = length ?f"
    by (intro py_len_ascii) (auto simp: is_hexchar_def simp del: list.set)
  then have fp: "is_fingerprint (JStr ?f)"
    using chars assms(1)
    by (simp add: is_fingerprint_def list_all_iff public_key_fingerprint_def sha256_hex_def length_to_hex)
  have kid: "key_id_for P successor = ''ed25519:'' @ take 16 ?f" by (simp add: key_id_for_def)
  have "rotation_shape (sort_members (rotation_payload P n kid successor prev)) = []"
    using assms(2) fp
    by (simp add: rotation_shape_def rotation_payload_def jget_def jget_sort_members [unfolded jget_def]
        when_code_def kid starts_with_def)
  then show ?thesis
    by (simp add: payload_ok_def rotation_payload_def unsigned_def has_key_def jget_def
        EVENT_SCHEMA_VERSION_def KNOWN_EVENT_TYPES_def missing_fields_def field_defs shape_codes_def)
qed

lemma resolution_payload_ok:
  assumes "resolution_payload P sg n d i r note prev = Inr p" and "r \<in> set KNOWN_RESOLUTIONS"
  shows "payload_ok prev (s_key_id sg) known p"
proof -
  from assms(1) obtain aid an ch where p: "p =
    [(''schema_version'', JStr EVENT_SCHEMA_VERSION), (''event_type'', JStr ''resolution''),
     (''event_id'', JStr (uuid4 P n)), (''action_id'', aid), (''action_name'', an), (''contract_hash'', ch),
     (''timestamp_utc'', JStr (utc_now P n)), (''key_id'', JStr (s_key_id sg)),
     (''previous_event_hash'', opt_str prev), (''decision_event_id'', JStr i),
     (''resolution'', JStr r), (''note'', JStr note)]"
    by (auto simp: resolution_payload_def bindR_Inr_iff)
  have "jget p ''resolution'' = JStr r" "jget p ''decision_event_id'' = JStr i" "jget p ''note'' = JStr note"
    by (simp_all add: p jget_def)
  then have "resolution_shape (sort_members p) = Inr []"
    using assms(2) by (simp add: resolution_shape_def when_code_def)
  then show ?thesis
    by (simp add: p payload_ok_def unsigned_def has_key_def jget_def
        EVENT_SCHEMA_VERSION_def KNOWN_EVENT_TYPES_def missing_fields_def field_defs shape_codes_def)
qed

text \<open>
  A counter-signature refers to the checkpoint the journal knows under that id, with the count
  and the head that checkpoint committed to.
\<close>

lemma countersignature_payload_ok:
  assumes "dget known i = Some cp" and "jget cp ''checkpoint_count'' = k" and "jget cp ''head_sha256'' = h"
    and "\<exists>m \<ge> 0. int_of k = Some m" and "h = opt_str x"
  shows "payload_ok prev (s_key_id sg) known (countersignature_payload P sg n i k h prev)"
proof -
  let ?p = "countersignature_payload P sg n i k h prev"
  have k: "jsort k = k" "py_eq k k" "\<not> bad_count 0 k"
    using assms(4) by (cases k; auto simp: bad_count_def)+
  have gets: "jget ?p ''checkpoint_event_id'' = JStr i" "jget ?p ''checkpoint_count'' = k" "jget ?p ''head_sha256'' = h"
    by (simp_all add: countersignature_payload_def jget_def)
  have "countersignature_shape known (sort_members ?p) = []"
    using assms k gets by (simp add: countersignature_shape_def when_code_def)
  then show ?thesis
    by (simp add: countersignature_payload_def payload_ok_def unsigned_def has_key_def jget_def
        EVENT_SCHEMA_VERSION_def KNOWN_EVENT_TYPES_def missing_fields_def field_defs shape_codes_def)
qed

section \<open>Healthy journals and their scans\<close>

lemma parse_lines_scan:
  "parse_lines P ls = Some es \<Longrightarrow> List.map_filter (scan_line P) ls = es
   \<and> length (filter (\<lambda>raw. bstrip raw \<noteq> []) ls) = length es"
proof (induction ls arbitrary: es)
  case (Cons raw ls)
  show ?case
  proof (cases "bstrip raw = []")
    case True
    with Cons show ?thesis by (simp add: map_filter_simps scan_line_def)
  next
    case False
    with Cons.prems obtain e es' where "json_loads P (bstrip raw) = Some (JObj e)" "es = e # es'"
      "parse_lines P ls = Some es'" by (auto split: option.splits json.splits)
    with False Cons.IH show ?thesis by (simp add: map_filter_simps scan_line_def)
  qed
qed (simp add: map_filter_simps)

lemma healthy_scan:
  assumes "healthy P tr f es"
  shows "scan_events P f = es" and "count_event_lines f = length es"
  using assms parse_lines_scan [of P "py_lines f" es]
  by (simp_all add: healthy_def journal_valid_def scan_events_def count_event_lines_def)

lemma healthy_read: "healthy P tr f es \<Longrightarrow> read_last_event_hash P f = Inr (last_hash None es)"
  by (simp add: healthy_def)

text \<open>Appending a record that passes its checks, whoever signs it.\<close>

lemma append_record_healthy:
  assumes h: "healthy P tr f es" and a: "append_event P path fault build f c = (Inr e, f', c')"
    and b: "\<And>e. build (last_hash None es) = Inr e \<Longrightarrow> \<exists>p sk kid.
          finalize_event P p (local_sign P sk) = Inr e \<and> event_wf P p
          \<and> payload_ok (last_hash None es) kid (fold known_after es []) p
          \<and> dget tr kid = Some (ed_public P sk) \<and> ed_correct P sk"
  shows "healthy P tr f' (es @ [sort_members e]) \<and> f' = f @ line_of P e"
proof -
  from append_event_ok [OF a] healthy_read [OF h] have e: "build (last_hash None es) = Inr e" "f' = f @ line_of P e"
    by auto
  from b [OF e(1)] obtain p sk kid where p: "finalize_event P p (local_sign P sk) = Inr e" "event_wf P p"
    "payload_ok (last_hash None es) kid (fold known_after es []) p" "dget tr kid = Some (ed_public P sk)"
    "ed_correct P sk" by blast
  from finalize_wf [OF p(1,2)] local_sign_utf8 have wf: "event_wf P e" by blast
  from finalize_hash [OF p(1)] obtain x where "dget e ''event_hash'' = Some (JStr x)" by blast
  from healthy_extend [OF h wf this finalize_event_codes [OF p(1,3-5)]] e(2) show ?thesis by simp
qed

end
