(* ===== verification/RecordProps.thy ===== *)
theory RecordProps
  imports Records
begin

text \<open>
  What the operator's records guarantee: a checkpoint bounds the journal from below, rotation
  keeps every key trusted, shipped witnesses are never overwritten and pruning keeps the
  newest.
\<close>

section \<open>Checkpoints protect the journal\<close>

text \<open>The identifiers and timestamps that the platform draws are printable ASCII.\<close>

definition ascii_stamps :: "platform \<Rightarrow> bool" where
  "ascii_stamps P \<longleftrightarrow> (\<forall>n. ascii_text (uuid4 P n) \<and> ascii_text (utc_now P n))"

lemma last_hash_ascii:
  assumes "healthy P tr f es" and "last_hash None es = Some h"
  shows "ascii_text h"
proof -
  from assms(2) have ne: "es \<noteq> []" by (auto simp: last_hash_def split: if_splits)
  from assms(1) have "valid_from P tr None [] es" by (simp add: healthy_def journal_valid_def)
  from valid_from_sound [OF this, of "last es"] ne event_codes_sound obtain d where
    "jget (last es) ''event_hash'' = JStr (to_hex d)" by (metis last_in_set)
  with assms(2) ne have "h = to_hex d" by (simp add: last_hash_def event_hash_of_def)
  moreover have "\<forall>c \<in> set ''0123456789abcdef''. code c < 127" by code_simp
  ultimately show ?thesis
    using to_hex_chars [of d] by (auto simp: ascii_text_def is_hexchar_def simp del: list.set)
qed

lemma key_id_ascii: "ascii_text (key_id_for P pk)"
proof -
  have "\<forall>c \<in> set ''0123456789abcdef''. code c < 127" by code_simp
  then have "ascii_text (take 16 (to_hex b))" for b
    using to_hex_chars [of b]
    by (auto simp: ascii_text_def is_hexchar_def simp del: list.set dest!: in_set_takeD)
  then show ?thesis by (simp add: key_id_for_def public_key_fingerprint_def sha256_hex_def)
qed

lemma checkpoint_payload_wf:
  assumes "ascii_stamps P" and "ascii_text (s_key_id sg)" and "\<And>h. prev = Some h \<Longrightarrow> ascii_text h"
  shows "event_wf P (checkpoint_payload P sg n cnt prev)"
    and "ascii_json (JObj (checkpoint_payload P sg n cnt prev))"
proof -
  have k: "list_all ascii_text [''schema_version'', ''event_type'', ''event_id'', ''timestamp_utc'',
      ''key_id'', ''previous_event_hash'', ''checkpoint_count'', ''head_sha256'', ''1'', ''checkpoint'']"
    by code_simp
  have o: "ascii_json (opt_str prev)" using assms(3) by (cases prev) (simp_all add: opt_str_def)
  have wo: "json_wf P (opt_str prev)"
    using assms(3) ascii_text_utf8 by (cases prev) (simp_all add: opt_str_def)
  show "ascii_json (JObj (checkpoint_payload P sg n cnt prev))"
    using assms(1,2) k o by (simp add: checkpoint_payload_def ascii_stamps_def EVENT_SCHEMA_VERSION_def)
  show "event_wf P (checkpoint_payload P sg n cnt prev)"
    using assms(1,2) k wo ascii_text_utf8
    by (simp add: checkpoint_payload_def ascii_stamps_def EVENT_SCHEMA_VERSION_def del: opt_str_simps(4))
qed

lemma ascii_json_dset: "ascii_json (JObj d) \<Longrightarrow> ascii_text k \<Longrightarrow> ascii_json v \<Longrightarrow> ascii_json (JObj (dset k v d))"
  by (auto simp: list_all_iff dest!: dset_values)

lemma finalize_ascii:
  assumes "finalize_event P p (local_sign P sk) = Inr e" and "ascii_json (JObj p)"
  shows "ascii_json (JObj e)"
proof -
  have k: "list_all ascii_text [''event_hash'', ''signature'']" by code_simp
  have hex: "ascii_text (to_hex d)" for d
  proof -
    have "\<forall>c \<in> set ''0123456789abcdef''. code c < 127" by code_simp
    then show ?thesis
      using to_hex_chars [of d] by (auto simp: ascii_text_def is_hexchar_def simp del: list.set)
  qed
  have b64: "ascii_text (b64_encode b)" for b
    using b64_encode_ascii [of b] by (auto simp: ascii_text_def)
  from assms(1) obtain d s where "local_sign P sk d = Inr s"
    and e: "e = dset ''signature'' (JStr s) (dset ''event_hash'' (JStr (to_hex d)) p)"
    by (auto simp: finalize_event_def bindR_Inr_iff)
  then have "ascii_text s" using b64 by (auto simp: local_sign_def)
  then show ?thesis
    unfolding e using assms(2) k hex by (intro ascii_json_dset) simp_all
qed

lemma load_witness_complete:
  assumes "event_codes P e prev tr known = Inr []" and "etype ''checkpoint'' e"
    and "json_loads P (bstrip w) = Some (JObj e)" and "bstrip w \<noteq> []"
  shows "load_checkpoint_witness P tr (Some w) = Inr (Some e, [])"
proof -
  from event_codes_integrity [OF assms(1)] assms(2)
  have shape: "checkpoint_shape e = []" "missing_fields CHECKPOINT_REQUIRED_FIELDS e = []"
    and ic: "integrity_codes P prev tr e = Inr []"
    by (auto simp: etype_def shape_codes_def required_fields_def missing_fields_def)
  from ic obtain d pk where "event_digest P (unsigned_payload e) = Inr d" "hash_matches e d"
    "signer_of tr e = Some pk" "verify_signature P pk d (py_str P (jget e ''signature''))"
    by (auto simp: integrity_codes_def bindR_Inr_iff when_code_Nil split: option.splits)
  moreover have "hashable (jget e ''schema_version'')" "jget e ''schema_version'' \<in> JStr ` set KNOWN_SCHEMA_VERSIONS"
    using assms(1) by (auto simp: event_codes_def Let_def split: if_splits)
  ultimately show ?thesis
    using assms(2-4) shape by (simp add: load_checkpoint_witness_def Let_def)
qed

lemma checkpoint_verifies:
  assumes h: "healthy P (to_keyring P keys) f es"
    and cp: "checkpoint_journal P path fault (local_signer P sk) n f c = (Inr (e, w), f', c')"
    and ring: "dget (to_keyring P keys) (key_id_for P (ed_public P sk)) = Some (ed_public P sk)"
    and P: "ed_correct P sk" "ascii_stamps P"
  shows "healthy P (to_keyring P keys) f' (es @ [sort_members e])
    \<and> verify_journal P (Some f') keys (Some (Some w))
        = Inr \<lparr>r_valid = True, r_verified = Suc (length es), r_issues = []\<rparr>
    \<and> load_checkpoint_witness P (to_keyring P keys) (Some w) = Inr (Some (sort_members e), [])
    \<and> jget e ''checkpoint_count'' = JInt (int (length es)) \<and> event_wf P e"
proof -
  let ?tr = "to_keyring P keys" and ?sg = "local_signer P sk" and ?prev = "last_hash None es"
  let ?p = "checkpoint_payload P ?sg n (length es) ?prev"
  have kid: "s_key_id ?sg = key_id_for P (ed_public P sk)" and sign: "s_sign ?sg = local_sign P sk"
    by (simp_all add: local_signer_def)
  have wf: "event_wf P ?p" "ascii_json (JObj ?p)"
    using checkpoint_payload_wf [OF P(2), of ?sg ?prev] key_id_ascii last_hash_ascii [OF h] kid by auto
  from cp have a: "append_event P path fault
      (\<lambda>prev. finalize_event P (checkpoint_payload P ?sg n (length es) prev) (local_sign P sk)) f c = (Inr e, f', c')"
    and w: "w = json_text_ascii P (JObj e)"
    by (auto simp: checkpoint_journal_def append_checkpoint_def healthy_scan(2) [OF h] sign split: sum.splits prod.splits)
  have pok: "payload_ok ?prev (key_id_for P (ed_public P sk)) (fold known_after es []) ?p"
    using checkpoint_payload_ok [of ?prev ?sg] kid by simp
  have healthy: "healthy P ?tr f' (es @ [sort_members e])"
    using append_record_healthy [OF h a] wf(1) pok ring P(1) by blast
  from append_event_ok [OF a] healthy_read [OF h] have fin: "finalize_event P ?p (local_sign P sk) = Inr e" by auto
  from finalize_event_codes [OF fin pok ring P(1)]
  have ok: "event_codes P (sort_members e) ?prev ?tr (fold known_after es []) = Inr []" .
  have get: "jget e k = jget ?p k" if "k \<notin> {''signature'', ''event_hash''}" for k
    using finalize_get [OF fin, of k] that by simp
  have ty: "etype ''checkpoint'' (sort_members e)"
    by (simp add: etype_def get) (simp add: checkpoint_payload_def jget_def)
  have cnt: "jget e ''checkpoint_count'' = JInt (int (length es))"
    by (simp add: get) (simp add: checkpoint_payload_def jget_def)
  have wf_e: "event_wf P e" using finalize_wf [OF fin wf(1)] local_sign_utf8 by blast
  have w': "w = json_text P (JObj e)"
    using w json_text_ascii_eq [OF finalize_ascii [OF fin wf(2)]] by simp
  have "bstrip w = w" unfolding w' using json_text_no_space [of P e] by (intro strip_by_id) blast
  moreover have "json_loads P w = Some (JObj (sort_members e))"
    unfolding w' using loads_text [OF wf_e] by (simp add: jsort_JObj del: jsort.simps)
  moreover have "w \<noteq> []" unfolding w' using json_text_no_space by blast
  ultimately have load: "load_checkpoint_witness P ?tr (Some w) = Inr (Some (sort_members e), [])"
    using load_witness_complete [OF ok ty] by simp
  from healthy have "journal_valid P ?tr f' (es @ [sort_members e])" by (simp add: healthy_def)
  note run = read_and_verify_complete [OF this, of "Some (Some w)" "Some (sort_members e)"]
  have id: "jget e ''event_id'' = JStr (uuid4 P n)"
    by (simp add: get) (simp add: checkpoint_payload_def jget_def)
  have newest: "last_checkpoint None (es @ [sort_members e]) = Some (sort_members e)"
    using ty by (simp add: last_checkpoint_def)
  have count: "int_of (jget (sort_members e) ''checkpoint_count'') = Some (int (length es))"
    by (simp add: cnt)
  have "effective_checkpoint (Some (sort_members e)) (Some (sort_members e)) = Inr (Some (sort_members e))"
    using jindex_jget [OF count] int_of_num_of [OF count] by (simp add: effective_checkpoint_def)
  then have "checkpoint_coverage (last_checkpoint None (es @ [sort_members e])) (Some (sort_members e)) True
      (length (es @ [sort_members e])) = Inr []"
    by (simp add: checkpoint_coverage_def newest truncation_issue_int [OF count])
  then have "verify_journal P (Some f') keys (Some (Some w))
        = Inr \<lparr>r_valid = True, r_verified = Suc (length es), r_issues = []\<rparr>"
    using run load by (simp add: verify_journal_def id py_str_def)
  with healthy load cnt wf_e show ?thesis by blast
qed

text \<open>
  C12: A checkpoint is a working truncation bound: checkpointing a healthy journal keeps it
  healthy, the journal then verifies against the witness just written with every event counted,
  and from then on no journal with fewer events than the checkpoint covered verifies against
  that witness.
\<close>

theorem checkpoint_protects:
  assumes h: "healthy P (to_keyring P keys) f es"
    and cp: "checkpoint_journal P path fault (local_signer P sk) n f c = (Inr (e, w), f', c')"
    and ring: "dget (to_keyring P keys) (key_id_for P (ed_public P sk)) = Some (ed_public P sk)"
    and P: "ed_correct P sk" "ascii_stamps P"
  shows "healthy P (to_keyring P keys) f' (es @ [sort_members e])
    \<and> verify_journal P (Some f') keys (Some (Some w))
        = Inr \<lparr>r_valid = True, r_verified = Suc (length es), r_issues = []\<rparr>
    \<and> (\<forall>g r. verify_journal P (Some g) keys (Some (Some w)) = Inr r \<longrightarrow> r_valid r \<longrightarrow>
          length es \<le> r_verified r)"
proof -
  note ok = checkpoint_verifies [OF assms]
  have "length es \<le> r_verified r"
    if "verify_journal P (Some g) keys (Some (Some w)) = Inr r" "r_valid r" for g r
  proof -
    from that(1) obtain gs where
      rv: "read_and_verify P (Some g) (to_keyring P keys) (Some (Some w)) (\<lambda>e. e) = Inr (r, gs)"
      by (auto simp: verify_journal_def bindR_Inr_iff)
    from read_and_verify_valid [OF rv that(2)] coverage_bound [OF rv that(2)] ok
    show ?thesis by (auto simp: jsort_eq_simps)
  qed
  with ok show ?thesis by blast
qed

lemma ok_triple:
  assumes "is_ok (fst x)"
  obtains a b f c where "x = (Inr (a, b), f, c)"
  using assms by (cases x) (auto simp: is_ok_iff)

lemma ascii_stamps_toy: "ascii_stamps toy_platform"
proof -
  have "ascii_text (dec_nat n)" for n
  proof -
    have "code c < 127" if "is_digit c" for c using that by (simp add: is_digit_def)
    then show ?thesis using dec_nat_digits [of n] by (auto simp: ascii_text_def)
  qed
  then show ?thesis by (simp add: ascii_stamps_def toy_platform_def)
qed

text \<open>The smallest real journal: one checkpoint over the empty file, signed by a trusted key.\<close>

definition demo_signed :: "event \<Rightarrow> bytes \<Rightarrow> bytes \<Rightarrow> idem_cache \<Rightarrow> bool" where
  "demo_signed e w f c \<longleftrightarrow>
     checkpoint_journal toy_platform ''j'' NoFault (local_signer toy_platform ''k'') 0 [] [] = (Inr (e, w), f, c)"

lemma demo_ring:
  "dget (to_keyring toy_platform [''k'']) (key_id_for toy_platform (ed_public toy_platform ''k''))
     = Some (ed_public toy_platform ''k'')"
  by code_simp

lemma demo_signed_ex: obtains e w f c where "demo_signed e w f c"
proof -
  have "is_ok (fst (checkpoint_journal toy_platform ''j'' NoFault (local_signer toy_platform ''k'') 0 [] []))"
    by code_simp
  then show ?thesis using that unfolding demo_signed_def by (rule ok_triple)
qed

lemma demo_journal:
  assumes "demo_signed e w f c"
  shows "healthy toy_platform (to_keyring toy_platform [''k'']) f [sort_members e]"
    and "verify_journal toy_platform (Some f) [''k''] (Some (Some w))
         = Inr \<lparr>r_valid = True, r_verified = 1, r_issues = []\<rparr>"
    and "event_wf toy_platform e"
  using checkpoint_verifies [OF healthy_Nil assms [unfolded demo_signed_def] demo_ring ed_correct_toy ascii_stamps_toy]
  by simp_all

lemma checkpoint_protects_witness:
  "\<exists>e w f' c'. checkpoint_journal toy_platform ''j'' NoFault (local_signer toy_platform ''k'') 0 [] [] = (Inr (e, w), f', c')
     \<and> verify_journal toy_platform (Some f') [''k''] (Some (Some w))
         = Inr \<lparr>r_valid = True, r_verified = 1, r_issues = []\<rparr>"
proof (rule demo_signed_ex)
  fix e w f c
  assume d: "demo_signed e w f c"
  then have cp: "checkpoint_journal toy_platform ''j'' NoFault (local_signer toy_platform ''k'') 0 [] [] = (Inr (e, w), f, c)"
    by (simp add: demo_signed_def)
  from checkpoint_protects [OF healthy_Nil cp demo_ring ed_correct_toy ascii_stamps_toy]
  have "verify_journal toy_platform (Some f) [''k''] (Some (Some w))
      = Inr \<lparr>r_valid = True, r_verified = Suc (length ([] :: event list)), r_issues = []\<rparr>" by blast
  with cp show ?thesis by (metis One_nat_def list.size(3))
qed

text \<open>The same journal instantiates the guarantees of a valid journal.\<close>

lemma valid_journal_authentic_witness:
  "\<exists>f es. healthy toy_platform (to_keyring toy_platform [''k'']) f es \<and> length es = 1
     \<and> (\<forall>e \<in> set es. jget e ''key_id'' = JStr (key_id_for toy_platform ''k''))"
proof (rule demo_signed_ex)
  fix e w f c
  assume d: "demo_signed e w f c"
  from valid_journal_authentic [OF demo_journal(2) [OF d]] demo_journal(1) [OF d] show ?thesis
    by (fastforce simp: healthy_def journal_valid_def)
qed

lemma head_determines_journal_witness:
  "\<exists>f es. es \<noteq> [] \<and> journal_valid toy_platform (to_keyring toy_platform [''k'']) f es
     \<and> map (\<lambda>e. sort_members (unsigned_payload e)) es = map (\<lambda>e. sort_members (unsigned_payload e)) es"
proof (rule demo_signed_ex)
  fix e w f c
  assume d: "demo_signed e w f c"
  have v: "journal_valid toy_platform (to_keyring toy_platform [''k'']) f [sort_members e]"
    using demo_journal(1) [OF d] by (simp add: healthy_def)
  have "event_wf toy_platform (sort_members e)"
    using json_wf_jsort [OF demo_journal(3) [OF d]] by (simp add: jsort_JObj del: jsort.simps json_wf.simps)
  with head_determines_journal [OF v v] v show ?thesis by (metis list.distinct(1))
qed

lemma append_keeps_valid_witness:
  "\<exists>e f c. append_event_atomic toy_platform ''j'' NoFault
        (\<lambda>prev blocking. finalize_event toy_platform
            (checkpoint_payload toy_platform (local_signer toy_platform ''k'') 0 0 prev) (local_sign toy_platform ''k''))
        None [] [] = (Inr e, f, c)
     \<and> healthy toy_platform (to_keyring toy_platform [''k'']) f [sort_members e]"
proof -
  let ?sg = "local_signer toy_platform ''k''"
  let ?build = "\<lambda>prev (blocking :: string option). finalize_event toy_platform
      (checkpoint_payload toy_platform ?sg 0 0 prev) (local_sign toy_platform ''k'')"
  have "is_ok (fst (append_event_atomic toy_platform ''j'' NoFault ?build None [] []))" by code_simp
  then obtain e f c where a: "append_event_atomic toy_platform ''j'' NoFault ?build None [] [] = (Inr e, f, c)"
    by (cases "append_event_atomic toy_platform ''j'' NoFault ?build None [] []") (auto simp: is_ok_iff)
  have kid: "s_key_id ?sg = key_id_for toy_platform (ed_public toy_platform ''k'')" by (simp add: local_signer_def)
  have "event_wf toy_platform (checkpoint_payload toy_platform ?sg 0 0 (last_hash None []))"
    using checkpoint_payload_wf [OF ascii_stamps_toy, of ?sg "last_hash None []"] key_id_ascii kid
    by (simp add: last_hash_def del: json_wf.simps)
  moreover have "payload_ok (last_hash None []) (key_id_for toy_platform (ed_public toy_platform ''k''))
      (fold known_after [] []) (checkpoint_payload toy_platform ?sg 0 0 (last_hash None []))"
    using checkpoint_payload_ok [of "last_hash None []" ?sg] kid by simp
  ultimately have build: "\<exists>p. finalize_event toy_platform p (local_sign toy_platform ''k'') = Inr e'
      \<and> event_wf toy_platform p
      \<and> payload_ok (last_hash None []) (key_id_for toy_platform (ed_public toy_platform ''k'')) (fold known_after [] []) p"
    if "?build (last_hash None []) blocking = Inr e'" for blocking e'
    using that by blast
  from append_keeps_valid [OF healthy_Nil a build demo_ring ed_correct_toy] a show ?thesis
    by auto
qed

lemma truncation_detected_witness:
  "\<exists>f w cp. verify_journal toy_platform (Some f) [''k''] (Some (Some w))
         = Inr \<lparr>r_valid = True, r_verified = 1, r_issues = []\<rparr>
     \<and> load_checkpoint_witness toy_platform (to_keyring toy_platform [''k'']) (Some w) = Inr (Some cp, [])"
proof (rule demo_signed_ex)
  fix e w f c
  assume d: "demo_signed e w f c"
  from truncation_detected [OF demo_journal(2) [OF d]] demo_journal(2) [OF d] show ?thesis
    by fastforce
qed

section \<open>Rotation keeps old evidence verifiable\<close>

definition trusted_keys :: "home \<Rightarrow> bytes set" where
  "trusted_keys hm = {pk. \<exists>stem. (stem, EdKey pk) \<in> set (hm_trusted hm)}"

definition home_keys :: "home \<Rightarrow> bytes set" where
  "home_keys hm = trusted_keys hm \<union> {pk. hm_public hm = Some (EdKey pk)}"

lemma register_trusted_sub:
  "trusted_keys hm \<subseteq> trusted_keys (register_public_key P pk hm)
   \<and> trusted_keys (register_public_key P pk hm) \<subseteq> insert pk (trusted_keys hm)"
  by (auto simp: trusted_keys_def register_public_key_def Let_def dset_fresh dest!: dset_values)

lemma register_trusted:
  assumes "home_wf P hm" and "inj_on (sha256 P) (insert pk (trusted_keys hm))"
  shows "trusted_keys (register_public_key P pk hm) = insert pk (trusted_keys hm)"
proof (cases "dget (hm_trusted hm) (public_key_fingerprint P pk)")
  case None
  then show ?thesis
    by (auto simp: trusted_keys_def register_public_key_def Let_def dset_fresh)
next
  case (Some x)
  then have mem: "(public_key_fingerprint P pk, x) \<in> set (hm_trusted hm)" by (rule dget_mem)
  with assms(1) obtain pk' where pk': "x = EdKey pk'" "public_key_fingerprint P pk = public_key_fingerprint P pk'"
    by (auto simp: home_wf_def list_all_iff)
  then have "sha256 P pk = sha256 P pk'"
    by (auto simp: public_key_fingerprint_def sha256_hex_def dest: to_hex_inj)
  moreover have "pk' \<in> trusted_keys hm" using mem pk'(1) by (auto simp: trusted_keys_def)
  ultimately have "pk = pk'" using assms(2) by (auto dest: inj_onD)
  with \<open>pk' \<in> trusted_keys hm\<close> Some show ?thesis
    by (auto simp: register_public_key_def Let_def)
qed

text \<open>
  After a rotation the default trusted set still holds every key it held before, the
  outgoing key and the new one, whether or not the rotation could be recorded in the journal,
  and loading the set does not fail.
\<close>

theorem rotation_keeps_trust:
  assumes "home_wf P hm" and "hm_private hm = Some (EdKey sk)" and "\<not> hm_shared hm"
    and "rotate_key P path fault n rec new_key hm journal c = (Inr k, hm', journal', c')"
    and "inj_on (sha256 P) (home_keys hm \<union> {ed_public P sk, ed_public P new_key})"
  shows "k = new_key \<and> hm_private hm' = Some (EdKey new_key)
    \<and> (\<exists>keys. load_trusted_public_keys hm' = Inr keys
        \<and> {ed_public P sk, ed_public P new_key} \<union> trusted_keys hm \<subseteq> set keys)"
proof -
  define hm1 where "hm1 = (case hm_public hm of Some (EdKey pk) \<Rightarrow> register_public_key P pk hm | _ \<Rightarrow> hm)"
  define hm2 where "hm2 = register_public_key P (ed_public P sk) hm1"
  define hm3 where "hm3 = hm2\<lparr>hm_private := Some (EdKey new_key), hm_shared := False,
                         hm_public := Some (EdKey (ed_public P new_key))\<rparr>"
  have sel: "hm_private hm1 = hm_private hm" "hm_shared hm1 = hm_shared hm"
    by (auto simp: hm1_def register_public_key_def Let_def split: option.splits keyfile.splits)
  have k: "k = new_key" "hm' = register_public_key P (ed_public P new_key) hm3"
    using assms(2-4) sel unfolding rotate_key_def Let_def hm1_def [symmetric]
    by (auto simp: hm2_def hm3_def split: option.splits bool.splits sum.splits if_splits prod.splits)
  let ?K = "home_keys hm \<union> {ed_public P sk, ed_public P new_key}"
  have "hm1 = hm \<or> (\<exists>pk. hm_public hm = Some (EdKey pk) \<and> hm1 = register_public_key P pk hm)"
    by (auto simp: hm1_def split: option.splits keyfile.splits)
  then have 1: "home_wf P hm1" "trusted_keys hm \<subseteq> trusted_keys hm1" "trusted_keys hm1 \<subseteq> ?K"
    using assms(1) home_wf_register [OF assms(1)] register_trusted_sub [where hm = hm and P = P]
    unfolding home_keys_def by blast+
  have "inj_on (sha256 P) (insert (ed_public P sk) (trusted_keys hm1))"
    by (rule inj_on_subset [OF assms(5)]) (use 1(3) in blast)
  from register_trusted [OF 1(1) this]
  have 2: "home_wf P hm2" "trusted_keys hm2 = insert (ed_public P sk) (trusted_keys hm1)"
    unfolding hm2_def using home_wf_register [OF 1(1)] by simp_all
  have 3: "home_wf P hm3" "trusted_keys hm3 = trusted_keys hm2"
    using 2(1) by (simp_all add: hm3_def home_wf_def trusted_keys_def)
  have "inj_on (sha256 P) (insert (ed_public P new_key) (trusted_keys hm3))"
    by (rule inj_on_subset [OF assms(5)]) (use 1(3) 2(2) 3(2) in blast)
  from register_trusted [OF 3(1) this] home_wf_register [OF 3(1)] k(2)
  have 4: "home_wf P hm'" "trusted_keys hm' = insert (ed_public P new_key) (trusted_keys hm2)"
    using 3(2) by auto
  then have "hm_trusted hm' \<noteq> []" by (auto simp: trusted_keys_def)
  from load_trusted_wf [OF 4(1) this] obtain keys where
    "load_trusted_public_keys hm' = Inr keys" "set keys = trusted_keys hm'"
    by (auto simp: trusted_keys_def)
  moreover have "hm_private hm' = Some (EdKey new_key)"
    unfolding k(2) by (simp add: hm3_def register_public_key_def Let_def)
  ultimately show ?thesis using k(1) 1(2) 2(2) 4(2) by auto
qed

lemma rotation_keeps_trust_witness:
  "\<exists>k hm' j' c' keys. rotate_key toy_platform ''j'' NoFault 0 True ''n''
       \<lparr>hm_private = Some (EdKey ''k''), hm_shared = False, hm_public = None, hm_trusted = []\<rparr> None [] = (Inr k, hm', j', c')
     \<and> load_trusted_public_keys hm' = Inr keys \<and> {''k'', ''n''} \<subseteq> set keys"
proof -
  let ?hm = "\<lparr>hm_private = Some (EdKey ''k''), hm_shared = False, hm_public = None, hm_trusted = []\<rparr>"
  have "is_ok (fst (rotate_key toy_platform ''j'' NoFault 0 True ''n'' ?hm None []))" by code_simp
  then obtain k hm' j' c' where
    r: "rotate_key toy_platform ''j'' NoFault 0 True ''n'' ?hm None [] = (Inr k, hm', j', c')"
    by (cases "rotate_key toy_platform ''j'' NoFault 0 True ''n'' ?hm None []") (auto simp only: is_ok_iff fst_conv)
  have wf: "home_wf toy_platform ?hm" by (simp add: home_wf_def)
  have "sha256 toy_platform ''k'' \<noteq> sha256 toy_platform ''n''" by code_simp
  then have "inj_on (sha256 toy_platform) (home_keys ?hm \<union> {ed_public toy_platform ''k'', ed_public toy_platform ''n''})"
    by (auto simp: home_keys_def trusted_keys_def toy_platform_def)
  from rotation_keeps_trust [OF wf _ _ r this] r show ?thesis
    by (auto simp: toy_platform_def)
qed

text \<open>
  Rotating to the key that is already in use appends a record that no verifier accepts: the
  library writes an event whose successor is its signer, so the journal it just extended
  fails verification from then on.
\<close>

theorem rotation_to_same_key_breaks_journal:
  "\<exists>hm' f' c' r.
     rotate_key toy_platform ''j'' NoFault 0 True ''k''
       \<lparr>hm_private = Some (EdKey ''k''), hm_shared = False, hm_public = None, hm_trusted = []\<rparr> (Some []) []
       = (Inr ''k'', hm', Some f', c')
     \<and> verify_journal toy_platform (Some []) [''k''] None = Inr \<lparr>r_valid = True, r_verified = 0, r_issues = []\<rparr>
     \<and> verify_journal toy_platform (Some f') [''k''] None = Inr r \<and> \<not> r_valid r
     \<and> (1, ''rotation_self_successor'') \<in> set (r_issues r)"
proof -
  let ?r = "rotate_key toy_platform ''j'' NoFault 0 True ''k''
       \<lparr>hm_private = Some (EdKey ''k''), hm_shared = False, hm_public = None, hm_trusted = []\<rparr> (Some []) []"
  have "case ?r of (res, hm', j', c') \<Rightarrow>
      (case j' of None \<Rightarrow> False
       | Some f' \<Rightarrow> res = Inr ''k''
           \<and> (case verify_journal toy_platform (Some f') [''k''] None of
                Inl _ \<Rightarrow> False
              | Inr r \<Rightarrow> \<not> r_valid r \<and> (1, ''rotation_self_successor'') \<in> set (r_issues r)))"
    by code_simp
  moreover have "verify_journal toy_platform (Some []) [''k''] None = Inr \<lparr>r_valid = True, r_verified = 0, r_issues = []\<rparr>"
    by code_simp
  ultimately show ?thesis
    by (auto simp only: prod.case split: prod.splits option.splits sum.splits)
qed

lemma witness_name_inj: "i \<ge> 1 \<Longrightarrow> j \<ge> 1 \<Longrightarrow> witness_name s i = witness_name s j \<Longrightarrow> i = j"
proof -
  assume ij: "i \<ge> 1" "j \<ge> 1" and eq: "witness_name s i = witness_name s j"
  show "i = j"
  proof (cases "i \<le> 1"; cases "j \<le> 1")
    assume "\<not> i \<le> 1" "\<not> j \<le> 1"
    with eq show ?thesis by (auto simp: witness_name_def dest: inj_dec_nat)
  qed (use ij eq in \<open>auto simp: witness_name_def\<close>)
qed

text \<open>
  Shipping never overwrites a witness: the copy goes to a name that was free, every earlier
  file keeps its content, and only the pointer \<open>latest.checkpoint\<close> is replaced.
\<close>
theorem ship_never_overwrites:
  assumes "ship_witness witness stamp mtime d = (target, d')"
  shows "dget d target = None \<and> map_option de_content (dget d' target) = Some witness
    \<and> (\<forall>name. name \<noteq> target \<longrightarrow> name \<noteq> ''latest.checkpoint'' \<longrightarrow> dget d' name = dget d name)"
proof -
  let ?taken = "\<lambda>i. dget d (witness_name stamp i) \<noteq> None"
  let ?i = "free_index ?taken (length d)"
  have free: "\<not> ?taken ?i"
  proof (cases "find (\<lambda>i. \<not> ?taken i) [1..<Suc (length d)]")
    case (Some i)
    with find_Some_mem [OF Some] show ?thesis by (simp add: free_index_def)
  next
    case None
    then have all: "?taken i" if "i \<in> {1..length d}" for i
      using that by (auto simp: find_None_iff)
    have i: "?i = Suc (length d)" using None by (simp add: free_index_def)
    show ?thesis
    proof
      assume "?taken ?i"
      with all i have "\<forall>j \<in> {1..Suc (length d)}. ?taken j"
        by (auto simp: le_Suc_eq)
      then have "witness_name stamp ` {1..Suc (length d)} \<subseteq> set (map fst d)"
        by (auto simp: dget_None_iff)
      moreover have "card (witness_name stamp ` {1..Suc (length d)}) = Suc (length d)"
        by (subst card_image) (auto intro!: inj_onI witness_name_inj)
      ultimately have "Suc (length d) \<le> card (set (map fst d))"
        by (metis List.finite_set card_mono)
      also have "\<dots> \<le> length d" using card_length [of "map fst d"] by simp
      finally show False by simp
    qed
  qed
  have "target = witness_name stamp ?i" and d': "d' = dset ''latest.checkpoint''
      \<lparr>de_content = witness, de_mtime = mtime, de_regular = True\<rparr>
      (dset target \<lparr>de_content = witness, de_mtime = mtime, de_regular = True\<rparr> d)"
    using assms by (auto simp: ship_witness_def Let_def)
  with free show ?thesis by simp
qed

lemma fold_ddel: "dget (fold ddel ks d) k = (if k \<in> set ks then None else dget d k)"
  by (induction ks arbitrary: d) auto

definition mtime_of :: "directory \<Rightarrow> string \<Rightarrow> nat" where
  "mtime_of d name = (case dget d name of None \<Rightarrow> 0 | Some e \<Rightarrow> de_mtime e)"

lemma prune_order_entry:
  "name \<in> set (prune_order d) \<longleftrightarrow> (\<exists>e. (name, e) \<in> set d \<and> stamped_witness name \<and> de_regular e)"
  by (force simp: prune_order_def)

lemma prune_order_sorted:
  assumes "distinct (map fst d)"
  shows "sorted (map (mtime_of d) (prune_order d))"
proof -
  let ?l = "sort_key (\<lambda>(name, e). de_mtime e)
       (sort_key fst (filter (\<lambda>(name, e). stamped_witness name \<and> de_regular e) d))"
  have "mtime_of d (fst p) = (case p of (name, e) \<Rightarrow> de_mtime e)" if "p \<in> set ?l" for p
  proof -
    from that have "p \<in> set d" by auto
    with assms have "dget d (fst p) = Some (snd p)" by (metis map_of_is_SomeI prod.collapse)
    then show ?thesis by (simp add: mtime_of_def case_prod_beta)
  qed
  then have "map (mtime_of d \<circ> fst) ?l = map (\<lambda>(name, e). de_mtime e) ?l" by (intro map_cong) auto
  then have "map (mtime_of d) (prune_order d) = map (\<lambda>(name, e). de_mtime e) ?l"
    by (simp add: prune_order_def)
  then show ?thesis by (metis sorted_sort_key)
qed

text \<open>
  Pruning removes only old regular witness files: a file that goes is a stamped regular one
  no newer than any regular witness that stays, the newest \<open>keep\<close> (or all, if fewer) stay, the
  pointer and everything else in the directory is untouched.
\<close>

theorem prune_keeps_newest:
  assumes "distinct (map fst d)"
    and "prune_witnesses keep undeletable (Some d) = (Inr (kept, deleted), Some d')"
  shows "(\<forall>name. dget d' name = (if name \<in> set deleted then None else dget d name))
    \<and> (\<forall>v \<in> set deleted. v \<in> set (prune_order d) \<and> v \<noteq> ''latest.checkpoint'')
    \<and> (\<forall>v \<in> set deleted. \<forall>w \<in> set (prune_order d) - set deleted. mtime_of d v \<le> mtime_of d w)
    \<and> min keep (length (prune_order d)) \<le> card (set (prune_order d) - set deleted)
    \<and> set (prune_order d) - set deleted \<subseteq> set kept"
proof -
  let ?p = "prune_order d"
  let ?k = "length ?p - keep"
  from assms(2) have del: "deleted = take ?k ?p" and d': "d' = fold ddel deleted d"
    and kept: "\<exists>u. kept = drop (length (take ?k ?p)) ?p @ u"
    by (auto simp: prune_witnesses_def Let_def split: if_splits)
  have dist: "distinct ?p" using assms(1) by (auto simp: prune_order_def distinct_map intro: inj_on_subset)
  have "set (take ?k ?p) \<union> set (drop ?k ?p) = set ?p" by (metis append_take_drop_id set_append)
  moreover have "set (take ?k ?p) \<inter> set (drop ?k ?p) = {}"
    using dist by (rule set_take_disj_set_drop_if_distinct) simp
  ultimately have rest: "set ?p - set deleted = set (drop ?k ?p)"
    unfolding del by blast
  have "sorted (map (mtime_of d) (take ?k ?p) @ map (mtime_of d) (drop ?k ?p))"
    using prune_order_sorted [OF assms(1)] by (metis append_take_drop_id map_append)
  then have "\<forall>v \<in> set (take ?k ?p). \<forall>w \<in> set (drop ?k ?p). mtime_of d v \<le> mtime_of d w"
    by (auto simp: sorted_append)
  moreover have "card (set (drop ?k ?p)) = min keep (length ?p)"
    using dist by (simp add: distinct_card min_def)
  moreover have "v \<noteq> ''latest.checkpoint''" if "v \<in> set ?p" for v
    using that by (auto simp: prune_order_entry stamped_witness_def)
  moreover have "set deleted \<subseteq> set ?p" unfolding del by (rule set_take_subset)
  moreover have "set (drop ?k ?p) \<subseteq> set kept" using kept by (auto simp: min_def split: if_splits)
  ultimately show ?thesis using rest del d' by (auto simp: fold_ddel)
qed

definition demo_dir :: directory where
  "demo_dir =
    [(''checkpoint-b.checkpoint'', \<lparr>de_content = ''x'', de_mtime = 2, de_regular = True\<rparr>),
     (''checkpoint-a.checkpoint'', \<lparr>de_content = ''y'', de_mtime = 1, de_regular = True\<rparr>),
     (''latest.checkpoint'', \<lparr>de_content = ''x'', de_mtime = 2, de_regular = True\<rparr>)]"

lemma prune_result:
  "fst (prune_witnesses keep u (Some d)) = Inr x \<Longrightarrow> \<exists>d'. prune_witnesses keep u (Some d) = (Inr x, Some d')"
  by (auto simp: prune_witnesses_def Let_def split: if_splits)

lemma prune_keeps_newest_witness:
  "\<exists>d'. prune_witnesses 1 [] (Some demo_dir) = (Inr ([''checkpoint-b.checkpoint''], [''checkpoint-a.checkpoint'']), Some d')
     \<and> dget d' ''checkpoint-a.checkpoint'' = None
     \<and> dget d' ''latest.checkpoint'' = dget demo_dir ''latest.checkpoint''"
proof -
  have dist: "distinct (map fst demo_dir)" by (simp add: demo_dir_def)
  have r: "fst (prune_witnesses 1 [] (Some demo_dir)) = Inr ([''checkpoint-b.checkpoint''], [''checkpoint-a.checkpoint''])"
    by code_simp
  then obtain d' where p: "prune_witnesses 1 [] (Some demo_dir)
      = (Inr ([''checkpoint-b.checkpoint''], [''checkpoint-a.checkpoint'']), Some d')"
    using prune_result by blast
  from prune_keeps_newest [OF dist p] p show ?thesis by auto
qed

lemma ship_never_overwrites_witness:
  "\<exists>target d'. ship_witness ''w'' ''s'' 3 demo_dir = (target, d') \<and> dget demo_dir target = None
     \<and> dget d' ''checkpoint-a.checkpoint'' = dget demo_dir ''checkpoint-a.checkpoint''"
proof -
  obtain target d' where s: "ship_witness ''w'' ''s'' 3 demo_dir = (target, d')"
    by (cases "ship_witness ''w'' ''s'' 3 demo_dir")
  have "dget demo_dir ''checkpoint-a.checkpoint'' \<noteq> None" by (simp add: demo_dir_def)
  with ship_never_overwrites [OF s] have "''checkpoint-a.checkpoint'' \<noteq> target" by metis
  moreover have "''checkpoint-a.checkpoint'' \<noteq> ''latest.checkpoint''" by simp
  ultimately show ?thesis using ship_never_overwrites [OF s] s by metis
qed

end
