(* ===== verification/WitnessShip.thy ===== *)
theory WitnessShip
  imports RecordProps
begin

text \<open>
  Shipping a witness when the file system fails (\<open>_ship_witness\<close> and \<open>_durable_copy\<close> of
  \<open>witness.py\<close>): a copy goes through a temporary file that replaces the target at the end, so a
  witness in the directory is whole or absent. \<open>Records\<close> ships without failures.
\<close>

section \<open>One durable copy\<close>

text \<open>Where a copy stops: after some bytes of the temporary file, before its sync, or at the replacement.\<close>

datatype copy_fault = CopyOk | CopyFails nat | SyncCopyFails | ReplaceFails

definition tmp_name :: "string \<Rightarrow> string \<Rightarrow> string" where
  "tmp_name pid target = target @ ''.'' @ pid @ ''.tmp''"

text \<open>\<open>unlinks\<close> is whether the clean-up of the temporary file works.\<close>

definition durable_copy ::
  "string \<Rightarrow> copy_fault \<Rightarrow> bool \<Rightarrow> bytes \<Rightarrow> nat \<Rightarrow> string \<Rightarrow> directory \<Rightarrow> (exn + string) \<times> directory" where
  "durable_copy pid fault unlinks content mtime target d =
     (let tmp = tmp_name pid target;
          entry = (\<lambda>b. \<lparr>de_content = b, de_mtime = mtime, de_regular = True\<rparr>);
          failed = (\<lambda>d. (Inl JournalError, if unlinks then ddel tmp d else d))
      in case fault of
           CopyOk \<Rightarrow> (Inr target, dset target (entry content) (ddel tmp d))
         | CopyFails n \<Rightarrow> failed (dset tmp (entry (take n content)) d)
         | _ \<Rightarrow> failed (dset tmp (entry content) d))"

text \<open>\<open>_ship_witness\<close> with a fault for each of its two copies.\<close>

definition ship_with_faults ::
  "string \<Rightarrow> copy_fault \<Rightarrow> copy_fault \<Rightarrow> bool \<Rightarrow> bytes \<Rightarrow> string \<Rightarrow> nat \<Rightarrow> directory \<Rightarrow> (exn + string) \<times> directory" where
  "ship_with_faults pid fault1 fault2 unlinks witness stamp mtime d =
     (let target = witness_name stamp (free_index (\<lambda>i. dget d (witness_name stamp i) \<noteq> None) (length d))
      in case durable_copy pid fault1 unlinks witness mtime target d of
           (Inl e, d1) \<Rightarrow> (Inl e, d1)
         | (Inr _, d1) \<Rightarrow>
             (case durable_copy pid fault2 unlinks witness mtime ''latest.checkpoint'' d1 of
                (Inl e, d2) \<Rightarrow> (Inl e, d2)
              | (Inr _, d2) \<Rightarrow> (Inr target, d2)))"

section \<open>Whole or absent\<close>

lemma tmp_not_target: "tmp_name pid t \<noteq> t"
  by (simp add: tmp_name_def)

lemma tmp_not_witness: "ends_with ''.checkpoint'' name \<Longrightarrow> name \<noteq> tmp_name pid t"
  by (auto simp: ends_with_def tmp_name_def starts_with_def)

lemma copy_frame:
  assumes "durable_copy pid fault unlinks content mtime target d = (r, d')" and "name \<noteq> tmp_name pid target"
  shows "dget d' name = (if name = target \<and> r = Inr target
      then Some \<lparr>de_content = content, de_mtime = mtime, de_regular = True\<rparr> else dget d name)"
  using assms by (auto simp: durable_copy_def Let_def split: copy_fault.splits if_splits)

lemma copy_result: "durable_copy pid fault unlinks content mtime target d = (r, d') \<Longrightarrow> r = Inr target \<or> r = Inl JournalError"
  by (auto simp: durable_copy_def Let_def split: copy_fault.splits)

lemma witness_name_ends: "ends_with ''.checkpoint'' (witness_name stamp i)"
  by (simp add: ends_with_def witness_name_def starts_with_def)

lemma latest_ends: "ends_with ''.checkpoint'' ''latest.checkpoint''"
  by (simp add: ends_with_def starts_with_def)

text \<open>
  Whatever fails while a witness is shipped, and whether or not the clean-up works: every
  \<open>.checkpoint\<close> file that changed holds the whole new witness, nothing but the new name and
  \<open>latest\<close> changed, the new name was free, and success means both are there.
\<close>

theorem shipped_whole_or_absent:
  assumes "ship_with_faults pid fault1 fault2 unlinks witness stamp mtime d = (r, d')"
    and "ends_with ''.checkpoint'' name"
  shows "(dget d' name = dget d name
      \<or> map_option de_content (dget d' name) = Some witness
        \<and> (name = ''latest.checkpoint'' \<or> (\<exists>i. name = witness_name stamp i)))
    \<and> (case r of
         Inr target \<Rightarrow> map_option de_content (dget d' target) = Some witness
           \<and> map_option de_content (dget d' ''latest.checkpoint'') = Some witness
       | Inl e \<Rightarrow> e = JournalError)"
proof -
  define t where "t = witness_name stamp (free_index (\<lambda>i. dget d (witness_name stamp i) \<noteq> None) (length d))"
  obtain r1 d1 where c1: "durable_copy pid fault1 unlinks witness mtime t d = (r1, d1)"
    by (cases "durable_copy pid fault1 unlinks witness mtime t d")
  note f1 = copy_frame [OF c1 tmp_not_witness]
  note s = assms(1) [unfolded ship_with_faults_def Let_def, folded t_def]
  show ?thesis
  proof (cases r1)
    case (Inl e)
    with s c1 have "r = Inl e" "d' = d1" by simp_all
    with Inl f1 [OF assms(2)] copy_result [OF c1] show ?thesis by simp
  next
    case (Inr t')
    obtain r2 d2 where c2: "durable_copy pid fault2 unlinks witness mtime ''latest.checkpoint'' d1 = (r2, d2)"
      by (cases "durable_copy pid fault2 unlinks witness mtime ''latest.checkpoint'' d1")
    note f2 = copy_frame [OF c2 tmp_not_witness]
    have t': "t' = t" using copy_result [OF c1] Inr by simp
    from s c1 c2 Inr have r: "d' = d2" "r = (case r2 of Inl e \<Rightarrow> Inl e | Inr _ \<Rightarrow> Inr t)"
      by (auto split: sum.splits)
    have "ends_with ''.checkpoint'' t" by (simp add: t_def witness_name_ends)
    with f1 f2 [OF assms(2)] f1 [OF assms(2)] f2 [of t] f2 [OF latest_ends] copy_result [OF c2] r Inr t' show ?thesis
      by (auto simp: t_def split: if_splits)
  qed
qed

text \<open>Without a fault it is the shipping of \<open>Records\<close>, up to temporary files left by earlier failures.\<close>

lemma ship_no_fault:
  assumes "name \<noteq> tmp_name pid ''latest.checkpoint''" and "\<forall>i. name \<noteq> tmp_name pid (witness_name stamp i)"
  shows "fst (ship_with_faults pid CopyOk CopyOk unlinks witness stamp mtime d) = Inr (fst (ship_witness witness stamp mtime d))
    \<and> dget (snd (ship_with_faults pid CopyOk CopyOk unlinks witness stamp mtime d)) name
       = dget (snd (ship_witness witness stamp mtime d)) name"
  using assms by (simp add: ship_with_faults_def durable_copy_def ship_witness_def Let_def)

lemma shipped_whole_or_absent_witness:
  "\<exists>d'. ship_with_faults ''7'' CopyOk (CopyFails 1) False ''ww'' ''s'' 3 [] = (Inl JournalError, d')
     \<and> (dget d' ''latest.checkpoint'' = None \<or> map_option de_content (dget d' ''latest.checkpoint'') = Some ''ww'')
     \<and> dget d' (tmp_name ''7'' ''latest.checkpoint'') \<noteq> None"
proof -
  let ?s = "ship_with_faults ''7'' CopyOk (CopyFails 1) False ''ww'' ''s'' 3 []"
  have "fst ?s = Inl JournalError \<and> dget (snd ?s) (tmp_name ''7'' ''latest.checkpoint'') \<noteq> None" by code_simp
  then obtain d' where s: "?s = (Inl JournalError, d')" "dget d' (tmp_name ''7'' ''latest.checkpoint'') \<noteq> None"
    by (cases ?s) auto
  from shipped_whole_or_absent [OF s(1) latest_ends] s show ?thesis by auto
qed

end
