(* ===== verification/KeyFiles.thy ===== *)
theory KeyFiles
  imports Identity "HOL-Library.Word"
begin

unbundle bit_operations_syntax

text \<open>
  Key files as the operating system has them (\<open>identity.py\<close>): a file is its bytes and its permission
  bits, writing can fail or fall short at each call, and the PEM codec is the library's. Where the
  files are comes from the environment.
\<close>

section \<open>Where the evidence is\<close>

definition PRIVATE_KEY_FILENAME :: string where "PRIVATE_KEY_FILENAME = ''signing_key.pem''"
definition PUBLIC_KEY_FILENAME :: string where "PUBLIC_KEY_FILENAME = ''verify_key.pem''"
definition JOURNAL_FILENAME :: string where "JOURNAL_FILENAME = ''journal.jsonl''"
definition TRUSTED_KEYS_DIRNAME :: string where "TRUSTED_KEYS_DIRNAME = ''trusted_keys''"

definition path_join :: "string \<Rightarrow> string \<Rightarrow> string" where
  "path_join d n = d @ ''/'' @ n"

text \<open>The environment: the variable, \<open>expanduser\<close> and the home directory of the user.\<close>

record user_env =
  ue_home_var :: "string option" \<comment> \<open>\<open>TESERA_EVIDENCE_HOME\<close>\<close>
  ue_expand :: "string \<Rightarrow> string"
  ue_home :: string

definition evidence_home :: "user_env \<Rightarrow> string" where
  "evidence_home u =
     (case ue_home_var u of
        Some d \<Rightarrow> if d \<noteq> [] then ue_expand u d else path_join (ue_home u) ''.tesera''
      | None \<Rightarrow> path_join (ue_home u) ''.tesera'')"

definition default_journal_path :: "user_env \<Rightarrow> string" where
  "default_journal_path u = path_join (evidence_home u) JOURNAL_FILENAME"

definition trusted_keys_dir :: "user_env \<Rightarrow> string option \<Rightarrow> string" where
  "trusted_keys_dir u home = path_join (case home of Some h \<Rightarrow> h | None \<Rightarrow> evidence_home u) TRUSTED_KEYS_DIRNAME"

text \<open>\<open>_resolve_journal\<close> of the engine: no journal, a path, or a store of the caller.\<close>

datatype 'j journal_spec = DefaultJournal | JournalAt string | JournalObject 'j

definition journal_store :: "user_env \<Rightarrow> (string \<Rightarrow> 'j) \<Rightarrow> 'j journal_spec \<Rightarrow> 'j" where
  "journal_store u file_journal spec =
     (case spec of
        DefaultJournal \<Rightarrow> file_journal (default_journal_path u)
      | JournalAt p \<Rightarrow> file_journal p
      | JournalObject so \<Rightarrow> so)"

section \<open>Files with permission bits\<close>

type_synonym mode = "16 word"

definition S_IRUSR :: mode where "S_IRUSR = 0x100"
definition S_IWUSR :: mode where "S_IWUSR = 0x080"
definition S_IRWXG :: mode where "S_IRWXG = 0x038"
definition S_IRWXO :: mode where "S_IRWXO = 0x007"

record pfile =
  pf_data :: bytes
  pf_mode :: mode

type_synonym files = "string \<Rightarrow> pfile option"

text \<open>What the system does: whether permission bits mean something, the mask, and what fails.\<close>

record osys =
  os_posix :: bool
  os_umask :: mode
  os_opens :: bool
  os_writes :: "nat option" \<comment> \<open>how many bytes \<open>os.write\<close> takes, if it does not fail\<close>
  os_chmods :: bool

definition require_private_permissions :: "osys \<Rightarrow> files \<Rightarrow> string \<Rightarrow> exn + unit" where
  "require_private_permissions os fs path =
     (if \<not> os_posix os then Inr ()
      else case fs path of
        None \<Rightarrow> Inr ()
      | Some f \<Rightarrow> if pf_mode f AND (S_IRWXG OR S_IRWXO) \<noteq> 0 then Inl IdentityError else Inr ())"

definition write_restricted :: "osys \<Rightarrow> string \<Rightarrow> bytes \<Rightarrow> mode \<Rightarrow> files \<Rightarrow> (exn + unit) \<times> files" where
  "write_restricted os path data mode fs =
     (if \<not> os_opens os then (Inl IdentityError, fs)
      else
        (let f = (case fs path of
                    None \<Rightarrow> \<lparr>pf_data = [], pf_mode = mode AND NOT (os_umask os)\<rparr>
                  | Some f \<Rightarrow> f\<lparr>pf_data := []\<rparr>)
         in case os_writes os of
              None \<Rightarrow> (Inl OSError, fs(path \<mapsto> f))
            | Some n \<Rightarrow>
                (let f = f\<lparr>pf_data := take n data\<rparr>
                 in (Inr (), fs(path \<mapsto> (if os_chmods os then f\<lparr>pf_mode := mode\<rparr> else f))))))"

section \<open>Private key files\<close>

text \<open>
  The codec of the cryptography library: the PEM text of a private key under an optional password,
  and what loading such a text gives.
\<close>

datatype loaded = EdPrivate bytes | OtherPrivate

record pem_codec =
  pc_private :: "bytes \<Rightarrow> bytes option \<Rightarrow> bytes"
  pc_load :: "bytes \<Rightarrow> bytes option \<Rightarrow> exn + loaded"

text \<open>
  What its documentation promises: a key loads under the password it was written with, and under any
  other, or with one given where there was none, loading raises \<open>ValueError\<close> or \<open>TypeError\<close>.
\<close>

definition pem_documented :: "pem_codec \<Rightarrow> bool" where
  "pem_documented pc \<longleftrightarrow>
     (\<forall>k pw. pc_load pc (pc_private pc k pw) pw = Inr (EdPrivate k))
     \<and> (\<forall>k pw pw'. pw' \<noteq> pw \<longrightarrow> pc_load pc (pc_private pc k pw) pw' \<in> {Inl ValueError, Inl TypeError})"

definition load_private_file :: "pem_codec \<Rightarrow> files \<Rightarrow> string \<Rightarrow> bytes option \<Rightarrow> exn + bytes" where
  "load_private_file pc fs path pw =
     (case fs path of
        None \<Rightarrow> Inl IdentityError
      | Some f \<Rightarrow>
          (case pc_load pc (pf_data f) pw of
             Inl e \<Rightarrow> Inl (if e \<in> {OSError, ValueError, TypeError} then IdentityError else e)
           | Inr (EdPrivate k) \<Rightarrow> Inr k
           | Inr OtherPrivate \<Rightarrow> Inl IdentityError))"

definition load_private_key :: "pem_codec \<Rightarrow> files \<Rightarrow> string \<Rightarrow> password \<Rightarrow> exn + bytes" where
  "load_private_key pc fs path pw = bindR (password_bytes pw) (load_private_file pc fs path)"

definition write_private_key ::
  "osys \<Rightarrow> pem_codec \<Rightarrow> string \<Rightarrow> bytes \<Rightarrow> bytes option \<Rightarrow> files \<Rightarrow> (exn + unit) \<times> files" where
  "write_private_key os pc path key pw fs =
     write_restricted os path (pc_private pc key pw) (S_IRUSR OR S_IWUSR) fs"

text \<open>\<open>generate_private_key\<close> on files; \<open>fresh\<close> is the key the library generates.\<close>

definition generate_key_file ::
  "osys \<Rightarrow> pem_codec \<Rightarrow> string \<Rightarrow> bytes \<Rightarrow> password \<Rightarrow> files \<Rightarrow> (exn + bytes) \<times> files" where
  "generate_key_file os pc path fresh pw fs =
     (if fs path \<noteq> None then (Inl IdentityError, fs)
      else case password_bytes pw of
        Inl e \<Rightarrow> (Inl e, fs)
      | Inr b \<Rightarrow>
          (case write_private_key os pc path fresh b fs of
             (Inl e, fs') \<Rightarrow> (Inl (if e = OSError then IdentityError else e), fs')
           | (Inr _, fs') \<Rightarrow> (Inr fresh, fs')))"

section \<open>Permission bits\<close>

lemma others_bits: "S_IRWXG OR S_IRWXO = mask 6"
  by (simp add: S_IRWXG_def S_IRWXO_def mask_eq_exp_minus_1)

lemma owner_bits: "(S_IRUSR OR S_IWUSR) AND (S_IRWXG OR S_IRWXO) = 0"
  by (simp add: S_IRUSR_def S_IWUSR_def S_IRWXG_def S_IRWXO_def)

lemma mode_exposed: "m AND (S_IRWXG OR S_IRWXO) = 0 \<longleftrightarrow> (\<forall>i < 6. \<not> bit (m :: mode) i)"
proof
  assume z: "m AND (S_IRWXG OR S_IRWXO) = 0"
  show "\<forall>i < 6. \<not> bit m i"
  proof (intro allI impI notI)
    fix i :: nat assume i: "i < 6" "bit m i"
    then have "bit (m AND mask 6) i" by (simp add: bit_and_iff bit_mask_iff)
    with z show False by (simp add: others_bits)
  qed
next
  assume "\<forall>i < 6. \<not> bit m i"
  then show "m AND (S_IRWXG OR S_IRWXO) = 0"
    unfolding others_bits by (intro bit_eqI) (auto simp: bit_and_iff bit_mask_iff)
qed

lemma narrowed_mode: "((S_IRUSR OR S_IWUSR) AND n) AND (S_IRWXG OR S_IRWXO) = 0"
proof -
  have "((S_IRUSR OR S_IWUSR) AND n) AND (S_IRWXG OR S_IRWXO) = ((S_IRUSR OR S_IWUSR) AND (S_IRWXG OR S_IRWXO)) AND n"
    by (simp only: and.assoc and.commute [of n])
  then show ?thesis by (simp add: owner_bits)
qed

lemma written_file:
  assumes "write_restricted os path data mode fs = (Inr u, fs')" and "fs path = None"
  shows "\<exists>n m. os_writes os = Some n \<and> fs' = fs(path \<mapsto> \<lparr>pf_data = take n data, pf_mode = m\<rparr>)
    \<and> (m = mode \<or> m = mode AND NOT (os_umask os))"
  using assms by (auto simp: write_restricted_def Let_def split: if_splits option.splits)

lemma generated_file:
  assumes "generate_key_file os pc path key pw fs = (Inr k, fs')"
  shows "\<exists>b n m. password_bytes pw = Inr b \<and> os_writes os = Some n \<and> k = key \<and> fs path = None
    \<and> fs' = fs(path \<mapsto> \<lparr>pf_data = take n (pc_private pc key b), pf_mode = m\<rparr>)
    \<and> m AND (S_IRWXG OR S_IRWXO) = 0"
proof -
  from assms obtain b where n: "fs path = None" and b: "password_bytes pw = Inr b"
    and w: "write_restricted os path (pc_private pc key b) (S_IRUSR OR S_IWUSR) fs = (Inr (), fs')" and k: "k = key"
    by (auto simp: generate_key_file_def write_private_key_def split: if_splits sum.splits prod.splits)
  from written_file [OF w n] obtain n' m where f: "os_writes os = Some n'"
      "fs' = fs(path \<mapsto> \<lparr>pf_data = take n' (pc_private pc key b), pf_mode = m\<rparr>)"
    and m: "m = (S_IRUSR OR S_IWUSR) \<or> m = (S_IRUSR OR S_IWUSR) AND NOT (os_umask os)" by blast
  from m have "m AND (S_IRWXG OR S_IRWXO) = 0" using owner_bits narrowed_mode by blast
  with f n b k show ?thesis by blast
qed


text \<open>The check refuses exactly the keys that some other user could read, write or execute.\<close>

lemma permissions_exact:
  assumes "os_posix os" and "fs path = Some f"
  shows "require_private_permissions os fs path = Inl IdentityError \<longleftrightarrow> (\<exists>i < 6. bit (pf_mode f) i)"
  using assms mode_exposed [of "pf_mode f"] by (auto simp: require_private_permissions_def)

text \<open>
  A write that falls short (a full disk) is not noticed: \<open>os.write\<close> returns how much it took, the
  code does not look, and reports a key whose file holds a part of its text.
\<close>

lemma short_write_unnoticed:
  assumes "fs path = None" and "os_opens os" and "os_writes os = Some n" and "password_bytes pw = Inr b"
  shows "\<exists>fs' f. generate_key_file os pc path key pw fs = (Inr key, fs') \<and> fs' path = Some f
    \<and> pf_data f = take n (pc_private pc key b)"
  using assms by (simp add: generate_key_file_def write_private_key_def write_restricted_def Let_def)

section \<open>A concrete codec\<close>

text \<open>A password is framed by its length in unary.\<close>

definition frame :: "bytes \<Rightarrow> bytes" where
  "frame p = replicate (length p) (CHR ''x'') @ CHR ''.'' # p"

definition toy_pem :: pem_codec where
  "toy_pem =
     \<lparr>pc_private = (\<lambda>k pw. case pw of None \<Rightarrow> CHR ''0'' # k | Some p \<Rightarrow> CHR ''1'' # frame p @ k),
      pc_load = (\<lambda>d pw. case d of
          [] \<Rightarrow> Inl ValueError
        | c # r \<Rightarrow>
            if c = CHR ''0'' then (if pw = None then Inr (EdPrivate r) else Inl TypeError)
            else (case pw of
                None \<Rightarrow> Inl TypeError
              | Some p \<Rightarrow> if starts_with (frame p) r then Inr (EdPrivate (drop (length (frame p)) r)) else Inl ValueError))\<rparr>"

lemma frame_length: "takeWhile (\<lambda>c. c = CHR ''x'') (frame p @ k) = replicate (length p) (CHR ''x'')"
  by (simp add: frame_def takeWhile_append)

lemma frame_prefix: "starts_with (frame p) (frame q @ k) \<Longrightarrow> p = q"
proof -
  assume "starts_with (frame p) (frame q @ k)"
  then obtain t where t: "frame q @ k = frame p @ t" by (auto simp: starts_with_iff)
  then have "length p = length q" using frame_length [of p t] frame_length [of q k] by (metis length_replicate)
  with t show ?thesis by (simp add: frame_def)
qed

lemma toy_pem_documented: "pem_documented toy_pem"
proof -
  have "pc_load toy_pem (pc_private toy_pem k pw) pw = Inr (EdPrivate k)" for k pw
    by (cases pw) (simp_all add: toy_pem_def starts_with_iff)
  moreover have "pc_load toy_pem (pc_private toy_pem k pw) pw' \<in> {Inl ValueError, Inl TypeError}" if "pw' \<noteq> pw" for k pw pw'
    using that frame_prefix by (cases pw; cases pw') (auto simp: toy_pem_def)
  ultimately show ?thesis by (simp add: pem_documented_def)
qed

definition toy_os :: osys where
  "toy_os = \<lparr>os_posix = True, os_umask = 0x12, os_opens = True, os_writes = Some 100, os_chmods = False\<rparr>"


end
