(* ===== verification/Contracts.thy ===== *)
theory Contracts
  imports Canonical
begin

text \<open>
  Action contracts (\<open>contracts.py\<close>): the declaration of a guarded function, its fingerprint and
  the hash that commits to it. A function is represented by what \<open>inspect\<close> and \<open>getattr\<close> report
  of it.
\<close>

section \<open>Names, risks and modes\<close>

definition CONTRACT_SCHEMA_VERSION :: string where "CONTRACT_SCHEMA_VERSION = ''1''"
definition EXECUTION_MODE_EMBEDDED :: string where "EXECUTION_MODE_EMBEDDED = ''embedded''"

definition RISK_LEVELS :: "string list" where
  "RISK_LEVELS = [''low'', ''medium'', ''high'', ''critical'']"

definition APPROVAL_MODES :: "string list" where
  "APPROVAL_MODES = [''required'', ''never'']"

definition is_letter :: "char \<Rightarrow> bool" where
  "is_letter c \<longleftrightarrow> (65 \<le> code c \<and> code c \<le> 90) \<or> (97 \<le> code c \<and> code c \<le> 122)"

definition is_name_char :: "char \<Rightarrow> bool" where
  "is_name_char c \<longleftrightarrow> is_letter c \<or> is_digit c \<or> c \<in> {CHR ''_'', CHR ''.'', CHR '':'', CHR ''-''}"

text \<open>The name pattern without its anchors, then \<open>re.match\<close> with \<open>$\<close>, which also matches before a final newline.\<close>

definition plain_name :: "string \<Rightarrow> bool" where
  "plain_name s = (case s of [] \<Rightarrow> False | c # cs \<Rightarrow> is_letter c \<and> list_all is_name_char cs \<and> length cs \<le> 127)"

definition action_name_matches :: "string \<Rightarrow> bool" where
  "action_name_matches s \<longleftrightarrow> plain_name s \<or> (s \<noteq> [] \<and> last s = nl \<and> plain_name (butlast s))"

text \<open>None is a name that is not a string.\<close>

definition validate_action_name :: "string option \<Rightarrow> exn + string" where
  "validate_action_name name =
     (case name of
        Some s \<Rightarrow> if action_name_matches s then Inr s else Inl ContractError
      | None \<Rightarrow> Inl ContractError)"

section \<open>The declared function\<close>

datatype annotation =
    NoAnnotation
  | TextAnnotation string
  | TypeAnnotation "string option" string \<comment> \<open>\<open>__module__\<close> and \<open>__qualname__\<close>\<close>
  | OtherAnnotation string \<comment> \<open>its \<open>str()\<close>\<close>

definition annotation_text :: "annotation \<Rightarrow> string option" where
  "annotation_text a =
     (case a of
        NoAnnotation \<Rightarrow> None
      | TextAnnotation s \<Rightarrow> Some s
      | TypeAnnotation m q \<Rightarrow>
          (case m of
             Some md \<Rightarrow> if md \<noteq> [] \<and> md \<noteq> ''builtins'' then Some (md @ ''.'' @ q) else Some q
           | None \<Rightarrow> Some q)
      | OtherAnnotation s \<Rightarrow> Some s)"

record parameter =
  p_name :: string
  p_kind :: string
  p_has_default :: bool
  p_annotation :: annotation

record func =
  fn_module :: "string option"
  fn_qualname :: "string option"
  fn_name :: "string option"
  fn_signature :: "exn + parameter list"
  fn_source :: "exn + string"
  fn_generator :: bool

record descriptor =
  pd_name :: string
  pd_kind :: string
  pd_has_default :: bool
  pd_annotation :: "string option"

definition parameter_descriptors :: "func \<Rightarrow> exn + descriptor list" where
  "parameter_descriptors fn =
     (case fn_signature fn of
        Inl x \<Rightarrow> Inl (if x = TypeError \<or> x = ValueError then ContractError else x)
      | Inr ps \<Rightarrow>
          Inr (map (\<lambda>p. \<lparr>pd_name = p_name p, pd_kind = p_kind p, pd_has_default = p_has_default p,
                         pd_annotation = annotation_text (p_annotation p)\<rparr>) ps))"

text \<open>\<open>textwrap.dedent\<close>: blank lines are emptied, the common indentation of the others goes.\<close>

fun split_nl :: "string \<Rightarrow> string list" where
  "split_nl [] = [[]]"
| "split_nl (c # cs) =
     (if c = nl then [] # split_nl cs
      else (case split_nl cs of [] \<Rightarrow> [[c]] | l # ls \<Rightarrow> (c # l) # ls))"

definition is_blank :: "char \<Rightarrow> bool" where "is_blank c \<longleftrightarrow> c = CHR '' '' \<or> c = CHR 0x09"

fun common_prefix :: "string \<Rightarrow> string \<Rightarrow> string" where
  "common_prefix (a # as) (b # bs) = (if a = b then a # common_prefix as bs else [])"
| "common_prefix _ _ = []"

definition dedent :: "string \<Rightarrow> string" where
  "dedent s =
     (let lines = map (\<lambda>l. if list_all is_blank l then [] else l) (split_nl s);
          indents = map (takeWhile is_blank) (filter (\<lambda>l. l \<noteq> []) lines);
          margin = (case indents of [] \<Rightarrow> [] | i # is \<Rightarrow> fold common_prefix is i)
      in join [nl] (map (\<lambda>l. if starts_with margin l then drop (length margin) l else l) lines))"

definition code_fingerprint :: "platform \<Rightarrow> func \<Rightarrow> exn + string option" where
  "code_fingerprint P fn =
     (case fn_source fn of
        Inl x \<Rightarrow> if x = OSError \<or> x = TypeError then Inr None else Inl x
      | Inr src \<Rightarrow>
          if utf8_ok (dedent src) then Inr (Some (sha256_hex P (dedent src))) else Inl UnicodeEncodeError)"

section \<open>The contract\<close>

record contract =
  c_schema_version :: string
  c_action_name :: string
  c_module :: string
  c_qualified_name :: string
  c_risk :: string
  c_approval_mode :: string
  c_execution_mode :: string
  c_descriptors :: "descriptor list"
  c_code_fingerprint :: "string option"
  c_hash :: string

definition action_id :: "contract \<Rightarrow> string" where
  "action_id c = c_module c @ ''.'' @ c_qualified_name c"

definition opt_json :: "string option \<Rightarrow> json" where
  "opt_json s = (case s of None \<Rightarrow> JNull | Some t \<Rightarrow> JStr t)"

definition descriptor_json :: "descriptor \<Rightarrow> json" where
  "descriptor_json d =
     JObj [(''name'', JStr (pd_name d)), (''kind'', JStr (pd_kind d)),
           (''has_default'', JBool (pd_has_default d)), (''annotation'', opt_json (pd_annotation d))]"

text \<open>Every field but the hash.\<close>

definition contract_members :: "contract \<Rightarrow> (string \<times> json) list" where
  "contract_members c =
     [(''schema_version'', JStr (c_schema_version c)),
      (''action_name'', JStr (c_action_name c)),
      (''module'', JStr (c_module c)),
      (''qualified_name'', JStr (c_qualified_name c)),
      (''risk'', JStr (c_risk c)),
      (''approval_mode'', JStr (c_approval_mode c)),
      (''execution_mode'', JStr (c_execution_mode c)),
      (''parameter_descriptors'', JArr (map descriptor_json (c_descriptors c))),
      (''code_fingerprint'', opt_json (c_code_fingerprint c))]"

definition or_else :: "string option \<Rightarrow> string \<Rightarrow> string" where
  "or_else s t = (case s of Some u \<Rightarrow> if u \<noteq> [] then u else t | None \<Rightarrow> t)"

text \<open>
  \<open>_build_contract_unchecked\<close>. \<open>action\<close> is None when no name is given; the inner option is None
  for a name that is not a string.
\<close>

definition build_contract_unchecked ::
  "platform \<Rightarrow> func \<Rightarrow> string option option \<Rightarrow> string \<Rightarrow> string \<Rightarrow> exn + contract" where
  "build_contract_unchecked P fn action risk approval =
     (if risk \<notin> set RISK_LEVELS then Inl ContractError
      else if approval \<notin> set APPROVAL_MODES then Inl ContractError
      else
        (let md = or_else (fn_module fn) ''unknown'';
             qn = or_else (fn_qualname fn) (case fn_name fn of Some n \<Rightarrow> n | None \<Rightarrow> ''unknown'')
         in bindR (case action of Some a \<Rightarrow> validate_action_name a | None \<Rightarrow> Inr (md @ ''.'' @ qn)) (\<lambda>name.
              bindR (parameter_descriptors fn) (\<lambda>ds.
              bindR (code_fingerprint P fn) (\<lambda>fp.
                let c = \<lparr>c_schema_version = CONTRACT_SCHEMA_VERSION, c_action_name = name, c_module = md,
                         c_qualified_name = qn, c_risk = risk, c_approval_mode = approval,
                         c_execution_mode = EXECUTION_MODE_EMBEDDED, c_descriptors = ds,
                         c_code_fingerprint = fp, c_hash = []\<rparr>
                in bindR (canonical_json_bytes P (JObj (contract_members c))) (\<lambda>b.
                     Inr (c\<lparr>c_hash := sha256_hex P b\<rparr>)))))))"

definition build_contract ::
  "platform \<Rightarrow> func \<Rightarrow> string option option \<Rightarrow> string \<Rightarrow> string \<Rightarrow> exn + contract" where
  "build_contract P fn action risk approval =
     (if fn_generator fn then Inl UnsupportedFunctionError
      else build_contract_unchecked P fn action risk approval)"

section \<open>The hash commits to the contract\<close>

lemma contract_members_hash [simp]: "contract_members (c\<lparr>c_hash := h\<rparr>) = contract_members c"
  by (simp add: contract_members_def)

lemma build_contract_shape:
  assumes "build_contract_unchecked P fn action risk approval = Inr c"
  shows "\<exists>b. canonical_json_bytes P (JObj (contract_members c)) = Inr b \<and> c_hash c = sha256_hex P b"
    and "c_risk c \<in> set RISK_LEVELS" and "c_approval_mode c \<in> set APPROVAL_MODES"
    and "c_action_name c = c_module c @ ''.'' @ c_qualified_name c \<or> action_name_matches (c_action_name c)"
  using assms
  by (auto simp: build_contract_unchecked_def Let_def bindR_Inr_iff validate_action_name_def contract_members_def
      split: if_splits option.splits)

lemma opt_json_inj [simp]: "opt_json s = opt_json t \<longleftrightarrow> s = t"
  by (auto simp: opt_json_def split: option.splits)

lemma jsort_opt_json [simp]: "jsort (opt_json s) = opt_json s"
  by (auto simp: opt_json_def split: option.splits)

text \<open>Sorted objects are equal only if every member is.\<close>

lemma jsort_members_eq:
  "jsort (JObj d) = jsort (JObj d') \<Longrightarrow> jsort (jget d k) = jsort (jget d' k)"
  by (metis jget_sort_members jsort_JObj json.inject(6))

lemma descriptor_inj: "jsort (descriptor_json d) = jsort (descriptor_json d') \<Longrightarrow> d = d'"
  unfolding descriptor_json_def
  by (rule descriptor.equality)
    (auto simp: jget_def dest: jsort_members_eq [of _ _ "''name''"] jsort_members_eq [of _ _ "''kind''"]
      jsort_members_eq [of _ _ "''has_default''"] jsort_members_eq [of _ _ "''annotation''"] simp del: jsort.simps(2))

text \<open>
  A contract hash commits to the whole contract: two contracts with the same hash agree in
  every field, names, risk, approval mode, parameters and source fingerprint, unless the hash
  function collides on their canonical forms. The mode and the risk are always declared ones.
\<close>

theorem contract_hash_commits:
  assumes "build_contract P fn action risk approval = Inr c"
    and "build_contract P fn' action' risk' approval' = Inr c'"
    and "c_hash c = c_hash c'"
    and "json_wf P (JObj (contract_members c))" and "json_wf P (JObj (contract_members c'))"
    and "inj_on (sha256 P) {json_text P (JObj (contract_members c)), json_text P (JObj (contract_members c'))}"
  shows "c = c' \<and> c_risk c \<in> set RISK_LEVELS \<and> c_approval_mode c \<in> set APPROVAL_MODES"
proof -
  from assms(1,2) have u: "build_contract_unchecked P fn action risk approval = Inr c"
    "build_contract_unchecked P fn' action' risk' approval' = Inr c'"
    by (auto simp: build_contract_def split: if_splits)
  let ?j = "JObj (contract_members c)" and ?j' = "JObj (contract_members c')"
  from build_contract_shape(1) [OF u(1)] build_contract_shape(1) [OF u(2)] assms(3)
  have "sha256_hex P (json_text P ?j) = sha256_hex P (json_text P ?j')"
    by (auto simp: canonical_json_bytes_def split: if_splits)
  then have "json_text P ?j = json_text P ?j'"
    using assms(6) by (auto simp: sha256_hex_def dest!: to_hex_inj dest: inj_onD)
  then have "jsort ?j = jsort ?j'" using json_text_inj assms(4,5) by blast
  from jsort_members_eq [OF this] have
    "jsort (jget (contract_members c) k) = jsort (jget (contract_members c') k)" for k .
  from this [of "''schema_version''"] this [of "''action_name''"] this [of "''module''"]
    this [of "''qualified_name''"] this [of "''risk''"] this [of "''approval_mode''"]
    this [of "''execution_mode''"] this [of "''parameter_descriptors''"] this [of "''code_fingerprint''"]
  have "c_schema_version c = c_schema_version c'" "c_action_name c = c_action_name c'"
    "c_module c = c_module c'" "c_qualified_name c = c_qualified_name c'" "c_risk c = c_risk c'"
    "c_approval_mode c = c_approval_mode c'" "c_execution_mode c = c_execution_mode c'"
    "map jsort (map descriptor_json (c_descriptors c)) = map jsort (map descriptor_json (c_descriptors c'))"
    "c_code_fingerprint c = c_code_fingerprint c'"
    by (simp_all add: contract_members_def jget_def)
  moreover have "inj (\<lambda>d. jsort (descriptor_json d))" using descriptor_inj by (auto intro: injI)
  ultimately have "c = c'"
    using assms(3) by (intro contract.equality) (auto simp: comp_def dest: map_injective)
  then show ?thesis using build_contract_shape(2,3) [OF u(1)] by simp
qed

definition demo_func :: func where
  "demo_func = \<lparr>fn_module = Some ''m'', fn_qualname = Some ''f'', fn_name = Some ''f'',
     fn_signature = Inr [], fn_source = Inl OSError, fn_generator = False\<rparr>"

lemma contract_hash_commits_witness:
  "\<exists>c. build_contract toy_platform demo_func None ''high'' ''required'' = Inr c \<and> c_risk c \<in> set RISK_LEVELS"
proof -
  have "case build_contract toy_platform demo_func None ''high'' ''required'' of
      Inr c \<Rightarrow> json_wf toy_platform (JObj (contract_members c)) | Inl x \<Rightarrow> False" by code_simp
  then obtain c where c: "build_contract toy_platform demo_func None ''high'' ''required'' = Inr c"
    and wf: "json_wf toy_platform (JObj (contract_members c))"
    by (cases "build_contract toy_platform demo_func None ''high'' ''required''") simp_all
  from contract_hash_commits [OF c c refl wf wf] c show ?thesis by simp
qed

text \<open>
  Validation accepts only stable logical names, except that a newline at the end passes: the
  pattern's final anchor also matches before it.
\<close>

lemma action_names_accepted:
  "validate_action_name (Some s) = Inr t \<longleftrightarrow> t = s \<and> (plain_name s \<or> (\<exists>u. s = u @ [nl] \<and> plain_name u))"
  by (auto simp: validate_action_name_def action_name_matches_def) (metis append_butlast_last_id)

end
