(* ===== verification/Approval.thy ===== *)
theory Approval
  imports Contracts
begin

text \<open>
  Approval (\<open>approval.py\<close>): requests, decisions, the provider protocol and the two built-in
  providers. A provider is a function of the request and of its own state; it returns a decision
  or raises, together with the state it leaves behind.
\<close>

definition DECISION_ALLOWED :: string where "DECISION_ALLOWED = ''allowed''"
definition DECISION_DENIED :: string where "DECISION_DENIED = ''denied''"

record request =
  rq_action_name :: string
  rq_risk :: string
  rq_approval_mode :: string
  rq_summary :: string
  rq_input_hash :: string
  rq_contract_hash :: string
  rq_spend_cents :: "int option"

record verdict =
  vd_decision :: string
  vd_reason :: string
  vd_approved_by :: "string option"

definition vd_allowed :: "verdict \<Rightarrow> bool" where
  "vd_allowed v \<longleftrightarrow> vd_decision v = DECISION_ALLOWED"

definition allow :: "string \<Rightarrow> verdict" where
  "allow reason = \<lparr>vd_decision = DECISION_ALLOWED, vd_reason = reason, vd_approved_by = None\<rparr>"

definition deny :: "string \<Rightarrow> verdict" where
  "deny reason = \<lparr>vd_decision = DECISION_DENIED, vd_reason = reason, vd_approved_by = None\<rparr>"

lemma allow_deny [simp]:
  "vd_allowed (allow r)" "\<not> vd_allowed (deny r)" "allow r \<noteq> deny r'" "deny r' \<noteq> allow r"
  "vd_decision (allow r) = DECISION_ALLOWED" "vd_decision (deny r) = DECISION_DENIED"
  by (auto simp: vd_allowed_def allow_def deny_def DECISION_ALLOWED_def DECISION_DENIED_def)

type_synonym 's provider = "request \<Rightarrow> 's \<Rightarrow> (exn + verdict) \<times> 's"

text \<open>Whether a result is an allowance.\<close>

definition granted :: "exn + verdict \<Rightarrow> bool" where
  "granted r = (case r of Inl _ \<Rightarrow> False | Inr v \<Rightarrow> vd_allowed v)"

lemma granted_simps [simp]: "\<not> granted (Inl e)" "granted (Inr v) = vd_allowed v"
  by (simp_all add: granted_def)

section \<open>The terminal\<close>

text \<open>
  \<open>str.lower\<close> on what can become \<open>y\<close> or \<open>yes\<close>: no character outside ASCII has a lower case in
  these letters.
\<close>

definition ascii_lower :: "string \<Rightarrow> string" where
  "ascii_lower s = map (\<lambda>c. if 65 \<le> code c \<and> code c \<le> 90 then char_of (code c + 32) else c) s"

text \<open>
  \<open>TerminalApprovalProvider\<close>: whether the input is a terminal, and the line it gives (empty at the
  end of the input). The state is the text written so far.
\<close>

definition approval_prompt :: "request \<Rightarrow> string" where
  "approval_prompt r =
     [nl] @ ''tesera: approval required'' @ [nl]
     @ ''  action: '' @ rq_action_name r @ [nl]
     @ ''  risk:   '' @ rq_risk r @ [nl]
     @ ''  input:  '' @ (if rq_summary r = [] then ''(no arguments)'' else rq_summary r) @ [nl]
     @ ''Approve execution of '' @ rq_action_name r @ ''? [y/N] ''"

definition terminal_decide :: "bool \<Rightarrow> string \<Rightarrow> string provider" where
  "terminal_decide tty line r out =
     (if \<not> tty then (Inl ApprovalUnavailableError, out)
      else
        (Inr (if line = [] then deny ''no response (EOF); default deny''
              else if ascii_lower (py_strip line) \<in> {''y'', ''yes''}
                then allow ''approved interactively at terminal''
              else deny ''not explicitly approved; default deny''),
         out @ approval_prompt r))"

definition auto_allow_decide :: "'s provider" where
  "auto_allow_decide r s = (Inr (allow ''approval_mode=never; allowed without interactive approval''), s)"

end
