(* ===== verification/Quota.thy ===== *)
theory Quota
  imports Approval
begin

text \<open>
  The contract of a quota: a provider that charges each allowance to a bucket and never lets a
  bucket grow beyond its cap. The guarantees for a whole run of requests are proved from the
  contract alone; the in-memory and the file-backed budgets provide it.
\<close>

section \<open>Runs\<close>

text \<open>The answers to a sequence of requests; an input is a request with what the environment adds.\<close>

fun run_all :: "('i \<Rightarrow> 's \<Rightarrow> (exn + verdict) \<times> 's) \<Rightarrow> 'i list \<Rightarrow> 's \<Rightarrow> (exn + verdict) list \<times> 's" where
  "run_all decide [] s = ([], s)"
| "run_all decide (i # js) s =
     (let (res, s') = decide i s; (rest, s'') = run_all decide js s' in (res # rest, s''))"

text \<open>What the allowances of a run charged to a bucket.\<close>

fun spent :: "('i \<Rightarrow> string) \<Rightarrow> ('i \<Rightarrow> int) \<Rightarrow> string \<Rightarrow> 'i list \<Rightarrow> (exn + verdict) list \<Rightarrow> int" where
  "spent bucket cost b (i # js) (r # rs) =
     (if granted r \<and> bucket i = b then cost i else 0) + spent bucket cost b js rs"
| "spent bucket cost b _ _ = 0"

definition granted_calls :: "('i \<Rightarrow> bool) \<Rightarrow> 'i list \<Rightarrow> (exn + verdict) list \<Rightarrow> nat" where
  "granted_calls sel js rs = length (filter (\<lambda>(i, r). sel i \<and> granted r) (zip js rs))"

lemma spent_calls: "spent bucket (\<lambda>_. 1) b js rs = int (granted_calls (\<lambda>i. bucket i = b) js rs)"
  by (induction js rs rule: list_induct2') (auto simp: granted_calls_def)

lemma spent_sum:
  "spent bucket cost b js rs =
     (\<Sum>(i, r) \<leftarrow> filter (\<lambda>(i, r). bucket i = b \<and> granted r) (zip js rs). cost i)"
  by (induction js rs rule: list_induct2') auto

text \<open>A step-wise relation between two providers carries over to runs.\<close>

lemma run_all_simulation:
  assumes "\<And>i s t. i \<in> set js \<Longrightarrow> R s t \<Longrightarrow>
      fst (decide i s) = fst (decide' i t) \<and> R (snd (decide i s)) (snd (decide' i t))"
    and "R s t"
  shows "fst (run_all decide js s) = fst (run_all decide' js t)
    \<and> R (snd (run_all decide js s)) (snd (run_all decide' js t))"
  using assms
proof (induction js arbitrary: s t)
  case (Cons i js)
  from Cons.prems have step: "fst (decide i s) = fst (decide' i t)" "R (snd (decide i s)) (snd (decide' i t))"
    by auto
  from Cons.IH [OF Cons.prems(1) step(2)] step(1) show ?case
    by (auto simp: Let_def split: prod.splits)
qed simp

section \<open>The contract\<close>

locale quota =
  fixes decide :: "'i \<Rightarrow> 's \<Rightarrow> (exn + verdict) \<times> 's"
    and ok :: "'i \<Rightarrow> bool"
    and inv :: "'s \<Rightarrow> bool"
    and used :: "string \<Rightarrow> 's \<Rightarrow> int"
    and bucket :: "'i \<Rightarrow> string"
    and cost :: "'i \<Rightarrow> int"
    and cap :: int
  assumes keeps_inv: "ok i \<Longrightarrow> inv s \<Longrightarrow> inv (snd (decide i s))"
    and charges: "ok i \<Longrightarrow> inv s \<Longrightarrow>
      used b (snd (decide i s)) = used b s + (if granted (fst (decide i s)) \<and> bucket i = b then cost i else 0)"
    and under_cap: "ok i \<Longrightarrow> inv s \<Longrightarrow> granted (fst (decide i s)) \<Longrightarrow> used (bucket i) s + cost i \<le> cap"
begin

lemma run_charges:
  "list_all ok js \<Longrightarrow> inv s \<Longrightarrow> run_all decide js s = (rs, s') \<Longrightarrow>
   inv s' \<and> used b s' = used b s + spent bucket cost b js rs"
proof (induction js arbitrary: s rs)
  case (Cons i js)
  obtain res s1 where d: "decide i s = (res, s1)" by (cases "decide i s")
  from Cons.prems(3) d obtain rs' where r: "run_all decide js s1 = (rs', s')" "rs = res # rs'"
    by (auto simp: Let_def split: prod.splits)
  from Cons.prems keeps_inv [of i s] charges [of i s b] d
  have "inv s1" "used b s1 = used b s + (if granted res \<and> bucket i = b then cost i else 0)"
    by simp_all
  moreover from Cons.IH [OF _ \<open>inv s1\<close> r(1)] Cons.prems(1)
  have "inv s' \<and> used b s' = used b s1 + spent bucket cost b js rs'" by simp
  ultimately show ?case by (simp add: r(2))
qed simp

lemma run_bounded:
  "list_all ok js \<Longrightarrow> inv s \<Longrightarrow> run_all decide js s = (rs, s') \<Longrightarrow> used b s \<le> cap \<Longrightarrow>
   used b s + spent bucket cost b js rs \<le> cap"
proof (induction js arbitrary: s rs)
  case (Cons i js)
  obtain res s1 where d: "decide i s = (res, s1)" by (cases "decide i s")
  from Cons.prems(3) d obtain rs' where r: "run_all decide js s1 = (rs', s')" "rs = res # rs'"
    by (auto simp: Let_def split: prod.splits)
  note step = keeps_inv [of i s] charges [of i s b] under_cap [of i s]
  from Cons.prems step d have inv: "inv s1" by simp
  from Cons.prems step d
  have s1: "used b s1 = used b s + (if granted res \<and> bucket i = b then cost i else 0)" by simp
  from Cons.prems step d s1 have "used b s1 \<le> cap" by (auto split: if_splits)
  from Cons.IH [OF _ inv r(1) this] Cons.prems(1)
  have "used b s1 + spent bucket cost b js rs' \<le> cap" by simp
  with s1 show ?case by (simp add: r(2))
qed simp

end

text \<open>A quota that refuses only what does not fit.\<close>

locale exact_quota = quota +
  assumes grants: "ok i \<Longrightarrow> inv s \<Longrightarrow> used (bucket i) s + cost i \<le> cap \<Longrightarrow> granted (fst (decide i s))"
begin

lemma granted_iff:
  "ok i \<Longrightarrow> inv s \<Longrightarrow> granted (fst (decide i s)) \<longleftrightarrow> used (bucket i) s + cost i \<le> cap"
  using under_cap grants by blast

text \<open>A request that fits what is left is granted whatever came before.\<close>

lemma run_grants:
  assumes "list_all ok (js @ [i])" and "inv s" and "run_all decide js s = (rs, s')"
  shows "granted (fst (decide i s')) \<longleftrightarrow> used (bucket i) s + spent bucket cost (bucket i) js rs + cost i \<le> cap"
  using run_charges [of js s rs s' "bucket i"] granted_iff [of i s'] assms by auto

end

end
