(* ===== verification/Glob.thy ===== *)
theory Glob
  imports Codec
begin

text \<open>
  Shell patterns as \<open>fnmatch.fnmatchcase\<close> of the standard library matches them, on lists of
  code points: \<open>*\<close>, \<open>?\<close> and bracketed sets with ranges and negation. An unclosed bracket is a
  literal.
\<close>

datatype glob_item =
    GLit nat
  | GAny
  | GStar
  | GSet bool "(nat \<times> nat) list" \<comment> \<open>negated; the ranges\<close>

section \<open>Bracketed sets\<close>

text \<open>Where the set ends: a \<open>]\<close> right after the opening (and the \<open>!\<close>) is part of it.\<close>

definition set_body :: "nat list \<Rightarrow> (nat list \<times> nat list) option" where
  "set_body s =
     (let a = (case s of c # cs \<Rightarrow> if c = 33 then [c] else [] | [] \<Rightarrow> []);
          s1 = drop (length a) s;
          b = (case s1 of c # cs \<Rightarrow> if c = 93 then [c] else [] | [] \<Rightarrow> []);
          s2 = drop (length b) s1
      in if 93 \<in> set s2 then Some (a @ b @ takeWhile (\<lambda>c. c \<noteq> 93) s2, tl (dropWhile (\<lambda>c. c \<noteq> 93) s2))
         else None)"

text \<open>
  The body is cut at the hyphens that can form a range: the first search starts after the first
  character (after the \<open>!\<close>), each further one two characters after the last hyphen.
\<close>

fun cut_at :: "nat \<Rightarrow> nat list \<Rightarrow> nat list \<Rightarrow> nat list list" where
  "cut_at k acc [] = [acc]"
| "cut_at k acc (c # cs) =
     (if k = 0 \<and> c = 45 then acc # cut_at 2 [] cs else cut_at (k - 1) (acc @ [c]) cs)"

definition set_chunks :: "nat list \<Rightarrow> nat list list" where
  "set_chunks body =
     (let cs = cut_at (if take 1 body = [33] then 2 else 1) [] body in
      if 1 < length cs \<and> last cs = [] then butlast (butlast cs) @ [last (butlast cs) @ [45]] else cs)"

text \<open>Empty ranges are removed from the right.\<close>

fun merge_chunks :: "nat list list \<Rightarrow> nat list list" where
  "merge_chunks (a # cs) =
     (case merge_chunks cs of
        [] \<Rightarrow> [a]
      | b # ds \<Rightarrow> (if a \<noteq> [] \<and> b \<noteq> [] \<and> last a > hd b then (butlast a @ tl b) # ds else a # b # ds))"
| "merge_chunks [] = []"

fun chunk_ranges :: "nat list list \<Rightarrow> (nat \<times> nat) list" where
  "chunk_ranges [] = []"
| "chunk_ranges [a] = map (\<lambda>c. (c, c)) a"
| "chunk_ranges (a # b # cs) =
     map (\<lambda>c. (c, c)) (butlast a) @ (if a \<noteq> [] \<and> b \<noteq> [] then [(last a, hd b)] else [])
     @ chunk_ranges (tl b # cs)"

definition set_item :: "nat list \<Rightarrow> glob_item" where
  "set_item body =
     (let cs = merge_chunks (set_chunks body) in
      case cs of
        (c # a) # ds \<Rightarrow> (if c = 33 then GSet True (chunk_ranges (a # ds)) else GSet False (chunk_ranges cs))
      | _ \<Rightarrow> GSet False (chunk_ranges cs))"

section \<open>Patterns\<close>

lemma set_body_length: "set_body s = Some (b, r) \<Longrightarrow> length r < length s"
proof -
  assume "set_body s = Some (b, r)"
  then obtain n m where r: "r = tl (dropWhile (\<lambda>c. c \<noteq> 93) (drop n (drop m s)))"
    and mem: "93 \<in> set (drop n (drop m s))"
    by (auto simp: set_body_def Let_def split: if_splits)
  then have "s \<noteq> []" by auto
  moreover have "dropWhile (\<lambda>c. c \<noteq> 93) (drop n (drop m s)) \<noteq> []" using mem by (auto simp: dropWhile_eq_Nil_conv)
  moreover have "length (dropWhile (\<lambda>c. c \<noteq> 93) (drop n (drop m s))) \<le> length s"
    by (rule order_trans [OF length_dropWhile_le]) simp
  ultimately show ?thesis using r by (cases "dropWhile (\<lambda>c. c \<noteq> 93) (drop n (drop m s))") auto
qed

function parse_glob :: "nat list \<Rightarrow> glob_item list" where
  "parse_glob [] = []"
| "parse_glob (c # cs) =
     (if c = 42 then GStar # parse_glob cs
      else if c = 63 then GAny # parse_glob cs
      else if c = 91 then
        (case set_body cs of
           None \<Rightarrow> GLit c # parse_glob cs
         | Some (b, r) \<Rightarrow> set_item b # parse_glob r)
      else GLit c # parse_glob cs)"
  by pat_completeness auto
termination
  by (relation "measure length") (auto dest: set_body_length)

fun item_matches :: "glob_item \<Rightarrow> nat \<Rightarrow> bool" where
  "item_matches (GLit d) c = (c = d)"
| "item_matches GAny c = True"
| "item_matches GStar c = False"
| "item_matches (GSet neg rs) c = ((\<exists>(a, b) \<in> set rs. a \<le> c \<and> c \<le> b) \<noteq> neg)"

fun glob_match :: "glob_item list \<Rightarrow> nat list \<Rightarrow> bool" where
  "glob_match [] s = (s = [])"
| "glob_match (GStar # ps) [] = glob_match ps []"
| "glob_match (GStar # ps) (c # cs) = (glob_match ps (c # cs) \<or> glob_match (GStar # ps) cs)"
| "glob_match (p # ps) s = (case s of [] \<Rightarrow> False | c # cs \<Rightarrow> item_matches p c \<and> glob_match ps cs)"

definition fnmatchcase :: "string \<Rightarrow> string \<Rightarrow> bool" where
  "fnmatchcase name pat \<longleftrightarrow> glob_match (parse_glob (cps pat)) (cps name)"

section \<open>What a pattern accepts\<close>

text \<open>The words of a pattern, without a search.\<close>

fun glob_word :: "glob_item list \<Rightarrow> nat list \<Rightarrow> bool" where
  "glob_word [] s = (s = [])"
| "glob_word (GStar # ps) s = (\<exists>u v. s = u @ v \<and> glob_word ps v)"
| "glob_word (p # ps) s = (\<exists>c v. s = c # v \<and> item_matches p c \<and> glob_word ps v)"

lemma glob_match_star: "glob_match (GStar # ps) s \<longleftrightarrow> (\<exists>u v. s = u @ v \<and> glob_match ps v)"
proof (induction s)
  case (Cons c cs)
  then show ?case by (auto simp: Cons_eq_append_conv)
qed simp

lemma glob_match_word: "glob_match ps s = glob_word ps s"
proof (induction ps arbitrary: s)
  case (Cons p ps)
  then show ?case
    by (cases p) (auto simp: glob_match_star simp del: glob_match.simps(2,3) split: list.splits)
qed auto

end
