(* ===== verification/Policy.thy ===== *)
theory Policy
  imports Quota Glob
begin

text \<open>
  The policy providers of \<open>policy.py\<close> that keep their state in memory, and the combinators:
  predicates and allow-lists, budgets, rate limits, spending budgets, caching, timeouts,
  conjunction, disjunction, quorum, rules and attestation. A clock reading is an argument. The
  locale \<open>quota\<close> states what every budget promises; the client lemma on whole runs is proved in
  it once.
\<close>

section \<open>Predicates and allow-lists\<close>

definition predicate_decide :: "(request \<Rightarrow> exn + bool) \<Rightarrow> string \<Rightarrow> 's provider" where
  "predicate_decide predicate deny_reason r s =
     (case predicate r of
        Inl e \<Rightarrow>
          (if is_exception e then (Inr (deny ''policy predicate errored; failing closed''), s) else (Inl e, s))
      | Inr b \<Rightarrow> (Inr (if b then allow ''allowed by policy predicate'' else deny deny_reason), s))"

definition allow_list_decide :: "string list \<Rightarrow> string list option \<Rightarrow> 's provider" where
  "allow_list_decide actions risks =
     predicate_decide
       (\<lambda>r. Inr (rq_action_name r \<in> set actions
                 \<and> (case risks of None \<Rightarrow> True | Some rs \<Rightarrow> rq_risk r \<in> set rs)))
       ''action not in allow-list''"

section \<open>Budgets\<close>

record budget =
  bg_total :: int
  bg_per_action :: "(string, int) dict"

definition ratio_text :: "int \<Rightarrow> int \<Rightarrow> string" where
  "ratio_text used cap = ''('' @ dec_int used @ ''/'' @ dec_int cap @ '')''"

definition new_budget :: "int \<Rightarrow> exn + budget" where
  "new_budget max_calls =
     (if max_calls < 0 then Inl ValueError else Inr \<lparr>bg_total = 0, bg_per_action = []\<rparr>)"

definition budget_decide :: "platform \<Rightarrow> int \<Rightarrow> bool \<Rightarrow> budget provider" where
  "budget_decide P max_calls per_action r s =
     (if per_action then
        (let used = dget_default (bg_per_action s) (rq_action_name r) 0 in
         if max_calls \<le> used
         then (Inr (deny (''budget exhausted for '' @ repr_text P (rq_action_name r) @ '' '' @ ratio_text used max_calls)), s)
         else (Inr (allow (''within budget '' @ ratio_text (used + 1) max_calls)),
               s\<lparr>bg_per_action := dset (rq_action_name r) (used + 1) (bg_per_action s)\<rparr>))
      else if max_calls \<le> bg_total s
        then (Inr (deny (''budget exhausted '' @ ratio_text (bg_total s) max_calls)), s)
      else (Inr (allow (''within budget '' @ ratio_text (bg_total s + 1) max_calls)),
            s\<lparr>bg_total := bg_total s + 1\<rparr>))"

definition budget_remaining :: "int \<Rightarrow> budget \<Rightarrow> int" where
  "budget_remaining max_calls s = max 0 (max_calls - bg_total s)"

text \<open>\<open>SpendingBudgetProvider\<close> keeps the same state, in cents.\<close>

definition spending_decide :: "platform \<Rightarrow> int \<Rightarrow> bool \<Rightarrow> budget provider" where
  "spending_decide P max_cents per_action r s =
     (case rq_spend_cents r of
        None \<Rightarrow> (Inr (deny ''no spend declared; spending budget cannot account it''), s)
      | Some spend \<Rightarrow>
          (let over = (\<lambda>used. ''('' @ dec_int used @ ''+'' @ dec_int spend @ ''>'' @ dec_int max_cents @ ''c)'');
               ok_text = (\<lambda>used. ''within spending budget ('' @ dec_int used @ ''/'' @ dec_int max_cents @ ''c)'')
           in if per_action then
                (let used = dget_default (bg_per_action s) (rq_action_name r) 0 in
                 if max_cents < used + spend
                 then (Inr (deny (''spending budget exhausted for '' @ repr_text P (rq_action_name r) @ '' '' @ over used)), s)
                 else (Inr (allow (ok_text (used + spend))),
                       s\<lparr>bg_per_action := dset (rq_action_name r) (used + spend) (bg_per_action s)\<rparr>))
              else if max_cents < bg_total s + spend
                then (Inr (deny (''spending budget exhausted '' @ over (bg_total s))), s)
              else (Inr (allow (ok_text (bg_total s + spend))), s\<lparr>bg_total := bg_total s + spend\<rparr>)))"

section \<open>Rate limits\<close>

text \<open>The state is the deque of the times of the allowed calls, oldest first.\<close>

definition new_rate_limit :: "int \<Rightarrow> rat \<Rightarrow> exn + rat list" where
  "new_rate_limit max_calls window =
     (if max_calls \<le> 0 then Inl ValueError else if window \<le> 0 then Inl ValueError else Inr [])"

definition rate_cutoff :: "platform \<Rightarrow> rat \<Rightarrow> rat \<Rightarrow> rat" where
  "rate_cutoff P window now = float_round P (now - window)"

definition rate_exceeded :: "platform \<Rightarrow> int \<Rightarrow> rat \<Rightarrow> verdict" where
  "rate_exceeded P max_calls window =
     deny (''rate limit exceeded ('' @ dec_int max_calls @ '' per '' @ format_g P window @ ''s)'')"

definition rate_limit_decide :: "platform \<Rightarrow> int \<Rightarrow> rat \<Rightarrow> rat \<Rightarrow> rat list provider" where
  "rate_limit_decide P max_calls window now r attempts =
     (let kept = dropWhile (\<lambda>t. t \<le> rate_cutoff P window now) attempts in
      if max_calls \<le> int (length kept) then (Inr (rate_exceeded P max_calls window), kept)
      else (Inr (allow ''within rate limit''), kept @ [now]))"

section \<open>Caching\<close>

type_synonym cache_key = "string \<times> string \<times> string \<times> string \<times> int option"
type_synonym approval_cache = "(cache_key, rat) dict"

definition cache_key :: "request \<Rightarrow> cache_key" where
  "cache_key r =
     (rq_contract_hash r, rq_input_hash r, rq_risk r, rq_approval_mode r, rq_spend_cents r)"

definition sweep :: "rat \<Rightarrow> approval_cache \<Rightarrow> approval_cache" where
  "sweep now cache = filter (\<lambda>(k, e). \<not> e \<le> now) cache"

text \<open>Popping the oldest entry as long as the cache has at least (more than) so many.\<close>

definition shrink :: "nat \<Rightarrow> approval_cache \<Rightarrow> approval_cache" where
  "shrink n cache = drop (length cache - n) cache"

text \<open>\<open>readings\<close> are the three readings of the clock: on entry, for the expiry, for the last sweep.\<close>

definition cached_decide ::
  "platform \<Rightarrow> 's provider \<Rightarrow> rat \<Rightarrow> nat \<Rightarrow> rat \<times> rat \<times> rat \<Rightarrow> ('s \<times> approval_cache) provider" where
  "cached_decide P inner ttl max_entries readings r st =
     (let (now, now1, now2) = readings; (s, cache) = st; key = cache_key r; hit = dget cache key in
      if \<exists>e. hit = Some e \<and> now < e
      then (Inr (allow ''allowed by cached approval''), s, cache)
      else
        (let cache = (if hit \<noteq> None then ddel key cache else cache);
             cache = (if max_entries \<le> length cache then sweep now cache else cache);
             cache = shrink (max_entries - 1) cache;
             (res, s') = inner r s
         in if granted res then
              (let cache = dset key (float_round P (now1 + ttl)) cache;
                   cache = (if max_entries < length cache then shrink max_entries (sweep now2 cache) else cache)
               in (res, s', cache))
            else (res, s', cache)))"

definition new_cached :: "rat \<Rightarrow> int \<Rightarrow> exn + approval_cache" where
  "new_cached ttl max_entries =
     (if ttl \<le> 0 then Inl ValueError else if max_entries \<le> 0 then Inl ValueError else Inr [])"

section \<open>Timeouts\<close>

text \<open>
  The inner decision runs on its own thread. Either it is there in time, or the call gives up and
  the inner decision keeps its slot until \<open>timeout_complete\<close>.
\<close>

definition timeout_decide ::
  "platform \<Rightarrow> 's provider \<Rightarrow> string \<Rightarrow> rat \<Rightarrow> nat \<Rightarrow> bool \<Rightarrow> ('s \<times> nat) provider" where
  "timeout_decide P inner inner_name timeout max_in_flight late r st =
     (let (s, busy) = st in
      if max_in_flight \<le> busy then
        (Inr (deny (''approval overloaded waiting on '' @ inner_name @ ''; failing closed (too many pending)'')), st)
      else if late then
        (Inr (deny (''approval timed out after '' @ format_g P timeout @ ''s waiting on '' @ inner_name
           @ ''; failing closed (the inner call may still complete with no effect)'')), s, Suc busy)
      else
        (let (res, s') = inner r s in
         (Inr (case res of
                 Inr v \<Rightarrow> v
               | Inl e \<Rightarrow>
                   (if is_exception e then deny (''approval provider errored under timeout: '' @ exn_repr P e)
                    else deny ''approval provider gave no decision'')),
          s', busy)))"

definition timeout_complete :: "'s provider \<Rightarrow> request \<Rightarrow> 's \<times> nat \<Rightarrow> 's \<times> nat" where
  "timeout_complete inner r st = (let (s, busy) = st in (snd (inner r s), busy - 1))"

section \<open>Conjunction, disjunction and quorum\<close>

text \<open>The providers act on one state, each on its own part of it.\<close>

definition reasons_text :: "string list \<Rightarrow> string" where
  "reasons_text reasons = ''['' @ join ''; '' reasons @ '']''"

fun all_decide :: "'s provider list \<Rightarrow> string list \<Rightarrow> 's provider" where
  "all_decide [] reasons r s = (Inr (allow (''allowed by all '' @ reasons_text reasons)), s)"
| "all_decide (p # ps) reasons r s =
     (case p r s of
        (Inl e, s') \<Rightarrow> (Inl e, s')
      | (Inr v, s') \<Rightarrow>
          (let reasons = reasons @ [vd_reason v] in
           if \<not> vd_allowed v then (Inr (deny (''denied by policy '' @ reasons_text reasons)), s')
           else all_decide ps reasons r s'))"

fun any_decide :: "'s provider list \<Rightarrow> string list \<Rightarrow> 's provider" where
  "any_decide [] reasons r s = (Inr (deny (''denied by all '' @ reasons_text reasons)), s)"
| "any_decide (p # ps) reasons r s =
     (case p r s of
        (Inl e, s') \<Rightarrow> (Inl e, s')
      | (Inr v, s') \<Rightarrow>
          (let reasons = reasons @ [vd_reason v] in
           if vd_allowed v then (Inr (allow (''allowed by policy '' @ reasons_text reasons)), s')
           else any_decide ps reasons r s'))"

definition combined_decide :: "'s provider list \<Rightarrow> string \<Rightarrow> exn + 's provider" where
  "combined_decide ps mode =
     (if mode \<notin> {''all'', ''any''} then Inl ValueError
      else if ps = [] then Inl ValueError
      else Inr (if mode = ''all'' then all_decide ps [] else any_decide ps []))"

text \<open>The quorum's loop: everyone is consulted; an exception counts as a denial.\<close>

fun quorum_poll :: "platform \<Rightarrow> 's provider list \<Rightarrow> request \<Rightarrow> 's \<Rightarrow> (exn + nat \<times> string list) \<times> 's" where
  "quorum_poll P [] r s = (Inr (0, []), s)"
| "quorum_poll P (p # ps) r s =
     (case p r s of
        (Inl e, s') \<Rightarrow>
          (if is_exception e then
             (case quorum_poll P ps r s' of
                (Inr (n, reasons), s'') \<Rightarrow> (Inr (n, (''errored ('' @ exn_repr P e @ '')'') # reasons), s'')
              | (Inl x, s'') \<Rightarrow> (Inl x, s''))
           else (Inl e, s'))
      | (Inr v, s') \<Rightarrow>
          (case quorum_poll P ps r s' of
             (Inr (n, reasons), s'') \<Rightarrow> (Inr ((if vd_allowed v then Suc n else n), vd_reason v # reasons), s'')
           | (Inl x, s'') \<Rightarrow> (Inl x, s'')))"

definition quorum_decide :: "platform \<Rightarrow> 's provider list \<Rightarrow> nat \<Rightarrow> 's provider" where
  "quorum_decide P ps quorum r s =
     (case quorum_poll P ps r s of
        (Inl e, s') \<Rightarrow> (Inl e, s')
      | (Inr (n, reasons), s') \<Rightarrow>
          (let count = ''('' @ dec_nat n @ ''/'' @ dec_nat quorum @ '' of '' @ dec_nat (length ps) @ '')'' in
           (Inr (if quorum \<le> n then allow (''quorum reached '' @ count)
                 else deny (''quorum missed '' @ count @ '': '' @ join ''; '' reasons)), s')))"

definition new_quorum :: "'s provider list \<Rightarrow> int \<Rightarrow> exn + nat" where
  "new_quorum ps quorum =
     (if ps = [] then Inl ValueError
      else if \<not> (1 \<le> quorum \<and> quorum \<le> int (length ps)) then Inl ValueError
      else Inr (nat quorum))"

section \<open>Rules\<close>

record rule =
  ru_action :: string
  ru_decision :: string
  ru_risks :: "string list option"
  ru_reason :: string

definition rule_matches :: "rule \<Rightarrow> request \<Rightarrow> bool" where
  "rule_matches ru r \<longleftrightarrow>
     fnmatchcase (rq_action_name r) (ru_action ru)
     \<and> (case ru_risks ru of None \<Rightarrow> True | Some rs \<Rightarrow> rq_risk r \<in> set rs)"

record explanation =
  ex_decision :: string
  ex_reason :: string
  ex_index :: "nat option"
  ex_action :: "string option"
  ex_rules :: nat

fun explain_from :: "platform \<Rightarrow> nat \<Rightarrow> nat \<Rightarrow> string \<Rightarrow> rule list \<Rightarrow> request \<Rightarrow> explanation" where
  "explain_from P n index dflt [] r =
     \<lparr>ex_decision = (if dflt = DECISION_ALLOWED then DECISION_ALLOWED else DECISION_DENIED),
      ex_reason = (if dflt = DECISION_ALLOWED then ''allowed by policy default''
                   else ''no policy rule matched; default deny''),
      ex_index = None, ex_action = None, ex_rules = n\<rparr>"
| "explain_from P n index dflt (ru # rus) r =
     (if rule_matches ru r then
        \<lparr>ex_decision = ru_decision ru,
         ex_reason = (if ru_reason ru \<noteq> [] then ru_reason ru
                      else ''matched rule '' @ repr_text P (ru_action ru) @ '' -> '' @ ru_decision ru),
         ex_index = Some index, ex_action = Some (ru_action ru), ex_rules = n\<rparr>
      else explain_from P n (Suc index) dflt rus r)"

definition rules_explain :: "platform \<Rightarrow> rule list \<Rightarrow> string \<Rightarrow> request \<Rightarrow> explanation" where
  "rules_explain P rules dflt r = explain_from P (length rules) 0 dflt rules r"

definition rules_decide :: "platform \<Rightarrow> rule list \<Rightarrow> string \<Rightarrow> 's provider" where
  "rules_decide P rules dflt r s =
     (let e = rules_explain P rules dflt r in
      (Inr \<lparr>vd_decision = ex_decision e, vd_reason = ex_reason e, vd_approved_by = None\<rparr>, s))"

definition new_rules :: "rule list \<Rightarrow> string \<Rightarrow> exn + rule list \<times> string" where
  "new_rules rules dflt =
     (if dflt \<notin> {DECISION_ALLOWED, DECISION_DENIED} then Inl PolicyError
      else if list_all (\<lambda>ru. ru_decision ru \<in> {DECISION_ALLOWED, DECISION_DENIED}) rules
        then Inr (rules, dflt) else Inl PolicyError)"

section \<open>Attestation\<close>

text \<open>\<open>env\<close> is the value of the environment variable.\<close>

definition resolve_approver :: "string option \<Rightarrow> string option \<Rightarrow> string option" where
  "resolve_approver approved_by env =
     (case approved_by of
        Some a \<Rightarrow> Some a
      | None \<Rightarrow> (case env of Some v \<Rightarrow> if v \<noteq> [] then Some v else None | None \<Rightarrow> None))"

definition well_formed_approver :: "string \<Rightarrow> bool" where
  "well_formed_approver s \<longleftrightarrow>
     s \<noteq> [] \<and> py_len s \<le> 120 \<and> list_all (\<lambda>n. \<not> n < 32 \<and> n \<noteq> 127) (cps s)"

definition attested_decide :: "'s provider \<Rightarrow> string option \<Rightarrow> string option \<Rightarrow> 's provider" where
  "attested_decide inner approved_by env r s =
     (case inner r s of
        (Inl e, s') \<Rightarrow> (Inl e, s')
      | (Inr v, s') \<Rightarrow>
          (Inr (if \<not> vd_allowed v then v
                else case resolve_approver approved_by env of
                  None \<Rightarrow> deny ''no approver identity configured; failing closed''
                | Some identity \<Rightarrow>
                    (let stamped = join '' '' (py_split identity) in
                     if \<not> well_formed_approver stamped then deny ''approver identity is malformed; failing closed''
                     else \<lparr>vd_decision = vd_decision v, vd_reason = vd_reason v, vd_approved_by = Some stamped\<rparr>)),
           s'))"

section \<open>Budgets are quotas\<close>

text \<open>The bucket of a request, what a bucket has used, and the price of a request.\<close>

definition bucket_of :: "bool \<Rightarrow> request \<Rightarrow> string" where
  "bucket_of per_action r = (if per_action then rq_action_name r else [])"

definition bucket_used :: "bool \<Rightarrow> string \<Rightarrow> budget \<Rightarrow> int" where
  "bucket_used per_action b s =
     (if per_action then dget_default (bg_per_action s) b 0 else if b = [] then bg_total s else 0)"

definition spend_of :: "request \<Rightarrow> int" where
  "spend_of r = (case rq_spend_cents r of None \<Rightarrow> 0 | Some c \<Rightarrow> c)"

lemma dget_default_dset [simp]: "dget_default (dset k v d) k' w = (if k' = k then v else dget_default d k' w)"
  by (simp add: dget_default_def)

interpretation bq: exact_quota "budget_decide P m pa" "\<lambda>_. True" "\<lambda>_. True" "bucket_used pa" "bucket_of pa"
    "\<lambda>_. 1" m for P m pa
  by unfold_locales (auto simp: budget_decide_def bucket_used_def bucket_of_def Let_def split: if_splits)

interpretation sq: quota "spending_decide P m pa" "\<lambda>_. True" "\<lambda>_. True" "bucket_used pa" "bucket_of pa"
    spend_of m for P m pa
  by unfold_locales
    (auto simp: spending_decide_def bucket_used_def bucket_of_def spend_of_def Let_def split: option.splits if_splits)

lemma spending_granted:
  "granted (fst (spending_decide P m pa r s)) \<longleftrightarrow>
     rq_spend_cents r \<noteq> None \<and> bucket_used pa (bucket_of pa r) s + spend_of r \<le> m"
  by (auto simp: spending_decide_def bucket_used_def bucket_of_def spend_of_def Let_def split: option.splits)

lemma bucket_used_new: "bucket_used pa b \<lparr>bg_total = 0, bg_per_action = []\<rparr> = 0"
  by (simp add: bucket_used_def dget_default_def)

text \<open>
  C32: A budget is exact. For every sequence of requests to a fresh budget, the calls it allows
  (those of one action when it counts per action) never number more than the budget, and the
  next call is allowed precisely when fewer have been. A negative budget is refused at
  construction.
\<close>

theorem budget_exact:
  "case new_budget m of
     Inl x \<Rightarrow> m < 0
   | Inr s0 \<Rightarrow>
       (let (res, s) = run_all (budget_decide P m pa) rs s0;
            n = granted_calls (\<lambda>r'. bucket_of pa r' = bucket_of pa r) rs res
        in int n \<le> m \<and> (granted (fst (budget_decide P m pa r s)) \<longleftrightarrow> int n < m))"
proof (cases "m < 0")
  case False
  let ?s0 = "\<lparr>bg_total = 0, bg_per_action = []\<rparr>" and ?b = "bucket_of pa r"
  obtain res s where run: "run_all (budget_decide P m pa) rs ?s0 = (res, s)"
    by (cases "run_all (budget_decide P m pa) rs ?s0")
  have n: "spent (bucket_of pa) (\<lambda>_. 1) ?b rs res
      = int (granted_calls (\<lambda>r'. bucket_of pa r' = bucket_of pa r) rs res)"
    by (rule spent_calls)
  have "spent (bucket_of pa) (\<lambda>_. 1) ?b rs res \<le> m"
    using bq.run_bounded [OF _ _ run, of ?b] False by (simp add: bucket_used_new list_all_iff)
  moreover have "granted (fst (budget_decide P m pa r s)) \<longleftrightarrow> spent (bucket_of pa) (\<lambda>_. 1) ?b rs res < m"
    using bq.run_grants [OF _ _ run, of r] by (simp add: bucket_used_new list_all_iff add1_zle_eq)
  ultimately show ?thesis using False run n by (simp add: new_budget_def)
qed (simp add: new_budget_def)

text \<open>
  A spending budget never lets the declared spend of the allowed calls of a bucket exceed its
  cap, whatever the amounts; a call is allowed precisely when it declares its spend and the spend
  still fits, so an undeclared spend is always denied.
\<close>

theorem spending_exact:
  "case new_budget m of
     Inl x \<Rightarrow> m < 0
   | Inr s0 \<Rightarrow>
       (let (res, s) = run_all (spending_decide P m pa) rs s0;
            c = (\<Sum>(r', g) \<leftarrow> filter (\<lambda>(r', g). bucket_of pa r' = bucket_of pa r \<and> granted g)
                   (zip rs res). spend_of r')
        in c \<le> m \<and> (granted (fst (spending_decide P m pa r s)) \<longleftrightarrow>
              rq_spend_cents r \<noteq> None \<and> c + spend_of r \<le> m))"
proof (cases "m < 0")
  case False
  let ?s0 = "\<lparr>bg_total = 0, bg_per_action = []\<rparr>" and ?b = "bucket_of pa r"
  obtain res s where run: "run_all (spending_decide P m pa) rs ?s0 = (res, s)"
    by (cases "run_all (spending_decide P m pa) rs ?s0")
  have c: "spent (bucket_of pa) spend_of ?b rs res =
      (\<Sum>(r', g) \<leftarrow> filter (\<lambda>(r', g). bucket_of pa r' = bucket_of pa r \<and> granted g) (zip rs res). spend_of r')"
    by (rule spent_sum)
  have "spent (bucket_of pa) spend_of ?b rs res \<le> m"
    using sq.run_bounded [OF _ _ run, of ?b] False by (simp add: bucket_used_new list_all_iff)
  moreover have "bucket_used pa ?b s = spent (bucket_of pa) spend_of ?b rs res"
    using sq.run_charges [OF _ _ run, of ?b] by (simp add: bucket_used_new list_all_iff)
  ultimately show ?thesis using False run c by (simp add: new_budget_def spending_granted)
qed (simp add: new_budget_def)

end
