(* ===== verification/PolicyFiles.thy ===== *)
theory PolicyFiles
  imports Policy JsonAscii Verification
begin

text \<open>
  The policy providers of \<open>policy.py\<close> that keep their state in a file, the witness freshness gate
  and the policy file. A state file is its content, None when it does not exist; the file is
  replaced atomically under a lock, so a call either leaves it as it was or writes the new state.
  \<open>fault\<close> says which file operation fails. The refinement to the in-memory providers and the
  quota contract are proved here.
\<close>

section \<open>State files\<close>

datatype state_fault = NoStateFault | StateOpenFails | StateReadFails | StateWriteFails

definition read_json_state :: "platform \<Rightarrow> bytes option \<Rightarrow> exn + event option" where
  "read_json_state P file =
     (case file of
        None \<Rightarrow> Inr None
      | Some raw \<Rightarrow>
          if bstrip raw = [] then Inr None
          else (case json_loads P raw of Some (JObj d) \<Rightarrow> Inr (Some d) | _ \<Rightarrow> Inl PolicyError))"

definition write_state :: "platform \<Rightarrow> event \<Rightarrow> bytes" where
  "write_state P payload = json_text_ascii P (JObj payload) @ [nl]"

text \<open>
  The frame of every file-backed \<open>decide\<close>: the body is a function of the state read; it answers,
  and gives the state to write if there is one. \<open>PolicyError\<close> and \<open>OSError\<close> become denials.
\<close>

definition with_state ::
  "platform \<Rightarrow> string \<Rightarrow> state_fault \<Rightarrow> (event option \<Rightarrow> exn + verdict \<times> event option) \<Rightarrow> bytes option
     \<Rightarrow> (exn + verdict) \<times> bytes option" where
  "with_state P what fault body file =
     (let unavailable = Inr (deny (what @ '' state unavailable ('' @ exn_str P OSError @ ''); failing closed''))
      in case (if fault \<in> {StateOpenFails, StateReadFails} then Inl OSError
               else bindR (read_json_state P file) body) of
           Inl e \<Rightarrow>
             (if e = PolicyError then Inr (deny (exn_str P e @ ''; failing closed''))
              else if e = OSError then unavailable else Inl e, file)
         | Inr (v, None) \<Rightarrow> (Inr v, file)
         | Inr (v, Some payload) \<Rightarrow>
             (if fault = StateWriteFails then (unavailable, file) else (Inr v, Some (write_state P payload))))"

text \<open>The text of a JSON integer in a message; a boolean is an integer too.\<close>

definition int_repr :: "json \<Rightarrow> string" where
  "int_repr v = (case v of JBool b \<Rightarrow> if b then ''True'' else ''False'' | JInt i \<Rightarrow> dec_int i | _ \<Rightarrow> [])"

definition budget_payload :: "json \<Rightarrow> event \<Rightarrow> event" where
  "budget_payload tot per = [(''total'', tot), (''per_action'', JObj per)]"

text \<open>The total and the totals per action of a state; a missing file holds nothing.\<close>

definition budget_state :: "event option \<Rightarrow> json \<times> json" where
  "budget_state st =
     (let d = (case st of None \<Rightarrow> budget_payload (JInt 0) [] | Some d \<Rightarrow> d)
      in (dget_default d ''total'' (JInt 0), dget_default d ''per_action'' (JObj [])))"

section \<open>Budgets in files\<close>

definition file_budget_decide :: "platform \<Rightarrow> int \<Rightarrow> bool \<Rightarrow> state_fault \<Rightarrow> bytes option provider" where
  "file_budget_decide P max_calls per_action fault r file =
     with_state P ''budget'' fault
       (\<lambda>st. let (tot, per) = budget_state st; name = rq_action_name r in
          case (int_of tot, per) of
            (Some n, JObj per) \<Rightarrow>
              if per_action then
                (let used = dget_default per name (JInt 0) in
                 case int_of used of
                   None \<Rightarrow> Inl PolicyError
                 | Some u \<Rightarrow>
                     if max_calls \<le> u then
                       Inr (deny (''budget exhausted for '' @ repr_text P name @ '' ('' @ int_repr used @ ''/'' @ dec_int max_calls @ '')''), None)
                     else
                       Inr (allow (''within budget '' @ ratio_text (u + 1) max_calls),
                            Some (budget_payload tot (dset name (JInt (u + 1)) per))))
              else if max_calls \<le> n then
                Inr (deny (''budget exhausted ('' @ int_repr tot @ ''/'' @ dec_int max_calls @ '')''), None)
              else
                Inr (allow (''within budget '' @ ratio_text (n + 1) max_calls),
                     Some (budget_payload (JInt (n + 1)) per))
          | _ \<Rightarrow> Inl PolicyError) file"

definition file_spending_decide :: "platform \<Rightarrow> int \<Rightarrow> bool \<Rightarrow> state_fault \<Rightarrow> bytes option provider" where
  "file_spending_decide P max_cents per_action fault r file =
     (case rq_spend_cents r of
        None \<Rightarrow> (Inr (deny ''no spend declared; spending budget cannot account it''), file)
      | Some spend \<Rightarrow>
          with_state P ''spending'' fault
            (\<lambda>st. let (tot, per) = budget_state st; name = rq_action_name r;
                       over = (\<lambda>used. ''('' @ int_repr used @ ''+'' @ dec_int spend @ ''>'' @ dec_int max_cents @ ''c)'');
                       ok_text = (\<lambda>used. ''within spending budget ('' @ dec_int used @ ''/'' @ dec_int max_cents @ ''c)'') in
               case (int_of tot, per) of
                 (Some n, JObj per) \<Rightarrow>
                   if \<not> list_all (\<lambda>(k, v). int_of v \<noteq> None) per then Inl PolicyError
                   else if per_action then
                     (let used = dget_default per name (JInt 0) in
                      case int_of used of
                        None \<Rightarrow> Inl PolicyError
                      | Some u \<Rightarrow>
                          if max_cents < u + spend then
                            Inr (deny (''spending budget exhausted for '' @ repr_text P name @ '' '' @ over used), None)
                          else
                            Inr (allow (ok_text (u + spend)),
                                 Some (budget_payload tot (dset name (JInt (u + spend)) per))))
                   else if max_cents < n + spend then
                     Inr (deny (''spending budget exhausted '' @ over tot), None)
                   else
                     Inr (allow (ok_text (n + spend)), Some (budget_payload (JInt (n + spend)) per))
               | _ \<Rightarrow> Inl PolicyError) file)"

section \<open>Rate limits in files\<close>

text \<open>\<open>float(t)\<close> of a JSON number; an integer beyond the floats overflows.\<close>

definition int_to_float :: "platform \<Rightarrow> int \<Rightarrow> exn + flt" where
  "int_to_float P i =
     (if 2 ^ 1024 - 2 ^ 970 \<le> \<bar>i\<bar> then Inl OverflowError else Inr (Fin (float_round P (of_int i))))"

definition json_to_float :: "platform \<Rightarrow> json \<Rightarrow> exn + flt" where
  "json_to_float P v =
     (case v of
        JFloat x \<Rightarrow> Inr x
      | _ \<Rightarrow> (case int_of v of Some i \<Rightarrow> int_to_float P i | None \<Rightarrow> Inl PolicyError))"

definition file_rate_limit_decide ::
  "platform \<Rightarrow> int \<Rightarrow> rat \<Rightarrow> state_fault \<Rightarrow> rat \<Rightarrow> bytes option provider" where
  "file_rate_limit_decide P max_calls window fault now r file =
     with_state P ''rate-limit'' fault
       (\<lambda>st. bindR (case st of
                       None \<Rightarrow> Inr []
                     | Some d \<Rightarrow>
                         (case dget_default d ''attempts'' (JArr []) of
                            JArr ts \<Rightarrow>
                              (if list_all (\<lambda>v. num_of v \<noteq> None) ts then mapR (json_to_float P) ts
                               else Inl PolicyError)
                          | _ \<Rightarrow> Inl PolicyError)) (\<lambda>attempts.
               let kept = filter (\<lambda>t. flt_less (Fin (rate_cutoff P window now)) t) attempts in
               if max_calls \<le> int (length kept) then
                 Inr (rate_exceeded P max_calls window, Some [(''attempts'', JArr (map JFloat kept))])
               else
                 Inr (allow ''within rate limit'',
                      Some [(''attempts'', JArr (map JFloat (kept @ [Fin now])))]))) file"

section \<open>Witness freshness\<close>

datatype witness_file = WMissing | WDirectory | WNotADirectory | WUnreadable | WFile (w_mtime: rat)

definition new_witness_freshness :: "rat \<Rightarrow> string \<Rightarrow> string list option \<Rightarrow> exn + unit" where
  "new_witness_freshness max_age filename risks =
     (if max_age \<le> 0 then Inl ValueError
      else if filename = [] \<or> CHR ''/'' \<in> set filename \<or> bslash \<in> set filename then Inl ValueError
      else case risks of
        Some rs \<Rightarrow> if list_all (\<lambda>r. r \<in> set RISK_LEVELS) rs then Inr () else Inl ValueError
      | None \<Rightarrow> Inr ())"

definition witness_age :: "platform \<Rightarrow> rat \<Rightarrow> rat \<Rightarrow> rat" where
  "witness_age P now mtime = (let age = float_round P (now - mtime) in if age < 0 then 0 else age)"

definition witness_freshness_decide ::
  "platform \<Rightarrow> string \<Rightarrow> rat \<Rightarrow> string list option \<Rightarrow> witness_file \<Rightarrow> exn + rat \<Rightarrow> 's provider" where
  "witness_freshness_decide P path max_age risks file clock r s =
     (if (case risks of Some rs \<Rightarrow> rq_risk r \<notin> set rs | None \<Rightarrow> False)
      then (Inr (allow (''witness freshness not required for risk '' @ repr_text P (rq_risk r))), s)
      else
        (case file of
           WDirectory \<Rightarrow> (Inr (deny (''witness at '' @ path @ '' is a directory; failing closed'')), s)
         | WMissing \<Rightarrow> (Inr (deny (''no witness at '' @ path @ '' (run `tesera witness`); failing closed'')), s)
         | WNotADirectory \<Rightarrow>
             (Inr (deny (''witness dir unavailable ('' @ exn_str P OSError @ ''); failing closed'')), s)
         | WUnreadable \<Rightarrow> (Inr (deny (''witness unavailable ('' @ exn_str P OSError @ ''); failing closed'')), s)
         | WFile mtime \<Rightarrow>
             (case clock of
                Inl e \<Rightarrow>
                  (if is_exception e
                   then (Inr (deny (''witness clock failed ('' @ exn_repr P e @ ''); failing closed'')), s)
                   else (Inl e, s))
              | Inr now \<Rightarrow>
                  (let age = witness_age P now mtime;
                       ages = ''('' @ format_0f P age @ ''s old, max '' @ format_g P max_age @ ''s)'' in
                   if max_age < age
                   then (Inr (deny (''witness stale '' @ ages @ ''; run `tesera witness`; failing closed'')), s)
                   else (Inr (allow (''witness fresh '' @ ages)), s)))))"

section \<open>Policy files\<close>

definition known_keys :: "string list \<Rightarrow> event \<Rightarrow> bool" where
  "known_keys names d \<longleftrightarrow> list_all (\<lambda>(k, v). k \<in> set names) d"

definition is_decision :: "string \<Rightarrow> bool" where
  "is_decision s \<longleftrightarrow> s = DECISION_ALLOWED \<or> s = DECISION_DENIED"

definition parse_risks :: "json \<Rightarrow> exn + string list option" where
  "parse_risks v =
     (case v of
        JNull \<Rightarrow> Inr None
      | JArr rs \<Rightarrow>
          (if list_all (\<lambda>r. r \<in> JStr ` set RISK_LEVELS) rs
           then Inr (Some (map (\<lambda>r. case r of JStr s \<Rightarrow> s | _ \<Rightarrow> []) rs)) else Inl PolicyError)
      | _ \<Rightarrow> Inl PolicyError)"

definition parse_rule :: "json \<Rightarrow> exn + rule" where
  "parse_rule entry =
     (case entry of
        JObj d \<Rightarrow>
          (if \<not> known_keys [''action'', ''decision'', ''risks'', ''reason''] d then Inl PolicyError
           else case (str_of (jget d ''action''), str_of (jget d ''decision''),
                      str_of (dget_default d ''reason'' (JStr []))) of
             (Some action, Some decision, Some reason) \<Rightarrow>
               (if action = [] \<or> \<not> is_decision decision then Inl PolicyError
                else bindR (parse_risks (jget d ''risks'')) (\<lambda>risks.
                  Inr \<lparr>ru_action = action, ru_decision = decision, ru_risks = risks, ru_reason = reason\<rparr>))
           | _ \<Rightarrow> Inl PolicyError)
      | _ \<Rightarrow> Inl PolicyError)"

text \<open>None is a file that cannot be read.\<close>

definition load_policy_file :: "platform \<Rightarrow> bytes option \<Rightarrow> exn + rule list \<times> string" where
  "load_policy_file P file =
     (case file of
        None \<Rightarrow> Inl PolicyError
      | Some raw \<Rightarrow>
          (case json_loads P raw of
             Some (JObj d) \<Rightarrow>
               (if \<not> known_keys [''default'', ''rules''] d then Inl PolicyError
                else case dget_default d ''rules'' (JArr []) of
                  JArr entries \<Rightarrow>
                    bindR (mapR parse_rule entries) (\<lambda>rules.
                      case str_of (dget_default d ''default'' (JStr DECISION_DENIED)) of
                        Some dflt \<Rightarrow> if is_decision dflt then new_rules rules dflt else Inl PolicyError
                      | None \<Rightarrow> Inl PolicyError)
                | _ \<Rightarrow> Inl PolicyError)
           | _ \<Rightarrow> Inl PolicyError))"

section \<open>Constructors\<close>

text \<open>The configuration checks of the file-backed providers and of the timeout.\<close>

definition new_file_budget :: "int \<Rightarrow> exn + unit" where
  "new_file_budget max_calls = (if max_calls < 0 then Inl ValueError else Inr ())"

definition new_file_rate_limit :: "int \<Rightarrow> rat \<Rightarrow> exn + unit" where
  "new_file_rate_limit max_calls window =
     (if max_calls \<le> 0 then Inl ValueError else if window \<le> 0 then Inl ValueError else Inr ())"

definition new_spending :: "int \<Rightarrow> exn + budget" where
  "new_spending max_cents = (if max_cents < 0 then Inl ValueError else Inr \<lparr>bg_total = 0, bg_per_action = []\<rparr>)"

definition new_file_spending :: "int \<Rightarrow> exn + unit" where
  "new_file_spending max_cents = (if max_cents < 0 then Inl ValueError else Inr ())"

definition new_timeout :: "rat \<Rightarrow> int \<Rightarrow> exn + nat" where
  "new_timeout timeout max_in_flight =
     (if timeout \<le> 0 then Inl ValueError else if max_in_flight \<le> 0 then Inl ValueError else Inr (nat max_in_flight))"

text \<open>A file-backed provider accepts the configurations its in-memory counterpart accepts.\<close>

lemma file_constructors_agree:
  "isl (new_file_budget m) = isl (new_budget m)" "isl (new_file_spending m) = isl (new_spending m)"
  "isl (new_file_rate_limit m w) = isl (new_rate_limit m w)"
  by (simp_all add: new_file_budget_def new_budget_def new_file_spending_def new_spending_def new_file_rate_limit_def
      new_rate_limit_def)

end
