(* ===== verification/PolicyProps.thy ===== *)
theory PolicyProps
  imports Policy
begin

text \<open>
  What the in-memory policies guarantee: the rate limit is an exact sliding window, a cached
  allowance is backed by an earlier one, the combinators count what they say, and the wrappers
  only ever restrict the provider inside.
\<close>

section \<open>Sliding windows\<close>

definition granted_times :: "(rat \<times> request) list \<Rightarrow> (exn + verdict) list \<Rightarrow> rat list" where
  "granted_times js rs = map (fst \<circ> fst) (filter (granted \<circ> snd) (zip js rs))"

abbreviation rate_run :: "platform \<Rightarrow> int \<Rightarrow> rat \<Rightarrow> rat \<times> request \<Rightarrow> rat list \<Rightarrow> (exn + verdict) \<times> rat list" where
  "rate_run P m w \<equiv> (\<lambda>(now, r). rate_limit_decide P m w now r)"

text \<open>
  The deque is a suffix of the times granted so far, and what it has lost is out of the window.
\<close>

definition window_state :: "platform \<Rightarrow> rat \<Rightarrow> rat \<Rightarrow> rat list \<Rightarrow> rat list \<Rightarrow> bool" where
  "window_state P w t given s \<longleftrightarrow>
     sorted given \<and> (\<forall>x \<in> set given. x \<le> t)
     \<and> (\<exists>d \<le> length given. s = drop d given \<and> (\<forall>x \<in> set (take d given). x \<le> rate_cutoff P w t))"

lemma dropWhile_sorted: "sorted xs \<Longrightarrow> dropWhile (\<lambda>t. t \<le> c) xs = filter (\<lambda>t. c < t) (xs :: rat list)"
proof (induction xs)
  case (Cons a xs)
  then have "filter (\<lambda>t. c < t) xs = xs" if "c < a" using that by (intro filter_True) auto
  with Cons show ?case by auto
qed simp

lemma window_kept:
  assumes "window_state P w t given s" and "t \<le> now" and "mono (float_round P)"
  shows "dropWhile (\<lambda>x. x \<le> rate_cutoff P w now) s = filter (\<lambda>x. rate_cutoff P w now < x) given"
    and "window_state P w now given (dropWhile (\<lambda>x. x \<le> rate_cutoff P w now) s)"
proof -
  let ?c = "rate_cutoff P w now"
  have c: "rate_cutoff P w t \<le> ?c"
    using assms(2,3) by (simp add: rate_cutoff_def monoD)
  from assms(1) obtain d where d: "d \<le> length given" "s = drop d given" "sorted given"
    "\<forall>x \<in> set given. x \<le> t" and "\<forall>x \<in> set (take d given). x \<le> rate_cutoff P w t"
    unfolding window_state_def by blast
  with c have d5: "\<forall>x \<in> set (take d given). x \<le> ?c" by (meson order_trans)
  have "filter (\<lambda>x. ?c < x) (take d given) = []" using d5 by (auto simp: filter_empty_conv)
  then have f: "filter (\<lambda>x. ?c < x) given = filter (\<lambda>x. ?c < x) s"
    unfolding d(2) by (metis append_Nil append_take_drop_id filter_append)
  have "sorted s" using d(2,3) sorted_wrt_drop by blast
  then show k: "dropWhile (\<lambda>x. x \<le> ?c) s = filter (\<lambda>x. ?c < x) given"
    by (simp add: dropWhile_sorted f)
  let ?n = "length (takeWhile (\<lambda>x. x \<le> ?c) s)"
  have "dropWhile (\<lambda>x. x \<le> ?c) s = drop (d + ?n) given"
    by (simp add: dropWhile_eq_drop d(2) add.commute)
  moreover have "x \<le> ?c" if "x \<in> set (take (d + ?n) given)" for x
  proof -
    have "take (d + ?n) given = take d given @ takeWhile (\<lambda>x. x \<le> ?c) s"
      unfolding d(2) by (simp add: take_add takeWhile_eq_take [symmetric])
    then show ?thesis using that d5 by (auto dest: set_takeWhileD)
  qed
  moreover have "d + ?n \<le> length given"
    using d(1,2) length_takeWhile_le [of "\<lambda>x. x \<le> ?c" s] by simp
  ultimately show "window_state P w now given (dropWhile (\<lambda>x. x \<le> ?c) s)"
    unfolding window_state_def using d(3,4) assms(2) by (meson order_trans)
qed

lemma window_grant:
  assumes "window_state P w now given s"
  shows "window_state P w now (given @ [now]) (s @ [now])"
proof -
  from assms obtain d where "d \<le> length given" "s = drop d given" "\<forall>x \<in> set (take d given). x \<le> rate_cutoff P w now"
    by (auto simp: window_state_def)
  then have "d \<le> length (given @ [now]) \<and> s @ [now] = drop d (given @ [now])
      \<and> (\<forall>x \<in> set (take d (given @ [now])). x \<le> rate_cutoff P w now)" by simp
  moreover have "sorted (given @ [now]) \<and> (\<forall>x \<in> set (given @ [now]). x \<le> now)"
    using assms by (auto simp: window_state_def sorted_append)
  ultimately show ?thesis unfolding window_state_def by blast
qed

lemma window_run:
  assumes "mono (float_round P)"
  shows "window_state P w t given s \<Longrightarrow> sorted (t # map fst js) \<Longrightarrow> run_all (rate_run P m w) js s = (rs, s') \<Longrightarrow>
    window_state P w (last (t # map fst js)) (given @ granted_times js rs) s'"
proof (induction js arbitrary: t given s rs)
  case Nil
  then show ?case by (simp add: granted_times_def)
next
  case (Cons j js)
  obtain now r where j: "j = (now, r)" by (cases j)
  let ?k = "dropWhile (\<lambda>x. x \<le> rate_cutoff P w now) s"
  obtain res s1 where d: "rate_limit_decide P m w now r s = (res, s1)"
    by (cases "rate_limit_decide P m w now r s")
  with Cons.prems(3) j obtain rs' where r: "run_all (rate_run P m w) js s1 = (rs', s')" "rs = res # rs'"
    by (auto simp: Let_def split: prod.splits)
  from Cons.prems(2) j have now: "t \<le> now" "sorted (now # map fst js)" by auto
  from window_kept(2) [OF Cons.prems(1) now(1) assms] have w: "window_state P w now given ?k" .
  have step: "window_state P w now (given @ (if granted res then [now] else [])) s1"
    using d w window_grant [OF w]
    by (auto simp: rate_limit_decide_def Let_def rate_exceeded_def split: if_splits)
  from Cons.IH [OF step now(2) r(1)] show ?case
    by (auto simp: j r(2) granted_times_def)
qed

text \<open>
  C33: The rate limit is an exact sliding window. With a clock that does not go back, after any
  sequence of calls the next one is allowed precisely when fewer than the limit of the calls
  allowed so far are younger than the window; denied calls use up nothing.
\<close>

theorem rate_limit_exact:
  assumes "mono (float_round P)" and "sorted (map fst js @ [now])"
    and "run_all (rate_run P m w) js [] = (rs, s)"
  shows "granted (fst (rate_limit_decide P m w now r s)) \<longleftrightarrow>
    int (length (filter (\<lambda>t. rate_cutoff P w now < t) (granted_times js rs))) < m"
proof -
  let ?t = "hd (map fst js @ [now])"
  have "window_state P w ?t [] []" by (simp add: window_state_def)
  moreover have "sorted (?t # map fst js)" using assms(2) by (cases js) (auto simp: sorted_append)
  ultimately have "window_state P w (last (?t # map fst js)) ([] @ granted_times js rs) s"
    using window_run [OF assms(1)] assms(3) by blast
  moreover have "last (?t # map fst js) \<le> now"
    using assms(2) by (cases js rule: rev_cases) (auto simp: sorted_append)
  ultimately have "dropWhile (\<lambda>x. x \<le> rate_cutoff P w now) s
      = filter (\<lambda>x. rate_cutoff P w now < x) (granted_times js rs)"
    using window_kept(1) assms(1) by auto
  then show ?thesis by (simp add: rate_limit_decide_def Let_def rate_exceeded_def)
qed

definition demo_request :: request where
  "demo_request = \<lparr>rq_action_name = ''pay'', rq_risk = ''high'', rq_approval_mode = ''required'', rq_summary = [],
     rq_input_hash = ''i'', rq_contract_hash = ''c'', rq_spend_cents = Some 5\<rparr>"

text \<open>Two calls in ten seconds: the third waits until the first has left the window.\<close>

lemma rate_limit_exact_witness:
  "\<exists>rs s. run_all (rate_run toy_platform 2 10) [(0, demo_request), (1, demo_request), (2, demo_request)] [] = (rs, s)
     \<and> \<not> granted (fst (rate_limit_decide toy_platform 2 10 9 demo_request s))
     \<and> granted (fst (rate_limit_decide toy_platform 2 10 10 demo_request s))"
proof -
  let ?js = "[(0, demo_request), (1, demo_request), (2, demo_request)]"
  obtain rs s where run: "run_all (rate_run toy_platform 2 10) ?js [] = (rs, s)"
    by (cases "run_all (rate_run toy_platform 2 10) ?js []")
  then have ts: "granted_times ?js rs = [0, 1]"
    by (auto simp: rate_limit_decide_def rate_cutoff_def rate_exceeded_def toy_platform_def granted_times_def Let_def)
  have m: "mono (float_round toy_platform)" by (simp add: toy_platform_def mono_def)
  have c: "rate_cutoff toy_platform 10 t = t - 10" for t by (simp add: rate_cutoff_def toy_platform_def)
  have "\<not> granted (fst (rate_limit_decide toy_platform 2 10 9 demo_request s))"
    using rate_limit_exact [OF m _ run, of 9 demo_request] by (simp add: ts c)
  moreover have "granted (fst (rate_limit_decide toy_platform 2 10 10 demo_request s))"
    using rate_limit_exact [OF m _ run, of 10 demo_request] by (simp add: ts c)
  ultimately show ?thesis using run by blast
qed

section \<open>Caching\<close>

abbreviation cached_run ::
  "platform \<Rightarrow> 's provider \<Rightarrow> rat \<Rightarrow> nat \<Rightarrow> (rat \<times> rat \<times> rat) \<times> request \<Rightarrow> 's \<times> approval_cache
     \<Rightarrow> (exn + verdict) \<times> 's \<times> approval_cache" where
  "cached_run P inner ttl n \<equiv> (\<lambda>(readings, r). cached_decide P inner ttl n readings r)"

text \<open>An entry is backed by an allowed call with the same key, and expires its time to live later.\<close>

definition backed ::
  "platform \<Rightarrow> rat \<Rightarrow> ((rat \<times> rat \<times> rat) \<times> request) list \<Rightarrow> (exn + verdict) list \<Rightarrow> cache_key \<Rightarrow> rat \<Rightarrow> bool" where
  "backed P ttl js rs key e \<longleftrightarrow>
     (\<exists>((now, now1, now2), r) \<in> set (map fst (filter (granted \<circ> snd) (zip js rs))).
        cache_key r = key \<and> e = float_round P (now1 + ttl))"

lemma length_shrink: "length (shrink n c) = min n (length c)"
  by (simp add: shrink_def)

lemma set_shrink: "set (shrink n c) \<subseteq> set c"
  by (simp add: shrink_def set_drop_subset)

lemma set_ddel: "set (ddel k c) \<subseteq> set c"
  by (induction c) auto

lemma length_ddel: "length (ddel k c) \<le> length c"
  by (induction c) auto

lemma cached_step:
  assumes "0 < n" and "length c \<le> n"
    and "cached_decide P inner ttl n (now, now1, now2) r (s, c) = (res, s', c')"
  shows "length c' \<le> n"
    and "(k, e) \<in> set c' \<Longrightarrow> (k, e) \<in> set c \<or> (granted res \<and> k = cache_key r \<and> e = float_round P (now1 + ttl))"
proof -
  define c1 where "c1 = (if dget c (cache_key r) \<noteq> None then ddel (cache_key r) c else c)"
  define c2 where "c2 = shrink (n - 1) (if n \<le> length c1 then sweep now c1 else c1)"
  have sub: "set c2 \<subseteq> set c"
    using set_shrink [of "n - 1"] set_ddel [of "cache_key r" c] by (fastforce simp: c2_def c1_def sweep_def split: if_splits)
  have len: "length c2 \<le> n - 1" by (simp add: c2_def length_shrink)
  let ?c3 = "dset (cache_key r) (float_round P (now1 + ttl)) c2"
  have "length ?c3 \<le> Suc (length c2)" by (rule length_dset_le)
  with len assms(1) have c3: "length ?c3 \<le> n" by linarith
  have "c' = c \<or> c' = c2 \<or> (granted res \<and> c' = ?c3)"
    using assms(3) c3 unfolding cached_decide_def Let_def c2_def c1_def
    by (auto split: if_splits prod.splits)
  then show "length c' \<le> n"
    and "(k, e) \<in> set c' \<Longrightarrow> (k, e) \<in> set c \<or> (granted res \<and> k = cache_key r \<and> e = float_round P (now1 + ttl))"
    using assms(2) len c3 sub dset_values [of k e "cache_key r" "float_round P (now1 + ttl)" c2] by auto
qed

lemma cached_backed:
  assumes "0 < n"
  shows "run_all (cached_run P inner ttl n) js (s, c) = (rs, s', c') \<Longrightarrow> length c \<le> n \<Longrightarrow>
    (\<forall>(k, e) \<in> set c. backed P ttl js0 rs0 k e) \<Longrightarrow> length js0 = length rs0 \<Longrightarrow>
    length c' \<le> n \<and> (\<forall>(k, e) \<in> set c'. backed P ttl (js0 @ js) (rs0 @ rs) k e)"
proof (induction js arbitrary: s c rs js0 rs0)
  case (Cons j js)
  obtain now now1 now2 r where j: "j = ((now, now1, now2), r)" by (metis prod.exhaust)
  obtain res s1 c1 where d: "cached_decide P inner ttl n (now, now1, now2) r (s, c) = (res, s1, c1)"
    by (metis prod.exhaust)
  with Cons.prems(1) j obtain rs' where r: "run_all (cached_run P inner ttl n) js (s1, c1) = (rs', s', c')" "rs = res # rs'"
    by (auto simp: Let_def split: prod.splits)
  note step = cached_step [OF assms Cons.prems(2) d]
  have "backed P ttl (js0 @ [j]) (rs0 @ [res]) k e" if "(k, e) \<in> set c1" for k e
    using step(2) [OF that] Cons.prems(3,4) by (force simp: backed_def j)
  then have "\<forall>(k, e) \<in> set c1. backed P ttl (js0 @ [j]) (rs0 @ [res]) k e" by blast
  from Cons.IH [OF r(1) step(1) this] Cons.prems(4) show ?case by (simp add: r(2))
qed simp

text \<open>
  A cached allowance is always backed. After any sequence of calls, a call is allowed without
  the inner provider only if an earlier call with the same contract, input, risk, mode and spend
  was allowed, and its time to live has not run out; and the cache never holds more entries than
  its bound.
\<close>

theorem cached_allowance_backed:
  assumes "0 < n" and "run_all (cached_run P inner ttl n) js (s0, []) = (rs, s, c)"
    and "granted (fst (cached_decide P inner ttl n (now, now1, now2) r (s, c)))"
  shows "length c \<le> n \<and> (granted (fst (inner r s)) \<or> (\<exists>e. now < e \<and> backed P ttl js rs (cache_key r) e))"
proof -
  from cached_backed [OF assms(1,2), of "[]" "[]"] have
    c: "length c \<le> n" "\<forall>(k, e) \<in> set c. backed P ttl js rs k e" by auto
  have "granted (fst (inner r s))" if "\<not> (\<exists>e. dget c (cache_key r) = Some e \<and> now < e)"
  proof (cases "inner r s")
    case (Pair res s')
    with assms(3) that show ?thesis
      by (cases "granted res") (simp_all add: cached_decide_def Let_def)
  qed
  moreover have "\<exists>e. now < e \<and> backed P ttl js rs (cache_key r) e"
    if "\<exists>e. dget c (cache_key r) = Some e \<and> now < e"
    using that c(2) dget_mem by fastforce
  ultimately show ?thesis using c(1) by blast
qed

lemma cached_allowance_backed_witness:
  "\<exists>rs s c. run_all (cached_run toy_platform (rate_limit_decide toy_platform 1 10 0) 5 4)
       [((0, 0, 0), demo_request)] ([], []) = (rs, s, c)
     \<and> (\<exists>e. 3 < e \<and> backed toy_platform 5 [((0, 0, 0), demo_request)] rs (cache_key demo_request) e)"
proof -
  let ?inner = "rate_limit_decide toy_platform 1 10 0" and ?js = "[((0, 0, 0), demo_request)]"
  have run: "run_all (cached_run toy_platform ?inner 5 4) ?js ([], []) =
      ([Inr (allow ''within rate limit'')], [0], [(cache_key demo_request, 5)])"
    by (simp add: cached_decide_def rate_limit_decide_def Let_def toy_platform_def rate_cutoff_def shrink_def)
  have hit: "granted (fst (cached_decide toy_platform ?inner 5 4 (3, 3, 3) demo_request ([0], [(cache_key demo_request, 5)])))"
    by (simp add: cached_decide_def Let_def)
  have "\<not> granted (fst (?inner demo_request [0]))"
    by (simp add: rate_limit_decide_def Let_def toy_platform_def rate_cutoff_def rate_exceeded_def)
  with cached_allowance_backed [OF _ run hit] run show ?thesis by auto
qed

section \<open>Combinators\<close>

text \<open>The answers of the providers, each consulted in the state the one before has left.\<close>

abbreviation answers :: "'s provider list \<Rightarrow> request \<Rightarrow> 's \<Rightarrow> (exn + verdict) list" where
  "answers ps r s \<equiv> fst (run_all (\<lambda>p. p r) ps s)"

lemma all_decide_granted:
  "granted (fst (all_decide ps reasons r s)) \<longleftrightarrow> list_all granted (answers ps r s)"
  by (induction ps arbitrary: reasons s) (auto simp: Let_def split: sum.splits prod.splits)

fun first_decides :: "(exn + verdict) list \<Rightarrow> bool" where
  "first_decides [] = False"
| "first_decides (Inl e # rs) = False"
| "first_decides (Inr v # rs) = (vd_allowed v \<or> first_decides rs)"

lemma any_decide_granted:
  "granted (fst (any_decide ps reasons r s)) \<longleftrightarrow> first_decides (answers ps r s)"
  by (induction ps arbitrary: reasons s) (auto simp: Let_def split: sum.splits prod.splits)

definition only_exceptions :: "(exn + verdict) list \<Rightarrow> bool" where
  "only_exceptions rs = list_all (\<lambda>r. case r of Inl e \<Rightarrow> is_exception e | Inr v \<Rightarrow> True) rs"

lemma quorum_poll_counts:
  "(case fst (quorum_poll P ps r s) of
      Inl e \<Rightarrow> \<not> only_exceptions (answers ps r s)
    | Inr (n, reasons) \<Rightarrow> only_exceptions (answers ps r s) \<and> n = length (filter granted (answers ps r s))
        \<and> length reasons = length ps)"
proof (induction ps arbitrary: s)
  case (Cons p ps)
  obtain res s1 where d: "p r s = (res, s1)" by (cases "p r s")
  obtain q s2 where q: "quorum_poll P ps r s1 = (q, s2)" by (cases "quorum_poll P ps r s1")
  obtain xs s3 where a: "run_all (\<lambda>p. p r) ps s1 = (xs, s3)" by (cases "run_all (\<lambda>p. p r) ps s1")
  from Cons.IH [of s1] d q a show ?case
    by (cases res; cases q) (auto simp: Let_def only_exceptions_def)
qed (simp add: only_exceptions_def)

text \<open>
  The combinators mean what they say, whatever state the providers share: all-of allows
  exactly when every provider allows, any-of when some provider allows before one raises, and a
  quorum, which consults everyone, when at least that many allow, an exception counting as a
  denial.
\<close>

theorem combinators_exact:
  "(granted (fst (all_decide ps [] r s)) \<longleftrightarrow> list_all granted (answers ps r s))
   \<and> (granted (fst (any_decide ps [] r s)) \<longleftrightarrow> first_decides (answers ps r s))
   \<and> (granted (fst (quorum_decide P ps q r s)) \<longleftrightarrow>
        only_exceptions (answers ps r s) \<and> q \<le> length (filter granted (answers ps r s)))"
  using quorum_poll_counts [where P = P and ps = ps and r = r and s = s]
  by (auto simp: all_decide_granted any_decide_granted quorum_decide_def Let_def split: sum.splits prod.splits)

section \<open>Rules\<close>

lemma explain_from_find:
  "ex_decision (explain_from P n i d rules r) =
     (case find (\<lambda>ru. rule_matches ru r) rules of
        None \<Rightarrow> if d = DECISION_ALLOWED then DECISION_ALLOWED else DECISION_DENIED
      | Some ru \<Rightarrow> ru_decision ru)"
  by (induction rules arbitrary: i) auto

lemma explain_from_index:
  "ex_index (explain_from P n i d rules r) = Some k \<longleftrightarrow>
     i \<le> k \<and> k - i < length rules \<and> rule_matches (rules ! (k - i)) r
     \<and> (\<forall>j < k - i. \<not> rule_matches (rules ! j) r)"
proof (induction rules arbitrary: i)
  case (Cons ru rules)
  show ?case
  proof (cases "rule_matches ru r")
    case True
    then show ?thesis by (cases "k - i") auto
  next
    case False
    with Cons.IH [of "Suc i"] show ?thesis
      by (cases "k - i") (auto simp: nth_Cons' less_Suc_eq_0_disj diff_Suc split: nat.splits)
  qed
qed simp

section \<open>Wrappers\<close>

text \<open>
  The wrappers only restrict. An attested allowance is one of the inner provider, stamped with
  a well-formed approver identity, while a denial passes through as it is; the timeout always
  answers, allows only what the inner provider allowed in time, and never has more decisions
  waiting than its bound.
\<close>

theorem wrappers_only_restrict:
  "(case fst (attested_decide inner approved_by env r s) of
      Inl e \<Rightarrow> fst (inner r s) = Inl e
    | Inr v \<Rightarrow>
        if vd_allowed v
        then granted (fst (inner r s)) \<and> (\<exists>who. vd_approved_by v = Some who \<and> well_formed_approver who)
        else \<exists>w. fst (inner r s) = Inr w \<and> (vd_allowed w \<or> v = w))
   \<and> is_ok (fst (timeout_decide P inner name t m late r (s, n)))
   \<and> (granted (fst (timeout_decide P inner name t m late r (s, n))) \<longrightarrow>
        granted (fst (inner r s)) \<and> \<not> late \<and> n < m)
   \<and> (n \<le> m \<longrightarrow> snd (snd (timeout_decide P inner name t m late r (s, n))) \<le> m)"
  by (auto simp: attested_decide_def timeout_decide_def Let_def vd_allowed_def deny_def
      DECISION_ALLOWED_def DECISION_DENIED_def split: prod.splits sum.splits option.splits)

lemma wrappers_only_restrict_witness:
  "granted (fst (auto_allow_decide demo_request ()))
   \<and> snd (snd (timeout_decide toy_platform auto_allow_decide ''x'' 1 2 True demo_request ((), 1))) \<le> 2"
  using wrappers_only_restrict [where inner = auto_allow_decide and r = demo_request and s = "()" and
      P = toy_platform and name = "''x''" and t = 1 and m = 2 and late = False and n = 1]
    wrappers_only_restrict [where inner = auto_allow_decide and r = demo_request and s = "()" and
      P = toy_platform and name = "''x''" and t = 1 and m = 2 and late = True and n = 1]
  by (simp add: timeout_decide_def auto_allow_decide_def)

end
