(* ===== verification/PolicyFileProps.thy ===== *)
theory PolicyFileProps
  imports PolicyFiles PolicyProps
begin

text \<open>
  The file-backed budgets refine the in-memory ones, answer by answer and reason by reason, and
  keep the quota contract whatever file operations fail; corrupt or unavailable state denies and
  is left alone.
\<close>

section \<open>State files read back\<close>

lemma read_write_state:
  assumes "ascii_json (JObj p)" and "json_wf P (JObj p)"
  shows "read_json_state P (Some (write_state P p)) = Inr (Some (sort_members p))"
proof -
  have tx: "write_state P p = json_text P (JObj p) @ [nl]"
    by (simp only: write_state_def json_text_ascii_eq [OF assms(1)])
  have "json_loads P (json_text P (JObj p) @ [nl]) = Some (jsort (JObj p))"
    using loads_text_space [OF assms(2), of "[nl]"] by (simp add: is_jspace_def)
  moreover have "bstrip (write_state P p) \<noteq> []"
  proof -
    obtain t where "json_text P (JObj p) = CHR ''{'' # t"
      by (simp add: json_text_def)
    then show ?thesis by (simp add: tx strip_by_def rstrip_def is_bspace_def)
  qed
  ultimately show ?thesis by (simp only: read_json_state_def tx jsort_JObj option.case json.case if_False)
qed

text \<open>A state file and the in-memory state it stands for.\<close>

definition file_rel :: "platform \<Rightarrow> bytes option \<Rightarrow> budget \<Rightarrow> bool" where
  "file_rel P file bg \<longleftrightarrow>
     (file = None \<and> bg = \<lparr>bg_total = 0, bg_per_action = []\<rparr>)
     \<or> (\<exists>per. file = Some (write_state P (budget_payload (JInt (bg_total bg)) per))
          \<and> distinct (map fst per) \<and> list_all (\<lambda>(k, v). ascii_text k \<and> (\<exists>n. v = JInt n)) per
          \<and> (\<forall>a. dget per a = map_option JInt (dget (bg_per_action bg) a)))"

lemma file_rel_read:
  assumes "file_rel P file bg"
  obtains st per where "read_json_state P file = Inr st" "budget_state st = (JInt (bg_total bg), JObj per)"
    "distinct (map fst per)" "list_all (\<lambda>(k, v). ascii_text k \<and> (\<exists>n. v = JInt n)) per"
    "\<forall>a. dget per a = map_option JInt (dget (bg_per_action bg) a)"
proof (cases "file = None")
  case True
  with assms have "bg = \<lparr>bg_total = 0, bg_per_action = []\<rparr>" by (auto simp: file_rel_def)
  with True show ?thesis
    by (intro that [of None "[]"]) (simp_all add: read_json_state_def budget_state_def budget_payload_def dget_default_def)
next
  case False
  with assms obtain per where per: "file = Some (write_state P (budget_payload (JInt (bg_total bg)) per))"
    "distinct (map fst per)" "list_all (\<lambda>(k, v). ascii_text k \<and> (\<exists>n. v = JInt n)) per"
    "\<forall>a. dget per a = map_option JInt (dget (bg_per_action bg) a)"
    by (auto simp: file_rel_def)
  let ?p = "budget_payload (JInt (bg_total bg)) per"
  have k: "ascii_text ''total''" "ascii_text ''per_action''" by simp_all
  have a: "ascii_json (JObj ?p)"
    using per(3) k by (auto simp: budget_payload_def list_all_iff)
  have w: "json_wf P (JObj ?p)"
    using per(2,3) k ascii_text_utf8 by (auto simp: budget_payload_def list_all_iff)
  have sj: "map (\<lambda>(k, v). (k, jsort v)) per = per"
    using per(3) by (intro map_idI) (auto simp: list_all_iff)
  define ps where "ps = sort_members per"
  have get: "jget (sort_members ?p) k = jsort (jget ?p k)" for k by simp
  have "dget (sort_members ?p) ''total'' = Some (JInt (bg_total bg))"
    by (simp add: dget_sort_members budget_payload_def)
  moreover have "dget (sort_members ?p) ''per_action'' = Some (JObj ps)"
    by (simp add: dget_sort_members budget_payload_def ps_def jsort_JObj del: jsort.simps)
  ultimately have st: "budget_state (Some (sort_members ?p)) = (JInt (bg_total bg), JObj ps)"
    by (simp add: budget_state_def dget_default_def)
  have mset: "set ps = set per" and dist: "distinct (map fst ps)"
    using per(2) by (auto simp: ps_def sort_members_def sj distinct_map inj_on_def)
  have "dget ps a = dget per a" for a
    by (simp add: ps_def sort_members_def sj dget_sort_key)
  with per st mset dist read_write_state [OF a w] show ?thesis
    by (intro that [of "Some (sort_members ?p)" ps]) (auto simp: list_all_iff)
qed

lemma file_rel_write:
  assumes "distinct (map fst per)" and "list_all (\<lambda>(k, v). ascii_text k \<and> (\<exists>n. v = JInt n)) per"
    and "\<forall>a. dget per a = map_option JInt (dget (bg_per_action bg) a)"
  shows "file_rel P (Some (write_state P (budget_payload (JInt (bg_total bg)) per))) bg"
  using assms unfolding file_rel_def by blast

section \<open>Refinement\<close>

lemma dget_default_map:
  "\<forall>a. dget per a = map_option JInt (dget d a) \<Longrightarrow> dget_default per k (JInt 0) = JInt (dget_default d k 0)"
  by (simp add: dget_default_def split: option.splits)

text \<open>What a grant writes, and the state it stands for.\<close>

lemma file_rel_grants:
  assumes "distinct (map fst per)" and "list_all (\<lambda>(k, v). ascii_text k \<and> (\<exists>n. v = JInt n)) per"
    and "\<forall>a. dget per a = map_option JInt (dget (bg_per_action bg) a)" and "ascii_text name"
  shows "file_rel P (Some (write_state P (budget_payload (JInt n) per))) (bg\<lparr>bg_total := n\<rparr>)"
    and "file_rel P (Some (write_state P (budget_payload (JInt (bg_total bg)) (dset name (JInt n) per))))
          (bg\<lparr>bg_per_action := dset name n (bg_per_action bg)\<rparr>)"
proof -
  show "file_rel P (Some (write_state P (budget_payload (JInt n) per))) (bg\<lparr>bg_total := n\<rparr>)"
    using file_rel_write [of per "bg\<lparr>bg_total := n\<rparr>" P] assms by simp
  have "list_all (\<lambda>(k, v). ascii_text k \<and> (\<exists>n. v = JInt n)) (dset name (JInt n) per)"
    using assms(2,4) by (fastforce simp: list_all_iff dest: dset_values)
  then show "file_rel P (Some (write_state P (budget_payload (JInt (bg_total bg)) (dset name (JInt n) per))))
          (bg\<lparr>bg_per_action := dset name n (bg_per_action bg)\<rparr>)"
    using file_rel_write [of "dset name (JInt n) per" "bg\<lparr>bg_per_action := dset name n (bg_per_action bg)\<rparr>" P] assms
    by simp
qed

lemma file_budget_step:
  assumes "file_rel P file bg" and "ascii_text (rq_action_name r)"
  shows "fst (file_budget_decide P m pa NoStateFault r file) = fst (budget_decide P m pa r bg)
    \<and> file_rel P (snd (file_budget_decide P m pa NoStateFault r file)) (snd (budget_decide P m pa r bg))"
proof (rule file_rel_read [OF assms(1)])
  fix st per
  assume st: "read_json_state P file = Inr st" "budget_state st = (JInt (bg_total bg), JObj per)"
    and per: "distinct (map fst per)" "list_all (\<lambda>(k, v). ascii_text k \<and> (\<exists>n. v = JInt n)) per"
      "\<forall>a. dget per a = map_option JInt (dget (bg_per_action bg) a)"
  from file_rel_grants [OF per assms(2)] assms(1) show ?thesis
    by (auto simp: file_budget_decide_def with_state_def budget_decide_def st Let_def ratio_text_def int_repr_def
        dget_default_map [OF per(3)])
qed

lemma file_spending_step:
  assumes "file_rel P file bg" and "ascii_text (rq_action_name r)"
  shows "fst (file_spending_decide P m pa NoStateFault r file) = fst (spending_decide P m pa r bg)
    \<and> file_rel P (snd (file_spending_decide P m pa NoStateFault r file)) (snd (spending_decide P m pa r bg))"
proof (rule file_rel_read [OF assms(1)])
  fix st per
  assume st: "read_json_state P file = Inr st" "budget_state st = (JInt (bg_total bg), JObj per)"
    and per: "distinct (map fst per)" "list_all (\<lambda>(k, v). ascii_text k \<and> (\<exists>n. v = JInt n)) per"
      "\<forall>a. dget per a = map_option JInt (dget (bg_per_action bg) a)"
  have ints: "list_all (\<lambda>(k, v). int_of v \<noteq> None) per" using per(2) by (auto simp: list_all_iff)
  from file_rel_grants [OF per assms(2)] assms(1) ints show ?thesis
    by (cases "rq_spend_cents r")
      (auto simp: file_spending_decide_def with_state_def spending_decide_def st Let_def int_repr_def
        dget_default_map [OF per(3)])
qed

text \<open>
  C34: The durable budgets are the in-memory ones: from a missing file, a run of calls that all
  reach the file gets, answer by answer and reason by reason, what the in-memory provider gives,
  for call budgets and spending budgets alike. Action names are printable ASCII, as the names
  given to the guard are.
\<close>

theorem file_budgets_refine:
  assumes "list_all (\<lambda>r. ascii_text (rq_action_name r)) rs"
  shows "fst (run_all (file_budget_decide P m pa NoStateFault) rs None)
        = fst (run_all (budget_decide P m pa) rs \<lparr>bg_total = 0, bg_per_action = []\<rparr>)
    \<and> fst (run_all (file_spending_decide P m pa NoStateFault) rs None)
        = fst (run_all (spending_decide P m pa) rs \<lparr>bg_total = 0, bg_per_action = []\<rparr>)"
proof -
  have init: "file_rel P None \<lparr>bg_total = 0, bg_per_action = []\<rparr>" by (simp add: file_rel_def)
  from assms have a: "ascii_text (rq_action_name r)" if "r \<in> set rs" for r using that by (simp add: list_all_iff)
  have "fst (run_all (file_budget_decide P m pa NoStateFault) rs None)
        = fst (run_all (budget_decide P m pa) rs \<lparr>bg_total = 0, bg_per_action = []\<rparr>)"
    using run_all_simulation [of rs "file_rel P", OF _ init] file_budget_step a by blast
  moreover have "fst (run_all (file_spending_decide P m pa NoStateFault) rs None)
        = fst (run_all (spending_decide P m pa) rs \<lparr>bg_total = 0, bg_per_action = []\<rparr>)"
    using run_all_simulation [of rs "file_rel P", OF _ init] file_spending_step a by blast
  ultimately show ?thesis by blast
qed

lemma file_budgets_refine_witness:
  "fst (run_all (file_budget_decide toy_platform 1 True NoStateFault) [demo_request, demo_request] None)
     = [Inr (allow ''within budget (1/1)''), Inr (deny ''budget exhausted for 'pay' (1/1)'')]"
  using file_budgets_refine [of "[demo_request, demo_request]" toy_platform 1 True]
  by (simp add: demo_request_def budget_decide_def dget_default_def toy_platform_def ratio_text_def
      dec_int_def dec_nat.simps digit_def)

section \<open>The quota contract under faults\<close>

definition file_used :: "platform \<Rightarrow> bool \<Rightarrow> string \<Rightarrow> bytes option \<Rightarrow> int" where
  "file_used P pa b file =
     (case read_json_state P file of
        Inl e \<Rightarrow> 0
      | Inr st \<Rightarrow>
          (let n = (\<lambda>v. case int_of v of Some i \<Rightarrow> i | None \<Rightarrow> 0) in
           case budget_state st of
             (tot, JObj per) \<Rightarrow> if pa then n (dget_default per b (JInt 0)) else if b = [] then n tot else 0
           | _ \<Rightarrow> 0))"

lemma file_used_rel: "file_rel P file bg \<Longrightarrow> file_used P pa b file = bucket_used pa b bg"
proof (erule file_rel_read)
  fix st per
  assume "read_json_state P file = Inr st" "budget_state st = (JInt (bg_total bg), JObj per)"
    "\<forall>a. dget per a = map_option JInt (dget (bg_per_action bg) a)"
  then show ?thesis by (simp add: file_used_def bucket_used_def dget_default_map [of per "bg_per_action bg"])
qed

lemma with_state_fault:
  assumes "fault \<noteq> NoStateFault"
    and "\<And>st v. body st = Inr (v, None) \<Longrightarrow> \<not> vd_allowed v"
  shows "\<not> granted (fst (with_state P what fault body file)) \<and> snd (with_state P what fault body file) = file"
  using assms
  by (cases fault; cases "read_json_state P file") (auto simp: with_state_def Let_def split: sum.splits option.splits)

lemma file_budget_fault:
  "fault \<noteq> NoStateFault \<Longrightarrow> \<not> granted (fst (file_budget_decide P m pa fault r file))
     \<and> snd (file_budget_decide P m pa fault r file) = file"
  unfolding file_budget_decide_def
  by (rule with_state_fault) (auto simp: Let_def split: prod.splits option.splits json.splits if_splits)

lemma file_spending_fault:
  "fault \<noteq> NoStateFault \<Longrightarrow> \<not> granted (fst (file_spending_decide P m pa fault r file))
     \<and> snd (file_spending_decide P m pa fault r file) = file"
  unfolding file_spending_decide_def
  by (cases "rq_spend_cents r")
    (simp_all, rule with_state_fault, auto simp: Let_def split: prod.splits option.splits json.splits if_splits)

lemma file_rate_limit_fault:
  "fault \<noteq> NoStateFault \<Longrightarrow> \<not> granted (fst (file_rate_limit_decide P n w fault now r file))
     \<and> snd (file_rate_limit_decide P n w fault now r file) = file"
  unfolding file_rate_limit_decide_def
  by (rule with_state_fault) (auto simp: Let_def bindR_Inr_iff split: if_splits)

text \<open>A provider that follows a quota on the related states, and denies on a fault, is a quota.\<close>

lemma quota_of_file:
  assumes q: "quota decide (\<lambda>_. True) (\<lambda>_. True) (bucket_used pa) (bucket_of pa) cost m"
    and step: "\<And>file bg r. file_rel P file bg \<Longrightarrow> ascii_text (rq_action_name r) \<Longrightarrow>
      fst (file_decide NoStateFault r file) = fst (decide r bg)
      \<and> file_rel P (snd (file_decide NoStateFault r file)) (snd (decide r bg))"
    and fault: "\<And>fault r file. fault \<noteq> NoStateFault \<Longrightarrow>
      \<not> granted (fst (file_decide fault r file)) \<and> snd (file_decide fault r file) = file"
  shows "quota (\<lambda>(fault, r). file_decide fault r) (\<lambda>(fault, r). ascii_text (rq_action_name r))
    (\<lambda>file. \<exists>bg. file_rel P file bg) (file_used P pa) (\<lambda>(fault, r). bucket_of pa r) (\<lambda>(fault, r). cost r) m"
proof
  fix i :: "state_fault \<times> request" and s :: "bytes option" and b :: string
  assume ok: "case i of (fault, r) \<Rightarrow> ascii_text (rq_action_name r)" and inv: "\<exists>bg. file_rel P s bg"
  obtain fault r where i: "i = (fault, r)" by (cases i)
  from inv obtain bg where bg: "file_rel P s bg" by blast
  let ?d = "\<lambda>(fault, r). file_decide fault r" and ?bucket = "\<lambda>(fault, r). bucket_of pa r"
    and ?cost = "\<lambda>(fault, r). cost r"
  have *: "(\<exists>bg. file_rel P (snd (?d i s)) bg)
      \<and> file_used P pa b (snd (?d i s))
          = file_used P pa b s + (if granted (fst (?d i s)) \<and> ?bucket i = b then ?cost i else 0)
      \<and> (granted (fst (?d i s)) \<longrightarrow> file_used P pa (?bucket i) s + ?cost i \<le> m)"
  proof (cases "fault = NoStateFault")
    case True
    from step [OF bg, of r] ok i True have st: "fst (?d i s) = fst (decide r bg)"
      "file_rel P (snd (?d i s)) (snd (decide r bg))" by simp_all
    then show ?thesis
      using quota.charges [OF q, where i = r and s = bg and b = b] quota.under_cap [OF q, where i = r and s = bg]
        file_used_rel [OF bg] file_used_rel [OF st(2)] by (auto simp: i)
  next
    case False
    from fault [OF this] inv show ?thesis by (simp add: i)
  qed
  then show "\<exists>bg. file_rel P (snd (?d i s)) bg" by blast
  from * show "file_used P pa b (snd (?d i s))
      = file_used P pa b s + (if granted (fst (?d i s)) \<and> ?bucket i = b then ?cost i else 0)" by blast
  from * show "file_used P pa (?bucket i) s + ?cost i \<le> m" if "granted (fst (?d i s))" using that by blast
qed

interpretation fbq: quota "\<lambda>(fault, r). file_budget_decide P m pa fault r" "\<lambda>(fault, r). ascii_text (rq_action_name r)"
    "\<lambda>file. \<exists>bg. file_rel P file bg" "file_used P pa" "\<lambda>(fault, r). bucket_of pa r" "\<lambda>(fault, r). 1" m
  for P m pa
  by (rule quota_of_file [OF bq.quota_axioms]) (rule file_budget_step file_budget_fault; assumption)+

interpretation fsq: quota "\<lambda>(fault, r). file_spending_decide P m pa fault r" "\<lambda>(fault, r). ascii_text (rq_action_name r)"
    "\<lambda>file. \<exists>bg. file_rel P file bg" "file_used P pa" "\<lambda>(fault, r). bucket_of pa r" "\<lambda>(fault, r). spend_of r" m
  for P m pa
  by (rule quota_of_file [OF sq.quota_axioms]) (rule file_spending_step file_spending_fault; assumption)+

text \<open>
  C35: A durable budget is never overrun, whatever file operations fail in between: for any
  sequence of calls, each with its own fault, the allowed calls of a bucket stay within the call
  budget and their declared spend within the spending budget.
\<close>

theorem file_budgets_bounded:
  assumes "0 \<le> m" and "list_all (\<lambda>(fault, r). ascii_text (rq_action_name r)) js"
  shows "int (granted_calls (\<lambda>(fault, r). bucket_of pa r = b) js
            (fst (run_all (\<lambda>(fault, r). file_budget_decide P m pa fault r) js None))) \<le> m
    \<and> spent (\<lambda>(fault, r). bucket_of pa r) (\<lambda>(fault, r). spend_of r) b js
            (fst (run_all (\<lambda>(fault, r). file_spending_decide P m pa fault r) js None)) \<le> m"
proof -
  have none: "\<exists>bg. file_rel P None bg" by (auto simp: file_rel_def)
  have zero: "file_used P pa b None = 0"
    by (simp add: file_used_def read_json_state_def budget_state_def budget_payload_def dget_default_def)
  obtain rs s where r: "run_all (\<lambda>(fault, r). file_budget_decide P m pa fault r) js None = (rs, s)"
    by (cases "run_all (\<lambda>(fault, r). file_budget_decide P m pa fault r) js None")
  obtain rs' s' where r': "run_all (\<lambda>(fault, r). file_spending_decide P m pa fault r) js None = (rs', s')"
    by (cases "run_all (\<lambda>(fault, r). file_spending_decide P m pa fault r) js None")
  have sel: "(\<lambda>i :: state_fault \<times> request. (case i of (fault, r) \<Rightarrow> bucket_of pa r) = b)
      = (\<lambda>(fault, r). bucket_of pa r = b)" by auto
  have one: "(\<lambda>(fault, r). 1) = (\<lambda>_ :: state_fault \<times> request. 1 :: int)" by auto
  from fbq.run_bounded [OF assms(2) none r, of b] zero assms(1)
  have "spent (\<lambda>(fault, r). bucket_of pa r) (\<lambda>_. 1) b js rs \<le> m" by (simp add: one)
  moreover from fsq.run_bounded [OF assms(2) none r', of b] zero assms(1)
  have "spent (\<lambda>(fault, r). bucket_of pa r) (\<lambda>(fault, r). spend_of r) b js rs' \<le> m" by simp
  ultimately show ?thesis by (simp add: r r' spent_calls sel)
qed

lemma file_budgets_bounded_witness:
  "int (granted_calls (\<lambda>(fault, r). bucket_of False r = [])
        [(NoStateFault, demo_request), (StateWriteFails, demo_request), (NoStateFault, demo_request)]
        (fst (run_all (\<lambda>(fault, r). file_budget_decide toy_platform 1 False fault r)
           [(NoStateFault, demo_request), (StateWriteFails, demo_request), (NoStateFault, demo_request)] None))) \<le> 1"
  using file_budgets_bounded [of 1 "[(NoStateFault, demo_request), (StateWriteFails, demo_request), (NoStateFault, demo_request)]"]
  by (simp add: demo_request_def)

text \<open>
  File-backed policies fail closed: when an operation on the state file fails, or the file
  holds something that is not a state, the call is not allowed and the file is left as it was.
\<close>

theorem file_policies_fail_closed:
  assumes "fault \<noteq> NoStateFault \<or> read_json_state P file = Inl PolicyError"
  shows "\<not> granted (fst (file_budget_decide P m pa fault r file))
      \<and> snd (file_budget_decide P m pa fault r file) = file
      \<and> \<not> granted (fst (file_spending_decide P m pa fault r file))
      \<and> snd (file_spending_decide P m pa fault r file) = file
      \<and> \<not> granted (fst (file_rate_limit_decide P m w fault now r file))
      \<and> snd (file_rate_limit_decide P m w fault now r file) = file"
proof (cases "fault = NoStateFault")
  case False
  then show ?thesis by (simp add: file_budget_fault file_spending_fault file_rate_limit_fault)
next
  case True
  with assms have "read_json_state P file = Inl PolicyError" by simp
  with True have "with_state P what fault body file = (Inr (deny (exn_str P PolicyError @ ''; failing closed'')), file)"
    for what body by (simp add: with_state_def Let_def)
  then show ?thesis
    by (simp add: file_budget_decide_def file_spending_decide_def file_rate_limit_decide_def split: option.splits)
qed

lemma file_policies_fail_closed_witness:
  "\<not> granted (fst (file_budget_decide toy_platform 5 False NoStateFault demo_request (Some ''[1]'')))"
proof -
  have "read_json_state toy_platform (Some ''[1]'') = Inl PolicyError" by code_simp
  then show ?thesis using file_policies_fail_closed [of NoStateFault toy_platform "Some ''[1]''"] by simp
qed

section \<open>Freshness gates and policy files\<close>

text \<open>
  The witness gate is exact: for a risk it covers it allows only a regular witness file at
  most the maximum age old (a time in the future counts as age zero); a missing, unreadable or
  irregular witness and a failing clock deny.
\<close>

theorem witness_gate_exact:
  "granted (fst (witness_freshness_decide P path max_age risks file clock r s)) \<longleftrightarrow>
     (\<exists>rs. risks = Some rs \<and> rq_risk r \<notin> set rs)
     \<or> (\<exists>mtime now. file = WFile mtime \<and> clock = Inr now \<and> max 0 (float_round P (now - mtime)) \<le> max_age)"
  by (cases risks; cases "file"; cases clock)
    (auto simp: witness_freshness_decide_def witness_age_def Let_def not_less max_def)

lemma str_of_Some: "str_of v = Some s \<longleftrightarrow> v = JStr s"
  by (cases v) auto

lemma parse_risks_known:
  assumes "parse_risks v = Inr (Some rs)"
  shows "set rs \<subseteq> set RISK_LEVELS"
proof -
  from assms obtain js where js: "list_all (\<lambda>r. r \<in> JStr ` set RISK_LEVELS) js"
    "rs = map (\<lambda>r. case r of JStr s \<Rightarrow> s | _ \<Rightarrow> []) js"
    by (auto simp: parse_risks_def split: json.splits if_splits)
  have "(case r of JStr s \<Rightarrow> s | _ \<Rightarrow> []) \<in> set RISK_LEVELS" if "r \<in> set js" for r
  proof -
    from js(1) that obtain s where "r = JStr s" "s \<in> set RISK_LEVELS" by (auto simp: list_all_iff)
    then show ?thesis by simp
  qed
  then show ?thesis by (auto simp: js(2))
qed

lemma parse_rule_decision:
  assumes "parse_rule j = Inr ru"
  shows "ru_decision ru \<in> {DECISION_ALLOWED, DECISION_DENIED} \<and> ru_action ru \<noteq> []
     \<and> (case ru_risks ru of None \<Rightarrow> True | Some rs \<Rightarrow> set rs \<subseteq> set RISK_LEVELS)"
  using assms
  by (auto simp: parse_rule_def bindR_Inr_iff is_decision_def split: json.splits if_splits option.splits
      dest: parse_risks_known [THEN subsetD])

text \<open>
  A policy file that loads decides every request by its first matching rule, and by its
  default, deny unless the file says otherwise, when none matches. Every rule it holds names an
  action pattern, known risks and one of the two decisions.
\<close>

theorem policy_file_first_match:
  assumes "load_policy_file P file = Inr (rules, dflt)"
  shows "(granted (fst (rules_decide P rules dflt r s)) \<longleftrightarrow>
        (case find (\<lambda>ru. rule_matches ru r) rules of
           None \<Rightarrow> dflt = DECISION_ALLOWED
         | Some ru \<Rightarrow> ru_decision ru = DECISION_ALLOWED))
    \<and> (\<forall>ru \<in> set rules. ru_decision ru \<in> {DECISION_ALLOWED, DECISION_DENIED} \<and> ru_action ru \<noteq> []
        \<and> (case ru_risks ru of None \<Rightarrow> True | Some rs \<Rightarrow> set rs \<subseteq> set RISK_LEVELS))
    \<and> (dflt = DECISION_ALLOWED \<longrightarrow> (\<exists>raw d. file = Some raw \<and> json_loads P raw = Some (JObj d)
        \<and> dget d ''default'' = Some (JStr DECISION_ALLOWED)))"
proof -
  have ne: "DECISION_ALLOWED \<noteq> DECISION_DENIED" by (simp add: DECISION_ALLOWED_def DECISION_DENIED_def)
  from assms obtain raw where f1: "file = Some raw" by (cases "file") (simp_all add: load_policy_file_def)
  with assms obtain d where f2: "json_loads P raw = Some (JObj d)"
    by (simp add: load_policy_file_def split: option.splits json.splits)
  note f = f1 f2
  from assms f obtain entries where
    "bindR (mapR parse_rule entries) (\<lambda>rules.
        case str_of (dget_default d ''default'' (JStr DECISION_DENIED)) of
          Some dflt \<Rightarrow> if is_decision dflt then new_rules rules dflt else Inl PolicyError
        | None \<Rightarrow> Inl PolicyError) = Inr (rules, dflt)"
    by (simp add: load_policy_file_def split: if_splits json.splits)
  then obtain rules0 where m: "mapR parse_rule entries = Inr rules0"
    and c: "(case str_of (dget_default d ''default'' (JStr DECISION_DENIED)) of
          Some dflt \<Rightarrow> if is_decision dflt then new_rules rules0 dflt else Inl PolicyError
        | None \<Rightarrow> Inl PolicyError) = Inr (rules, dflt)"
    unfolding bindR_Inr_iff by blast
  then obtain dflt0 where s: "str_of (dget_default d ''default'' (JStr DECISION_DENIED)) = Some dflt0"
    and n: "new_rules rules0 dflt0 = Inr (rules, dflt)"
    by (cases "str_of (dget_default d ''default'' (JStr DECISION_DENIED))") (simp_all split: if_splits)
  from n have "rules0 = rules" "dflt0 = dflt" unfolding new_rules_def by (simp_all split: if_splits)
  with m s have e: "mapR parse_rule entries = Inr rules"
    "str_of (dget_default d ''default'' (JStr DECISION_DENIED)) = Some dflt" by simp_all
  have rules: "\<exists>j. parse_rule j = Inr ru" if "ru \<in> set rules" for ru
    using mapR_mem [OF e(1) that] by blast
  have "dget d ''default'' = Some (JStr DECISION_ALLOWED)" if "dflt = DECISION_ALLOWED"
  proof (cases "dget d ''default''")
    case None
    with e(2) that have "DECISION_DENIED = DECISION_ALLOWED" by (simp add: dget_default_def)
    with ne show ?thesis by simp
  next
    case (Some v)
    with e(2) that show ?thesis by (simp add: dget_default_def str_of_Some)
  qed
  moreover have "granted (fst (rules_decide P rules dflt r s)) \<longleftrightarrow>
      (case find (\<lambda>ru. rule_matches ru r) rules of
         None \<Rightarrow> dflt = DECISION_ALLOWED | Some ru \<Rightarrow> ru_decision ru = DECISION_ALLOWED)"
    using ne by (simp add: rules_decide_def rules_explain_def Let_def vd_allowed_def explain_from_find
        split: option.splits)
  ultimately show ?thesis using f(1,2) rules parse_rule_decision by blast
qed

definition demo_policy :: bytes where
  "demo_policy = ''{ '' @ dump_str ''rules'' @ '':[{'' @ dump_str ''action'' @ '':'' @ dump_str ''pay*'' @ '',''
     @ dump_str ''decision'' @ '':'' @ dump_str ''allowed'' @ ''}]}''"

lemma policy_file_first_match_witness:
  "\<exists>rules dflt. load_policy_file toy_platform (Some demo_policy) = Inr (rules, dflt)
     \<and> granted (fst (rules_decide toy_platform rules dflt demo_request ()))"
proof -
  have "is_ok (load_policy_file toy_platform (Some demo_policy))" by code_simp
  then obtain rules dflt where l: "load_policy_file toy_platform (Some demo_policy) = Inr (rules, dflt)"
    by (auto simp: is_ok_iff)
  have "(case load_policy_file toy_platform (Some demo_policy) of Inl e \<Rightarrow> False
      | Inr (rules, dflt) \<Rightarrow>
          (case find (\<lambda>ru. rule_matches ru demo_request) rules of
             None \<Rightarrow> dflt = DECISION_ALLOWED | Some ru \<Rightarrow> ru_decision ru = DECISION_ALLOWED))"
    by code_simp
  with policy_file_first_match [OF l, of demo_request "()"] l show ?thesis by auto
qed

end
