(* ===== verification/Engine.thy ===== *)
theory Engine
  imports Journal Approval Redaction Verification
begin

text \<open>
  The execution engine (\<open>engine.py\<close>): everything a guarded call does, from binding its arguments to
  the outcome event. The engine works on a store through the operations of the record \<open>store\<close>;
  its own memory (the completed keys, the notified contracts), the provider's state and the number
  of executions are in the record \<open>world\<close>. What the caller passes, and what user code answers when
  the engine asks it, is the record \<open>call\<close>.
\<close>

section \<open>Stores\<close>

text \<open>
  \<open>so_path\<close> is \<open>_store_path\<close>, \<open>so_atomic\<close> is \<open>_has_atomic_append\<close>, \<open>so_key\<close> is \<open>_journal_key\<close>; the
  two finders are the pre-checks of \<open>journal.py\<close> on the store's path.
\<close>

record 'j store =
  so_path :: "string option"
  so_atomic :: bool
  so_key :: string
  so_append :: "(string option \<Rightarrow> exn + event) \<Rightarrow> 'j \<Rightarrow> (exn + event) \<times> 'j"
  so_append_atomic ::
    "(string option \<Rightarrow> string option \<Rightarrow> exn + event) \<Rightarrow> string \<Rightarrow> string \<Rightarrow> 'j \<Rightarrow> (exn + event) \<times> 'j"
  so_completed :: "string \<Rightarrow> string \<Rightarrow> 'j \<Rightarrow> (exn + event option) \<times> 'j"
  so_blocking :: "string \<Rightarrow> string \<Rightarrow> 'j \<Rightarrow> (exn + event option) \<times> 'j"

type_synonym triple = "string \<times> string \<times> string"

record ('j, 's) world =
  w_store :: 'j
  w_done_file :: "triple list"
  w_done_custom :: "triple list"
  w_provider :: 's
  w_observed :: "string list"
  w_draws :: nat
  w_runs :: nat

datatype key_spec = NoKey | KeyText string | KeyFun "exn + pyval"

record ('j, 's) call =
  k_contract :: contract
  k_sensitive :: "string list"
  k_patterns :: "pattern list"
  k_metadata :: "json option"
  k_bound :: "exn + (string \<times> pyval) list" \<comment> \<open>\<open>signature.bind\<close> and \<open>apply_defaults\<close>\<close>
  k_heap :: heap
  k_root :: nat \<comment> \<open>where the fresh \<open>dict(bound.arguments)\<close> is\<close>
  k_str :: "pyval \<Rightarrow> string"
  k_type :: "pyval \<Rightarrow> string"
  k_exn_type :: "exn \<Rightarrow> string"
  k_provider :: "(bool \<times> 's provider) option" \<comment> \<open>with whether it is an \<open>AutoAllowProvider\<close>\<close>
  k_terminal :: "'s provider"
  k_identity :: "exn + signer"
  k_observer :: "(exn + unit) option"
  k_dry_run :: bool
  k_key :: key_spec
  k_spend :: "(exn + pyval) option"
  k_receipt :: "(pyval \<Rightarrow> exn + pyval) option"
  k_target :: "exn + pyval"
  k_result_heap :: heap
  k_during :: "'j \<Rightarrow> 'j" \<comment> \<open>what happens to the store while the function runs\<close>

section \<open>Completed keys\<close>

definition COMPLETED_FILE_MAX :: nat where "COMPLETED_FILE_MAX = 8192"

definition file_key :: "string \<Rightarrow> bool" where "file_key k = starts_with ''file:'' k"

definition mark_completed :: "'j store \<Rightarrow> string \<Rightarrow> string \<Rightarrow> ('j, 's) world \<Rightarrow> ('j, 's) world" where
  "mark_completed so action key w =
     (let t = (so_key so, action, key) in
      if file_key (so_key so) then
        (let d = (if t \<in> set (w_done_file w) then w_done_file w else w_done_file w @ [t])
         in w\<lparr>w_done_file := drop (length d - COMPLETED_FILE_MAX) d\<rparr>)
      else w\<lparr>w_done_custom := (if t \<in> set (w_done_custom w) then w_done_custom w else w_done_custom w @ [t])\<rparr>)"

definition is_completed :: "'j store \<Rightarrow> string \<Rightarrow> string \<Rightarrow> ('j, 's) world \<Rightarrow> bool" where
  "is_completed so action key w \<longleftrightarrow>
     (so_key so, action, key) \<in> set (if file_key (so_key so) then w_done_file w else w_done_custom w)"

text \<open>\<open>_purge_custom_token\<close>, run when a custom store is collected.\<close>

definition purge_custom_token :: "string \<Rightarrow> ('j, 's) world \<Rightarrow> ('j, 's) world" where
  "purge_custom_token token w = w\<lparr>w_done_custom := filter (\<lambda>t. fst t \<noteq> token) (w_done_custom w)\<rparr>"

definition reset_idempotency_state :: "('j, 's) world \<Rightarrow> ('j, 's) world" where
  "reset_idempotency_state w = w\<lparr>w_done_file := [], w_done_custom := []\<rparr>"

section \<open>Keys and spend\<close>

definition text_of :: "(pyval \<Rightarrow> string) \<Rightarrow> pyval \<Rightarrow> string" where
  "text_of shw v = (case v of PStr s \<Rightarrow> s | _ \<Rightarrow> shw v)"

definition resolve_idempotency_key ::
  "(pyval \<Rightarrow> string) \<Rightarrow> key_spec \<Rightarrow> (string \<times> pyval) list \<Rightarrow> exn + string option" where
  "resolve_idempotency_key shw spec bound =
     (let finish = (\<lambda>raw. let key = text_of shw raw in if key = [] then Inl ContractError else Inr (Some key))
      in case spec of
           NoKey \<Rightarrow> Inr None
         | KeyFun r \<Rightarrow>
             (case r of
                Inl e \<Rightarrow> Inl (if is_exception e then ContractError else e)
              | Inr raw \<Rightarrow> if raw = PNone then Inl ContractError else finish raw)
         | KeyText s \<Rightarrow> (case dget bound s of Some raw \<Rightarrow> finish raw | None \<Rightarrow> finish (PStr s)))"

definition resolve_spend_cents :: "(exn + pyval) option \<Rightarrow> exn + int option" where
  "resolve_spend_cents spec =
     (case spec of
        None \<Rightarrow> Inr None
      | Some r \<Rightarrow>
          (case r of
             Inl e \<Rightarrow> Inl (if is_exception e then ContractError else e)
           | Inr PNone \<Rightarrow> Inr None
           | Inr (PInt i) \<Rightarrow> if i < 0 then Inl ContractError else Inr (Some i)
           | Inr _ \<Rightarrow> Inl ContractError))"

section \<open>Evidence fields\<close>

definition parameter_retention :: "(string \<times> json) list \<Rightarrow> json" where
  "parameter_retention d =
     JArr (map (\<lambda>(name, v).
         JObj [(''name'', JStr name),
               (''state'', JStr (if v = JStr REDACTED then ''redacted''
                  else if (case v of JStr s \<Rightarrow> starts_with UNSUPPORTED_MARKER s | _ \<Rightarrow> False) then ''unsupported''
                  else ''retained''))])
       (sort_key fst d))"

definition opt_member :: "string \<Rightarrow> json option \<Rightarrow> (string \<times> json) list" where
  "opt_member k v = (case v of None \<Rightarrow> [] | Some j \<Rightarrow> [(k, j)])"

text \<open>The fields every engine event starts with.\<close>

definition common_fields :: "platform \<Rightarrow> contract \<Rightarrow> string \<Rightarrow> string \<Rightarrow> nat \<Rightarrow> string option \<Rightarrow> event" where
  "common_fields P c ty key_id n previous_hash =
     [(''schema_version'', JStr EVENT_SCHEMA_VERSION),
      (''event_type'', JStr ty),
      (''event_id'', JStr (uuid4 P n)),
      (''action_id'', JStr (action_id c)),
      (''action_name'', JStr (c_action_name c)),
      (''contract_hash'', JStr (c_hash c)),
      (''timestamp_utc'', JStr (utc_now P n)),
      (''key_id'', JStr key_id),
      (''previous_event_hash'', opt_str previous_hash)]"

text \<open>What the traversal of the arguments leaves for the events.\<close>

record prepared_input =
  in_members :: "(string \<times> json) list"
  in_hash :: string
  in_summary :: string
  in_redacted :: "string list"

definition duplicate_extra ::
  "('j, 's) call \<Rightarrow> prepared_input \<Rightarrow> string \<Rightarrow> int option \<Rightarrow> string option \<Rightarrow> event" where
  "duplicate_extra k inp key spend prior_id =
     [(''decision'', JStr DECISION_DENIED),
      (''risk'', JStr (c_risk (k_contract k))),
      (''approval_mode'', JStr (c_approval_mode (k_contract k))),
      (''redacted_input_summary'', JStr (in_summary inp)),
      (''parameter_retention'', parameter_retention (in_members inp)),
      (''input_hash'', JStr (in_hash inp)),
      (''idempotency_key'', JStr key),
      (''approval_reason'', JStr ''duplicate idempotency key; already reserved or completed'')]
     @ opt_member ''spend_cents'' (map_option JInt spend)
     @ opt_member ''duplicate_of'' (map_option JStr prior_id)
     @ opt_member ''metadata'' (k_metadata k)"

definition decision_extra ::
  "('j, 's) call \<Rightarrow> prepared_input \<Rightarrow> string option \<Rightarrow> int option \<Rightarrow> verdict \<Rightarrow> event" where
  "decision_extra k inp key spend v =
     [(''decision'', JStr (vd_decision v)),
      (''risk'', JStr (c_risk (k_contract k))),
      (''approval_mode'', JStr (c_approval_mode (k_contract k))),
      (''redacted_input_summary'', JStr (in_summary inp)),
      (''parameter_retention'', parameter_retention (in_members inp)),
      (''input_hash'', JStr (in_hash inp)),
      (''approval_reason'', JStr (scrub_text (vd_reason v) (in_redacted inp) (k_patterns k) 300))]
     @ opt_member ''approved_by''
         (case vd_approved_by v of
            Some a \<Rightarrow> if a \<noteq> [] then Some (JStr (scrub_text a (in_redacted inp) (k_patterns k) 120)) else None
          | None \<Rightarrow> None)
     @ opt_member ''idempotency_key'' (map_option JStr key)
     @ opt_member ''spend_cents'' (map_option JInt spend)
     @ (if k_dry_run k then [(''dry_run'', JBool True)] else [])
     @ opt_member ''metadata'' (k_metadata k)"

definition build_event ::
  "platform \<Rightarrow> contract \<Rightarrow> signer \<Rightarrow> nat \<Rightarrow> string \<Rightarrow> event \<Rightarrow> string option \<Rightarrow> exn + event" where
  "build_event P c sg n ty extra previous_hash =
     finalize_event P (dupdate (common_fields P c ty (s_key_id sg) n previous_hash) extra) (s_sign sg)"

text \<open>\<open>_append_event\<close>.\<close>

definition engine_append ::
  "platform \<Rightarrow> 'j store \<Rightarrow> contract \<Rightarrow> signer \<Rightarrow> string \<Rightarrow> event \<Rightarrow> ('j, 's) world
     \<Rightarrow> (exn + event) \<times> ('j, 's) world" where
  "engine_append P so c sg ty extra w =
     (let (r, j) = so_append so (build_event P c sg (w_draws w) ty extra) (w_store w)
      in (r, w\<lparr>w_store := j, w_draws := Suc (w_draws w)\<rparr>))"

section \<open>Before the execution\<close>

text \<open>\<open>notify_once\<close> with one observer per world: a failed notification is not remembered.\<close>

definition notify_once :: "(exn + unit) option \<Rightarrow> contract \<Rightarrow> ('j, 's) world \<Rightarrow> (exn + unit) \<times> ('j, 's) world" where
  "notify_once observer c w =
     (case observer of
        None \<Rightarrow> (Inr (), w)
      | Some r \<Rightarrow>
          if c_hash c \<in> set (w_observed w) then (Inr (), w)
          else (case r of
                  Inl e \<Rightarrow> (Inl e, w)
                | Inr _ \<Rightarrow> (Inr (), w\<lparr>w_observed := c_hash c # w_observed w\<rparr>)))"

definition prepare_input :: "platform \<Rightarrow> ('j, 's) call \<Rightarrow> (string \<times> pyval) list \<Rightarrow> exn + prepared_input" where
  "prepare_input P k bound =
     bindR (canonicalize P (k_sensitive k) (k_patterns k) (k_str k)
              ((k_heap k)(k_root k := ODict (map (\<lambda>(n, v). (PStr n, v)) bound))) (PRef (k_root k)))
       (\<lambda>(j, redacted).
          bindR (canonical_json_bytes P j) (\<lambda>b.
            Inr \<lparr>in_members = (case j of JObj d \<Rightarrow> d | _ \<Rightarrow> []), in_hash = sha256_hex P b,
                 in_summary = bounded_summary P j, in_redacted = redacted\<rparr>))"

text \<open>The best-effort duplicate check before approval: the id it found, if any.\<close>

definition quiet :: "exn + event option \<Rightarrow> event option" where
  "quiet r = (case r of Inl e \<Rightarrow> None | Inr x \<Rightarrow> x)"

definition precheck ::
  "'j store \<Rightarrow> string \<Rightarrow> string \<Rightarrow> ('j, 's) world \<Rightarrow> string option \<times> ('j, 's) world" where
  "precheck so action key w =
     (if is_completed so action key w \<or> so_path so = None then (None, w)
      else
        (let (r, j) = so_completed so action key (w_store w); w = w\<lparr>w_store := j\<rparr> in
         case quiet r of
           Some e \<Rightarrow> (event_id_of e, mark_completed so action key w)
         | None \<Rightarrow>
             (let (r, j) = so_blocking so action key (w_store w); w = w\<lparr>w_store := j\<rparr> in
              (case quiet r of Some e \<Rightarrow> event_id_of e | None \<Rightarrow> None, w))))"

definition evaluate_approval ::
  "('j, 's) call \<Rightarrow> request \<Rightarrow> 's \<Rightarrow> (exn + verdict) \<times> 's" where
  "evaluate_approval k r s =
     (if c_approval_mode (k_contract k) = ''never'' \<and> (case k_provider k of Some (auto, _) \<Rightarrow> \<not> auto | None \<Rightarrow> False)
      then (Inl ContractError, s)
      else
        (let active = (if c_approval_mode (k_contract k) = ''never'' then auto_allow_decide
                       else case k_provider k of Some (_, p) \<Rightarrow> p | None \<Rightarrow> k_terminal k);
             (res, s') = active r s
         in (case res of
               Inl e \<Rightarrow> Inl (if is_tesera_error e \<or> \<not> is_exception e then e else ApprovalError)
             | Inr v \<Rightarrow>
                 if vd_decision v \<in> {DECISION_ALLOWED, DECISION_DENIED} then Inr v else Inl ApprovalError, s')))"

text \<open>
  The decision under the store's lock. The event tells which branch built it: only the duplicate
  branch writes \<open>duplicate_of\<close>, and without a blocking id it is taken exactly when the key is
  already completed in this process.
\<close>

definition build_atomic ::
  "platform \<Rightarrow> 'j store \<Rightarrow> ('j, 's) call \<Rightarrow> signer \<Rightarrow> prepared_input \<Rightarrow> string \<Rightarrow> int option \<Rightarrow> verdict
     \<Rightarrow> ('j, 's) world \<Rightarrow> string option \<Rightarrow> string option \<Rightarrow> exn + event" where
  "build_atomic P so k sg inp key spend v w previous_hash blocking =
     (let c = k_contract k; extra =
        (if blocking \<noteq> None \<or> is_completed so (c_action_name c) key w
         then duplicate_extra k inp key spend blocking else decision_extra k inp (Some key) spend v)
      in build_event P c sg (w_draws w) ''decision'' extra previous_hash)"

record prepared =
  pr_signer :: signer
  pr_event :: event
  pr_redacted :: "string list"
  pr_dry_run :: bool

definition reserve ::
  "platform \<Rightarrow> 'j store \<Rightarrow> ('j, 's) call \<Rightarrow> signer \<Rightarrow> prepared_input \<Rightarrow> string option \<Rightarrow> int option \<Rightarrow> verdict
     \<Rightarrow> ('j, 's) world \<Rightarrow> (exn + event) \<times> ('j, 's) world" where
  "reserve P so k sg inp key spend v w =
     (let c = k_contract k; action = c_action_name c in
      case key of
        Some ky \<Rightarrow>
          if so_atomic so then
            (let (r, j) = so_append_atomic so (build_atomic P so k sg inp ky spend v w) action ky (w_store w);
                 w' = w\<lparr>w_store := j, w_draws := Suc (w_draws w)\<rparr>
             in case r of
                  Inl e \<Rightarrow> (Inl e, w')
                | Inr e \<Rightarrow>
                    if is_completed so action ky w \<or> has_key e ''duplicate_of''
                    then (Inl (DuplicateActionError action ky (str_of (jget e ''duplicate_of''))), w')
                    else (Inr e, w'))
          else if is_completed so action ky w then
            (case engine_append P so c sg ''decision'' (duplicate_extra k inp ky spend None) w of
               (Inl e, w') \<Rightarrow> (Inl e, w')
             | (Inr _, w') \<Rightarrow> (Inl (DuplicateActionError action ky None), w'))
          else engine_append P so c sg ''decision'' (decision_extra k inp key spend v) w
      | None \<Rightarrow> engine_append P so c sg ''decision'' (decision_extra k inp key spend v) w)"

definition approval_request :: "contract \<Rightarrow> prepared_input \<Rightarrow> int option \<Rightarrow> request" where
  "approval_request c inp spend =
     \<lparr>rq_action_name = c_action_name c, rq_risk = c_risk c, rq_approval_mode = c_approval_mode c,
      rq_summary = in_summary inp, rq_input_hash = in_hash inp, rq_contract_hash = c_hash c,
      rq_spend_cents = spend\<rparr>"

text \<open>Steps 6 and 7: approval, then the decision event, then the verdict is enforced.\<close>

definition decide_and_record ::
  "platform \<Rightarrow> 'j store \<Rightarrow> ('j, 's) call \<Rightarrow> signer \<Rightarrow> prepared_input \<Rightarrow> string option \<Rightarrow> int option
     \<Rightarrow> ('j, 's) world \<Rightarrow> (exn + prepared) \<times> ('j, 's) world" where
  "decide_and_record P so k sg inp key spend w =
     (case evaluate_approval k (approval_request (k_contract k) inp spend) (w_provider w) of
        (Inl e, s) \<Rightarrow> (Inl e, w\<lparr>w_provider := s\<rparr>)
      | (Inr v, s) \<Rightarrow>
          (case reserve P so k sg inp key spend v (w\<lparr>w_provider := s\<rparr>) of
             (Inl e, w') \<Rightarrow> (Inl e, w')
           | (Inr e, w') \<Rightarrow>
               if \<not> vd_allowed v then (Inl (ActionDenied (c_action_name (k_contract k))), w')
               else (Inr \<lparr>pr_signer = sg, pr_event = e, pr_redacted = in_redacted inp,
                          pr_dry_run = k_dry_run k\<rparr>, w')))"

text \<open>\<open>_prepare_execution\<close>.\<close>

definition prepare_execution ::
  "platform \<Rightarrow> 'j store \<Rightarrow> ('j, 's) call \<Rightarrow> ('j, 's) world \<Rightarrow> (exn + prepared) \<times> ('j, 's) world" where
  "prepare_execution P so k w =
     (case k_bound k of
        Inl e \<Rightarrow> (Inl e, w)
      | Inr bound \<Rightarrow>
          (case notify_once (k_observer k) (k_contract k) w of
             (Inl e, w) \<Rightarrow> (Inl e, w)
           | (Inr _, w) \<Rightarrow>
               (case bindR (prepare_input P k bound) (\<lambda>inp.
                       bindR (resolve_idempotency_key (k_str k) (k_key k) bound) (\<lambda>key.
                       bindR (resolve_spend_cents (k_spend k)) (\<lambda>spend.
                       bindR (k_identity k) (\<lambda>sg. Inr (inp, key, spend, sg))))) of
                  Inl e \<Rightarrow> (Inl e, w)
                | Inr (inp, key, spend, sg) \<Rightarrow>
                    (case key of
                       None \<Rightarrow> decide_and_record P so k sg inp key spend w
                     | Some ky \<Rightarrow>
                         (let action = c_action_name (k_contract k);
                              (prior, w) = precheck so action ky w
                          in if prior \<noteq> None \<or> is_completed so action ky w then
                               (case engine_append P so (k_contract k) sg ''decision''
                                       (duplicate_extra k inp ky spend prior) w of
                                  (Inl e, w) \<Rightarrow> (Inl e, w)
                                | (Inr _, w) \<Rightarrow> (Inl (DuplicateActionError action ky prior), w))
                             else decide_and_record P so k sg inp key spend w)))))"

section \<open>The outcome\<close>

definition extract_receipt :: "platform \<Rightarrow> ('j, 's) call \<Rightarrow> pyval \<Rightarrow> exn + json option" where
  "extract_receipt P k result =
     (case k_receipt k of
        None \<Rightarrow> Inr None
      | Some f \<Rightarrow>
          (case f result of
             Inl e \<Rightarrow> if is_exception e then Inr None else Inl e
           | Inr receipt \<Rightarrow>
               if receipt = PNone then Inr None
               else (case canonicalize P (k_sensitive k) (k_patterns k) (k_str k) (k_result_heap k) receipt of
                       Inl e \<Rightarrow> if e = CanonicalizationError then Inr None else Inl e
                     | Inr (j, _) \<Rightarrow>
                         if is_obj j \<and> py_len (json_display P j) \<le> 2000 then Inr (Some j) else Inr None)))"

definition safe_output_hash :: "platform \<Rightarrow> ('j, 's) call \<Rightarrow> string list \<Rightarrow> pyval \<Rightarrow> exn + string option" where
  "safe_output_hash P k redacted result =
     (if redacted \<noteq> [] \<and> result \<noteq> PNone \<and> text_of (k_str k) result \<in> set redacted then Inr None
      else if (case result of PStr s \<Rightarrow> s \<in> set redacted \<or> (\<exists>p \<in> set (k_patterns k). p_search p s) | _ \<Rightarrow> False)
        then Inr None
      else (case bindR (canonicalize P (k_sensitive k) (k_patterns k) (k_str k) (k_result_heap k) result)
                   (\<lambda>(j, _). canonical_json_bytes P j) of
              Inl e \<Rightarrow> if e = CanonicalizationError then Inr None else Inl e
            | Inr b \<Rightarrow> Inr (Some (sha256_hex P b))))"

definition outcome_extra ::
  "platform \<Rightarrow> ('j, 's) call \<Rightarrow> prepared \<Rightarrow> exn + pyval \<Rightarrow> exn + event" where
  "outcome_extra P k pr res =
     (let link = (\<lambda>status. [(''status'', JStr status), (''decision_event_id'', jget (pr_event pr) ''event_id'')])
      in case res of
           Inr v \<Rightarrow>
             bindR (safe_output_hash P k (pr_redacted pr) v) (\<lambda>h.
             bindR (extract_receipt P k v) (\<lambda>receipt.
               Inr (link ''succeeded'' @ [(''observed_result_type'', JStr (k_type k v))]
                    @ opt_member ''redacted_output_hash'' (map_option JStr h) @ opt_member ''receipt'' receipt)))
         | Inl e \<Rightarrow>
             Inr (link ''failed''
               @ [(''observed_result_type'', JNull), (''exception_type'', JStr (k_exn_type k e)),
                  (''sanitized_error_summary'', JStr (scrub_text (exn_str P e) (pr_redacted pr) (k_patterns k) 300))]))"

text \<open>\<open>_record_outcome_or_raise\<close>: None, or the exception it raises.\<close>

definition record_outcome ::
  "platform \<Rightarrow> 'j store \<Rightarrow> ('j, 's) call \<Rightarrow> prepared \<Rightarrow> exn + pyval \<Rightarrow> ('j, 's) world
     \<Rightarrow> exn option \<times> ('j, 's) world" where
  "record_outcome P so k pr res w =
     (let status = (case res of Inr _ \<Rightarrow> ''succeeded'' | Inl _ \<Rightarrow> ''failed'');
          decision_id = event_id_of (pr_event pr)
      in case outcome_extra P k pr res of
           Inl e \<Rightarrow> (Some e, w)
         | Inr extra \<Rightarrow>
             (case engine_append P so (k_contract k) (pr_signer pr) ''outcome'' extra w of
                (Inr _, w) \<Rightarrow> (None, w)
              | (Inl e, w) \<Rightarrow>
                  (Some (case e of
                           EventShipError _ _ _ \<Rightarrow> EventShipError decision_id True (Some status)
                         | _ \<Rightarrow> if is_exception e then ExecutionCompletedEvidenceError decision_id status else e), w)))"

section \<open>The call\<close>

text \<open>\<open>execute_sync\<close>; \<open>execute_async\<close> differs only in awaiting the target.\<close>

definition execute ::
  "platform \<Rightarrow> 'j store \<Rightarrow> ('j, 's) call \<Rightarrow> ('j, 's) world \<Rightarrow> (exn + pyval) \<times> ('j, 's) world" where
  "execute P so k w =
     (case prepare_execution P so k w of
        (Inl e, w) \<Rightarrow> (Inl e, w)
      | (Inr pr, w) \<Rightarrow>
          if pr_dry_run pr then (Inr PNone, w)
          else
            (let w = w\<lparr>w_runs := Suc (w_runs w), w_store := k_during k (w_store w)\<rparr> in
             case k_target k of
               Inl e \<Rightarrow>
                 if \<not> is_exception e then (Inl e, w)
                 else (case record_outcome P so k pr (Inl e) w of
                         (Some x, w) \<Rightarrow> (Inl x, w)
                       | (None, w) \<Rightarrow> (Inl e, w))
             | Inr v \<Rightarrow>
                 (case record_outcome P so k pr (Inr v) w of
                    (Some x, w) \<Rightarrow> (Inl x, w)
                  | (None, w) \<Rightarrow>
                      (Inr v,
                       if truthy (jget (pr_event pr) ''idempotency_key'')
                       then mark_completed so (c_action_name (k_contract k))
                              (py_str P (jget (pr_event pr) ''idempotency_key'')) w
                       else w))))"

end
