(* ===== verification/EngineProps.thy ===== *)
theory EngineProps
  imports Engine Chain
begin

text \<open>
  What the engine guarantees of every call: nothing runs before an allowed decision is in the
  journal, nothing runs twice under one key, and after a run the outcome is recorded or the caller
  is told. The locale \<open>evidence_store\<close> is what the engine needs of a store; it is interpreted on
  the file journal.
\<close>

section \<open>The file journal as a store\<close>

record jstate =
  j_bytes :: bytes
  j_exists :: bool
  j_mtime :: nat
  j_fault :: fault
  j_index :: idem_cache
  j_pre :: precheck_cache

definition j_content :: "jstate \<Rightarrow> bytes option" where
  "j_content j = (if j_exists j then Some (j_bytes j) else None)"

definition j_token :: "jstate \<Rightarrow> stat_token option" where
  "j_token j = (if j_exists j then Some (j_mtime j, length (j_bytes j)) else None)"

definition j_after :: "jstate \<Rightarrow> appended \<Rightarrow> (exn + event) \<times> jstate" where
  "j_after j a = (case a of (r, f, c) \<Rightarrow>
     (r, j\<lparr>j_bytes := f, j_index := c, j_exists := (j_exists j \<or> j_fault j \<noteq> OpenFails)\<rparr>))"

definition j_found :: "jstate \<Rightarrow> exn + event option \<times> precheck_cache \<Rightarrow> (exn + event option) \<times> jstate" where
  "j_found j r = (case r of Inl e \<Rightarrow> (Inl e, j) | Inr (x, pc) \<Rightarrow> (Inr x, j\<lparr>j_pre := pc\<rparr>))"

definition file_store :: "platform \<Rightarrow> string \<Rightarrow> jstate store" where
  "file_store P path =
     \<lparr>so_path = Some path, so_atomic = True, so_key = ''file:'' @ path,
      so_append = (\<lambda>build j. j_after j (append_event P path (j_fault j) build (j_bytes j) (j_index j))),
      so_append_atomic = (\<lambda>build action key j.
        j_after j (append_event_atomic P path (j_fault j) build (Some (action, key)) (j_bytes j) (j_index j))),
      so_completed = (\<lambda>action key j.
        j_found j (find_completed_idempotent_decision P path (j_content j) (j_token j) (j_token j)
          (j_index j) (j_pre j) action key)),
      so_blocking = (\<lambda>action key j.
        j_found j (find_blocking_idempotent_decision P path (j_content j) (j_token j) (j_token j)
          (j_index j) (j_pre j) action key))\<rparr>"

section \<open>The events the engine builds\<close>

lemma dget_opt_member [simp]:
  "dget (opt_member k v) k = v" "k' \<noteq> k \<Longrightarrow> dget (opt_member k v) k' = None"
  by (simp_all add: opt_member_def split: option.split)

lemma keys_opt_member [simp]: "map fst (opt_member k v) = (case v of None \<Rightarrow> [] | Some j \<Rightarrow> [k])"
  by (simp add: opt_member_def split: option.splits)

lemma mem_opt_member [simp]: "x \<in> set (opt_member k v) \<longleftrightarrow> (\<exists>j. v = Some j \<and> x = (k, j))"
  by (auto simp: opt_member_def split: option.splits)

lemma decision_payload:
  "dupdate (common_fields P c ''decision'' kid n prev) (decision_extra k inp key spend v)
     = common_fields P c ''decision'' kid n prev @ decision_extra k inp key spend v"
  by (rule dupdate_distinct) (auto simp: common_fields_def decision_extra_def split: option.splits)

lemma duplicate_payload:
  "dupdate (common_fields P c ''decision'' kid n prev) (duplicate_extra k inp key spend prior)
     = common_fields P c ''decision'' kid n prev @ duplicate_extra k inp key spend prior"
  by (rule dupdate_distinct) (auto simp: common_fields_def duplicate_extra_def split: option.splits)

lemma outcome_payload:
  assumes "outcome_extra P k pr res = Inr extra"
  shows "dupdate (common_fields P c ''outcome'' kid n prev) extra = common_fields P c ''outcome'' kid n prev @ extra"
  using assms
  by (intro dupdate_distinct)
    (auto simp: common_fields_def outcome_extra_def bindR_Inr_iff split: sum.splits option.splits)

text \<open>An allowed decision of the call, and an outcome that answers it.\<close>

definition approved_decision :: "platform \<Rightarrow> ('j, 's) call \<Rightarrow> event \<Rightarrow> bool" where
  "approved_decision P k e \<longleftrightarrow>
     (\<exists>sg n inp key spend v prev.
        k_identity k = Inr sg \<and> vd_allowed v
        \<and> build_event P (k_contract k) sg n ''decision'' (decision_extra k inp key spend v) prev = Inr e)"

definition keyed :: "('j, 's) call \<Rightarrow> string \<Rightarrow> bool" where
  "keyed k ky \<longleftrightarrow>
     (\<exists>bound. k_bound k = Inr bound \<and> resolve_idempotency_key (k_str k) (k_key k) bound = Inr (Some ky))"

definition answers_decision :: "platform \<Rightarrow> ('j, 's) call \<Rightarrow> event \<Rightarrow> string \<Rightarrow> event \<Rightarrow> bool" where
  "answers_decision P k e status out \<longleftrightarrow>
     jget out ''event_type'' = JStr ''outcome'' \<and> jget out ''status'' = JStr status
     \<and> jget out ''decision_event_id'' = jget e ''event_id''
     \<and> jget out ''contract_hash'' = JStr (c_hash (k_contract k))"

lemma finalize_dget:
  "finalize_event P p sign = Inr e \<Longrightarrow> k \<notin> {''signature'', ''event_hash''} \<Longrightarrow> dget e k = dget p k"
  by (auto simp: finalize_event_def bindR_Inr_iff)

lemmas event_field_simps = map_add_def jget_def common_fields_def decision_extra_def duplicate_extra_def opt_str_def

lemma build_decision_fields:
  assumes "build_event P c sg n ''decision'' (decision_extra k inp key spend v) prev = Inr e"
  shows "jget e ''event_type'' = JStr ''decision''"
    and "jget e ''decision'' = JStr (vd_decision v)"
    and "jget e ''action_name'' = JStr (c_action_name c)"
    and "jget e ''contract_hash'' = JStr (c_hash c)"
    and "jget e ''idempotency_key'' = opt_str key"
    and "jget e ''event_id'' = JStr (uuid4 P n)"
    and "\<not> has_key e ''duplicate_of''"
    and "jget e ''dry_run'' = (if k_dry_run k then JBool True else JNull)"
proof -
  note get = finalize_dget [OF assms [unfolded build_event_def decision_payload]]
  show "jget e ''event_type'' = JStr ''decision''" by (simp add: get event_field_simps)
  show "jget e ''decision'' = JStr (vd_decision v)" by (simp add: get event_field_simps)
  show "jget e ''action_name'' = JStr (c_action_name c)" by (simp add: get event_field_simps)
  show "jget e ''contract_hash'' = JStr (c_hash c)" by (simp add: get event_field_simps)
  show "jget e ''idempotency_key'' = opt_str key"
    by (simp add: get event_field_simps split: option.split)
  show "jget e ''event_id'' = JStr (uuid4 P n)" by (simp add: get event_field_simps)
  show "\<not> has_key e ''duplicate_of''"
    by (simp add: has_key_def get event_field_simps split: option.split)
  show "jget e ''dry_run'' = (if k_dry_run k then JBool True else JNull)"
    by (simp add: get event_field_simps split: option.split)
qed

lemma build_duplicate_fields:
  assumes "build_event P c sg n ''decision'' (duplicate_extra k inp key spend prior) prev = Inr e"
  shows "jget e ''duplicate_of'' = opt_str prior" and "has_key e ''duplicate_of'' \<longleftrightarrow> prior \<noteq> None"
    and "jget e ''decision'' = JStr DECISION_DENIED"
proof -
  note get = finalize_dget [OF assms [unfolded build_event_def duplicate_payload]]
  show "jget e ''duplicate_of'' = opt_str prior"
    by (simp add: get event_field_simps split: option.split)
  show "has_key e ''duplicate_of'' \<longleftrightarrow> prior \<noteq> None"
    by (simp add: has_key_def get event_field_simps split: option.split)
  show "jget e ''decision'' = JStr DECISION_DENIED" by (simp add: get event_field_simps)
qed

lemma build_outcome_fields:
  assumes "outcome_extra P k pr res = Inr extra" and "build_event P c sg n ''outcome'' extra prev = Inr e"
  shows "jget e ''event_type'' = JStr ''outcome''"
    and "jget e ''contract_hash'' = JStr (c_hash c)"
    and "jget e ''status'' = JStr (case res of Inr _ \<Rightarrow> ''succeeded'' | Inl _ \<Rightarrow> ''failed'')"
    and "jget e ''decision_event_id'' = jget (pr_event pr) ''event_id''"
proof -
  note get = finalize_dget [OF assms(2) [unfolded build_event_def outcome_payload [OF assms(1)]]]
  have ext: "dget extra ''status'' = Some (JStr (case res of Inr _ \<Rightarrow> ''succeeded'' | Inl _ \<Rightarrow> ''failed''))"
    "dget extra ''decision_event_id'' = Some (jget (pr_event pr) ''event_id'')"
    using assms(1) by (auto simp: outcome_extra_def bindR_Inr_iff Let_def split: sum.splits)
  show "jget e ''event_type'' = JStr ''outcome''" by (simp add: get event_field_simps)
  show "jget e ''contract_hash'' = JStr (c_hash c)" by (simp add: get event_field_simps)
  show "jget e ''status'' = JStr (case res of Inr _ \<Rightarrow> ''succeeded'' | Inl _ \<Rightarrow> ''failed'')"
    by (simp add: get ext jget_def common_fields_def map_add_def)
  show "jget e ''decision_event_id'' = jget (pr_event pr) ''event_id''"
    by (simp add: get ext jget_def common_fields_def map_add_def)
qed

text \<open>The part of \<open>prepare_execution\<close> after everything that can fail without the store.\<close>

definition checked_decision ::
  "platform \<Rightarrow> 'j store \<Rightarrow> ('j, 's) call \<Rightarrow> signer \<Rightarrow> prepared_input \<Rightarrow> string option \<Rightarrow> int option
     \<Rightarrow> ('j, 's) world \<Rightarrow> (exn + prepared) \<times> ('j, 's) world" where
  "checked_decision P so k sg inp key spend w =
     (case key of
        None \<Rightarrow> decide_and_record P so k sg inp key spend w
      | Some ky \<Rightarrow>
          (let action = c_action_name (k_contract k);
               (prior, w) = precheck so action ky w
           in if prior \<noteq> None \<or> is_completed so action ky w then
                (case engine_append P so (k_contract k) sg ''decision''
                        (duplicate_extra k inp ky spend prior) w of
                   (Inl e, w) \<Rightarrow> (Inl e, w)
                 | (Inr _, w) \<Rightarrow> (Inl (DuplicateActionError action ky prior), w))
              else decide_and_record P so k sg inp key spend w))"

lemma notify_frame:
  "notify_once obs c w = (r, w') \<Longrightarrow> w_store w' = w_store w \<and> w_runs w' = w_runs w
     \<and> is_completed so a k w' = is_completed so a k w"
  by (auto simp: notify_once_def is_completed_def split: option.splits if_splits sum.splits)

lemma prepare_cases:
  assumes "prepare_execution P so k w = (r, w')"
  obtains (refused) e where "r = Inl e" "w_store w' = w_store w" "w_runs w' = w_runs w"
  | (checked) bound w1 inp key spend sg where "k_bound k = Inr bound"
      "notify_once (k_observer k) (k_contract k) w = (Inr (), w1)" "prepare_input P k bound = Inr inp"
      "resolve_idempotency_key (k_str k) (k_key k) bound = Inr key" "resolve_spend_cents (k_spend k) = Inr spend"
      "k_identity k = Inr sg" "checked_decision P so k sg inp key spend w1 = (r, w')"
proof (cases "k_bound k")
  case (Inl e)
  with assms show ?thesis by (intro refused) (auto simp: prepare_execution_def)
next
  case b: (Inr bound)
  obtain n w1 where n: "notify_once (k_observer k) (k_contract k) w = (n, w1)"
    by (cases "notify_once (k_observer k) (k_contract k) w")
  let ?steps = "bindR (prepare_input P k bound) (\<lambda>inp.
      bindR (resolve_idempotency_key (k_str k) (k_key k) bound) (\<lambda>key.
      bindR (resolve_spend_cents (k_spend k)) (\<lambda>spend. bindR (k_identity k) (\<lambda>sg. Inr (inp, key, spend, sg)))))"
  show ?thesis
  proof (cases "isl n \<or> isl ?steps")
    case True
    with assms b n have "\<exists>e. r = Inl e \<and> w' = w1"
      by (auto simp: prepare_execution_def split: sum.splits)
    with notify_frame [OF n] refused show ?thesis by blast
  next
    case False
    then obtain inp key spend sg where s: "?steps = Inr (inp, key, spend, sg)" and u: "n = Inr ()"
      by (cases ?steps; cases n) auto
    from assms b n u s have "checked_decision P so k sg inp key spend w1 = (r, w')"
      by (simp add: prepare_execution_def checked_decision_def)
    with s show ?thesis by (intro checked [OF b n [unfolded u]]) (auto simp: bindR_Inr_iff)
  qed
qed

section \<open>How the outcome can fail to be built\<close>

lemma walk_fields_error:
  "walk_fields sens shw d fs c = Inl e \<Longrightarrow> (\<And>v c e. d v c = Inl e \<Longrightarrow> e = x) \<Longrightarrow> e = x"
proof (induction fs arbitrary: c)
  case (Cons f fs)
  then show ?case by (cases f) (fastforce simp: bindR_Inl_iff split: if_splits prod.splits)
qed simp

lemma walk_seq_error:
  "walk_seq d vs c = Inl e \<Longrightarrow> (\<And>v c e. d v c = Inl e \<Longrightarrow> e = x) \<Longrightarrow> e = x"
  by (induction vs arbitrary: c) (auto simp: bindR_Inl_iff split: prod.splits)

lemma walk_error: "walk sens pats shw h n seen v c = Inl e \<Longrightarrow> e = CanonicalizationError"
proof (induction n arbitrary: seen v c e)
  case (Suc n)
  note f = walk_fields_error [where d = "walk sens pats shw h n _" and x = CanonicalizationError]
  note s = walk_seq_error [where d = "walk sens pats shw h n _" and x = CanonicalizationError]
  show ?case
  proof (cases v)
    case (PRef a)
    with Suc.prems show ?thesis
      by (cases "h a") (auto simp: bindR_Inl_iff dest: f [OF _ Suc.IH] s [OF _ Suc.IH] split: option.splits if_splits)
  next
    case (PFloat x)
    with Suc.prems show ?thesis by (cases x) auto
  qed (use Suc.prems in \<open>auto split: if_splits\<close>)
qed simp

lemma canonicalize_error: "canonicalize P sens pats shw h v = Inl e \<Longrightarrow> e = CanonicalizationError"
  unfolding canonicalize_def by (rule walk_error)

lemma safe_output_hash_error: "safe_output_hash P k redacted v = Inl x \<Longrightarrow> x = UnicodeEncodeError"
  by (auto simp: safe_output_hash_def bindR_Inl_iff canonical_json_bytes_def dest: canonicalize_error
      split: if_splits sum.splits prod.splits)

lemma extract_receipt_error: "extract_receipt P k v = Inl x \<Longrightarrow> x = BaseInterrupt"
  by (auto simp: extract_receipt_def is_exception_def dest: canonicalize_error
      split: if_splits sum.splits prod.splits option.splits)

lemma outcome_extra_error:
  "outcome_extra P k pr res = Inl x \<Longrightarrow> x = UnicodeEncodeError \<or> x = BaseInterrupt"
  by (auto simp: outcome_extra_def Let_def bindR_Inl_iff dest: safe_output_hash_error extract_receipt_error
      split: sum.splits)

section \<open>What the engine needs of a store\<close>

locale evidence_store =
  fixes P :: platform
    and so :: "'j store"
    and log :: "'j \<Rightarrow> bytes"
    and sound :: "'j \<Rightarrow> bool" \<comment> \<open>what the duplicate check relies on\<close>
    and blocked :: "string \<Rightarrow> string \<Rightarrow> 'j \<Rightarrow> string option"
    and good :: "'j \<Rightarrow> bool" \<comment> \<open>what appending a well-formed event keeps\<close>
  assumes append_ok: "so_append so bld j = (Inr e, j') \<Longrightarrow>
      log j' = log j @ line_of P e \<and> (\<exists>prev. bld prev = Inr e) \<and> (good j \<and> event_wf P e \<longrightarrow> good j')"
    and append_grows: "so_append so bld j = (r, j') \<Longrightarrow> \<exists>g. log j' = log j @ g"
    and atomic_ok: "so_append_atomic so build a k j = (Inr e, j') \<Longrightarrow>
      log j' = log j @ line_of P e \<and> (\<exists>prev b. build prev b = Inr e \<and> (sound j \<longrightarrow> b = blocked a k j))
      \<and> (good j \<and> event_wf P e \<longrightarrow> good j')"
    and atomic_grows: "so_append_atomic so build a k j = (r, j') \<Longrightarrow> \<exists>g. log j' = log j @ g"
    and finders_read: "log (snd (so_completed so a k j)) = log j" "log (snd (so_blocking so a k j)) = log j"
    and finders_sound: "sound j \<Longrightarrow> sound (snd (so_completed so a k j))" "sound j \<Longrightarrow> sound (snd (so_blocking so a k j))"
      "blocked a k (snd (so_completed so a' k' j)) = blocked a k j"
      "blocked a k (snd (so_blocking so a' k' j)) = blocked a k j"
      "good j \<Longrightarrow> good (snd (so_completed so a k j))" "good j \<Longrightarrow> good (snd (so_blocking so a k j))"
begin

lemma completed_frame:
  "so_completed so a k j = (r, j') \<Longrightarrow> log j' = log j \<and> (sound j \<longrightarrow> sound j')
     \<and> (good j \<longrightarrow> good j') \<and> blocked a' k' j' = blocked a' k' j"
  "so_blocking so a k j = (r, j') \<Longrightarrow> log j' = log j \<and> (sound j \<longrightarrow> sound j')
     \<and> (good j \<longrightarrow> good j') \<and> blocked a' k' j' = blocked a' k' j"
  using finders_read finders_sound by (metis snd_conv)+

lemma mark_completed_frame [simp]:
  "w_store (mark_completed so a k w) = w_store w" "w_runs (mark_completed so a k w) = w_runs w"
  by (simp_all add: mark_completed_def Let_def)

lemma precheck_frame:
  assumes "precheck so action key w = (prior, w')"
  shows "log (w_store w') = log (w_store w) \<and> w_runs w' = w_runs w
    \<and> (sound (w_store w) \<longrightarrow> sound (w_store w')) \<and> (good (w_store w) \<longrightarrow> good (w_store w'))
    \<and> blocked a k (w_store w') = blocked a k (w_store w)"
proof (cases "is_completed so action key w \<or> so_path so = None")
  case True
  with assms show ?thesis by (simp add: precheck_def)
next
  case False
  obtain r j where c: "so_completed so action key (w_store w) = (r, j)" by (cases "so_completed so action key (w_store w)")
  obtain r' j' where b: "so_blocking so action key j = (r', j')" by (cases "so_blocking so action key j")
  from assms False c b have "w_runs w' = w_runs w \<and> (w_store w' = j \<or> w_store w' = j')"
    by (auto simp: precheck_def Let_def split: option.splits)
  then show ?thesis using completed_frame(1) [OF c] completed_frame(2) [OF b] by auto
qed

lemma engine_append_ok:
  assumes "engine_append P so c sg ty extra w = (Inr e, w')"
  shows "log (w_store w') = log (w_store w) @ line_of P e
    \<and> (\<exists>prev. build_event P c sg (w_draws w) ty extra prev = Inr e) \<and> w_runs w' = w_runs w
    \<and> (good (w_store w) \<and> event_wf P e \<longrightarrow> good (w_store w'))"
  using assms append_ok [of "build_event P c sg (w_draws w) ty extra" "w_store w" e]
  by (auto simp: engine_append_def Let_def split: prod.splits)

lemma engine_append_grows:
  assumes "engine_append P so c sg ty extra w = (r, w')"
  shows "(\<exists>g. log (w_store w') = log (w_store w) @ g) \<and> w_runs w' = w_runs w"
  using assms append_grows [of "build_event P c sg (w_draws w) ty extra" "w_store w"]
  by (auto simp: engine_append_def Let_def split: prod.splits)

lemma reserve_ok:
  assumes "reserve P so k sg inp key spend v w = (Inr e, w')"
  shows "log (w_store w') = log (w_store w) @ line_of P e \<and> w_runs w' = w_runs w
    \<and> (good (w_store w) \<and> event_wf P e \<longrightarrow> good (w_store w'))
    \<and> (\<exists>prev. build_event P (k_contract k) sg (w_draws w) ''decision'' (decision_extra k inp key spend v) prev = Inr e)
    \<and> (\<forall>ky. key = Some ky \<longrightarrow> \<not> is_completed so (c_action_name (k_contract k)) ky w
         \<and> (so_atomic so \<and> sound (w_store w) \<longrightarrow> blocked (c_action_name (k_contract k)) ky (w_store w) = None))"
proof (cases "\<exists>ky. key = Some ky \<and> so_atomic so")
  case True
  then obtain ky where key: "key = Some ky" and a: "so_atomic so" by blast
  let ?action = "c_action_name (k_contract k)"
  obtain r j where r: "so_append_atomic so (build_atomic P so k sg inp ky spend v w) ?action ky (w_store w) = (r, j)"
    by (cases "so_append_atomic so (build_atomic P so k sg inp ky spend v w) ?action ky (w_store w)")
  from assms r key a have ok: "r = Inr e" and nd: "\<not> is_completed so ?action ky w" "\<not> has_key e ''duplicate_of''"
    and w': "w' = w\<lparr>w_store := j, w_draws := Suc (w_draws w)\<rparr>"
    by (auto simp: reserve_def Let_def split: sum.splits if_splits)
  from atomic_ok [OF r [unfolded ok]] obtain prev b where l: "log j = log (w_store w) @ line_of P e"
      "good (w_store w) \<and> event_wf P e \<longrightarrow> good j"
    and b: "build_atomic P so k sg inp ky spend v w prev b = Inr e" "sound (w_store w) \<longrightarrow> b = blocked ?action ky (w_store w)"
    by blast
  have "b = None"
  proof (rule ccontr)
    assume "b \<noteq> None"
    with b(1) have "build_event P (k_contract k) sg (w_draws w) ''decision'' (duplicate_extra k inp ky spend b) prev = Inr e"
      by (simp add: build_atomic_def)
    from build_duplicate_fields(2) [OF this] \<open>b \<noteq> None\<close> nd(2) show False by simp
  qed
  with b l w' nd key show ?thesis by (auto simp: build_atomic_def)
next
  case False
  then have "engine_append P so (k_contract k) sg ''decision'' (decision_extra k inp key spend v) w = (Inr e, w')"
    and "\<forall>ky. key = Some ky \<longrightarrow> \<not> is_completed so (c_action_name (k_contract k)) ky w \<and> \<not> so_atomic so"
    using assms by (auto simp: reserve_def Let_def split: option.splits if_splits sum.splits prod.splits)
  with engine_append_ok show ?thesis by blast
qed

lemma reserve_grows:
  assumes "reserve P so k sg inp key spend v w = (r, w')"
  shows "(\<exists>g. log (w_store w') = log (w_store w) @ g) \<and> w_runs w' = w_runs w"
  using assms engine_append_grows atomic_grows
  by (auto simp: reserve_def Let_def split: option.splits if_splits sum.splits prod.splits) blast+

lemma decide_ok:
  assumes "decide_and_record P so k sg inp key spend w = (Inr pr, w')"
  shows "\<exists>v s. evaluate_approval k (approval_request (k_contract k) inp spend) (w_provider w) = (Inr v, s)
    \<and> vd_allowed v \<and> reserve P so k sg inp key spend v (w\<lparr>w_provider := s\<rparr>) = (Inr (pr_event pr), w')
    \<and> pr_dry_run pr = k_dry_run k \<and> pr_signer pr = sg"
  using assms by (auto simp: decide_and_record_def split: prod.splits sum.splits if_splits)

lemma decide_grows:
  assumes "decide_and_record P so k sg inp key spend w = (r, w')"
  shows "(\<exists>g. log (w_store w') = log (w_store w) @ g) \<and> w_runs w' = w_runs w"
  using assms reserve_grows [of k sg inp key spend _ "w\<lparr>w_provider := _\<rparr>"]
  by (fastforce simp: decide_and_record_def split: prod.splits sum.splits if_splits)

lemma precheck_completed:
  "is_completed so a k w \<Longrightarrow> precheck so a k w = (None, w)"
  by (simp add: precheck_def)

lemma prepare_ok:
  assumes "prepare_execution P so k w = (Inr pr, w')"
  shows "log (w_store w') = log (w_store w) @ line_of P (pr_event pr) \<and> w_runs w' = w_runs w
    \<and> approved_decision P k (pr_event pr) \<and> pr_dry_run pr = k_dry_run k
    \<and> (good (w_store w) \<and> event_wf P (pr_event pr) \<longrightarrow> good (w_store w'))
    \<and> (\<forall>ky. keyed k ky \<longleftrightarrow> jget (pr_event pr) ''idempotency_key'' = JStr ky)
    \<and> (\<forall>ky. keyed k ky \<longrightarrow> \<not> is_completed so (c_action_name (k_contract k)) ky w
         \<and> (so_atomic so \<and> sound (w_store w) \<longrightarrow> blocked (c_action_name (k_contract k)) ky (w_store w) = None))"
  using assms
proof (cases rule: prepare_cases)
  case (checked bound w1 inp key spend sg)
  note b = checked(1) and n = checked(2) and key = checked(4) and sg = checked(6) and rest = checked(7)
  let ?a = "c_action_name (k_contract k)"
  obtain w2 where d: "decide_and_record P so k sg inp key spend w2 = (Inr pr, w')"
    and w2: "log (w_store w2) = log (w_store w1)" "w_runs w2 = w_runs w1"
      "sound (w_store w1) \<longrightarrow> sound (w_store w2)" "good (w_store w1) \<longrightarrow> good (w_store w2)" "\<And>a k. blocked a k (w_store w2) = blocked a k (w_store w1)"
    and nc: "\<And>ky. key = Some ky \<Longrightarrow> \<not> is_completed so ?a ky w1"
  proof (cases key)
    case None
    with rest show ?thesis by (intro that) (auto simp: checked_decision_def)
  next
    case (Some ky)
    obtain prior w2 where pc: "precheck so ?a ky w1 = (prior, w2)" by (cases "precheck so ?a ky w1")
    with rest Some have np: "prior = None" "\<not> is_completed so ?a ky w2"
      and d: "decide_and_record P so k sg inp key spend w2 = (Inr pr, w')"
      by (auto simp: checked_decision_def Let_def split: if_splits prod.splits sum.splits)
    then have "\<not> is_completed so ?a ky w1" using pc precheck_completed [of ?a ky w1] by auto
    moreover note d precheck_frame [OF pc] Some
    ultimately show ?thesis using that [of w2] by simp
  qed
  from decide_ok [OF d] obtain v s where v: "vd_allowed v"
    and r: "reserve P so k sg inp key spend v (w2\<lparr>w_provider := s\<rparr>) = (Inr (pr_event pr), w')"
    and dr: "pr_dry_run pr = k_dry_run k" by blast
  from reserve_ok [OF r] obtain prev where
    l: "log (w_store w') = log (w_store w2) @ line_of P (pr_event pr)" "w_runs w' = w_runs w2"
      "good (w_store w2) \<and> event_wf P (pr_event pr) \<longrightarrow> good (w_store w')"
    and e: "build_event P (k_contract k) sg (w_draws w2) ''decision'' (decision_extra k inp key spend v) prev = Inr (pr_event pr)"
    and nb: "\<And>ky. key = Some ky \<Longrightarrow> so_atomic so \<and> sound (w_store w2) \<longrightarrow> blocked ?a ky (w_store w2) = None"
    by auto
  have "approved_decision P k (pr_event pr)" unfolding approved_decision_def using sg v e by blast
  moreover have "keyed k ky \<longleftrightarrow> jget (pr_event pr) ''idempotency_key'' = JStr ky" for ky
    using build_decision_fields(5) [OF e] key b by (auto simp: keyed_def opt_str_def split: option.splits)
  ultimately show ?thesis
    using l w2 dr nc nb key b notify_frame [OF n] by (auto simp: keyed_def)
qed simp

lemma prepare_grows:
  assumes "prepare_execution P so k w = (r, w')"
  shows "(\<exists>g. log (w_store w') = log (w_store w) @ g) \<and> w_runs w' = w_runs w"
  using assms
proof (cases rule: prepare_cases)
  case (checked bound w1 inp key spend sg)
  have "(\<exists>g. log (w_store w') = log (w_store w1) @ g) \<and> w_runs w' = w_runs w1"
  proof (cases key)
    case None
    with checked(7) show ?thesis by (simp add: checked_decision_def decide_grows)
  next
    case (Some ky)
    let ?a = "c_action_name (k_contract k)"
    obtain prior w2 where pc: "precheck so ?a ky w1 = (prior, w2)" by (cases "precheck so ?a ky w1")
    with checked(7) Some have "(\<exists>r'. engine_append P so (k_contract k) sg ''decision''
          (duplicate_extra k inp ky spend prior) w2 = (r', w')) \<or> decide_and_record P so k sg inp key spend w2 = (r, w')"
      by (auto simp: checked_decision_def Let_def split: if_splits prod.splits sum.splits)
    then show ?thesis
      using engine_append_grows decide_grows precheck_frame [OF pc] by metis
  qed
  with notify_frame [OF checked(2)] show ?thesis by simp
qed simp

lemma record_ok:
  assumes "record_outcome P so k pr res w = (None, w')"
  shows "w_runs w' = w_runs w \<and> (\<exists>out. log (w_store w') = log (w_store w) @ line_of P out
    \<and> answers_decision P k (pr_event pr) (case res of Inr _ \<Rightarrow> ''succeeded'' | Inl _ \<Rightarrow> ''failed'') out)"
proof -
  from assms obtain extra out where x: "outcome_extra P k pr res = Inr extra"
    and a: "engine_append P so (k_contract k) (pr_signer pr) ''outcome'' extra w = (Inr out, w')"
    by (auto simp: record_outcome_def Let_def split: sum.splits prod.splits)
  from engine_append_ok [OF a] obtain prev where
    "build_event P (k_contract k) (pr_signer pr) (w_draws w) ''outcome'' extra prev = Inr out"
    and l: "log (w_store w') = log (w_store w) @ line_of P out" "w_runs w' = w_runs w" by blast
  from build_outcome_fields [OF x this(1)] l show ?thesis by (auto simp: answers_decision_def)
qed

lemma record_alarm:
  assumes "record_outcome P so k pr res w = (Some x, w')"
  shows "w_runs w' = w_runs w \<and> (\<exists>g. log (w_store w') = log (w_store w) @ g)
    \<and> (exn_executed x \<or> x = BaseInterrupt \<or> outcome_extra P k pr res = Inl UnicodeEncodeError)"
proof (cases "outcome_extra P k pr res")
  case (Inl e)
  with assms outcome_extra_error [OF Inl] show ?thesis by (auto simp: record_outcome_def Let_def)
next
  case (Inr extra)
  with assms obtain e where a: "engine_append P so (k_contract k) (pr_signer pr) ''outcome'' extra w = (Inl e, w')"
    and x: "exn_executed x \<or> x = BaseInterrupt"
    by (auto simp: record_outcome_def Let_def is_exception_def split: sum.splits prod.splits exn.splits if_splits)
  from engine_append_grows [OF a] x show ?thesis by blast
qed

text \<open>Every call: it stopped before the function, or it is a run.\<close>

definition ran ::
  "('j, 's) call \<Rightarrow> ('j, 's) world \<Rightarrow> prepared \<Rightarrow> ('j, 's) world \<Rightarrow> bool" where
  "ran k w pr w1 \<longleftrightarrow> prepare_execution P so k w = (Inr pr, w1) \<and> \<not> k_dry_run k"

lemma execute_cases:
  assumes "execute P so k w = (r, w')"
  obtains (stopped) "w_runs w' = w_runs w" "\<exists>g. log (w_store w') = log (w_store w) @ g"
      "(\<exists>e. r = Inl e) \<or> (r = Inr PNone \<and> k_dry_run k)"
  | (run) pr w1 w2 res where "ran k w pr w1" "k_target k = res"
      "w2 = w1\<lparr>w_runs := Suc (w_runs w1), w_store := k_during k (w_store w1)\<rparr>" "w_runs w' = Suc (w_runs w)"
      "\<exists>w3 x. (if res = Inl BaseInterrupt then w3 = w2 \<and> x = None else record_outcome P so k pr res w2 = (x, w3))
         \<and> r = (case x of None \<Rightarrow> res | Some e \<Rightarrow> Inl e) \<and> w_store w' = w_store w3"
proof (cases "prepare_execution P so k w")
  case (Pair r0 w1)
  note g = prepare_grows [OF Pair]
  show ?thesis
  proof (cases r0)
    case (Inl e)
    with assms Pair g show ?thesis by (intro stopped) (auto simp: execute_def)
  next
    case (Inr pr)
    note ok = prepare_ok [OF Pair [unfolded Inr]]
    show ?thesis
    proof (cases "k_dry_run k")
      case True
      with assms Pair Inr ok g show ?thesis by (intro stopped) (auto simp: execute_def)
    next
      case False
      define w2 where "w2 = w1\<lparr>w_runs := Suc (w_runs w1), w_store := k_during k (w_store w1)\<rparr>"
      obtain x w3 where x: "record_outcome P so k pr (k_target k) w2 = (x, w3)"
        by (cases "record_outcome P so k pr (k_target k) w2")
      have runs: "w_runs w3 = w_runs w2" using x record_ok record_alarm by (cases x) blast+
      from ok have dr: "\<not> pr_dry_run pr" using False by simp
      from assms Pair Inr dr have e: "(r, w') = (case k_target k of
            Inl e \<Rightarrow> if e = BaseInterrupt then (Inl e, w2) else (case x of Some x \<Rightarrow> (Inl x, w3) | None \<Rightarrow> (Inl e, w3))
          | Inr v \<Rightarrow> (case x of Some x \<Rightarrow> (Inl x, w3) | None \<Rightarrow>
              (Inr v, if truthy (jget (pr_event pr) ''idempotency_key'')
                      then mark_completed so (c_action_name (k_contract k))
                             (py_str P (jget (pr_event pr) ''idempotency_key'')) w3 else w3)))"
        using x by (auto simp: execute_def Let_def w2_def [symmetric] is_exception_def split: sum.splits option.splits)
      have end_state: "w_runs w' = w_runs w2" "\<exists>w3 x. (if k_target k = Inl BaseInterrupt then w3 = w2 \<and> x = None
           else record_outcome P so k pr (k_target k) w2 = (x, w3))
         \<and> r = (case x of None \<Rightarrow> k_target k | Some e \<Rightarrow> Inl e) \<and> w_store w' = w_store w3"
        using e x runs by (auto split: sum.splits option.splits if_splits)
      have "w_runs w' = Suc (w_runs w)" using end_state(1) ok by (simp add: w2_def)
      moreover have "ran k w pr w1" using Pair Inr False by (simp add: ran_def)
      ultimately show ?thesis using end_state(2) run [OF _ refl w2_def] by blast
    qed
  qed
qed

text \<open>After the function: the journal only grows.\<close>

lemma after_run:
  assumes "\<exists>w3 x. (if res = Inl BaseInterrupt then w3 = w2 \<and> x = None else record_outcome P so k pr res w2 = (x, w3))
    \<and> r = (case x of None \<Rightarrow> res | Some e \<Rightarrow> Inl e) \<and> w_store w' = w_store w3"
  shows "\<exists>g. log (w_store w') = log (w_store w2) @ g"
proof -
  from assms obtain w3 x where x: "if res = Inl BaseInterrupt then w3 = w2 \<and> x = None else record_outcome P so k pr res w2 = (x, w3)"
    and s: "w_store w' = w_store w3" by blast
  have "\<exists>g. log (w_store w3) = log (w_store w2) @ g"
  proof (cases "res = Inl BaseInterrupt")
    case False
    with x have "record_outcome P so k pr res w2 = (x, w3)" by simp
    then show ?thesis using record_ok [of k pr res w2 w3] record_alarm [of k pr res w2 _ w3] by (cases x) blast+
  qed (use x in simp)
  with s show ?thesis by simp
qed

end

section \<open>The file journal is such a store\<close>

text \<open>
  The process's index is exact for the file and the file is one the library wrote; then the id the
  check under the lock hands to the builder is the one a full scan gives.
\<close>

definition j_sound :: "platform \<Rightarrow> string \<Rightarrow> jstate \<Rightarrow> bool" where
  "j_sound P path j \<longleftrightarrow> cache_ok P path (j_bytes j) (j_index j) \<and> well_ordered (scan_events P (j_bytes j))"

definition j_good :: "platform \<Rightarrow> string \<Rightarrow> jstate \<Rightarrow> bool" where
  "j_good P path j \<longleftrightarrow> cache_ok P path (j_bytes j) (j_index j) \<and> line_end (j_bytes j)"

definition j_blocked :: "platform \<Rightarrow> string \<Rightarrow> string \<Rightarrow> jstate \<Rightarrow> string option" where
  "j_blocked P a k j = scan_blocking_idempotent P (j_bytes j) a k"

lemma j_after_Inr: "j_after j a = (Inr e, j') \<Longrightarrow> \<exists>c. a = (Inr e, j_bytes j', c) \<and> j_index j' = c"
  by (auto simp: j_after_def split: prod.splits)

lemma j_found_frame [simp]: "j_bytes (snd (j_found j r)) = j_bytes j" "j_index (snd (j_found j r)) = j_index j"
  by (auto simp: j_found_def split: sum.splits)

lemma j_after_grows: "\<exists>g. fst (snd a) = j_bytes j @ g \<Longrightarrow> \<exists>g. j_bytes (snd (j_after j a)) = j_bytes j @ g"
  by (auto simp: j_after_def split: prod.splits)

lemma atomic_cache_ok:
  assumes "append_event_atomic P path fault build q f c = (Inr e, f', c')"
    and "cache_ok P path f c" and "line_end f" and "event_wf P e"
  shows "cache_ok P path f' c'"
  using assms(1)
proof (rule append_atomic_ok)
  fix prev b c1
  assume f': "f' = f @ line_of P e"
    and l: "(case q of None \<Rightarrow> Inr (None, c) | Some (action, key) \<Rightarrow> locked_blocking_prior_id P path f c action key) = Inr (b, c1)"
    and c': "c' = note_idem_append path e (length f) prev (length f + length (line_of P e)) (event_hash_of e) c1"
  have "cache_ok P path f c1"
    using l assms(2) locked_cache_ok [OF assms(2)] by (auto split: option.splits)
  from cache_ok_note [OF this assms(3,4)] show ?thesis unfolding f' c' .
qed

interpretation fs: evidence_store P "file_store P path" j_bytes "j_sound P path" "j_blocked P" "j_good P path"
  for P path
proof
  fix bld j e j' assume a: "so_append (file_store P path) bld j = (Inr e, j')"
  then obtain c where c: "append_event P path (j_fault j) bld (j_bytes j) (j_index j) = (Inr e, j_bytes j', c)"
    "j_index j' = c"
    by (auto simp: file_store_def dest: j_after_Inr)
  have "j_bytes j' = j_bytes j @ line_of P e \<and> (\<exists>prev. bld prev = Inr e)"
    using c(1) by (rule append_event_ok) blast
  moreover have "j_good P path j \<and> event_wf P e \<longrightarrow> cache_ok P path (j_bytes j') c"
    using c(1)
  proof (rule append_event_ok)
    fix prev
    assume f': "j_bytes j' = j_bytes j @ line_of P e"
      and c': "c = note_idem_append path e (length (j_bytes j)) prev
        (length (j_bytes j) + length (line_of P e)) (event_hash_of e) (j_index j)"
    show ?thesis unfolding f' c' using cache_ok_note by (auto simp: j_good_def simp del: json_wf.simps)
  qed
  ultimately show "j_bytes j' = j_bytes j @ line_of P e \<and> (\<exists>prev. bld prev = Inr e)
      \<and> (j_good P path j \<and> event_wf P e \<longrightarrow> j_good P path j')"
    using c(2) by (simp add: j_good_def del: json_wf.simps)
next
  fix bld j r j' assume "so_append (file_store P path) bld j = (r, j')"
  then show "\<exists>g. j_bytes j' = j_bytes j @ g"
    using j_after_grows [OF append_event_grows, of j P path "j_fault j" bld "j_index j"] by (simp add: file_store_def)
next
  fix build a k j e j' assume "so_append_atomic (file_store P path) build a k j = (Inr e, j')"
  then obtain c where c: "append_event_atomic P path (j_fault j) build (Some (a, k)) (j_bytes j) (j_index j)
      = (Inr e, j_bytes j', c)" "j_index j' = c"
    by (auto simp: file_store_def dest: j_after_Inr)
  from c(1)
  show "j_bytes j' = j_bytes j @ line_of P e
      \<and> (\<exists>prev b. build prev b = Inr e \<and> (j_sound P path j \<longrightarrow> b = j_blocked P a k j))
      \<and> (j_good P path j \<and> event_wf P e \<longrightarrow> j_good P path j')"
  proof (rule append_atomic_ok)
    fix prev b c1
    assume r: "build prev b = Inr e" "j_bytes j' = j_bytes j @ line_of P e"
      and l: "(case Some (a, k) of None \<Rightarrow> Inr (None, j_index j)
        | Some (action, key) \<Rightarrow> locked_blocking_prior_id P path (j_bytes j) (j_index j) action key) = Inr (b, c1)"
    have "j_good P path j \<and> event_wf P e \<longrightarrow> j_good P path j'"
      using atomic_cache_ok [OF c(1)] r(2) c(2) by (simp add: j_good_def del: json_wf.simps)
    moreover have "b = j_blocked P a k j" if "j_sound P path j"
      using l that locked_blocking_exact [of P path "j_bytes j" "j_index j" a k b c1]
      by (simp add: j_sound_def j_blocked_def)
    ultimately show ?thesis using r by blast
  qed
next
  fix build a k j r j' assume "so_append_atomic (file_store P path) build a k j = (r, j')"
  then show "\<exists>g. j_bytes j' = j_bytes j @ g"
    using j_after_grows [OF append_atomic_grows, of j P path "j_fault j" build "Some (a, k)" "j_index j"]
    by (simp add: file_store_def)
qed (simp_all add: file_store_def j_sound_def j_blocked_def j_good_def)

lemma approved_fields:
  assumes "approved_decision P k e"
  shows "jget e ''event_type'' = JStr ''decision''" "jget e ''decision'' = JStr ''allowed''"
    and "jget e ''action_name'' = JStr (c_action_name (k_contract k))"
    and "jget e ''contract_hash'' = JStr (c_hash (k_contract k))" "\<not> has_key e ''duplicate_of''"
    and "jget e ''dry_run'' = (if k_dry_run k then JBool True else JNull)"
    and "\<exists>i. jget e ''event_id'' = JStr i"
  using assms build_decision_fields
  by (fastforce simp: approved_decision_def vd_allowed_def DECISION_ALLOWED_def)+

section \<open>A concrete call\<close>

definition demo_contract :: contract where
  "demo_contract =
     \<lparr>c_schema_version = CONTRACT_SCHEMA_VERSION, c_action_name = ''pay'', c_module = ''m'', c_qualified_name = ''f'',
      c_risk = ''high'', c_approval_mode = ''required'', c_execution_mode = EXECUTION_MODE_EMBEDDED,
      c_descriptors = [], c_code_fingerprint = None, c_hash = ''c''\<rparr>"

definition any_call :: "key_spec \<Rightarrow> exn + pyval \<Rightarrow> ('j, unit) call" where
  "any_call key target =
     \<lparr>k_contract = demo_contract, k_sensitive = [], k_patterns = [], k_metadata = None,
      k_bound = Inr [(''n'', PInt 1)], k_heap = (\<lambda>_. OOther ''object''), k_root = 0, k_str = (\<lambda>_. ''1''),
      k_type = (\<lambda>_. ''int''), k_exn_type = (\<lambda>_. ''ValueError''),
      k_provider = Some (False, \<lambda>r s. (Inr (allow ''fine''), s)), k_terminal = (\<lambda>r s. (Inr (deny ''none''), s)),
      k_identity = Inr (local_signer toy_platform ''k''), k_observer = None, k_dry_run = False,
      k_key = key, k_spend = None, k_receipt = None, k_target = target,
      k_result_heap = (\<lambda>_. OOther ''object''), k_during = (\<lambda>j. j)\<rparr>"

definition demo_file :: "bytes \<Rightarrow> jstate" where
  "demo_file f = \<lparr>j_bytes = f, j_exists = True, j_mtime = 0, j_fault = NoFault, j_index = [], j_pre = []\<rparr>"

definition fresh_world :: "'j \<Rightarrow> nat \<Rightarrow> ('j, unit) world" where
  "fresh_world j n =
     \<lparr>w_store = j,
      w_done_file = [], w_done_custom = [], w_provider = (), w_observed = [], w_draws = n, w_runs = 0\<rparr>"

abbreviation demo_call :: "key_spec \<Rightarrow> exn + pyval \<Rightarrow> (jstate, unit) call" where
  "demo_call \<equiv> any_call"

abbreviation demo_world :: "bytes \<Rightarrow> nat \<Rightarrow> (jstate, unit) world" where
  "demo_world f n \<equiv> fresh_world (demo_file f) n"

lemma demo_world_sel [simp]:
  "w_store (fresh_world j n) = j" "w_runs (fresh_world j n) = 0" "w_provider (fresh_world j n) = ()"
  "j_bytes (demo_file f) = f" "j_index (demo_file f) = []"
  by (simp_all add: fresh_world_def demo_file_def)

end
