(* ===== verification/Runs.thy ===== *)
theory Runs
  imports EngineProps
begin

text \<open>
  The guarantees of one guarded call on the file journal (\<open>execute\<close> of \<open>engine.py\<close> on
  \<open>FileJournal\<close>), with concrete calls that meet their hypotheses.
\<close>

section \<open>Nothing runs without an allowed decision in the journal\<close>

lemma execute_blocked:
  assumes "fst (prepare_execution P so k w) = Inl e"
  shows "execute P so k w = (Inl e, snd (prepare_execution P so k w))"
  using assms by (cases "prepare_execution P so k w") (simp add: execute_def)


lemma demo_runs:
  "case execute toy_platform (file_store toy_platform ''j'') (demo_call (KeyText ''k'') (Inr (PInt 1)))
      (demo_world [] 0) of (r, w') \<Rightarrow> w_runs w' = 1 \<and> r = Inr (PInt 1)"
  by code_simp


section \<open>A key that is taken blocks\<close>

text \<open>
  C4: A call whose key is taken never reaches its function: when the journal holds an allowed
  decision for the same action and key that is unresolved or succeeded, or this process has seen
  the key completed, the call raises, and the count of runs is unchanged, whatever the provider
  answers and whatever faults the file has.
\<close>

theorem duplicate_never_runs:
  assumes "keyed k ky" and "j_sound P path (w_store w)"
    and "scan_blocking_idempotent P (j_bytes (w_store w)) (c_action_name (k_contract k)) ky \<noteq> None
      \<or> is_completed (file_store P path) (c_action_name (k_contract k)) ky w"
  shows "\<exists>e w'. execute P (file_store P path) k w = (Inl e, w') \<and> w_runs w' = w_runs w
    \<and> (\<exists>g. j_bytes (w_store w') = j_bytes (w_store w) @ g)"
proof -
  obtain r w' where p: "prepare_execution P (file_store P path) k w = (r, w')"
    by (cases "prepare_execution P (file_store P path) k w")
  have "\<exists>e. r = Inl e"
  proof (cases r)
    case (Inr pr)
    have "so_atomic (file_store P path)" by (simp add: file_store_def)
    with fs.prepare_ok [OF p [unfolded Inr]] assms show ?thesis by (auto simp: j_blocked_def)
  qed simp
  then obtain e where "r = Inl e" by blast
  with fs.prepare_grows [OF p] execute_blocked [of P "file_store P path" k w e] p show ?thesis by auto
qed

lemma demo_taken:
  "scan_blocking_idempotent toy_platform (line_of toy_platform demo_decision) ''pay'' ''k'' \<noteq> None
   \<and> well_ordered (scan_events toy_platform (line_of toy_platform demo_decision))"
  by code_simp

lemma demo_keyed: "keyed (demo_call (KeyText ''k'') t) ''k''"
  by (simp add: keyed_def any_call_def resolve_idempotency_key_def text_of_def)

lemma duplicate_never_runs_witness:
  "\<exists>e w'. execute toy_platform (file_store toy_platform ''j'') (demo_call (KeyText ''k'') (Inr (PInt 1)))
      (demo_world (line_of toy_platform demo_decision) 7) = (Inl e, w') \<and> w_runs w' = 0"
proof -
  let ?k = "demo_call (KeyText ''k'') (Inr (PInt 1))" and ?w = "demo_world (line_of toy_platform demo_decision) 7"
  have "j_sound toy_platform ''j'' (w_store ?w)" using demo_taken by (simp add: j_sound_def)
  moreover have "scan_blocking_idempotent toy_platform (j_bytes (w_store ?w)) (c_action_name (k_contract ?k)) ''k'' \<noteq> None"
    using demo_taken by (simp add: any_call_def demo_contract_def)
  moreover have "w_runs ?w = 0" by simp
  ultimately show ?thesis using duplicate_never_runs [OF demo_keyed] by metis
qed

section \<open>After the run: an outcome, or the caller is told\<close>

lemma record_alarm_gap:
  "record_outcome P so k pr res w = (Some x, w') \<Longrightarrow> outcome_extra P k pr res = Inl y \<Longrightarrow> x = y \<and> w' = w"
  by (simp add: record_outcome_def Let_def)



text \<open>
  The gap is real. When an allowed call returns a text without a UTF-8 form (a lone surrogate)
  that no redaction rule touches, the function has run, nothing is appended after it, and the
  caller sees an ordinary encoding error without the mark that the function was executed.
\<close>

theorem unencodable_result_unrecorded:
  assumes "prepare_execution P so k w = (Inr pr, w1)" and "\<not> pr_dry_run pr"
    and "k_target k = Inr (PStr s)" and "\<not> utf8_ok (json_text P (JStr s))"
    and "s \<notin> set (pr_redacted pr)" and "\<forall>p \<in> set (k_patterns k). \<not> p_search p s"
  shows "\<exists>w'. execute P so k w = (Inl UnicodeEncodeError, w') \<and> \<not> exn_executed UnicodeEncodeError
    \<and> w_runs w' = Suc (w_runs w1) \<and> w_store w' = k_during k (w_store w1)"
proof -
  have "canonicalize P (k_sensitive k) (k_patterns k) (k_str k) (k_result_heap k) (PStr s) = Inr (JStr s, [])"
    using assms(6) by (simp add: canonicalize_def)
  then have "safe_output_hash P k (pr_redacted pr) (PStr s) = Inl UnicodeEncodeError"
    using assms(4-6) by (auto simp: safe_output_hash_def text_of_def canonical_json_bytes_def)
  with assms(1-3) show ?thesis by (simp add: execute_def record_outcome_def outcome_extra_def)
qed

lemma demo_prepares:
  "case prepare_execution toy_platform (file_store toy_platform ''j'') (demo_call NoKey t) (demo_world [] 0) of
     (Inr pr, w1) \<Rightarrow> pr_redacted pr = [] \<and> \<not> pr_dry_run pr | _ \<Rightarrow> False"
  by code_simp

lemma unencodable_result_unrecorded_witness:
  "\<exists>w'. execute toy_platform (file_store toy_platform ''j'')
        (demo_call NoKey (Inr (PStr [CHR 0xED, CHR 0xA0, CHR 0x80]))) (demo_world [] 0) = (Inl UnicodeEncodeError, w')
     \<and> w_runs w' = Suc 0"
proof -
  let ?s = "[CHR 0xED, CHR 0xA0, CHR 0x80]"
  let ?k = "demo_call NoKey (Inr (PStr ?s))"
  obtain pr w1 where p: "prepare_execution toy_platform (file_store toy_platform ''j'') ?k (demo_world [] 0) = (Inr pr, w1)"
    and pr: "pr_redacted pr = []" "\<not> pr_dry_run pr"
    using demo_prepares [of "Inr (PStr ?s)"] by (auto split: prod.splits sum.splits)
  have "\<not> utf8_ok (json_text toy_platform (JStr ?s))" by code_simp
  moreover have "k_target ?k = Inr (PStr ?s)" "k_patterns ?k = []" by (simp_all add: any_call_def)
  ultimately have "\<exists>w'. execute toy_platform (file_store toy_platform ''j'') ?k (demo_world [] 0)
      = (Inl UnicodeEncodeError, w') \<and> w_runs w' = Suc (w_runs w1)"
    using unencodable_result_unrecorded [OF p pr(2)] pr(1) by auto
  moreover have "w_runs w1 = 0" using fs.prepare_grows [OF p] by simp
  ultimately show ?thesis by simp
qed

section \<open>The verdict is on record before it takes effect\<close>

text \<open>
  When a provider gives a verdict, the decision event with this verdict is appended before
  the verdict takes effect: an allowance goes on with exactly that event, a denial raises
  \<open>ActionDenied\<close> with the denial on record, and when the append fails or the key turns out to be
  taken under the lock, its exception is what the caller gets, whatever the verdict was.
\<close>

theorem verdict_recorded:
  assumes "evaluate_approval k (approval_request (k_contract k) inp spend) (w_provider w) = (Inr v, s)"
  shows "\<exists>w'. (\<exists>e. fst (decide_and_record P (file_store P path) k sg inp key spend w) =
        (if vd_allowed v then Inr \<lparr>pr_signer = sg, pr_event = e, pr_redacted = in_redacted inp, pr_dry_run = k_dry_run k\<rparr>
         else Inl (ActionDenied (c_action_name (k_contract k))))
      \<and> snd (decide_and_record P (file_store P path) k sg inp key spend w) = w'
      \<and> j_bytes (w_store w') = j_bytes (w_store w) @ line_of P e
      \<and> jget e ''decision'' = JStr (vd_decision v) \<and> jget e ''idempotency_key'' = opt_str key)
    \<or> (\<exists>x. reserve P (file_store P path) k sg inp key spend v (w\<lparr>w_provider := s\<rparr>) = (Inl x, w')
         \<and> decide_and_record P (file_store P path) k sg inp key spend w = (Inl x, w'))"
proof -
  obtain r w' where r: "reserve P (file_store P path) k sg inp key spend v (w\<lparr>w_provider := s\<rparr>) = (r, w')"
    by (cases "reserve P (file_store P path) k sg inp key spend v (w\<lparr>w_provider := s\<rparr>)")
  show ?thesis
  proof (cases r)
    case (Inl x)
    with assms r show ?thesis by (intro exI [of _ w']) (simp add: decide_and_record_def)
  next
    case (Inr e)
    from fs.reserve_ok [OF r [unfolded Inr]] obtain prev where
      b: "build_event P (k_contract k) sg (w_draws w) ''decision'' (decision_extra k inp key spend v) prev = Inr e"
      and l: "j_bytes (w_store w') = j_bytes (w_store w) @ line_of P e" by auto
    from assms r Inr l build_decision_fields(2,5) [OF b] show ?thesis
      by (intro exI [of _ w'] disjI1 exI [of _ e]) (simp add: decide_and_record_def)
  qed
qed

lemma verdict_recorded_witness:
  "\<exists>e w'. decide_and_record toy_platform (file_store toy_platform ''j'')
        ((demo_call NoKey (Inr PNone))\<lparr>k_provider := Some (False, \<lambda>r s. (Inr (deny ''no''), s))\<rparr>)
        (local_signer toy_platform ''k'') \<lparr>in_members = [], in_hash = ''h'', in_summary = ''s'', in_redacted = []\<rparr>
        None None (demo_world [] 0) = (Inl (ActionDenied ''pay''), w')
     \<and> j_bytes (w_store w') = line_of toy_platform e \<and> jget e ''decision'' = JStr ''denied''"
proof -
  let ?k = "(demo_call NoKey (Inr PNone))\<lparr>k_provider := Some (False, \<lambda>r s. (Inr (deny ''no''), s))\<rparr>"
    and ?inp = "\<lparr>in_members = [], in_hash = ''h'', in_summary = ''s'', in_redacted = []\<rparr> :: prepared_input"
    and ?sg = "local_signer toy_platform ''k''"
  have v: "evaluate_approval ?k (approval_request (k_contract ?k) ?inp None) (w_provider (demo_world [] 0))
      = (Inr (deny ''no''), ())"
    by code_simp
  have ok: "is_ok (fst (reserve toy_platform (file_store toy_platform ''j'') ?k ?sg ?inp None None (deny ''no'')
      ((demo_world [] 0)\<lparr>w_provider := ()\<rparr>)))"
    by code_simp
  have "c_action_name (k_contract ?k) = ''pay''" "j_bytes (w_store (demo_world [] 0)) = []"
    by (simp_all add: any_call_def demo_contract_def)
  with verdict_recorded [OF v, of toy_platform "''j''" ?sg None] ok show ?thesis
    by (auto simp: DECISION_DENIED_def) (metis prod.collapse)
qed

end
