(* ===== verification/JsonSpace.thy ===== *)
theory JsonSpace
  imports JsonRoundtrip
begin

text \<open>
  White space around a JSON text does not change what it reads as. The scans of the journal read a
  line as it is, the verifier strips it first; on lines without the two white-space bytes that JSON
  does not know they agree.
\<close>

section \<open>Appending white space\<close>

lemma space_not_token [simp]:
  "is_jspace c \<Longrightarrow> \<not> is_digit c"
  "is_jspace c \<Longrightarrow> c \<noteq> CHR ''.'' \<and> c \<noteq> CHR ''e'' \<and> c \<noteq> CHR ''E'' \<and> c \<noteq> CHR ''+'' \<and> c \<noteq> CHR ''-''"
  by (auto simp: is_jspace_def is_digit_def)

lemma takeWhile_space [simp]:
  "list_all is_jspace w \<Longrightarrow> takeWhile is_digit (s @ w) = takeWhile is_digit s"
  "list_all is_jspace w \<Longrightarrow> dropWhile is_digit (s @ w) = dropWhile is_digit s @ w"
  using digits_stop [OF num_stop_space] by blast+

lemma skip_append: "skip s = d # r \<Longrightarrow> skip (s @ w) = d # r @ w"
  by (induction s) (auto split: if_splits)

lemma skip_append_rest: "skip s \<noteq> [] \<Longrightarrow> skip (s @ w) = skip s @ w"
  by (induction s) auto

lemma read_value_Nil [simp]: "read_value P n [] = None"
  by (cases n) simp_all

lemma read_items_Nil [simp]: "read_items P n [] = None"
  by (cases n) simp_all

lemma read_members_Nil [simp]: "read_members P n [] = None"
  by (cases n) simp_all

lemma starts_with_space:
  assumes "list_all is_jspace w" and "list_all (\<lambda>c. \<not> is_jspace c) p"
  shows "starts_with p (s @ w) = starts_with p s"
proof -
  have "starts_with p s" if "p @ t = s @ w" for t
  proof -
    from that obtain us where "p = s @ us \<and> us @ t = w \<or> p @ us = s \<and> t = us @ w" by (auto simp: append_eq_append_conv2)
    then show ?thesis
    proof
      assume a: "p = s @ us \<and> us @ t = w"
      have "us = []"
        using assms a by (cases us) auto
      with a show ?thesis by (simp add: starts_with_iff)
    qed (auto simp: starts_with_iff)
  qed
  then show ?thesis by (auto simp: starts_with_iff)
qed

lemma read_hex4_append: "read_hex4 s = Some (n, r) \<Longrightarrow> read_hex4 (s @ w) = Some (n, r @ w)"
  by (auto simp: read_hex4_def split: list.splits option.splits)

lemma read_escape_append:
  assumes "list_all is_jspace w"
  shows "read_escape s = Some (t, r) \<Longrightarrow> read_escape (s @ w) = Some (t, r @ w)"
proof (cases s)
  case (Cons e s')
  assume a: "read_escape s = Some (t, r)"
  show ?thesis
  proof (cases "e = CHR ''u''")
    case True
    with a Cons obtain n r1 where h: "read_hex4 s' = Some (n, r1)"
      by (auto simp: read_escape_def split: option.splits)
    have p: "starts_with (bslash # ''u'') (r1 @ w) = starts_with (bslash # ''u'') r1"
      by (rule starts_with_space [OF assms]) (simp add: is_jspace_def)
    show ?thesis
    proof (cases "0xD800 \<le> n \<and> n \<le> 0xDBFF \<and> starts_with (bslash # ''u'') r1")
      case pair: True
      then obtain r2 where r2: "r1 = bslash # CHR ''u'' # r2" by (auto simp: starts_with_iff)
      with a Cons True h pair obtain m r3 where "read_hex4 r2 = Some (m, r3)"
        by (auto simp: read_escape_def starts_with_def split: option.splits)
      from read_hex4_append [OF this, of w] this read_hex4_append [OF h, of w] a Cons True h pair r2 p show ?thesis
        by (auto simp: read_escape_def starts_with_def split: if_splits)
    next
      case False
      then consider "n < 0xD800" | "0xDBFF < n" | "\<not> starts_with (bslash # ''u'') r1" by linarith
      then show ?thesis
        by cases (use read_hex4_append [OF h, of w] a Cons True h p in \<open>simp_all add: read_escape_def\<close>)
    qed
  next
    case False
    with a Cons show ?thesis by (auto simp: read_escape_def)
  qed
qed (simp add: read_escape_def)

lemma read_str_append:
  assumes w: "list_all is_jspace w"
  shows "read_str s = Some (t, r) \<Longrightarrow> read_str (s @ w) = Some (t, r @ w)"
proof (induction s arbitrary: t r rule: read_str.induct)
  case (2 c cs)
  consider "c = quote" | "c = bslash" | "c \<noteq> quote" "c \<noteq> bslash" by blast
  then show ?case
  proof cases
    case 2
    then have q: "c \<noteq> quote" by simp
    with 2 "2.prems" obtain u r1 t2 where e: "read_escape cs = Some (u, r1)" "read_str r1 = Some (t2, r)" "t = u @ t2"
      by (auto split: option.splits)
    from "2.IH"(1) [OF q 2 e(1) refl e(2)] read_escape_append [OF w e(1)] e 2 q show ?thesis by simp
  next
    case 3
    with "2.prems" obtain u where e: "\<not> code c < 32" "read_str cs = Some (u, r)" "t = c # u"
      by (auto split: if_splits)
    from "2.IH"(2) [OF 3 e(1,2)] e 3 show ?thesis by simp
  qed (use "2.prems" in auto)
qed simp

lemma scan_frac_space: "list_all is_jspace w \<Longrightarrow> scan_frac s = (f, r) \<Longrightarrow> scan_frac (s @ w) = (f, r @ w)"
  by (cases s; cases "tl s"; cases w) (auto simp: scan_frac_def split: if_splits list.splits)

lemma scan_sign_space: "list_all is_jspace w \<Longrightarrow> scan_sign s = (sg, r) \<Longrightarrow> scan_sign (s @ w) = (sg, r @ w)"
  by (cases s; cases w) (auto simp: scan_sign_def split: if_splits)

lemma scan_exp_space:
  assumes "list_all is_jspace w" and "scan_exp s = (e, r)"
  shows "scan_exp (s @ w) = (e, r @ w)"
proof (cases s)
  case Nil
  with assms show ?thesis by (cases w) (auto simp: scan_exp_def)
next
  case (Cons c s')
  obtain sg r1 where sg: "scan_sign s' = (sg, r1)" by (cases "scan_sign s'")
  from scan_sign_space [OF assms(1) sg] sg assms Cons show ?thesis
    by (auto simp: scan_exp_def Let_def split: if_splits)
qed

lemma scan_num_space:
  assumes w: "list_all is_jspace w" and n: "scan_num s = Some (t, fl, r)"
  shows "scan_num (s @ w) = Some (t, fl, r @ w)"
proof -
  obtain c u where s: "s = c # u" using scan_num_head [OF n] by blast
  define sg r0 where "sg = (if c = CHR ''-'' then [c] else [])" and "r0 = (if c = CHR ''-'' then u else s)"
  obtain i r1 where i: "scan_int r0 = Some (i, r1)"
    using n by (auto simp: scan_num_def s r0_def Let_def split: option.splits if_splits)
  obtain f r2 where f: "scan_frac r1 = (f, r2)" by (cases "scan_frac r1")
  obtain e r3 where e: "scan_exp r2 = (e, r3)" by (cases "scan_exp r2")
  from scan_int_append [OF i num_stop_space [OF w]] scan_frac_space [OF w f] scan_exp_space [OF w e] n i f e
  show ?thesis by (auto simp: scan_num_def s r0_def Let_def split: if_splits)
qed

lemma read_append:
  assumes w: "list_all is_jspace w"
  shows "read_value P n s = Some (j, r) \<Longrightarrow> n \<le> m \<Longrightarrow> read_value P m (s @ w) = Some (j, r @ w)"
    and "read_items P n s = Some (vs, r) \<Longrightarrow> n \<le> m \<Longrightarrow> read_items P m (s @ w) = Some (vs, r @ w)"
    and "read_members P n s = Some (ps, r) \<Longrightarrow> n \<le> m \<Longrightarrow> read_members P m (s @ w) = Some (ps, r @ w)"
proof (induction P n s and P n s and P n s arbitrary: j r m and vs r m and ps r m
    rule: read_value_read_items_read_members.induct)
  case (2 P n s)
  then obtain m' where m: "m = Suc m'" "n \<le> m'" by (cases m) auto
  from "2.prems"(1) obtain c cs where s: "s = c # cs" by (cases s) auto
  have pw: "starts_with p (c # cs @ w) = starts_with p (c # cs)" if "list_all (\<lambda>c. \<not> is_jspace c) p" for p
    using starts_with_space [OF w that, of "c # cs"] by simp
  consider "c = quote" | "c = CHR ''{''" | "c = CHR ''[''" | "c \<notin> {quote, CHR ''{'', CHR ''[''}" by blast
  then show ?case
  proof cases
    case 1
    with "2.prems" s obtain t where "read_str cs = Some (t, r)" "j = JStr t" by auto
    with read_str_append [OF w this(1)] 1 s m show ?thesis by simp
  next
    case 2
    with "2.prems" s obtain d u where d: "skip cs = d # u" by (cases "skip cs") auto
    from 2 "2.prems" s d "2.IH"(1) [OF s _ 2 d, of _ _ m'] skip_append [OF d, of w] m show ?thesis
      by (auto split: if_splits)
  next
    case 3
    with "2.prems" s obtain d u where d: "skip cs = d # u" by (cases "skip cs") auto
    from 3 "2.prems" s d "2.IH"(2) [OF s _ _ 3 d, of _ _ m'] skip_append [OF d, of w] m show ?thesis
      by (auto split: if_splits)
  next
    case 4
    have lit: "drop (length p) (c # cs @ w) = drop (length p) (c # cs) @ w" if "starts_with p (c # cs)" for p
      using that by (auto simp: starts_with_iff) (metis append.assoc append_Cons append_eq_conv_conj)
    note lits = lit [of "''null''"] lit [of "''true''"] lit [of "''false''"] lit [of "''NaN''"] lit [of "''Infinity''"]
      lit [of "''-Infinity''"]
    note pws = pw [of "''null''"] pw [of "''true''"] pw [of "''false''"] pw [of "''NaN''"] pw [of "''Infinity''"]
      pw [of "''-Infinity''"]
    have num: "read_number P (c # cs) = Some (j, r) \<Longrightarrow> read_number P (c # cs @ w) = Some (j, r @ w)"
      using scan_num_space [OF w, of "c # cs"] by (auto simp: read_number_def split: option.splits)
    from 4 "2.prems" s m show ?thesis
      using lits pws num by (auto simp: is_jspace_def numeral_eq_Suc split: if_splits)
  qed
next
  case (4 P n s)
  then obtain m' where m: "m = Suc m'" "n \<le> m'" by (cases m) auto
  from "4.prems" obtain v r0 d r1 where v: "read_value P n s = Some (v, r0)" and d: "skip r0 = d # r1"
    by (auto split: option.splits list.splits)
  note v' = "4.IH"(1) [OF v m(2)]
  have rest: "skip (r1 @ w) = skip r1 @ w" if "read_items P n (skip r1) = Some x" for x
    by (rule skip_append_rest) (use that in \<open>auto simp del: dropWhile_eq_Nil_conv\<close>)
  from skip_append [OF d, of w] "4.prems" v v' d m "4.IH"(2) [OF v refl d, of _ _ m'] rest show ?case
    by (auto split: if_splits)
next
  case (6 P n s)
  then obtain m' where m: "m = Suc m'" "n \<le> m'" by (cases m) auto
  from "6.prems"(1) obtain cs k r0 r1 v r2 e r3 where s: "s = quote # cs" and k: "read_str cs = Some (k, r0)"
    and d: "skip r0 = CHR '':'' # r1" and v: "read_value P n (skip r1) = Some (v, r2)" and e: "skip r2 = e # r3"
    by (auto split: list.splits option.splits if_splits)
  have v': "read_value P m' (skip (r1 @ w)) = Some (v, r2 @ w)"
    using "6.IH"(1) [OF s _ k refl d _ v m(2)] skip_append_rest [of r1 w] v by (cases "skip r1") auto
  have rest: "skip (r3 @ w) = skip r3 @ w" if "read_members P n (skip r3) = Some x" for x
    by (rule skip_append_rest) (use that in \<open>auto simp del: dropWhile_eq_Nil_conv\<close>)
  from skip_append [OF d, of w] skip_append [OF e, of w] read_str_append [OF w k] "6.prems" s k d v v' e m rest
    "6.IH"(2) [OF s _ k refl d _ v refl e, of _ _ m'] show ?case
    by (auto split: if_splits)
qed simp_all

section \<open>Reading consumes\<close>

lemma skip_shrinks: "skip s = d # r \<Longrightarrow> length r < length s"
  using length_dropWhile_le [of is_jspace s] by simp

lemma read_str_shrinks: "read_str s = Some (t, r) \<Longrightarrow> length r < length s"
  by (induction s arbitrary: t r rule: read_str.induct)
    (auto dest: read_escape_length split: if_splits option.splits, force dest: read_escape_length)

lemma digits_shrink: "length (dropWhile is_digit s) \<le> length s"
  by (rule length_dropWhile_le)

lemma scan_parts_shrink:
  "scan_int s = Some (i, r) \<Longrightarrow> length r < length s"
  "scan_frac s = (f, r) \<Longrightarrow> length r \<le> length s"
  "scan_sign s = (g, r) \<Longrightarrow> length r \<le> length s"
  using digits_shrink [of "tl s"] digits_shrink [of "tl (tl s)"]
  by (auto simp: scan_int_def scan_frac_def scan_sign_def split: list.splits if_splits)

lemma scan_exp_shrinks: "scan_exp s = (e, r) \<Longrightarrow> length r \<le> length s"
proof (cases s)
  case (Cons c s')
  assume a: "scan_exp s = (e, r)"
  obtain g r1 where g: "scan_sign s' = (g, r1)" by (cases "scan_sign s'")
  from a Cons scan_parts_shrink(3) [OF g] digits_shrink [of r1] g show ?thesis
    by (auto simp: scan_exp_def Let_def split: if_splits)
qed (auto simp: scan_exp_def)

lemma read_number_shrinks: "read_number P s = Some (j, r) \<Longrightarrow> length r < length s"
proof -
  assume "read_number P s = Some (j, r)"
  then obtain t fl where n: "scan_num s = Some (t, fl, r)" by (auto simp: read_number_def split: option.splits)
  define r0 where "r0 = (case s of c # u \<Rightarrow> if c = CHR ''-'' then u else s | [] \<Rightarrow> s)"
  have r0: "length r0 \<le> length s" by (auto simp: r0_def split: list.splits)
  from n obtain i r1 where i: "scan_int r0 = Some (i, r1)"
    by (cases s) (auto simp: scan_num_def r0_def Let_def split: option.splits if_splits)
  obtain f r2 where f: "scan_frac r1 = (f, r2)" by (cases "scan_frac r1")
  obtain e r3 where e: "scan_exp r2 = (e, r3)" by (cases "scan_exp r2")
  have "r3 = r" using n i f e by (cases s) (auto simp: scan_num_def r0_def Let_def split: if_splits)
  with scan_parts_shrink(1) [OF i] scan_parts_shrink(2) [OF f] scan_exp_shrinks [OF e] r0 show ?thesis by simp
qed

lemma read_shrinks:
  "read_value P n s = Some (j, r) \<Longrightarrow> length r < length s"
  "read_items P n s = Some (vs, r) \<Longrightarrow> length r < length s"
  "read_members P n s = Some (ps, r) \<Longrightarrow> length r < length s"
proof (induction P n s and P n s and P n s arbitrary: j r and vs r and ps r
    rule: read_value_read_items_read_members.induct)
  case (2 P n s)
  then obtain c cs where s: "s = c # cs" by (cases s) auto
  consider "c = quote" | "c = CHR ''{''" | "c = CHR ''[''" | "c \<notin> {quote, CHR ''{'', CHR ''[''}" by blast
  then show ?case
  proof cases
    case 1
    with "2.prems" s show ?thesis by (auto dest!: read_str_shrinks)
  next
    case 2
    with "2.prems" s obtain d u where d: "skip cs = d # u" by (cases "skip cs") auto
    from 2 "2.prems" s d "2.IH"(1) [OF s _ 2 d] skip_shrinks [OF d] length_dropWhile_le [of is_jspace cs] show ?thesis
      by (fastforce split: if_splits)
  next
    case 3
    with "2.prems" s obtain d u where d: "skip cs = d # u" by (cases "skip cs") auto
    from 3 "2.prems" s d "2.IH"(2) [OF s _ _ 3 d] skip_shrinks [OF d] length_dropWhile_le [of is_jspace cs] show ?thesis
      by (fastforce split: if_splits)
  next
    case 4
    with "2.prems" s show ?thesis by (auto dest!: read_number_shrinks split: if_splits)
  qed
next
  case (4 P n s)
  then obtain v r0 d r1 where v: "read_value P n s = Some (v, r0)" and d: "skip r0 = d # r1"
    by (auto split: option.splits list.splits)
  from "4.IH"(1) [OF v] skip_shrinks [OF d] "4.prems" v d "4.IH"(2) [OF v refl d] length_dropWhile_le [of is_jspace r1]
  show ?case by (fastforce split: if_splits)
next
  case (6 P n s)
  from "6.prems"(1) obtain cs k r0 r1 v r2 e r3 where s: "s = quote # cs" and k: "read_str cs = Some (k, r0)"
    and d: "skip r0 = CHR '':'' # r1" and v: "read_value P n (skip r1) = Some (v, r2)" and e: "skip r2 = e # r3"
    by (auto split: list.splits option.splits if_splits)
  have "length r2 < length (skip r1)" using "6.IH"(1) [OF s _ k refl d _ v] by simp
  moreover note read_str_shrinks [OF k] skip_shrinks [OF d] skip_shrinks [OF e] length_dropWhile_le [of is_jspace r1]
    length_dropWhile_le [of is_jspace r3]
  moreover have "read_members P n (skip r3) = Some (ps', r) \<Longrightarrow> e = CHR '','' \<Longrightarrow> length r < length (skip r3)" for ps'
    using "6.IH"(2) [OF s _ k refl d _ v refl e] by simp
  ultimately show ?case using "6.prems" s k d v e by (fastforce split: if_splits)
qed simp_all

section \<open>Written texts have no control characters\<close>

lemma esc_char_printable: "c \<in> set (esc_char d) \<Longrightarrow> 32 \<le> code c"
  using esc_char_ascii [of d c] by (cases "code d < 128") (auto simp: esc_char_high)

lemma dump_str_printable: "c \<in> set (dump_str s) \<Longrightarrow> 32 \<le> code c"
  by (auto simp: dump_str_def dest: esc_char_printable)

lemma dec_int_printable: "c \<in> set (dec_int i) \<Longrightarrow> 32 \<le> code c"
  using dec_int_ascii [of c i] by simp

lemma dumps_printable:
  assumes "\<forall>c \<in> set is \<union> set ks. 32 \<le> code c"
  shows "json_wf P j \<Longrightarrow> \<forall>c \<in> set (dumps P is ks j). 32 \<le> code c"
    and "list_all (json_wf P) xs \<Longrightarrow> \<forall>c \<in> set (dump_items P is ks xs). 32 \<le> code c"
    and "list_all (\<lambda>(k, v). utf8_ok k \<and> json_wf P v) d \<Longrightarrow> \<forall>c \<in> set (dump_members P is ks d). 32 \<le> code c"
  using assms
proof (induction P "is" ks j and P "is" ks xs and P "is" ks d rule: dumps_dump_items_dump_members.induct)
  case (3 P "is" ks i)
  then show ?case by (auto dest: dec_int_printable)
next
  case (4 P "is" ks x)
  then show ?case by (force simp: float_ok_def list_all_iff split: flt.splits)
next
  case (5 P "is" ks s)
  then show ?case by (auto dest: dump_str_printable)
next
  case (9 P "is" ks x xs)
  then show ?case by auto
next
  case (11 P "is" ks k v d)
  then show ?case by (auto dest: dump_str_printable)
qed auto

section \<open>Lines\<close>

text \<open>No vertical tab and no form feed: the white space JSON does not know.\<close>

definition json_space_only :: "bytes \<Rightarrow> bool" where
  "json_space_only f \<longleftrightarrow> CHR 0x0B \<notin> set f \<and> CHR 0x0C \<notin> set f"

lemma json_space_only_line: "json_wf P j \<Longrightarrow> json_space_only (json_text P j @ [nl])"
proof -
  assume "json_wf P j"
  from dumps_printable(1) [OF _ json_wf_jsort [OF this], of "'',''" "'':''"]
  have "\<forall>c \<in> set (json_text P j). 32 \<le> code c" by (simp add: json_text_def)
  then show ?thesis by (auto simp: json_space_only_def)
qed

lemma bspace_jspace: "json_space_only f \<Longrightarrow> c \<in> set f \<Longrightarrow> is_bspace c = is_jspace c"
  by (auto simp: json_space_only_def is_bspace_def is_jspace_def)

lemma bstrip_split:
  obtains l r where "raw = l @ bstrip raw @ r" "list_all is_bspace l" "list_all is_bspace r"
    "bstrip raw \<noteq> [] \<Longrightarrow> \<not> is_bspace (hd (bstrip raw))"
proof -
  let ?m = "dropWhile is_bspace raw"
  have m: "?m = rstrip is_bspace ?m @ rev (takeWhile is_bspace (rev ?m))"
    unfolding rstrip_def by (metis rev_append rev_rev_ident takeWhile_dropWhile_id)
  have "raw = takeWhile is_bspace raw @ bstrip raw @ rev (takeWhile is_bspace (rev ?m))"
    using m takeWhile_dropWhile_id [of is_bspace raw] unfolding strip_by_def by metis
  moreover have "\<not> is_bspace (hd (bstrip raw))" if "bstrip raw \<noteq> []"
  proof -
    have "?m \<noteq> []" using that unfolding strip_by_def rstrip_def by (metis dropWhile.simps(1) rev.simps(1))
    then have "\<not> is_bspace (hd ?m)" by (rule hd_dropWhile)
    moreover have "hd (bstrip raw) = hd ?m" using m that unfolding strip_by_def by (metis hd_append2)
    ultimately show ?thesis by simp
  qed
  moreover have "list_all is_bspace (takeWhile is_bspace s)" for s
    by (auto simp: list_all_iff dest: set_takeWhileD)
  ultimately show ?thesis by (intro that [of "takeWhile is_bspace raw" "rev (takeWhile is_bspace (rev ?m))"]) simp_all
qed

lemma json_loads_bstrip:
  assumes p: "json_space_only raw" and j: "json_loads P (bstrip raw) = Some j" and ne: "bstrip raw \<noteq> []"
  shows "json_loads P raw = Some j"
proof -
  obtain l r where s: "raw = l @ bstrip raw @ r" and lr: "list_all is_bspace l" "list_all is_bspace r"
    and hd: "\<not> is_bspace (hd (bstrip raw))" using bstrip_split [of raw] ne by metis
  let ?u = "bstrip raw"
  have "set raw = set l \<union> set ?u \<union> set r" using arg_cong [OF s, of set] by (simp add: Un_assoc)
  then have sub: "set l \<subseteq> set raw" "set r \<subseteq> set raw" by blast+
  have sp: "list_all is_jspace l" "list_all is_jspace r"
    using lr sub by (simp_all add: list_all_iff subset_iff bspace_jspace [OF p, symmetric])
  have u: "\<not> is_jspace (hd ?u)" using hd by (auto simp: is_jspace_def is_bspace_def)
  then have sk: "skip ?u = ?u" by (rule skip_nonspace [OF disjI2])
  with j obtain r0 where v: "utf8_ok ?u" "read_value P (read_fuel ?u) ?u = Some (j, r0)" "skip r0 = []"
    by (auto simp: json_loads_def split: if_splits option.splits)
  have fuel: "read_fuel ?u \<le> read_fuel raw" by (subst (2) s) (simp add: read_fuel_def)
  have "skip raw = ?u @ r"
    by (subst s) (simp add: skip_space sp skip_nonspace u ne hd_append)
  moreover from read_append(1) [OF sp(2) v(2) fuel] have "read_value P (read_fuel raw) (?u @ r) = Some (j, r0 @ r)" .
  moreover have "skip (r0 @ r) = []" using v(3) sp(2) by (auto simp: list_all_iff)
  moreover have "utf8_ok raw"
    by (subst s) (simp add: utf8_ok_append utf8_ok_space sp v(1))
  ultimately show ?thesis by (simp add: json_loads_def)
qed

end
