(* ===== verification/Torn.thy ===== *)
theory Torn
  imports JsonSpace Journal
begin

text \<open>
  What a write leaves that stops in the middle. A cut event line never reads as a value, unless
  the cut lost nothing but the newline: reading is stable under extension, so a proper part of a
  text that reads as a value would make the whole text read as that value followed by a rest.
\<close>

section \<open>Reading is stable under extension\<close>

lemma starts_with_extend: "length p \<le> length s \<Longrightarrow> starts_with p (s @ w) = starts_with p s"
  by (auto simp: starts_with_iff append_eq_append_conv2)

lemma pair_start_extend:
  assumes "read_str s = Some x"
  shows "starts_with (bslash # ''u'') (s @ w) = starts_with (bslash # ''u'') s"
proof (cases "2 \<le> length s")
  case True
  then show ?thesis by (intro starts_with_extend) simp
next
  case False
  with assms obtain c where s: "s = [c]" by (cases s; cases "tl s") auto
  with assms have "c \<noteq> bslash" by (auto simp: read_escape_def)
  with s show ?thesis by (simp add: starts_with_def)
qed

lemma read_escape_extend:
  assumes "read_escape s = Some (t, r)" and r: "read_str r = Some x"
  shows "read_escape (s @ w) = Some (t, r @ w)"
proof (cases s)
  case Nil
  with assms show ?thesis by (simp add: read_escape_def)
next
  case (Cons e s')
  show ?thesis
  proof (cases "e = CHR ''u''")
    case False
    with assms Cons show ?thesis by (auto simp: read_escape_def)
  next
    case True
    with assms Cons obtain n r1 where h: "read_hex4 s' = Some (n, r1)"
      by (auto simp: read_escape_def split: option.splits)
    show ?thesis
    proof (cases "0xD800 \<le> n \<and> n \<le> 0xDBFF \<and> starts_with (bslash # ''u'') r1")
      case pair: True
      then obtain r2 where r2: "r1 = bslash # CHR ''u'' # r2" by (auto simp: starts_with_iff)
      with assms Cons True h pair obtain m r3 where m: "read_hex4 r2 = Some (m, r3)"
        by (auto simp: read_escape_def starts_with_def split: option.splits)
      from read_hex4_append [OF m, of w] m read_hex4_append [OF h, of w] assms Cons True h pair r2 show ?thesis
        by (auto simp: read_escape_def starts_with_def split: if_splits)
    next
      case False
      with assms Cons True h have "r = r1" "t = utf8_cp n" by (auto simp: read_escape_def split: if_splits)
      with False pair_start_extend [OF r, of w] read_hex4_append [OF h, of w] Cons True show ?thesis
        by (auto simp: read_escape_def)
    qed
  qed
qed

lemma read_str_extend: "read_str s = Some (t, r) \<Longrightarrow> read_str (s @ w) = Some (t, r @ w)"
proof (induction s arbitrary: t r rule: read_str.induct)
  case (2 c cs)
  consider "c = quote" | "c = bslash" | "c \<noteq> quote" "c \<noteq> bslash" by blast
  then show ?case
  proof cases
    case 2
    then have q: "c \<noteq> quote" by simp
    with 2 "2.prems" obtain u r1 t2 where e: "read_escape cs = Some (u, r1)" "read_str r1 = Some (t2, r)" "t = u @ t2"
      by (auto split: option.splits)
    from "2.IH"(1) [OF q 2 e(1) refl e(2)] read_escape_extend [OF e(1,2), of w] e 2 q show ?thesis by simp
  next
    case 3
    with "2.prems" obtain u where e: "\<not> code c < 32" "read_str cs = Some (u, r)" "t = c # u"
      by (auto split: if_splits)
    from "2.IH"(2) [OF 3 e(1,2)] e 3 show ?thesis by simp
  qed (use "2.prems" in auto)
qed simp

text \<open>A number is stable once something follows that cannot belong to it.\<close>

definition delim :: "string \<Rightarrow> bool" where
  "delim r \<longleftrightarrow> (case r of [] \<Rightarrow> False | c # _ \<Rightarrow> is_jspace c \<or> c \<in> {CHR '','', CHR '']'', CHR ''}''})"

lemma delim_not_Nil [simp]: "\<not> delim []" by (simp add: delim_def)

lemma delim_ne: "delim r \<Longrightarrow> r \<noteq> []" by auto

lemma digits_extend:
  "dropWhile is_digit s \<noteq> [] \<Longrightarrow> takeWhile is_digit (s @ w) = takeWhile is_digit s
     \<and> dropWhile is_digit (s @ w) = dropWhile is_digit s @ w"
  by (induction s) auto

lemma scan_int_extend: "scan_int s = Some (i, r) \<Longrightarrow> r \<noteq> [] \<Longrightarrow> scan_int (s @ w) = Some (i, r @ w)"
  using digits_extend [of s w] by (cases s) (auto simp: scan_int_def split: if_splits)

lemma scan_frac_extend:
  "scan_frac s = (f, r) \<Longrightarrow> r \<noteq> [] \<Longrightarrow> r \<noteq> ''.'' \<Longrightarrow> scan_frac (s @ w) = (f, r @ w)"
  using digits_extend [of "tl s" w]
  by (cases s; cases "tl s"; cases w) (auto simp: scan_frac_def split: if_splits)

lemma scan_exp_extend:
  assumes "scan_exp s = (e, r)" and "delim r"
  shows "scan_exp (s @ w) = (e, r @ w)"
proof (cases s)
  case (Cons c u)
  obtain sg r1 where sg: "scan_sign u = (sg, r1)" by (cases "scan_sign u")
  show ?thesis
  proof (cases "c = CHR ''e'' \<or> c = CHR ''E''")
    case True
    have "r \<noteq> s" using True Cons assms(2) by (auto simp: delim_def is_jspace_def)
    with True Cons assms sg have ds: "takeWhile is_digit r1 \<noteq> []" "e = c # sg @ takeWhile is_digit r1" "r = dropWhile is_digit r1"
      by (auto simp: scan_exp_def Let_def split: if_splits)
    then have "u \<noteq> []" using sg by (auto simp: scan_sign_def)
    then have "scan_sign (u @ w) = (sg, r1 @ w)" using sg by (cases u) (auto simp: scan_sign_def split: if_splits)
    moreover have "dropWhile is_digit r1 \<noteq> []" using delim_ne [OF assms(2)] ds(3) by simp
    from digits_extend [OF this, of w] have
      "takeWhile is_digit (r1 @ w) = takeWhile is_digit r1" "dropWhile is_digit (r1 @ w) = dropWhile is_digit r1 @ w" by auto
    ultimately show ?thesis using True Cons ds by (simp add: scan_exp_def Let_def)
  qed (use assms Cons in \<open>auto simp: scan_exp_def\<close>)
qed (use assms in \<open>auto simp: scan_exp_def\<close>)

lemma scan_rest_nonempty:
  "scan_frac s = (f, r) \<Longrightarrow> r \<noteq> [] \<Longrightarrow> s \<noteq> []"
  "scan_exp s = (e, r) \<Longrightarrow> r \<noteq> [] \<Longrightarrow> s \<noteq> []"
  by (auto simp: scan_frac_def scan_exp_def)

lemma scan_num_extend:
  assumes n: "scan_num s = Some (t, fl, r)" and r: "delim r"
  shows "scan_num (s @ w) = Some (t, fl, r @ w)"
proof -
  obtain c u where s: "s = c # u" using scan_num_head [OF n] by blast
  define sg r0 where "sg = (if c = CHR ''-'' then [c] else [])" and "r0 = (if c = CHR ''-'' then u else s)"
  obtain i r1 where i: "scan_int r0 = Some (i, r1)"
    using n by (auto simp: scan_num_def s r0_def Let_def split: option.splits if_splits)
  obtain f r2 where f: "scan_frac r1 = (f, r2)" by (cases "scan_frac r1")
  obtain e r3 where e: "scan_exp r2 = (e, r3)" by (cases "scan_exp r2")
  have r3: "r3 = r" using n i f e by (auto simp: scan_num_def s r0_def Let_def split: if_splits)
  have "r2 \<noteq> ''.''" using e r r3 by (auto simp: scan_exp_def delim_def is_jspace_def)
  moreover have ne: "r2 \<noteq> []" using scan_rest_nonempty(2) [OF e] delim_ne [OF r] r3 by blast
  moreover have "r1 \<noteq> []" using scan_rest_nonempty(1) [OF f ne] .
  ultimately show ?thesis
    using scan_int_extend [OF i, of w] scan_frac_extend [OF f, of w] scan_exp_extend [OF e, of w] r r3 n i f e delim_ne [OF r]
    by (auto simp: scan_num_def s r0_def Let_def split: if_splits)
qed

lemma read_number_extend:
  assumes "read_number P s = Some (j, r)" and "delim r"
  shows "read_number P (s @ w) = Some (j, r @ w)"
proof -
  from assms(1) obtain t fl where t: "scan_num s = Some (t, fl, r)"
    and j: "j = (if fl then JFloat (float_read P t) else JInt (read_int t))"
    by (auto simp: read_number_def split: option.splits)
  from scan_num_extend [OF t assms(2)] j show ?thesis by (simp add: read_number_def)
qed

lemma delim_rest: "skip r = d # u \<Longrightarrow> d \<in> {CHR '','', CHR '']'', CHR ''}''} \<Longrightarrow> delim r"
  by (cases r) (auto simp: delim_def split: if_splits)

definition names :: "string set" where
  "names = {''null'', ''true'', ''false'', ''NaN'', ''Infinity'', ''-Infinity''}"

lemma read_names:
  "read_value P (Suc n) (''null'' @ v) = Some (JNull, v)" "read_value P (Suc n) (''true'' @ v) = Some (JBool True, v)"
  "read_value P (Suc n) (''false'' @ v) = Some (JBool False, v)" "read_value P (Suc n) (''NaN'' @ v) = Some (JFloat NaN, v)"
  "read_value P (Suc n) (''Infinity'' @ v) = Some (JFloat PInf, v)"
  "read_value P (Suc n) (''-Infinity'' @ v) = Some (JFloat NInf, v)"
  by (simp_all add: starts_with_def)

lemma read_name: "p \<in> names \<Longrightarrow> \<exists>j. \<forall>n v. read_value P (Suc n) (p @ v) = Some (j, v)"
  unfolding names_def using read_names [of P] by blast

lemma read_literal_extend:
  assumes s: "read_value P (Suc n) (c # u) = Some (j, r)" and c: "c \<notin> {quote, CHR ''{'', CHR ''[''}" and r: "delim r"
  shows "read_value P (Suc m) (c # u @ w) = Some (j, r @ w)"
proof (cases "\<exists>p v. p \<in> names \<and> c # u = p @ v")
  case True
  then obtain p v where p: "p \<in> names" and cu: "c # u = p @ v" by blast
  from read_name [OF p] obtain j0 where j0: "read_value P (Suc n) (p @ v) = Some (j0, v)" for n v by blast
  have cuw: "c # u @ w = p @ v @ w" using arg_cong [OF cu, of "\<lambda>s. s @ w"] by simp
  have "Some (j, r) = Some (j0, v)" using s unfolding cu j0 by (rule sym)
  then have "j = j0" "r = v" by simp_all
  then show ?thesis unfolding cuw j0 by (simp only:)
next
  case False
  then have no: "\<not> starts_with p (c # u)" if "p \<in> names" for p using that unfolding starts_with_iff by blast
  have nos: "\<not> starts_with ''null'' (c # u)" "\<not> starts_with ''true'' (c # u)" "\<not> starts_with ''false'' (c # u)"
    "\<not> starts_with ''NaN'' (c # u)" "\<not> starts_with ''Infinity'' (c # u)" "\<not> starts_with ''-Infinity'' (c # u)"
    by (rule no, unfold names_def, (rule insertI1 | rule insertI2)+)+
  have cs: "c \<noteq> quote" "c \<noteq> CHR ''{''" "c \<noteq> CHR ''[''" using c by blast+
  have n: "read_number P (c # u) = Some (j, r)"
    using s unfolding read_value.simps list.case if_not_P [OF cs(1)] if_not_P [OF cs(2)] if_not_P [OF cs(3)]
      if_not_P [OF nos(1)] if_not_P [OF nos(2)] if_not_P [OF nos(3)] if_not_P [OF nos(4)] if_not_P [OF nos(5)]
      if_not_P [OF nos(6)] .
  from read_number_extend [OF n r, of w] obtain t fl where
    t: "scan_num (c # u @ w) = Some (t, fl, r @ w)" "j = (if fl then JFloat (float_read P t) else JInt (read_int t))"
    by (auto simp: read_number_def split: option.splits)
  show ?thesis using read_value_number [OF t(1), of P m] unfolding t(2) .
qed

text \<open>A value that is not a bare number or name is read alike whatever follows it.\<close>

definition bracketed :: "string \<Rightarrow> bool" where
  "bracketed s \<longleftrightarrow> (case s of [] \<Rightarrow> False | c # _ \<Rightarrow> c \<in> {quote, CHR ''{'', CHR ''[''})"

lemma read_extend:
  shows "read_value P n s = Some (j, r) \<Longrightarrow> bracketed s \<or> delim r \<Longrightarrow> n \<le> m \<Longrightarrow> read_value P m (s @ w) = Some (j, r @ w)"
    and "read_items P n s = Some (vs, r) \<Longrightarrow> n \<le> m \<Longrightarrow> read_items P m (s @ w) = Some (vs, r @ w)"
    and "read_members P n s = Some (ps, r) \<Longrightarrow> n \<le> m \<Longrightarrow> read_members P m (s @ w) = Some (ps, r @ w)"
proof (induction P n s and P n s and P n s arbitrary: j r m and vs r m and ps r m
    rule: read_value_read_items_read_members.induct)
  case (2 P n s)
  then obtain m' where m: "m = Suc m'" "n \<le> m'" by (cases m) auto
  from "2.prems"(1) obtain c cs where s: "s = c # cs" by (cases s) auto
  consider "c = quote" | "c = CHR ''{''" | "c = CHR ''[''" | "c \<notin> {quote, CHR ''{'', CHR ''[''}" by blast
  then show ?case
  proof cases
    case 1
    with "2.prems" s obtain t where "read_str cs = Some (t, r)" "j = JStr t" by auto
    with read_str_extend [OF this(1), of w] 1 s m show ?thesis by simp
  next
    case 2
    with "2.prems" s obtain d u where d: "skip cs = d # u" by (cases "skip cs") auto
    from 2 "2.prems" s d "2.IH"(1) [OF s _ 2 d, of _ _ m'] skip_append [OF d, of w] m show ?thesis
      by (auto split: if_splits)
  next
    case 3
    with "2.prems" s obtain d u where d: "skip cs = d # u" by (cases "skip cs") auto
    from 3 "2.prems" s d "2.IH"(2) [OF s _ _ 3 d, of _ _ m'] skip_append [OF d, of w] m show ?thesis
      by (auto split: if_splits)
  next
    case 4
    with "2.prems"(2) s have "delim r" by (auto simp: bracketed_def)
    with read_literal_extend [of P n c cs j r m' w] "2.prems"(1) s m 4 show ?thesis by simp
  qed
next
  case (4 P n s)
  then obtain m' where m: "m = Suc m'" "n \<le> m'" by (cases m) auto
  from "4.prems" obtain v r0 d r1 where v: "read_value P n s = Some (v, r0)" and d: "skip r0 = d # r1"
    and dc: "d \<in> {CHR '','', CHR '']'', CHR ''}''}"
    by (auto split: option.splits list.splits if_splits)
  note v' = "4.IH"(1) [OF v disjI2 [OF delim_rest [OF d dc]] m(2)]
  have rest: "skip (r1 @ w) = skip r1 @ w" if "read_items P n (skip r1) = Some x" for x
    by (rule skip_append_rest) (use that in \<open>auto simp del: dropWhile_eq_Nil_conv\<close>)
  from skip_append [OF d, of w] "4.prems" v v' d m "4.IH"(2) [OF v refl d, of _ _ m'] rest show ?case
    by (auto split: if_splits)
next
  case (6 P n s)
  then obtain m' where m: "m = Suc m'" "n \<le> m'" by (cases m) auto
  from "6.prems"(1) obtain cs k r0 r1 v r2 e r3 where s: "s = quote # cs" and k: "read_str cs = Some (k, r0)"
    and d: "skip r0 = CHR '':'' # r1" and v: "read_value P n (skip r1) = Some (v, r2)" and e: "skip r2 = e # r3"
    and ec: "e \<in> {CHR '','', CHR '']'', CHR ''}''}"
    by (auto split: list.splits option.splits if_splits)
  have v': "read_value P m' (skip (r1 @ w)) = Some (v, r2 @ w)"
    using "6.IH"(1) [OF s _ k refl d _ v disjI2 [OF delim_rest [OF e ec]] m(2)] skip_append_rest [of r1 w] v
    by (cases "skip r1") auto
  have rest: "skip (r3 @ w) = skip r3 @ w" if "read_members P n (skip r3) = Some x" for x
    by (rule skip_append_rest) (use that in \<open>auto simp del: dropWhile_eq_Nil_conv\<close>)
  from skip_append [OF d, of w] skip_append [OF e, of w] read_str_extend [OF k, of w] "6.prems" s k d v v' e m rest
    "6.IH"(2) [OF s _ k refl d _ v refl e, of _ _ m'] show ?case
    by (auto split: if_splits)
qed simp_all

section \<open>Parts and gluings of event lines\<close>

lemma text_bracketed: "\<exists>u. json_text P (JObj e) = CHR ''{'' # u"
  by (simp add: json_text_obj)

lemma read_text:
  "event_wf P e \<Longrightarrow> read_value P (read_fuel (json_text P (JObj e))) (json_text P (JObj e)) = Some (jsort (JObj e), [])"
  using reads_backD [OF read_dumps [OF compact_seps(1) json_wf_jsort], of P "JObj e" _ "[]"]
  by (simp add: json_text_def read_fuel_def num_stop_def del: jsort.simps read_value.simps)

lemma loads_part:
  assumes wf: "event_wf P e" and s: "json_text P (JObj e) = p @ t" and v: "json_loads P p = Some v"
  shows "t = []"
proof -
  have "p \<noteq> []" using v by (auto simp: json_loads_def)
  with s text_bracketed [of P e] have p: "bracketed p" "skip p = p"
    by (cases p; auto simp: bracketed_def is_jspace_def)+
  with v obtain r where r: "read_value P (read_fuel p) p = Some (v, r)"
    by (auto simp: json_loads_def split: if_splits option.splits)
  have "read_fuel p \<le> read_fuel (json_text P (JObj e))" by (simp add: s read_fuel_def)
  from read_extend(1) [OF r disjI1 [OF p(1)] this, of t] read_text [OF wf] show ?thesis by (simp add: s)
qed

lemma loads_glued:
  assumes wf: "event_wf P e" and v: "json_loads P (json_text P (JObj e) @ u) = Some v"
  shows "skip u = []"
proof -
  let ?t = "json_text P (JObj e)"
  have b: "bracketed ?t" "skip (?t @ u) = ?t @ u"
    using text_bracketed [of P e] by (auto simp: bracketed_def is_jspace_def)
  have "read_fuel ?t \<le> read_fuel (?t @ u)" by (simp add: read_fuel_def)
  from read_extend(1) [OF read_text [OF wf] disjI1 [OF b(1)] this, of u] v b(2) show ?thesis
    by (auto simp: json_loads_def simp del: dropWhile_eq_Nil_conv split: if_splits)
qed

lemma rstrip_take: "\<exists>k \<le> length s. rstrip Q s = take k s"
proof -
  from rstrip_prefix [of s Q] obtain ys where "s = rstrip Q s @ ys" by blast
  then have "rstrip Q s = take (length (rstrip Q s)) s" "length (rstrip Q s) \<le> length s"
    by (metis append_eq_conv_conj, metis length_append le_add1)
  then show ?thesis by blast
qed

lemma cut_unread:
  assumes wf: "event_wf P e" and n: "0 < n" "n < length (json_text P (JObj e))" and k: "k \<le> n"
  shows "json_loads P (take k (take n (json_text P (JObj e)))) = None"
proof (rule ccontr)
  assume "json_loads P (take k (take n (json_text P (JObj e)))) \<noteq> None"
  then obtain v where "json_loads P (take k (json_text P (JObj e))) = Some v" using k by (auto simp: min_def)
  from loads_part [OF wf _ this, of "drop k (json_text P (JObj e))"] n k show False by simp
qed

lemma after_last_line: "line_end f \<Longrightarrow> nl \<notin> set t \<Longrightarrow> after_last_nl (f @ t) = t"
proof (cases "f = []")
  case False
  assume "line_end f" "nl \<notin> set t"
  with False obtain g where "f = g @ [nl]"
    by (auto simp: line_end_def ends_nl_def) (metis append_butlast_last_id)
  with \<open>nl \<notin> set t\<close> after_last_nl_split show ?thesis by simp
qed (simp add: after_last_nl_no_nl)

lemma py_lines_partial: "line_end f \<Longrightarrow> nl \<notin> set t \<Longrightarrow> t \<noteq> [] \<Longrightarrow> py_lines (f @ t) = py_lines f @ [t]"
  by (auto simp: line_end_def py_lines_append py_lines_single)

text \<open>A file that no append extends: the hash of its last line cannot be read.\<close>

definition refuses :: "platform \<Rightarrow> bytes \<Rightarrow> bool" where
  "refuses P f \<longleftrightarrow> isl (read_last_event_hash P f)"

text \<open>A last line that never reads as a value, with or without its newline.\<close>

lemma bad_tail:
  assumes f: "line_end f" and nl: "nl \<notin> set s" and s: "s = c # u" "\<not> is_bspace c"
    and none: "\<And>Q. \<not> Q c \<Longrightarrow> json_loads P (rstrip Q s) = None" and z: "z \<in> {[], [nl]}"
  shows "scan_events P (f @ s @ z) = scan_events P f \<and> refuses P (f @ s @ z)"
proof -
  have b: "is_bspace nl" "is_crlf nl" "\<not> is_crlf c" using s(2) by (auto simp: is_bspace_def is_crlf_def)
  have lines: "py_lines (f @ s @ z) = py_lines f @ [s @ z]"
    using f py_lines_partial [OF f nl] py_lines_line [OF nl, of "[]"] z s(1)
    by (auto simp: line_end_def py_lines_append)
  have "strip_by is_bspace (s @ z) = rstrip is_bspace (s @ z)" using s by (simp add: strip_by_def)
  also have "\<dots> = rstrip is_bspace s" using z b rstrip_snoc [of is_bspace s nl] by auto
  finally have "scan_line P (s @ z) = None" using none [of is_bspace] s(2) by (simp add: scan_line_def Let_def)
  then have "scan_events P (f @ s @ z) = scan_events P f" by (simp add: scan_events_def lines List.map_filter_def)
  moreover have ne: "rstrip is_crlf s \<noteq> []"
  proof
    assume "rstrip is_crlf s = []"
    with rstrip_prefix [of s is_crlf] have "\<forall>c \<in> set s. is_crlf c" by simp
    with s(1) b(3) show False by simp
  qed
  have "rstrip is_crlf (f @ s @ z) = rstrip is_crlf (f @ s)"
    using z b rstrip_snoc [of is_crlf "f @ s" nl] by auto
  then have st: "rstrip is_crlf (f @ s @ z) = f @ rstrip is_crlf s" using ne by (simp add: rstrip_append_keep)
  have "nl \<notin> set (rstrip is_crlf s)" using nl rstrip_prefix [of s is_crlf] by (metis Un_iff set_append)
  from after_last_line [OF f this] have "after_last_nl (f @ rstrip is_crlf s) = rstrip is_crlf s" .
  then have "refuses P (f @ s @ z)" using none [of is_crlf] b(3) ne
    by (simp add: refuses_def read_last_event_hash_eq last_line_hash_def event_hash_from_line_def st)
  ultimately show ?thesis by blast
qed

lemma cut_line:
  assumes f: "line_end f" and wf: "event_wf P e" and n: "0 < n" "n < length (json_text P (JObj e))"
  shows "scan_events P (f @ take n (line_of P e)) = scan_events P f \<and> refuses P (f @ take n (line_of P e))"
proof -
  let ?p = "take n (json_text P (JObj e))"
  have p: "take n (line_of P e) = ?p" using n by (simp add: line_of_def)
  obtain u where u: "?p = CHR ''{'' # u" using text_bracketed [of P e] n(1) by (cases n) auto
  have nl: "nl \<notin> set ?p" using no_nl_json_text [OF wf] by (meson in_set_takeD)
  have none: "json_loads P (rstrip Q ?p) = None" for Q
  proof -
    obtain k where "rstrip Q ?p = take k ?p" "k \<le> length ?p" using rstrip_take [of ?p Q] by blast
    then show ?thesis using cut_unread [OF wf n, of k] n by simp
  qed
  from bad_tail [OF f nl u _ none, of "[]"] show ?thesis by (simp add: p is_bspace_def)
qed

section \<open>A lost newline\<close>

text \<open>What a write leaves that loses only its newline still reads as the event.\<close>

lemma bare_line:
  assumes f: "line_end f" and wf: "event_wf P e"
  shows "scan_events P (f @ json_text P (JObj e)) = scan_events P f @ [sort_members e]"
proof -
  let ?t = "json_text P (JObj e)"
  note sp = json_text_no_space [of P e]
  have lines: "py_lines (f @ ?t) = py_lines f @ [?t]" using py_lines_partial [OF f no_nl_json_text [OF wf]] sp by simp
  have "strip_by is_bspace ?t = ?t" using sp by (cases ?t) (simp_all add: strip_by_def rstrip_id)
  then have "scan_line P ?t = Some (sort_members e)"
    using sp loads_text [of P "JObj e"] wf by (simp add: scan_line_def Let_def jsort_JObj del: jsort.simps json_wf.simps)
  then show ?thesis by (simp add: scan_events_def lines List.map_filter_def)
qed

text \<open>Anything of a further line makes both unreadable.\<close>

lemma glued_line:
  assumes f: "line_end f" and wf: "event_wf P e" and wf': "event_wf P e'" and n: "0 < n"
  shows "scan_events P ((f @ json_text P (JObj e)) @ take n (line_of P e')) = scan_events P f
    \<and> refuses P ((f @ json_text P (JObj e)) @ take n (line_of P e'))"
proof -
  let ?t = "json_text P (JObj e)" and ?p = "take n (json_text P (JObj e'))"
  have nl: "nl \<notin> set (?t @ ?p)" using no_nl_json_text [OF wf] no_nl_json_text [OF wf'] by (auto dest: in_set_takeD)
  obtain u where u: "?t = CHR ''{'' # u" using text_bracketed [of P e] by blast
  obtain v where v: "?p = CHR ''{'' # v" using text_bracketed [of P e'] n by (cases n) auto
  have none: "json_loads P (rstrip Q (?t @ ?p)) = None" if "\<not> Q (CHR ''{'')" for Q
  proof (rule ccontr)
    have "rstrip Q ?p \<noteq> []"
    proof
      assume "rstrip Q ?p = []"
      with rstrip_prefix [of ?p Q] have "\<forall>c \<in> set ?p. Q c" by simp
      with v that show False by simp
    qed
    moreover obtain k where k: "rstrip Q ?p = take k ?p" using rstrip_take [of ?p Q] by blast
    ultimately obtain x where x: "rstrip Q ?p = CHR ''{'' # x" and "rstrip Q (?t @ ?p) = ?t @ rstrip Q ?p"
      using v by (cases k) (auto simp: rstrip_append_keep)
    moreover assume "json_loads P (rstrip Q (?t @ ?p)) \<noteq> None"
    ultimately obtain y where "json_loads P (?t @ rstrip Q ?p) = Some y" by auto
    from loads_glued [OF wf this] x show False by (simp add: is_jspace_def)
  qed
  have z: "take n (line_of P e') = ?p @ (if n \<le> length (json_text P (JObj e')) then [] else [nl])"
    by (simp add: line_of_def take_Cons')
  show ?thesis
    using bad_tail [OF f nl _ _ none, of "CHR ''{''" "u @ ?p" "if n \<le> length (json_text P (JObj e')) then [] else [nl]"] u
    unfolding z by (simp add: is_bspace_def)
qed

text \<open>
  C17: A write that loses nothing but its newline leaves a file that the library goes on to
  extend, but the next event shares the line of the one before: that append reports success, no scan
  sees either of the two events, and no later append is possible.
\<close>

theorem lost_newline_hides_events:
  assumes f: "line_end f" and wf: "event_wf P e" and h: "dget e ''event_hash'' = Some (JStr h)"
    and wf': "event_wf P e'"
    and app: "append_event_atomic P path fault build query (f @ butlast (line_of P e)) c = (Inr e', f', c')"
  shows "scan_events P (f @ butlast (line_of P e)) = scan_events P f @ [sort_members e]
    \<and> read_last_event_hash P (f @ butlast (line_of P e)) = Inr (Some h)
    \<and> scan_events P f' = scan_events P f
    \<and> isl (fst (append_event_atomic P path fault' build' query' f' c''))"
proof -
  let ?t = "json_text P (JObj e)"
  have b: "butlast (line_of P e) = ?t" by (simp add: line_of_def)
  note sp = json_text_no_space [of P e]
  have "rstrip is_crlf (f @ ?t) = f @ ?t" using sp by (intro rstrip_id) simp
  then have two: "read_last_event_hash P (f @ ?t) = Inr (Some h)"
    using after_last_line [OF f no_nl_json_text [OF wf]] event_hash_from_text [OF wf h] sp
    by (simp add: read_last_event_hash_eq last_line_hash_def)
  have f': "f' = (f @ ?t) @ take (length (line_of P e')) (line_of P e')" using app b by (auto elim: append_atomic_ok)
  have "0 < length (line_of P e')" by (simp add: line_of_def)
  note gl = glued_line [OF f wf wf' this, folded f']
  have "isl (fst (append_event_atomic P path fault' build' query' f' c''))"
  proof (rule ccontr)
    assume "\<not> ?thesis"
    then obtain e2 f2 c2 where "append_event_atomic P path fault' build' query' f' c'' = (Inr e2, f2, c2)"
      by (cases "append_event_atomic P path fault' build' query' f' c''"; cases "fst (append_event_atomic P path fault' build' query' f' c'')") auto
    with gl show False by (auto simp: refuses_def elim: append_atomic_ok)
  qed
  with bare_line [OF f wf] two gl show ?thesis unfolding b by blast
qed

lemma lost_newline_hides_events_witness:
  "\<exists>f' c'. append_event_atomic toy_platform ''j'' NoFault (\<lambda>prev blocking. Inr demo_decision) (Some (''pay'', ''k''))
      (butlast (line_of toy_platform demo_event)) [] = (Inr demo_decision, f', c')
    \<and> scan_events toy_platform f' = []
    \<and> isl (fst (append_event_atomic toy_platform ''j'' NoFault (\<lambda>prev blocking. Inr demo_event) None f' c'))"
proof -
  let ?g = "butlast (line_of toy_platform demo_event)"
  let ?a = "append_event_atomic toy_platform ''j'' NoFault (\<lambda>prev blocking. Inr demo_decision) (Some (''pay'', ''k'')) ?g []"
  have "fst ?a = Inr demo_decision" by code_simp
  then obtain f' c' where a: "?a = (Inr demo_decision, f', c')" by (cases ?a) auto
  have wf: "event_wf toy_platform demo_event" "event_wf toy_platform demo_decision" by code_simp+
  have "scan_events toy_platform [] = []" by code_simp
  with lost_newline_hides_events [of "[]" toy_platform demo_event "''ab''" demo_decision "''j''" NoFault _ _ "[]" f' c'
      NoFault "\<lambda>prev blocking. Inr demo_event" None c']
    a wf show ?thesis by (simp add: demo_event_def del: json_wf.simps)
qed

end
