(* ===== verification/Locked.thy ===== *)
theory Locked
  imports Runs Torn
begin

text \<open>
  What one operation under the file lock does to the journal file and to the index of its process:
  the event it writes is determined by the file and the caller's data, and it writes that event's
  line, a part of it, or nothing.
\<close>

section \<open>One locked write\<close>

text \<open>
  \<open>ev\<close> is the event the operation means to write. Either nothing changes, or the file was readable
  and grew by the first n bytes of the line; the index stays exact (a whole line keeps it so when the file
  ended with a line).
\<close>

definition wrote :: "platform \<Rightarrow> string \<Rightarrow> exn + event \<Rightarrow> bytes \<Rightarrow> idem_cache \<Rightarrow> bytes \<Rightarrow> idem_cache \<Rightarrow> bool" where
  "wrote P path ev f c f' c' \<longleftrightarrow>
     f' = f \<and> (cache_ok P path f c \<longrightarrow> cache_ok P path f c')
     \<or> (\<exists>e n. ev = Inr e \<and> \<not> refuses P f \<and> f' = f @ take n (line_of P e)
          \<and> (cache_ok P path f c \<longrightarrow> n < length (line_of P e) \<or> line_end f \<and> event_wf P e
               \<longrightarrow> cache_ok P path f' c'))"

definition locked_event :: "platform \<Rightarrow> bytes \<Rightarrow> (string option \<Rightarrow> exn + event) \<Rightarrow> exn + event" where
  "locked_event P f build = bindR (read_last_event_hash P f) build"

lemma wrote_same [simp]: "wrote P path ev f c f c"
  by (simp add: wrote_def)

lemma locked_event_Inr: "locked_event P f build = Inr e \<Longrightarrow> \<not> refuses P f \<and> (\<exists>prev. build prev = Inr e)"
  by (auto simp: locked_event_def refuses_def bindR_Inr_iff)

lemma write_wrote:
  assumes "write_event P path fault prev e f c = (r, f', c')" and "\<not> refuses P f"
  shows "wrote P path (Inr e) f c f' c' \<and> (\<forall>e'. r = Inr e' \<longrightarrow> e' = e \<and> f' = f @ line_of P e)"
proof (cases r)
  case (Inl x)
  from write_event_error [OF assms(1) [unfolded Inl]] obtain n where "c' = c" "f' = f @ take n (line_of P e)" by blast
  with assms(2) Inl show ?thesis by (auto simp: wrote_def intro: cache_ok_grow)
next
  case (Inr e')
  from write_event_ok [OF assms(1) [unfolded Inr]]
  have ok: "e' = e" "f' = f @ line_of P e"
    "c' = note_idem_append path e (length f) prev (length f + length (line_of P e)) (event_hash_of e) c" by simp_all
  have "cache_ok P path f c \<longrightarrow> line_end f \<and> event_wf P e \<longrightarrow> cache_ok P path f' c'"
    unfolding ok(2,3) using cache_ok_note by blast
  then have "wrote P path (Inr e) f c f' c'"
    unfolding wrote_def using assms(2) ok(2) by (intro disjI2 exI [of _ e] exI [of _ "length (line_of P e)"]) simp
  with ok Inr show ?thesis by simp
qed

lemma append_wrote:
  assumes "append_event P path fault build f c = (r, f', c')"
  shows "wrote P path (locked_event P f build) f c f' c'
    \<and> (\<forall>e. r = Inr e \<longrightarrow> locked_event P f build = Inr e \<and> f' = f @ line_of P e)"
proof (cases "fault = OpenFails \<or> isl (locked_event P f build)")
  case True
  with assms show ?thesis
    by (auto simp: append_event_def locked_event_def bindR_def split: sum.splits if_splits)
next
  case False
  then obtain e where e: "locked_event P f build = Inr e" by (cases "locked_event P f build") auto
  then obtain prev where p: "read_last_event_hash P f = Inr prev" "build prev = Inr e"
    by (auto simp: locked_event_def bindR_Inr_iff)
  from assms False p have "write_event P path fault prev e f c = (r, f', c')" by (simp add: append_event_def)
  from write_wrote [OF this] locked_event_Inr [OF e] e show ?thesis by auto
qed

text \<open>The atomic append hands the answer of a full scan to the builder.\<close>

definition prior_of :: "platform \<Rightarrow> bytes \<Rightarrow> (string \<times> string) option \<Rightarrow> string option" where
  "prior_of P f q = (case q of None \<Rightarrow> None | Some (action, key) \<Rightarrow> scan_blocking_idempotent P f action key)"

lemma wrote_cache:
  assumes "wrote P path ev f c1 f' c'" and "cache_ok P path f c1"
  shows "wrote P path ev f c f' c'"
  using assms by (auto simp: wrote_def)

lemma atomic_wrote:
  assumes app: "append_event_atomic P path fault build q f c = (r, f', c')"
    and c: "cache_ok P path f c" and o: "well_ordered (scan_events P f)"
  shows "wrote P path (locked_event P f (\<lambda>prev. build prev (prior_of P f q))) f c f' c'
    \<and> (\<forall>e. r = Inr e \<longrightarrow> locked_event P f (\<lambda>prev. build prev (prior_of P f q)) = Inr e \<and> f' = f @ line_of P e)"
proof -
  let ?ev = "locked_event P f (\<lambda>prev. build prev (prior_of P f q))"
  let ?q = "case q of None \<Rightarrow> Inr (None, c) | Some (action, key) \<Rightarrow> locked_blocking_prior_id P path f c action key"
  show ?thesis
  proof (cases "fault = OpenFails \<or> isl ?q")
    case True
    with app show ?thesis by (auto simp: append_event_atomic_def split: sum.splits if_splits)
  next
    case False
    then obtain b c1 where b: "?q = Inr (b, c1)" by (cases ?q) auto
    then have bc: "b = prior_of P f q" "cache_ok P path f c1"
      using c locked_blocking_exact [OF c o] by (auto simp: prior_of_def split: option.splits prod.splits)
    show ?thesis
    proof (cases ?ev)
      case (Inl x)
      with app False b bc show ?thesis
        by (auto simp: append_event_atomic_def wrote_def locked_event_def bindR_def split: sum.splits)
    next
      case (Inr e)
      then obtain prev where p: "read_last_event_hash P f = Inr prev" "build prev b = Inr e"
        by (auto simp: locked_event_def bindR_Inr_iff bc)
      from app False b p have "write_event P path fault prev e f c1 = (r, f', c')" by (simp add: append_event_atomic_def)
      from write_wrote [OF this] locked_event_Inr [OF Inr] Inr wrote_cache [OF _ bc(2)] show ?thesis by auto
    qed
  qed
qed

text \<open>Nothing is written to a file whose last line cannot be read.\<close>

lemma append_refused:
  assumes "append_event P path fault build f c = (r, f', c')" and "refuses P f"
  shows "isl r \<and> f' = f"
  using assms append_wrote [OF assms(1)] by (cases r) (auto simp: wrote_def dest: locked_event_Inr)

lemma atomic_refused:
  assumes app: "append_event_atomic P path fault build q f c = (r, f', c')" and "refuses P f"
  shows "isl r \<and> f' = f"
proof -
  from assms(2) obtain x where "read_last_event_hash P f = Inl x"
    unfolding refuses_def by (cases "read_last_event_hash P f") auto
  with app show ?thesis by (auto simp: append_event_atomic_def split: if_splits sum.splits)
qed

section \<open>The engine's writes\<close>

abbreviation w_bytes :: "(jstate, 's) world \<Rightarrow> bytes" where "w_bytes w \<equiv> j_bytes (w_store w)"
abbreviation w_index :: "(jstate, 's) world \<Rightarrow> idem_cache" where "w_index w \<equiv> j_index (w_store w)"

definition touched :: "platform \<Rightarrow> string \<Rightarrow> exn + event \<Rightarrow> (jstate, 's) world \<Rightarrow> (jstate, 's) world \<Rightarrow> bool" where
  "touched P path ev w w' \<longleftrightarrow> wrote P path ev (w_bytes w) (w_index w) (w_bytes w') (w_index w')"

lemma j_after_eq: "j_after j a = (r, j') \<Longrightarrow> a = (r, j_bytes j', j_index j')"
  by (auto simp: j_after_def split: prod.splits)

lemma engine_append_touched:
  assumes "engine_append P (file_store P path) c sg ty extra w = (r, w')"
  shows "touched P path (locked_event P (w_bytes w) (build_event P c sg (w_draws w) ty extra)) w w'
    \<and> (\<forall>e. r = Inr e \<longrightarrow> locked_event P (w_bytes w) (build_event P c sg (w_draws w) ty extra) = Inr e
         \<and> w_bytes w' = w_bytes w @ line_of P e)"
proof -
  obtain j where "so_append (file_store P path) (build_event P c sg (w_draws w) ty extra) (w_store w) = (r, j)"
    and w': "w' = w\<lparr>w_store := j, w_draws := Suc (w_draws w)\<rparr>"
    using assms by (auto simp: engine_append_def Let_def split: prod.splits)
  then have "append_event P path (j_fault (w_store w)) (build_event P c sg (w_draws w) ty extra) (w_bytes w) (w_index w)
      = (r, j_bytes j, j_index j)"
    by (auto simp: file_store_def dest: j_after_eq)
  from append_wrote [OF this] w' show ?thesis by (simp add: touched_def)
qed

lemma engine_append_refused:
  assumes "engine_append P (file_store P path) c sg ty extra w = (r, w')" and "refuses P (w_bytes w)"
  shows "isl r \<and> w_bytes w' = w_bytes w"
  using engine_append_touched [OF assms(1)] assms(2)
  by (cases r) (auto simp: touched_def wrote_def dest: locked_event_Inr)

text \<open>The event of a reservation: the decision, or the denial of a duplicate.\<close>

definition reserve_event ::
  "platform \<Rightarrow> string \<Rightarrow> (jstate, 's) call \<Rightarrow> signer \<Rightarrow> prepared_input \<Rightarrow> string option \<Rightarrow> int option \<Rightarrow> verdict
     \<Rightarrow> (jstate, 's) world \<Rightarrow> exn + event" where
  "reserve_event P path k sg inp key spend v w =
     locked_event P (w_bytes w) (\<lambda>prev.
       case key of
         None \<Rightarrow> build_event P (k_contract k) sg (w_draws w) ''decision'' (decision_extra k inp None spend v) prev
       | Some ky \<Rightarrow> build_atomic P (file_store P path) k sg inp ky spend v w prev
           (scan_blocking_idempotent P (w_bytes w) (c_action_name (k_contract k)) ky))"

definition record_event ::
  "platform \<Rightarrow> (jstate, 's) call \<Rightarrow> prepared \<Rightarrow> exn + pyval \<Rightarrow> (jstate, 's) world \<Rightarrow> exn + event" where
  "record_event P k pr res w =
     bindR (outcome_extra P k pr res) (\<lambda>extra.
       locked_event P (w_bytes w) (build_event P (k_contract k) (pr_signer pr) (w_draws w) ''outcome'' extra))"

lemma j_sound_parts: "j_sound P path j \<Longrightarrow> cache_ok P path (j_bytes j) (j_index j) \<and> well_ordered (scan_events P (j_bytes j))"
  by (simp add: j_sound_def)

lemma reserve_touched:
  assumes res: "reserve P (file_store P path) k sg inp key spend v w = (r, w')" and s: "j_sound P path (w_store w)"
  shows "touched P path (reserve_event P path k sg inp key spend v w) w w'
    \<and> (\<forall>e. r = Inr e \<longrightarrow> reserve_event P path k sg inp key spend v w = Inr e \<and> w_bytes w' = w_bytes w @ line_of P e)"
proof (cases key)
  case None
  with res have "engine_append P (file_store P path) (k_contract k) sg ''decision'' (decision_extra k inp None spend v) w = (r, w')"
    by (simp add: reserve_def)
  from engine_append_touched [OF this] None show ?thesis by (simp add: reserve_event_def)
next
  case (Some ky)
  let ?a = "c_action_name (k_contract k)" and ?b = "build_atomic P (file_store P path) k sg inp ky spend v w"
  obtain r1 j where a: "so_append_atomic (file_store P path) ?b ?a ky (w_store w) = (r1, j)"
    by (cases "so_append_atomic (file_store P path) ?b ?a ky (w_store w)")
  then have "append_event_atomic P path (j_fault (w_store w)) ?b (Some (?a, ky)) (w_bytes w) (w_index w)
      = (r1, j_bytes j, j_index j)"
    by (auto simp: file_store_def dest: j_after_eq)
  note wr = atomic_wrote [OF this] j_sound_parts [OF s]
  have "so_atomic (file_store P path)" by (simp add: file_store_def)
  with res a Some have "w' = w\<lparr>w_store := j, w_draws := Suc (w_draws w)\<rparr>" "\<forall>e. r = Inr e \<longrightarrow> r1 = Inr e"
    by (auto simp: reserve_def Let_def split: sum.splits if_splits)
  with wr Some show ?thesis by (auto simp: touched_def reserve_event_def prior_of_def)
qed

lemma reserve_refused:
  assumes res: "reserve P (file_store P path) k sg inp key spend v w = (r, w')" and f: "refuses P (w_bytes w)"
  shows "isl r \<and> w_bytes w' = w_bytes w"
proof (cases key)
  case None
  with res have "engine_append P (file_store P path) (k_contract k) sg ''decision'' (decision_extra k inp None spend v) w = (r, w')"
    by (simp add: reserve_def)
  from engine_append_refused [OF this f] show ?thesis .
next
  case (Some ky)
  let ?a = "c_action_name (k_contract k)" and ?b = "build_atomic P (file_store P path) k sg inp ky spend v w"
  obtain r1 j where a: "so_append_atomic (file_store P path) ?b ?a ky (w_store w) = (r1, j)"
    by (cases "so_append_atomic (file_store P path) ?b ?a ky (w_store w)")
  then have "append_event_atomic P path (j_fault (w_store w)) ?b (Some (?a, ky)) (w_bytes w) (w_index w)
      = (r1, j_bytes j, j_index j)"
    by (auto simp: file_store_def dest: j_after_eq)
  from atomic_refused [OF this f] have "isl r1" "j_bytes j = w_bytes w" by simp_all
  moreover have "so_atomic (file_store P path)" by (simp add: file_store_def)
  ultimately show ?thesis using res a Some by (auto simp: reserve_def Let_def split: sum.splits)
qed

lemma record_touched:
  assumes "record_outcome P (file_store P path) k pr res w = (x, w')"
  shows "touched P path (record_event P k pr res w) w w'
    \<and> (x = None \<longrightarrow> (\<exists>out. record_event P k pr res w = Inr out \<and> w_bytes w' = w_bytes w @ line_of P out))"
proof (cases "outcome_extra P k pr res")
  case (Inl y)
  with assms show ?thesis by (auto simp: record_outcome_def touched_def)
next
  case (Inr extra)
  obtain r w1 where a: "engine_append P (file_store P path) (k_contract k) (pr_signer pr) ''outcome'' extra w = (r, w1)"
    by (cases "engine_append P (file_store P path) (k_contract k) (pr_signer pr) ''outcome'' extra w")
  with assms Inr have "w' = w1" "x = None \<longrightarrow> \<not> isl r" by (auto simp: record_outcome_def Let_def split: sum.splits)
  with engine_append_touched [OF a] Inr show ?thesis by (cases r) (auto simp: record_event_def)
qed

lemma record_refused:
  assumes "record_outcome P (file_store P path) k pr res w = (x, w')" and "refuses P (w_bytes w)"
  shows "w_bytes w' = w_bytes w"
  using record_touched [OF assms(1)] assms(2) by (auto simp: touched_def wrote_def)

section \<open>A preparation without interruption\<close>

text \<open>What a call computes before it touches the store.\<close>

definition lock_free ::
  "platform \<Rightarrow> (jstate, 's) call \<Rightarrow> prepared_input \<Rightarrow> string option \<Rightarrow> int option \<Rightarrow> signer \<Rightarrow> bool" where
  "lock_free P k inp key spend sg \<longleftrightarrow>
     (\<exists>bound. k_bound k = Inr bound \<and> prepare_input P k bound = Inr inp
        \<and> resolve_idempotency_key (k_str k) (k_key k) bound = Inr key
        \<and> resolve_spend_cents (k_spend k) = Inr spend \<and> k_identity k = Inr sg)"

lemma lock_free_keyed: "lock_free P k inp key spend sg \<Longrightarrow> keyed k ky \<longleftrightarrow> key = Some ky"
  by (auto simp: lock_free_def keyed_def)

lemma precheck_files:
  assumes "precheck (file_store P path) action key w = (prior, w')"
  shows "w_bytes w' = w_bytes w \<and> w_index w' = w_index w \<and> w_draws w' = w_draws w"
proof (cases "is_completed (file_store P path) action key w \<or> so_path (file_store P path) = None")
  case True
  with assms show ?thesis by (simp add: precheck_def)
next
  case False
  let ?so = "file_store P path"
  obtain r j where c: "so_completed ?so action key (w_store w) = (r, j)" by (cases "so_completed ?so action key (w_store w)")
  obtain r' j' where b: "so_blocking ?so action key j = (r', j')" by (cases "so_blocking ?so action key j")
  have mark: "w_draws (mark_completed ?so action key x) = w_draws x" "w_store (mark_completed ?so action key x) = w_store x" for x
    by (simp_all add: mark_completed_def Let_def)
  from assms False c b have w': "w_store w' = j \<or> w_store w' = j'" and d: "w_draws w' = w_draws w"
    by (auto simp: precheck_def Let_def mark split: option.splits)
  have read: "j_bytes (snd (so_completed ?so action key x)) = j_bytes x" "j_index (snd (so_completed ?so action key x)) = j_index x"
    "j_bytes (snd (so_blocking ?so action key x)) = j_bytes x" "j_index (snd (so_blocking ?so action key x)) = j_index x" for x
    by (simp_all add: file_store_def)
  have "j_bytes j = w_bytes w" "j_index j = w_index w" using read(1,2) [of "w_store w"] c by simp_all
  moreover have "j_bytes j' = j_bytes j" "j_index j' = j_index j" using read(3,4) [of j] b by simp_all
  ultimately show ?thesis using w' d by auto
qed

text \<open>
  However a preparation ends, it changed the file in at most one locked operation: the denial of a
  duplicate the early check found, or the reservation with the verdict of the provider.
\<close>

lemma prepare_is_locked:
  assumes "prepare_execution P (file_store P path) k w = (r, w')"
  shows "w_bytes w' = w_bytes w \<and> w_index w' = w_index w \<and> isl r
    \<or> (\<exists>inp key spend sg w1. lock_free P k inp key spend sg \<and> w_bytes w1 = w_bytes w \<and> w_index w1 = w_index w
        \<and> w_draws w1 = w_draws w \<and> ((\<exists>ky prior r1. key = Some ky \<and> isl r
              \<and> engine_append P (file_store P path) (k_contract k) sg ''decision'' (duplicate_extra k inp ky spend prior) w1 = (r1, w'))
           \<or> (\<exists>v s s' r1. evaluate_approval k (approval_request (k_contract k) inp spend) s = (Inr v, s')
              \<and> reserve P (file_store P path) k sg inp key spend v w1 = (r1, w')
              \<and> (\<forall>pr. r = Inr pr \<longrightarrow> r1 = Inr (pr_event pr) \<and> vd_allowed v \<and> pr_signer pr = sg \<and> pr_dry_run pr = k_dry_run k)
              \<and> (isl r \<longrightarrow> isl r1 \<or> \<not> vd_allowed v))))"
  using assms
proof (cases rule: prepare_cases)
  case refused
  then show ?thesis by simp
next
  case (checked bound w1 inp key spend sg)
  have lf: "lock_free P k inp key spend sg" using checked by (auto simp: lock_free_def)
  have w1: "w_bytes w1 = w_bytes w" "w_index w1 = w_index w" "w_draws w1 = w_draws w"
    using notify_frame [OF checked(2)] checked(2) by (auto simp: notify_once_def split: option.splits if_splits sum.splits)
  have dec: ?thesis if d: "decide_and_record P (file_store P path) k sg inp key spend w2 = (r, w')"
    and w2: "w_bytes w2 = w_bytes w" "w_index w2 = w_index w" "w_draws w2 = w_draws w" for w2
  proof -
    obtain rv s' where ev: "evaluate_approval k (approval_request (k_contract k) inp spend) (w_provider w2) = (rv, s')"
      by (cases "evaluate_approval k (approval_request (k_contract k) inp spend) (w_provider w2)")
    show ?thesis
    proof (cases rv)
      case (Inl e)
      with d ev w2 show ?thesis by (intro disjI1) (auto simp: decide_and_record_def)
    next
      case (Inr v)
      obtain r1 w3 where rs: "reserve P (file_store P path) k sg inp key spend v (w2\<lparr>w_provider := s'\<rparr>) = (r1, w3)"
        by (cases "reserve P (file_store P path) k sg inp key spend v (w2\<lparr>w_provider := s'\<rparr>)")
      with d ev Inr have "w3 = w'" "\<forall>pr. r = Inr pr \<longrightarrow> r1 = Inr (pr_event pr) \<and> vd_allowed v \<and> pr_signer pr = sg \<and> pr_dry_run pr = k_dry_run k"
          "isl r \<longrightarrow> isl r1 \<or> \<not> vd_allowed v"
        by (auto simp: decide_and_record_def split: sum.splits if_splits)
      moreover have "w_bytes (w2\<lparr>w_provider := s'\<rparr>) = w_bytes w" "w_index (w2\<lparr>w_provider := s'\<rparr>) = w_index w"
        "w_draws (w2\<lparr>w_provider := s'\<rparr>) = w_draws w" using w2 by simp_all
      ultimately show ?thesis using lf ev Inr rs by blast
    qed
  qed
  show ?thesis
  proof (cases key)
    case None
    with checked(7) w1 show ?thesis by (intro dec [of w1]) (auto simp: checked_decision_def)
  next
    case (Some ky)
    let ?a = "c_action_name (k_contract k)"
    obtain prior w2 where pc: "precheck (file_store P path) ?a ky w1 = (prior, w2)"
      by (cases "precheck (file_store P path) ?a ky w1")
    have w2: "w_bytes w2 = w_bytes w" "w_index w2 = w_index w" "w_draws w2 = w_draws w" using precheck_files [OF pc] w1 by simp_all
    show ?thesis
    proof (cases "prior \<noteq> None \<or> is_completed (file_store P path) ?a ky w2")
      case False
      with checked(7) Some pc w2 show ?thesis by (intro dec [of w2]) (auto simp: checked_decision_def Let_def)
    next
      case True
      obtain r1 w3 where a: "engine_append P (file_store P path) (k_contract k) sg ''decision'' (duplicate_extra k inp ky spend prior) w2 = (r1, w3)"
        by (cases "engine_append P (file_store P path) (k_contract k) sg ''decision'' (duplicate_extra k inp ky spend prior) w2")
      with checked(7) Some pc True have "w3 = w'" "isl r"
        by (auto simp: checked_decision_def Let_def split: sum.splits)
      with a lf w2 Some show ?thesis by blast
    qed
  qed
qed

end
