(* ===== verification/Processes.thy ===== *)
theory Processes
  imports Locked
begin

text \<open>
  Several processes on one journal file, as a step relation. A process keeps its own memory (its
  index, its caches, its completed keys); the bytes of the file are shared. A step is one operation
  under the file lock: the reservation of a call, the denial of a duplicate, the outcome of a
  running call, any other append through the journal's own operations, or the end of a process in the
  middle of a call. Every operation may fail, with all or a part of its line in the file. The
  invariant: no two executions of one action and key run at the same time, and a key succeeds at
  most once.
\<close>

type_synonym 's pcall = "(jstate, 's) call"

record 's system =
  y_bytes :: bytes
  y_mem :: "nat \<Rightarrow> (jstate, 's) world"
  y_running :: "(nat \<times> 's pcall \<times> prepared) list"

text \<open>
  A world of process p when it enters the file lock: the shared bytes and its index; whatever else it
  remembers (completed keys, provider, observer, caches) may have changed since.
\<close>

definition enters :: "'s system \<Rightarrow> nat \<Rightarrow> (jstate, 's) world \<Rightarrow> bool" where
  "enters s p w \<longleftrightarrow> w_bytes w = y_bytes s \<and> w_index w = w_index (y_mem s p)"

definition leaves :: "'s system \<Rightarrow> nat \<Rightarrow> (jstate, 's) world \<Rightarrow> 's system" where
  "leaves s p w = s\<lparr>y_bytes := w_bytes w, y_mem := (y_mem s)(p := w)\<rparr>"

definition running_id :: "nat \<times> 's pcall \<times> prepared \<Rightarrow> string option" where
  "running_id x = event_id_of (pr_event (snd (snd x)))"

definition running_action :: "nat \<times> 's pcall \<times> prepared \<Rightarrow> string" where
  "running_action x = c_action_name (k_contract (fst (snd x)))"

definition same_slot :: "nat \<times> 's pcall \<times> prepared \<Rightarrow> nat \<times> 's pcall \<times> prepared \<Rightarrow> bool" where
  "same_slot x y \<longleftrightarrow>
     running_action x = running_action y \<and> (\<exists>ky. keyed (fst (snd x)) ky \<and> keyed (fst (snd y)) ky)"

text \<open>
  Events that are not the engine's allowances and outcomes: they may be appended at any time, if
  a decision has a fresh id and a resolution is for a decision in the journal that is not being
  executed (the operator has looked).
\<close>

definition side_event :: "platform \<Rightarrow> 's system \<Rightarrow> event \<Rightarrow> bool" where
  "side_event P s e \<longleftrightarrow>
     event_wf P e \<and> \<not> etype ''outcome'' e
     \<and> (etype ''decision'' e \<longrightarrow> jget e ''decision'' \<noteq> JStr ''allowed'' \<or> jget e ''dry_run'' = JBool True)
     \<and> (etype ''resolution'' e \<longrightarrow> str_of (jget e ''decision_event_id'') \<notin> set (map running_id (y_running s)))
     \<and> well_ordered (scan_events P (y_bytes s) @ [sort_members e])"

text \<open>What is asked of a write, whatever fails: the event is well-formed.\<close>

definition wf_write :: "platform \<Rightarrow> exn + event \<Rightarrow> bool" where
  "wf_write P ev \<longleftrightarrow> (\<forall>e. ev = Inr e \<longrightarrow> event_wf P e)"

definition fresh_id :: "platform \<Rightarrow> bytes \<Rightarrow> string \<Rightarrow> bool" where
  "fresh_id P f i \<longleftrightarrow> (\<forall>e \<in> set (scan_events P f). event_id_of e \<noteq> Some i)"

text \<open>The lock-free part of a call and the verdict it got, in whatever provider state.\<close>

definition decided :: "platform \<Rightarrow> 's pcall \<Rightarrow> prepared_input \<Rightarrow> string option \<Rightarrow> int option \<Rightarrow> signer \<Rightarrow> verdict \<Rightarrow> bool" where
  "decided P k inp key spend sg v \<longleftrightarrow>
     lock_free P k inp key spend sg
     \<and> (\<exists>s s'. evaluate_approval k (approval_request (k_contract k) inp spend) s = (Inr v, s'))"

inductive sys_step :: "platform \<Rightarrow> string \<Rightarrow> 's system \<Rightarrow> 's system \<Rightarrow> bool" for P path where
  start: "sys_step P path s ((leaves s p w')\<lparr>y_running := (p, k, pr) # y_running s\<rparr>)"
  if "enters s p w" and "decided P k inp key spend sg v" and "vd_allowed v" and "\<not> k_dry_run k"
    and "reserve P (file_store P path) k sg inp key spend v w = (Inr (pr_event pr), w')"
    and "event_wf P (pr_event pr)" and "fresh_id P (y_bytes s) (uuid4 P (w_draws w))"
| refuse: "sys_step P path s (leaves s p w')"
  if "enters s p w" and "decided P k inp key spend sg v" and "isl r \<or> \<not> vd_allowed v \<or> k_dry_run k"
    and "reserve P (file_store P path) k sg inp key spend v w = (r, w')"
    and "wf_write P (reserve_event P path k sg inp key spend v w)"
    and "fresh_id P (y_bytes s) (uuid4 P (w_draws w))"
| duplicate: "sys_step P path s (leaves s p w')"
  if "enters s p w" and "lock_free P (k :: 's pcall) inp (Some ky) spend sg"
    and "engine_append P (file_store P path) (k_contract k) sg ''decision'' (duplicate_extra k inp ky spend prior) w = (r, w')"
    and "wf_write P
      (locked_event P (y_bytes s) (build_event P (k_contract k) sg (w_draws w) ''decision'' (duplicate_extra k inp ky spend prior)))"
    and "fresh_id P (y_bytes s) (uuid4 P (w_draws w))"
| finish: "sys_step P path s ((leaves s p w')\<lparr>y_running := xs @ ys\<rparr>)"
  if "y_running s = xs @ (p, k, pr) # ys" and "enters s p w"
    and "record_outcome P (file_store P path) k pr res w = (x, w')"
    and "wf_write P (record_event P k pr res w)"
| other: "sys_step P path s (s\<lparr>y_bytes := f', y_mem := (y_mem s)(p := (y_mem s p)\<lparr>w_store := (w_store (y_mem s p))\<lparr>j_index := c'\<rparr>\<rparr>)\<rparr>)"
  if "append_event_atomic P path fault build q (y_bytes s) (w_index (y_mem s p)) = (r, f', c')"
    and "wf_write P (locked_event P (y_bytes s) (\<lambda>prev. build prev (prior_of P (y_bytes s) q)))"
    and "\<forall>e. locked_event P (y_bytes s) (\<lambda>prev. build prev (prior_of P (y_bytes s) q)) = Inr e \<longrightarrow> side_event P s e"
| crash: "sys_step P path s (s\<lparr>y_running := xs @ ys\<rparr>)" if "y_running s = xs @ x # ys"

definition initial :: "'s system \<Rightarrow> bool" where
  "initial s \<longleftrightarrow> y_bytes s = [] \<and> y_running s = [] \<and> (\<forall>p. j_index (w_store (y_mem s p)) = [])"

inductive reachable :: "platform \<Rightarrow> string \<Rightarrow> 's system \<Rightarrow> bool" for P path where
  init: "reachable P path s" if "initial s"
| step: "reachable P path s'" if "reachable P path s" and "sys_step P path s s'"

text \<open>A decision of this action and key with a succeeded outcome.\<close>

definition succeeded :: "links \<Rightarrow> string \<Rightarrow> string \<Rightarrow> string \<Rightarrow> bool" where
  "succeeded l action key i \<longleftrightarrow>
     (\<exists>e. dget (l_decisions l) i = Some e \<and> candidate action key e)
     \<and> (\<exists>oc \<in> set (dget_default (l_outcomes l) i []). jget oc ''status'' = JStr ''succeeded'')"

section \<open>The scan of an extended journal\<close>

definition decision_ids :: "event list \<Rightarrow> string list" where
  "decision_ids es = List.map_filter (\<lambda>e. if etype ''decision'' e then event_id_of e else None) es"

lemma ordered_snoc:
  "ordered_after seen (es @ [e]) \<longleftrightarrow> ordered_after seen es \<and> ordered_after (rev (decision_ids es) @ seen) [e]"
  by (induction es arbitrary: seen) (auto simp: decision_ids_def List.map_filter_def split: option.splits)

lemma scan_links_snoc: "scan_links (es @ [e]) = link_event e (scan_links es)"
  by (simp add: scan_links_def)

lemma links_match:
  assumes "well_ordered es"
  shows "\<exists>t. tables_match (scan_links es) t"
  using tables_match_fold [OF _ _ tables_match_empty, where es = es] assms
  by (auto simp: scan_links_def no_links_def)

section \<open>The invariant of the executions\<close>

definition open_decision :: "links \<Rightarrow> nat \<times> 's pcall \<times> prepared \<Rightarrow> string \<Rightarrow> bool" where
  "open_decision l x i \<longleftrightarrow>
     (\<exists>e. dget (l_decisions l) i = Some e
        \<and> (\<forall>a ky. candidate a ky e \<longleftrightarrow> a = running_action x \<and> keyed (fst (snd x)) ky))
     \<and> dget_default (l_outcomes l) i [] = [] \<and> dget_default (l_resolutions l) i [] = []"

definition exec_inv :: "links \<Rightarrow> (nat \<times> 's pcall \<times> prepared) list \<Rightarrow> bool" where
  "exec_inv l rs \<longleftrightarrow>
     distinct (map running_id rs)
     \<and> (\<forall>x \<in> set rs. \<exists>i. running_id x = Some i \<and> open_decision l x i)
     \<and> (\<forall>x \<in> set rs. \<forall>y \<in> set rs. same_slot x y \<longrightarrow> x = y)
     \<and> (\<forall>a ky i j. succeeded l a ky i \<longrightarrow> succeeded l a ky j \<longrightarrow> i = j)
     \<and> (\<forall>x \<in> set rs. \<forall>ky i. keyed (fst (snd x)) ky \<longrightarrow> \<not> succeeded l (running_action x) ky i)"

lemma exec_inv_empty: "exec_inv no_links []"
  by (simp add: exec_inv_def succeeded_def no_links_def)

lemma exec_invD:
  assumes "exec_inv l rs"
  shows "distinct (map running_id rs)"
    and "x \<in> set rs \<Longrightarrow> \<exists>i. running_id x = Some i \<and> open_decision l x i"
    and "x \<in> set rs \<Longrightarrow> y \<in> set rs \<Longrightarrow> same_slot x y \<Longrightarrow> x = y"
    and "succeeded l a ky i \<Longrightarrow> succeeded l a ky j \<Longrightarrow> i = j"
    and "x \<in> set rs \<Longrightarrow> keyed (fst (snd x)) ky \<Longrightarrow> \<not> succeeded l (running_action x) ky i"
  using assms unfolding exec_inv_def by blast+

lemma exec_invI:
  assumes "distinct (map running_id rs)"
    and "\<And>x. x \<in> set rs \<Longrightarrow> \<exists>i. running_id x = Some i \<and> open_decision l x i"
    and "\<And>x y. x \<in> set rs \<Longrightarrow> y \<in> set rs \<Longrightarrow> same_slot x y \<Longrightarrow> x = y"
    and "\<And>a ky i j. succeeded l a ky i \<Longrightarrow> succeeded l a ky j \<Longrightarrow> i = j"
    and "\<And>x ky i. x \<in> set rs \<Longrightarrow> keyed (fst (snd x)) ky \<Longrightarrow> \<not> succeeded l (running_action x) ky i"
  shows "exec_inv l rs"
  using assms unfolding exec_inv_def by blast

text \<open>What stays of it on a file that no append extends.\<close>

definition dead_inv :: "links \<Rightarrow> (nat \<times> 's pcall \<times> prepared) list \<Rightarrow> bool" where
  "dead_inv l rs \<longleftrightarrow>
     distinct (map running_id rs)
     \<and> (\<forall>x \<in> set rs. \<forall>y \<in> set rs. same_slot x y \<longrightarrow> x = y)
     \<and> (\<forall>x \<in> set rs. \<forall>ky i. keyed (fst (snd x)) ky \<longrightarrow> \<not> succeeded l (running_action x) ky i)
     \<and> (\<forall>a ky i j. succeeded l a ky i \<longrightarrow> succeeded l a ky j \<longrightarrow> i = j)"

lemma exec_dead: "exec_inv l rs \<Longrightarrow> dead_inv l rs"
  by (auto simp: exec_inv_def dead_inv_def)

lemma dead_mono: "dead_inv l rs \<Longrightarrow> (\<And>a ky i. succeeded l' a ky i \<Longrightarrow> succeeded l a ky i) \<Longrightarrow> dead_inv l' rs"
  unfolding dead_inv_def by blast

text \<open>Executions only end.\<close>

inductive shrinks :: "'a list \<Rightarrow> 'a list \<Rightarrow> bool" where
  same: "shrinks rs rs"
| ended: "shrinks (xs @ x # ys) (xs @ ys)"

lemma shrinks_sub: "shrinks rs rs' \<Longrightarrow> set rs' \<subseteq> set rs \<and> (distinct (map f rs) \<longrightarrow> distinct (map f rs'))"
  by (induction rule: shrinks.induct) auto

lemma dead_shrinks: "shrinks rs rs' \<Longrightarrow> dead_inv l rs \<Longrightarrow> dead_inv l rs'"
  unfolding dead_inv_def using shrinks_sub [of rs rs' running_id] by (meson subsetD)

lemma exec_crash: "exec_inv l (xs @ x # ys) \<Longrightarrow> exec_inv l (xs @ ys)"
  by (auto simp: exec_inv_def)

lemma exec_shrinks: "shrinks rs rs' \<Longrightarrow> exec_inv l rs \<Longrightarrow> exec_inv l rs'"
  by (auto elim!: shrinks.cases intro: exec_crash)

text \<open>What keeps a key taken: an open decision, or a success.\<close>

lemma taken_blocks:
  assumes "dget (l_decisions l) i = Some e" and "candidate a ky e" and "blocks (l_outcomes l) (l_resolutions l) i"
  shows "blocking_prior_from_state (l_decisions l) (l_outcomes l) a ky (l_resolutions l) \<noteq> None"
proof -
  have "(i, e) \<in> set (l_decisions l)" using assms(1) by (rule map_of_SomeD)
  with assms(2,3) show ?thesis by (auto simp: blocking_prior_from_state_def find_None_iff)
qed

lemma open_blocks: "open_decision l x i \<Longrightarrow> blocks (l_outcomes l) (l_resolutions l) i"
  by (auto simp: open_decision_def blocks_def resolved_clear_def dget_default_def split: option.splits)

lemma succeeded_blocks:
  "succeeded l a ky i \<Longrightarrow> blocking_prior_from_state (l_decisions l) (l_outcomes l) a ky (l_resolutions l) \<noteq> None"
  unfolding succeeded_def by (elim conjE exE, rule taken_blocks) (auto simp: blocks_def Let_def)

text \<open>A new decision.\<close>

lemma link_new_decision:
  assumes "etype ''decision'' e" and "event_id_of e = Some i" and "dget (l_decisions l) i = None"
  shows "link_event e l = l\<lparr>l_decisions := l_decisions l @ [(i, e)]\<rparr>"
  using assms by (simp add: link_event_def event_id_of_def str_of_eq dset_fresh)

lemma succeeded_new_decision:
  assumes "dget (l_decisions l) i = None" and "dget_default (l_outcomes l) i [] = []"
  shows "succeeded (l\<lparr>l_decisions := l_decisions l @ [(i, e)]\<rparr>) a ky j \<longleftrightarrow> succeeded l a ky j"
  using assms by (auto simp: succeeded_def map_add_Some_iff)

lemma open_new_decision:
  assumes "dget (l_decisions l) i = None" and "open_decision l x j"
  shows "open_decision (l\<lparr>l_decisions := l_decisions l @ [(i, e)]\<rparr>) x j"
  using assms by (auto simp: open_decision_def map_add_Some_iff)

lemma exec_start:
  assumes inv: "exec_inv l rs" and id: "running_id x = Some i" and fresh: "dget (l_decisions l) i = None"
    and none: "dget_default (l_outcomes l) i [] = []" "dget_default (l_resolutions l) i [] = []"
    and cand: "\<And>a ky. candidate a ky e \<longleftrightarrow> a = running_action x \<and> keyed (fst (snd x)) ky"
    and free: "\<And>ky. keyed (fst (snd x)) ky \<Longrightarrow>
      blocking_prior_from_state (l_decisions l) (l_outcomes l) (running_action x) ky (l_resolutions l) = None"
  shows "exec_inv (l\<lparr>l_decisions := l_decisions l @ [(i, e)]\<rparr>) (x # rs)"
proof -
  let ?l = "l\<lparr>l_decisions := l_decisions l @ [(i, e)]\<rparr>"
  have opens: "\<exists>j. running_id y = Some j \<and> open_decision l y j" if "y \<in> set rs" for y
    using inv that by (auto simp: exec_inv_def)
  have new: "running_id y \<noteq> Some i" if "y \<in> set rs" for y
    using opens [OF that] fresh by (auto simp: open_decision_def)
  have clash: "\<not> same_slot x y" if y: "y \<in> set rs" for y
  proof
    assume s: "same_slot x y"
    then obtain ky where ky: "keyed (fst (snd x)) ky" "keyed (fst (snd y)) ky" and a: "running_action x = running_action y"
      by (auto simp: same_slot_def)
    from opens [OF y] obtain j where o: "open_decision l y j" by blast
    then obtain e' where "dget (l_decisions l) j = Some e'" "candidate (running_action y) ky e'"
      using ky(2) by (auto simp: open_decision_def)
    from taken_blocks [OF this open_blocks [OF o]] free [OF ky(1)] a show False by simp
  qed
  have sym: "same_slot y x = same_slot x y" for y by (auto simp: same_slot_def)
  have free': "\<not> succeeded l (running_action x) ky j" if "keyed (fst (snd x)) ky" for ky j
    using succeeded_blocks free [OF that] by metis
  note same = succeeded_new_decision [OF fresh none(1), of e]
  show ?thesis
  proof (rule exec_invI, goal_cases)
    case 1
    have "running_id x \<notin> running_id ` set rs" using new id by (metis imageE)
    with exec_invD(1) [OF inv] show ?case by simp
  next
    case (2 y)
    have "open_decision ?l x i"
      using fresh none cand by (auto simp: open_decision_def map_add_Some_iff)
    then show ?case
    proof (cases "y = x")
      case False
      with 2 opens [of y] obtain j where "running_id y = Some j" "open_decision l y j" by auto
      with open_new_decision [OF fresh] show ?thesis by blast
    qed (use id in blast)
  next
    case (3 y z)
    then show ?case using exec_invD(3) [OF inv, of y z] clash [of y] clash [of z] sym [of y] by auto
  next
    case (4 a ky j j')
    then show ?case using exec_invD(4) [OF inv] unfolding same by blast
  next
    case (5 y ky j)
    then show ?case using exec_invD(5) [OF inv, of y ky j] free' [of ky j] unfolding same by auto
  qed
qed

text \<open>An outcome of an execution that ends.\<close>

definition add_outcome :: "string \<Rightarrow> event \<Rightarrow> links \<Rightarrow> links" where
  "add_outcome i out l = l\<lparr>l_outcomes := dappend i out (l_outcomes l)\<rparr>"

lemma link_outcome:
  "etype ''outcome'' out \<Longrightarrow> jget out ''decision_event_id'' = JStr i \<Longrightarrow> link_event out l = add_outcome i out l"
  by (simp add: link_event_def etype_def add_outcome_def)

lemma exec_outcome:
  assumes inv: "exec_inv l (xs @ x # ys)" and id: "running_id x = Some i"
  shows "exec_inv (add_outcome i out l) (xs @ ys)"
proof -
  have x: "x \<in> set (xs @ x # ys)" by simp
  have sub: "y \<in> set (xs @ x # ys)" if "y \<in> set (xs @ ys)" for y using that by auto
  have o: "open_decision l x i" using exec_invD(2) [OF inv x] id by simp
  have new: "running_id y \<noteq> Some i" if "y \<in> set (xs @ ys)" for y
    using exec_invD(1) [OF inv] id that by force
  have other: "succeeded (add_outcome i out l) a ky j \<longleftrightarrow> succeeded l a ky j" if "j \<noteq> i" for a ky j
    using that by (simp add: succeeded_def add_outcome_def dget_default_dappend)
  have mine: "a = running_action x \<and> keyed (fst (snd x)) ky" if "succeeded (add_outcome i out l) a ky i" for a ky
    using that o by (auto simp: succeeded_def add_outcome_def open_decision_def)
  have none: "\<not> succeeded l a ky j" if "succeeded (add_outcome i out l) a ky i" for a ky j
    using mine [OF that] exec_invD(5) [OF inv x] by blast
  have opens: "\<exists>j. running_id y = Some j \<and> open_decision (add_outcome i out l) y j" if y: "y \<in> set (xs @ ys)" for y
  proof -
    from exec_invD(2) [OF inv sub [OF y]] obtain j where j: "running_id y = Some j" "open_decision l y j" by blast
    with new [OF y] show ?thesis by (auto simp: open_decision_def add_outcome_def dget_default_dappend)
  qed
  show ?thesis
  proof (rule exec_invI, goal_cases)
    case 1
    show ?case using exec_invD(1) [OF inv] by simp
  next
    case (2 y)
    then show ?case by (rule opens)
  next
    case (3 y z)
    then show ?case using exec_invD(3) [OF inv sub sub] by blast
  next
    case (4 a ky j j')
    then have "j = i \<longleftrightarrow> j' = i" using none other by metis
    moreover have "j = j'" if "j \<noteq> i" "j' \<noteq> i" using that other 4 exec_invD(4) [OF inv] by blast
    ultimately show ?case by blast
  next
    case (5 y ky j)
    show ?case
    proof
      assume s: "succeeded (add_outcome i out l) (running_action y) ky j"
      show False
      proof (cases "j = i")
        case True
        with mine s 5(2) have "same_slot x y" by (auto simp: same_slot_def)
        then have "x = y" using exec_invD(3) [OF inv x sub [OF 5(1)]] by blast
        with new [OF 5(1)] id show False by simp
      next
        case False
        with s other have "succeeded l (running_action y) ky j" by simp
        with exec_invD(5) [OF inv sub [OF 5(1)] 5(2)] show False by blast
      qed
    qed
  qed
qed

text \<open>Any other event.\<close>

lemma exec_inv_cong:
  assumes inv: "exec_inv l rs"
    and "\<And>a ky i. succeeded l' a ky i \<longleftrightarrow> succeeded l a ky i"
    and "\<And>x i. x \<in> set rs \<Longrightarrow> running_id x = Some i \<Longrightarrow> open_decision l x i \<Longrightarrow> open_decision l' x i"
  shows "exec_inv l' rs"
  using assms(3) exec_invD [OF inv] unfolding exec_inv_def assms(2) by blast

lemma exec_side:
  assumes inv: "exec_inv l rs" and m: "tables_match l t" and "\<not> etype ''outcome'' e"
    and dec: "etype ''decision'' e \<Longrightarrow> jget e ''decision'' \<noteq> JStr ''allowed'' \<or> jget e ''dry_run'' = JBool True"
    and res: "etype ''resolution'' e \<Longrightarrow> str_of (jget e ''decision_event_id'') \<notin> set (map running_id rs)"
  shows "exec_inv (link_event e l) rs"
proof -
  have keep: ?thesis if "link_event e l = l" using inv that by simp
  show ?thesis
  proof (cases "etype ''decision'' e")
    case True
    show ?thesis
    proof (cases "event_id_of e")
      case None
      then have "str_of (jget e ''event_id'') = None" by (simp add: event_id_of_def)
      with True show ?thesis by (intro keep) (simp add: link_event_def case_str)
    next
      case (Some i)
      show ?thesis
      proof (cases "dget (l_decisions l) i")
        case (Some e')
        with True \<open>event_id_of e = Some i\<close> show ?thesis
          by (intro keep) (simp add: link_event_def event_id_of_def str_of_eq)
      next
        case None
        with m have none: "dget_default (l_outcomes l) i [] = []"
          by (simp add: tables_match_def dget_None_iff)
        show ?thesis
          unfolding link_new_decision [OF True Some None]
          using succeeded_new_decision [OF None none] open_new_decision [OF None]
          by (intro exec_inv_cong [OF inv]) auto
      qed
    qed
  next
    case False
    show ?thesis
    proof (cases "etype ''resolution'' e \<and> is_str (jget e ''decision_event_id'')")
      case True
      then obtain r where r: "jget e ''decision_event_id'' = JStr r" by (auto simp: is_str_iff)
      have l: "link_event e l = l\<lparr>l_resolutions := dappend r e (l_resolutions l)\<rparr>"
        using True False r etype_exclusive by (auto simp: link_event_def)
      have "running_id x \<noteq> Some r" if "x \<in> set rs" for x using res True r that by force
      then show ?thesis
        unfolding l
        by (intro exec_inv_cong [OF inv]) (auto simp: succeeded_def open_decision_def dget_default_dappend)
    next
      case other: False
      with False assms(3) show ?thesis
        by (intro keep) (auto simp: link_event_def case_str is_str_iff str_of_eq split: option.splits)
    qed
  qed
qed

section \<open>The decisions of a scan\<close>

lemma decisions_ids:
  "dget (l_decisions (scan_links es)) i = Some e \<Longrightarrow> i \<in> set (decision_ids es) \<and> event_id_of e = Some i"
proof (induction es rule: rev_induct)
  case Nil
  then show ?case by (simp add: scan_links_def no_links_def)
next
  case (snoc x es)
  have ids: "set (decision_ids (es @ [x])) = set (decision_ids es)
      \<union> (if etype ''decision'' x then set_option (event_id_of x) else {})"
    by (auto simp: decision_ids_def List.map_filter_def)
  from snoc show ?case
    unfolding scan_links_snoc ids
    by (auto simp: link_event_def case_str event_id_of_def split: if_splits option.splits)
qed

lemma decision_ids_mem: "i \<in> set (decision_ids es) \<Longrightarrow> \<exists>e \<in> set es. event_id_of e = Some i"
  by (auto simp: decision_ids_def List.map_filter_def split: if_splits)

lemma links_distinct: "distinct (map fst (l_decisions (scan_links es)))"
proof (induction es rule: rev_induct)
  case (snoc e es)
  then show ?case unfolding scan_links_snoc by (auto simp: link_event_def split: json.splits)
qed (simp add: scan_links_def no_links_def)

lemma unblocked:
  assumes "scan_blocking_idempotent P f a ky = None"
  shows "blocking_prior_from_state (l_decisions (scan_links (scan_events P f))) (l_outcomes (scan_links (scan_events P f)))
    a ky (l_resolutions (scan_links (scan_events P f))) = None"
proof (rule ccontr)
  let ?l = "scan_links (scan_events P f)"
  assume "\<not> ?thesis"
  then obtain i e where e: "find (\<lambda>(i, e). candidate a ky e \<and> blocks (l_outcomes ?l) (l_resolutions ?l) i) (l_decisions ?l) = Some (i, e)"
    by (auto simp: blocking_prior_from_state_def)
  then have "(i, e) \<in> set (l_decisions ?l)" by (auto simp: find_Some_iff) (metis nth_mem)
  moreover have "distinct (map fst (l_decisions ?l))" by (rule links_distinct)
  ultimately have "dget (l_decisions ?l) i = Some e" by (simp add: map_of_is_SomeI)
  with decisions_ids e assms show False
    by (auto simp: scan_blocking_idempotent_def blocking_prior_from_state_def Let_def)
qed

section \<open>What a write does to the invariant of the file\<close>

lemma succeeded_grows:
  assumes "succeeded (scan_links es) a ky i"
  shows "succeeded (scan_links (es @ [e])) a ky i"
proof -
  from assms obtain d oc where d: "dget (l_decisions (scan_links es)) i = Some d" "candidate a ky d"
    and oc: "oc \<in> set (dget_default (l_outcomes (scan_links es)) i [])" "jget oc ''status'' = JStr ''succeeded''"
    by (auto simp: succeeded_def)
  have "dget (l_decisions (scan_links (es @ [e]))) i = Some d"
    using d unfolding scan_links_snoc by (auto simp: link_event_def case_str map_add_Some_iff split: option.splits)
  moreover have "oc \<in> set (dget_default (l_outcomes (scan_links (es @ [e]))) i [])"
    using oc unfolding scan_links_snoc by (auto simp: link_event_def case_str dget_default_dappend split: option.splits)
  ultimately show ?thesis using d oc by (auto simp: succeeded_def)
qed

definition live :: "platform \<Rightarrow> bytes \<Rightarrow> (nat \<times> 's pcall \<times> prepared) list \<Rightarrow> bool" where
  "live P f rs \<longleftrightarrow> well_ordered (scan_events P f) \<and> exec_inv (scan_links (scan_events P f)) rs"

text \<open>A file whose last write lost nothing but its newline.\<close>

definition bare :: "platform \<Rightarrow> bytes \<Rightarrow> bool" where
  "bare P f \<longleftrightarrow> (\<exists>g e. f = g @ json_text P (JObj e) \<and> line_end g \<and> event_wf P e)"

text \<open>
  The file ends with a line; or with an event that lost its newline; or a cut write or the gluing of two
  events made it unreadable, and no append extends it any more.
\<close>

definition log_inv :: "platform \<Rightarrow> bytes \<Rightarrow> (nat \<times> 's pcall \<times> prepared) list \<Rightarrow> bool" where
  "log_inv P f rs \<longleftrightarrow>
     (line_end f \<or> bare P f) \<and> live P f rs
     \<or> refuses P f \<and> dead_inv (scan_links (scan_events P f)) rs"

lemma log_dead: "log_inv P f rs \<Longrightarrow> dead_inv (scan_links (scan_events P f)) rs"
  by (auto simp: log_inv_def live_def intro: exec_dead)

lemma log_live: "log_inv P f rs \<Longrightarrow> \<not> refuses P f \<Longrightarrow> (line_end f \<or> bare P f) \<and> live P f rs"
  by (auto simp: log_inv_def)

lemma log_shrinks: "log_inv P f rs \<Longrightarrow> shrinks rs rs' \<Longrightarrow> log_inv P f rs'"
  by (auto simp: log_inv_def live_def intro: exec_shrinks dead_shrinks)

text \<open>A write after a lost newline: neither event is seen any more.\<close>

lemma log_glued:
  assumes f: "f = g @ json_text P (JObj e0)" "line_end g" "event_wf P e0" and wf: "event_wf P e" and n: "0 < n"
    and ex: "exec_inv (scan_links (scan_events P f @ [sort_members e])) rs"
  shows "log_inv P (f @ take n (line_of P e)) rs"
proof -
  note gl = glued_line [OF f(2,3) wf n, folded f(1)]
  have sc: "scan_events P f = scan_events P g @ [sort_members e0]" unfolding f(1) by (rule bare_line [OF f(2,3)])
  have "dead_inv (scan_links (scan_events P g)) rs"
    using exec_dead [OF ex] by (rule dead_mono) (unfold sc, intro succeeded_grows)
  with gl show ?thesis by (simp add: log_inv_def)
qed

text \<open>A write, whole or in part, on a file that accepts it.\<close>

lemma log_line:
  assumes inv: "log_inv P f rs0" and nr: "\<not> refuses P f" and wf: "event_wf P e"
    and full: "well_ordered (scan_events P f @ [sort_members e]) \<and> exec_inv (scan_links (scan_events P f @ [sort_members e])) rs"
    and n: "length (json_text P (JObj e)) \<le> n"
  shows "log_inv P (f @ take n (line_of P e)) rs"
proof (cases "line_end f")
  case True
  show ?thesis
  proof (cases "n = length (json_text P (JObj e))")
    case n: True
    then have t: "take n (line_of P e) = json_text P (JObj e)" by (simp add: line_of_def)
    have "bare P (f @ json_text P (JObj e))" using True wf unfolding bare_def by blast
    with full bare_line [OF True wf] show ?thesis unfolding t by (simp add: log_inv_def live_def)
  next
    case False
    with n have "take n (line_of P e) = line_of P e" by (simp add: line_of_def)
    with True wf full show ?thesis by (simp add: log_inv_def live_def scan_events_extend del: json_wf.simps)
  qed
next
  case False
  then obtain g e0 where f: "f = g @ json_text P (JObj e0)" "line_end g" "event_wf P e0"
    using log_live [OF inv nr] by (auto simp: bare_def)
  have "0 < length (json_text P (JObj e))" using json_text_no_space [of P e] by simp
  with n have "0 < n" by linarith
  with log_glued [OF f wf] full show ?thesis by blast
qed

lemma log_wrote:
  assumes inv: "log_inv P f rs0" and w: "wrote P path ev f c f' c'" and ok: "wf_write P ev" and sh: "shrinks rs0 rs"
    and full: "\<And>e. ev = Inr e \<Longrightarrow> live P f rs0 \<Longrightarrow> well_ordered (scan_events P f @ [sort_members e])
      \<and> exec_inv (scan_links (scan_events P f @ [sort_members e])) rs"
  shows "log_inv P f' rs \<and> (\<exists>g. f' = f @ g) \<and> (cache_ok P path f c \<longrightarrow> refuses P f' \<or> cache_ok P path f' c')"
proof (cases "f' = f \<and> (cache_ok P path f c \<longrightarrow> cache_ok P path f c')")
  case True
  with log_shrinks [OF inv sh] show ?thesis by auto
next
  case False
  with w obtain e n where e: "ev = Inr e" and f': "f' = f @ take n (line_of P e)" and nr: "\<not> refuses P f"
    and cc: "cache_ok P path f c \<longrightarrow> n < length (line_of P e) \<or> line_end f \<and> event_wf P e \<longrightarrow> cache_ok P path f' c'"
    unfolding wrote_def by blast
  have wf: "event_wf P e" using ok e by (simp add: wf_write_def del: json_wf.simps)
  note st = log_live [OF inv nr]
  note fl = full [OF e conjunct2 [OF st]]
  let ?n = "length (json_text P (JObj e))"
  have l: "length (line_of P e) = Suc ?n" by (simp add: line_of_def)
  show ?thesis
  proof (cases "n = 0 \<or> line_end f")
    case True
    then have c': "cache_ok P path f c \<longrightarrow> cache_ok P path f' c'" using cc l wf by auto
    consider "n = 0" | "line_end f" "0 < n" "n < ?n" | "line_end f" "?n \<le> n" using True by linarith
    then have "log_inv P f' rs"
    proof cases
      case 1
      with log_shrinks [OF inv sh] f' show ?thesis by simp
    next
      case 2
      from cut_line [OF 2(1) wf 2(2,3)] st exec_dead [OF exec_shrinks [OF sh]] show ?thesis
        by (auto simp: f' log_inv_def live_def)
    next
      case 3
      from log_line [OF inv nr wf fl 3(2)] show ?thesis by (simp add: f')
    qed
    with c' f' show ?thesis by blast
  next
    case False
    with st obtain g e0 where f: "f = g @ json_text P (JObj e0)" "line_end g" "event_wf P e0" by (auto simp: bare_def)
    have n: "0 < n" using False by simp
    from glued_line [OF f(2,3) wf n] log_glued [OF f wf n conjunct2 [OF fl]] show ?thesis by (auto simp: f' f(1))
  qed
qed

section \<open>Decisions\<close>

lemma duplicate_fields:
  assumes "build_event P c sg n ''decision'' (duplicate_extra k inp key spend prior) prev = Inr e"
  shows "jget e ''event_type'' = JStr ''decision'' \<and> jget e ''event_id'' = JStr (uuid4 P n)"
proof -
  note get = finalize_dget [OF assms [unfolded build_event_def duplicate_payload]]
  show ?thesis by (simp add: get event_field_simps)
qed

text \<open>A decision event of the engine: it allows nothing, or its key was free.\<close>

definition decision_event :: "platform \<Rightarrow> bytes \<Rightarrow> 's pcall \<Rightarrow> nat \<Rightarrow> event \<Rightarrow> bool" where
  "decision_event P f k n e \<longleftrightarrow>
     etype ''decision'' e \<and> event_id_of e = Some (uuid4 P n)
     \<and> (jget e ''decision'' \<noteq> JStr ''allowed'' \<or> jget e ''dry_run'' = JBool True
        \<or> (\<forall>a ky. candidate a ky e \<longleftrightarrow> a = c_action_name (k_contract k) \<and> keyed k ky)
          \<and> (\<forall>ky. keyed k ky \<longrightarrow> scan_blocking_idempotent P f (c_action_name (k_contract k)) ky = None))"

lemma duplicate_is_decision:
  assumes "build_event P c sg n ''decision'' (duplicate_extra k inp key spend prior) prev = Inr e"
  shows "decision_event P f k n e"
  using duplicate_fields [OF assms] build_duplicate_fields(3) [OF assms]
  by (simp add: decision_event_def etype_def event_id_of_def DECISION_DENIED_def)

lemma decision_is_decision:
  assumes b: "build_event P (k_contract k) sg n ''decision'' (decision_extra k inp key spend v) prev = Inr e"
    and key: "\<And>ky. keyed k ky \<longleftrightarrow> key = Some ky"
    and free: "\<And>ky. key = Some ky \<Longrightarrow> scan_blocking_idempotent P f (c_action_name (k_contract k)) ky = None"
  shows "decision_event P f k n e"
  using build_decision_fields [OF b] key free
  by (auto simp: decision_event_def etype_def event_id_of_def candidate_def opt_str_def split: option.splits)

lemma reserve_is_decision:
  assumes ev: "reserve_event P path k sg inp key spend v w = Inr e" and lf: "lock_free P k inp key spend sg"
  shows "decision_event P (w_bytes w) k (w_draws w) e"
proof (cases key)
  case None
  with ev locked_event_Inr obtain prev where
    "build_event P (k_contract k) sg (w_draws w) ''decision'' (decision_extra k inp None spend v) prev = Inr e"
    unfolding reserve_event_def by fastforce
  from decision_is_decision [OF this] lock_free_keyed [OF lf] None show ?thesis by simp
next
  case (Some ky)
  let ?b = "scan_blocking_idempotent P (w_bytes w) (c_action_name (k_contract k)) ky"
  from ev Some locked_event_Inr obtain prev where
    b: "build_atomic P (file_store P path) k sg inp ky spend v w prev ?b = Inr e"
    unfolding reserve_event_def by fastforce
  show ?thesis
  proof (cases "?b \<noteq> None \<or> is_completed (file_store P path) (c_action_name (k_contract k)) ky w")
    case True
    then have "build_event P (k_contract k) sg (w_draws w) ''decision'' (duplicate_extra k inp ky spend ?b) prev = Inr e"
      using b by (simp add: build_atomic_def Let_def)
    then show ?thesis by (rule duplicate_is_decision)
  next
    case False
    with b have "build_event P (k_contract k) sg (w_draws w) ''decision'' (decision_extra k inp (Some ky) spend v) prev = Inr e"
      by (simp add: build_atomic_def)
    from decision_is_decision [OF this] lock_free_keyed [OF lf] Some False show ?thesis by simp
  qed
qed

lemma decision_ordered:
  assumes "decision_event P f k n e" and "well_ordered (scan_events P f)" and "fresh_id P f (uuid4 P n)"
  shows "well_ordered (scan_events P f @ [sort_members e]) \<and> uuid4 P n \<notin> set (decision_ids (scan_events P f))"
proof -
  have new: "uuid4 P n \<notin> set (decision_ids (scan_events P f))"
    using decision_ids_mem assms(3) unfolding fresh_id_def by blast
  moreover have "etype ''decision'' (sort_members e)" "event_id_of (sort_members e) = Some (uuid4 P n)"
    using assms(1) by (simp_all add: decision_event_def etype_def jsort_eq_simps)
  ultimately show ?thesis using assms(2) by (simp add: ordered_snoc)
qed

lemma allowed_starts:
  assumes e: "decision_event P f k n e" and all: "jget e ''decision'' = JStr ''allowed''" "jget e ''dry_run'' \<noteq> JBool True"
    and inv: "live P f rs" and fresh: "fresh_id P f (uuid4 P n)" and pr: "pr_event pr = e"
  shows "exec_inv (scan_links (scan_events P f @ [sort_members e])) ((p, k, pr) # rs)"
proof -
  let ?es = "scan_events P f" and ?e = "sort_members e"
  let ?l = "scan_links ?es" and ?i = "uuid4 P n"
  have ord: "well_ordered ?es" and ex: "exec_inv ?l rs" using inv by (simp_all add: live_def)
  have cand: "candidate a ky e \<longleftrightarrow> a = c_action_name (k_contract k) \<and> keyed k ky"
    and nb: "keyed k ky \<Longrightarrow> scan_blocking_idempotent P f (c_action_name (k_contract k)) ky = None" for a ky
    using e all by (auto simp: decision_event_def)
  have dec: "etype ''decision'' ?e" and id: "event_id_of ?e = Some ?i"
    using e by (simp_all add: decision_event_def etype_def jsort_eq_simps)
  have none: "dget (l_decisions ?l) ?i = None"
    using decisions_ids decision_ordered [OF e ord fresh] by (cases "dget (l_decisions ?l) ?i") blast+
  obtain t where m: "tables_match ?l t" using links_match [OF ord] by blast
  then have empty: "dget_default (l_outcomes ?l) ?i [] = []" "dget_default (l_resolutions ?l) ?i [] = []"
    using none by (simp_all add: tables_match_def dget_None_iff)
  have cand': "candidate a ky ?e \<longleftrightarrow> a = running_action (p, k, pr) \<and> keyed (fst (snd (p, k, pr))) ky" for a ky
    using cand by (simp add: running_action_def)
  have free: "blocking_prior_from_state (l_decisions ?l) (l_outcomes ?l) (running_action (p, k, pr)) ky (l_resolutions ?l) = None"
    if "keyed (fst (snd (p, k, pr))) ky" for ky
    using unblocked [of P f "running_action (p, k, pr)" ky] nb [of ky] that by (simp add: running_action_def)
  have "running_id (p, k, pr) = Some ?i" using e pr by (simp add: running_id_def decision_event_def)
  from exec_start [OF ex this none empty cand' free] link_new_decision [OF dec id none] show ?thesis
    by (simp add: scan_links_snoc)
qed

lemma decision_keeps:
  assumes e: "decision_event P f (k :: 's pcall) n e" and inv: "live P f (rs :: (nat \<times> 's pcall \<times> prepared) list)" and fresh: "fresh_id P f (uuid4 P n)"
  shows "exec_inv (scan_links (scan_events P f @ [sort_members e])) rs"
proof (cases "jget e ''decision'' = JStr ''allowed'' \<and> jget e ''dry_run'' \<noteq> JBool True")
  case True
  let ?pr = "\<lparr>pr_signer = undefined, pr_event = e, pr_redacted = [], pr_dry_run = False\<rparr>"
  from allowed_starts [OF e _ _ inv fresh, of ?pr 0] True
  have "exec_inv (scan_links (scan_events P f @ [sort_members e])) ([] @ (0, k, ?pr) # rs)" by simp
  from exec_crash [OF this] show ?thesis by simp
next
  case False
  have ord: "well_ordered (scan_events P f)" and ex: "exec_inv (scan_links (scan_events P f)) rs"
    using inv by (simp_all add: live_def)
  obtain t where m: "tables_match (scan_links (scan_events P f)) t" using links_match [OF ord] by blast
  have "etype ''decision'' (sort_members e)" using e by (simp add: decision_event_def etype_def jsort_eq_simps)
  with False etype_exclusive show ?thesis unfolding scan_links_snoc by (intro exec_side [OF ex m]) (auto simp: jsort_eq_simps)
qed

section \<open>Every step keeps the invariant\<close>

definition sys_inv :: "platform \<Rightarrow> string \<Rightarrow> 's system \<Rightarrow> bool" where
  "sys_inv P path s \<longleftrightarrow>
     log_inv P (y_bytes s) (y_running s)
     \<and> (refuses P (y_bytes s) \<or> (\<forall>p. cache_ok P path (y_bytes s) (w_index (y_mem s p))))"

lemma sys_inv_init: "initial s \<Longrightarrow> sys_inv P path s"
  by (simp add: initial_def sys_inv_def log_inv_def live_def scan_events_def List.map_filter_def scan_links_def exec_inv_empty)

lemma enters_sound:
  assumes "sys_inv P path s" and "enters s p w" and "\<not> refuses P (y_bytes s)"
  shows "cache_ok P path (y_bytes s) (w_index w)" and "j_sound P path (w_store w)" and "live P (y_bytes s) (y_running s)"
  using assms log_live [of P "y_bytes s" "y_running s"] by (auto simp: sys_inv_def enters_def j_sound_def live_def)

text \<open>A new file and a new index of process p.\<close>

lemma sys_inv_update:
  assumes inv: "sys_inv P path s" and log: "log_inv P f' rs" and g: "\<exists>g. f' = y_bytes s @ g"
    and c: "\<not> refuses P (y_bytes s) \<Longrightarrow> refuses P f' \<or> cache_ok P path f' (w_index w)"
    and r: "refuses P (y_bytes s) \<Longrightarrow> f' = y_bytes s"
  shows "sys_inv P path (s\<lparr>y_bytes := f', y_mem := (y_mem s)(p := w), y_running := rs\<rparr>)"
proof (cases "refuses P f'")
  case True
  with log show ?thesis by (simp add: sys_inv_def)
next
  case False
  with r have nr: "\<not> refuses P (y_bytes s)" by blast
  have "cache_ok P path f' (w_index (y_mem s q))" for q
    using inv nr g cache_ok_grow unfolding sys_inv_def by metis
  with c [OF nr] False log show ?thesis by (simp add: sys_inv_def)
qed

lemma leaves_update:
  "(leaves s p w)\<lparr>y_running := rs\<rparr> = s\<lparr>y_bytes := w_bytes w, y_mem := (y_mem s)(p := w), y_running := rs\<rparr>"
  by (simp add: leaves_def)

lemma touched_keeps:
  assumes inv: "sys_inv P path s" and ent: "enters s p w" and ok: "wf_write P ev" and sh: "shrinks (y_running s) rs"
    and dead: "refuses P (y_bytes s) \<Longrightarrow> w_bytes w' = w_bytes w"
    and t: "\<not> refuses P (y_bytes s) \<Longrightarrow> touched P path ev w w'"
    and full: "\<And>e. ev = Inr e \<Longrightarrow> live P (y_bytes s) (y_running s) \<Longrightarrow>
      well_ordered (scan_events P (y_bytes s) @ [sort_members e])
      \<and> exec_inv (scan_links (scan_events P (y_bytes s) @ [sort_members e])) rs"
  shows "sys_inv P path ((leaves s p w')\<lparr>y_running := rs\<rparr>)"
proof -
  have w: "w_bytes w = y_bytes s" using ent by (simp add: enters_def)
  have li: "log_inv P (y_bytes s) (y_running s)" using inv by (simp add: sys_inv_def)
  show ?thesis
  proof (cases "refuses P (y_bytes s)")
    case True
    with dead w log_shrinks [OF li sh] show ?thesis
      unfolding leaves_update by (intro sys_inv_update [OF inv]) auto
  next
    case False
    from log_wrote [OF li t [OF False, unfolded touched_def w] ok sh full] enters_sound(1) [OF inv ent False] False
    show ?thesis unfolding leaves_update by (intro sys_inv_update [OF inv]) auto
  qed
qed

lemma start_keeps:
  assumes inv: "sys_inv P path s" and ent: "enters s p w" and d: "decided P k inp key spend sg v"
    and v: "vd_allowed v" and dry: "\<not> k_dry_run k"
    and res: "reserve P (file_store P path) k sg inp key spend v w = (Inr (pr_event pr), w')"
    and wf: "event_wf P (pr_event pr)" and fresh: "fresh_id P (y_bytes s) (uuid4 P (w_draws w))"
  shows "sys_inv P path ((leaves s p w')\<lparr>y_running := (p, k, pr) # y_running s\<rparr>)"
proof -
  let ?f = "y_bytes s" and ?e = "pr_event pr"
  have w: "w_bytes w = ?f" using ent by (simp add: enters_def)
  have nr: "\<not> refuses P ?f" using reserve_refused [OF res] w by auto
  note i = enters_sound [OF inv ent nr]
  have lf: "lock_free P k inp key spend sg" using d by (simp add: decided_def)
  from reserve_touched [OF res i(2)] have t: "touched P path (reserve_event P path k sg inp key spend v w) w w'"
    and ev: "reserve_event P path k sg inp key spend v w = Inr ?e" and b: "w_bytes w' = ?f @ line_of P ?e"
    using w by auto
  have de: "decision_event P ?f k (w_draws w) ?e" using reserve_is_decision [OF ev lf] w by simp
  from fs.reserve_ok [OF res] obtain prev where
    "build_event P (k_contract k) sg (w_draws w) ''decision'' (decision_extra k inp key spend v) prev = Inr ?e" by blast
  note fields = build_decision_fields [OF this]
  have "jget ?e ''decision'' = JStr ''allowed''" "jget ?e ''dry_run'' \<noteq> JBool True"
    using fields v dry by (simp_all add: vd_allowed_def DECISION_ALLOWED_def)
  note st = allowed_starts [OF de this i(3) fresh refl, of p]
  have ord: "well_ordered (scan_events P ?f)" using i(3) by (simp add: live_def)
  have li: "log_inv P ?f (y_running s)" using inv by (simp add: sys_inv_def)
  have "length (json_text P (JObj ?e)) \<le> length (line_of P ?e)" by (simp add: line_of_def)
  from log_line [OF li nr wf _ this] st decision_ordered [OF de ord fresh]
  have log: "log_inv P (w_bytes w') ((p, k, pr) # y_running s)" by (simp add: b)
  have "refuses P (w_bytes w') \<or> cache_ok P path (w_bytes w') (w_index w')"
  proof -
    have "w_bytes w' \<noteq> ?f" by (simp add: b line_of_def)
    with t obtain n where n: "w_bytes w' = ?f @ take n (line_of P ?e)"
      and cc: "n < length (line_of P ?e) \<or> line_end ?f \<and> event_wf P ?e \<longrightarrow> cache_ok P path (w_bytes w') (w_index w')"
      using i(1) unfolding touched_def wrote_def w ev by blast
    show ?thesis
    proof (cases "line_end ?f")
      case True
      with cc wf show ?thesis by blast
    next
      case False
      then obtain g e0 where f: "?f = g @ json_text P (JObj e0)" "line_end g" "event_wf P e0"
        using log_live [OF li nr] by (auto simp: bare_def)
      from glued_line [OF f(2,3) wf, of "length (line_of P ?e)"] show ?thesis
        unfolding b f(1) by (simp add: line_of_def)
    qed
  qed
  with log b nr show ?thesis unfolding leaves_update by (intro sys_inv_update [OF inv]) auto
qed

lemma decision_step_keeps:
  fixes s :: "'s system" and k :: "'s pcall"
  assumes inv: "sys_inv P path s" and ent: "enters s p w" and ok: "wf_write P ev"
    and dead: "refuses P (y_bytes s) \<Longrightarrow> w_bytes w' = w_bytes w"
    and t: "\<not> refuses P (y_bytes s) \<Longrightarrow> touched P path ev w w'"
    and fresh: "fresh_id P (y_bytes s) (uuid4 P (w_draws w))"
    and dec: "\<And>e. ev = Inr e \<Longrightarrow> decision_event P (y_bytes s) k (w_draws w) e"
  shows "sys_inv P path (leaves s p w')"
proof -
  have full: "well_ordered (scan_events P (y_bytes s) @ [sort_members e])
      \<and> exec_inv (scan_links (scan_events P (y_bytes s) @ [sort_members e])) (y_running s)"
    if "ev = Inr e" "live P (y_bytes s) (y_running s)" for e
    using decision_keeps [OF dec [OF that(1)] that(2) fresh] decision_ordered [OF dec [OF that(1)] _ fresh] that(2)
    by (simp add: live_def)
  have "sys_inv P path ((leaves s p w')\<lparr>y_running := y_running s\<rparr>)"
    by (rule touched_keeps [OF inv ent ok shrinks.same dead t full])
  then show ?thesis by (simp add: leaves_def)
qed

lemma finish_keeps:
  assumes inv: "sys_inv P path s" and rs: "y_running s = xs @ (p, k, pr) # ys" and ent: "enters s p w"
    and rec: "record_outcome P (file_store P path) k pr res w = (x, w')"
    and ok: "wf_write P (record_event P k pr res w)"
  shows "sys_inv P path ((leaves s p w')\<lparr>y_running := xs @ ys\<rparr>)"
proof (rule touched_keeps [OF inv ent ok])
  show "shrinks (y_running s) (xs @ ys)" unfolding rs by (rule shrinks.ended)
  have w: "w_bytes w = y_bytes s" using ent by (simp add: enters_def)
  show "refuses P (y_bytes s) \<Longrightarrow> w_bytes w' = w_bytes w" using record_refused [OF rec] w by simp
  show "touched P path (record_event P k pr res w) w w'" using record_touched [OF rec] by blast
next
  fix out assume out: "record_event P k pr res w = Inr out" and lv: "live P (y_bytes s) (y_running s)"
  let ?es = "scan_events P (y_bytes s)"
  let ?l = "scan_links ?es"
  have ord: "well_ordered ?es" and ex: "exec_inv ?l (xs @ (p, k, pr) # ys)" using lv rs by (simp_all add: live_def)
  obtain i where id: "running_id (p, k, pr) = Some i" and o: "open_decision ?l (p, k, pr) i"
    using exec_invD(2) [OF ex, of "(p, k, pr)"] by auto
  then have i: "jget (pr_event pr) ''event_id'' = JStr i" by (simp add: running_id_def event_id_of_def str_of_eq)
  from out obtain extra prev where "outcome_extra P k pr res = Inr extra"
    "build_event P (k_contract k) (pr_signer pr) (w_draws w) ''outcome'' extra prev = Inr out"
    by (auto simp: record_event_def locked_event_def bindR_Inr_iff)
  note fields = build_outcome_fields [OF this]
  have e: "etype ''outcome'' (sort_members out)" "jget (sort_members out) ''decision_event_id'' = JStr i"
    "is_str (jget (sort_members out) ''status'')"
    using fields i by (simp_all add: etype_def)
  have "i \<in> set (decision_ids ?es)" using o decisions_ids by (auto simp: open_decision_def)
  then have "well_ordered (?es @ [sort_members out])" using ord e etype_exclusive by (auto simp: ordered_snoc)
  moreover have "exec_inv (scan_links (?es @ [sort_members out])) (xs @ ys)"
    using exec_outcome [OF ex id] link_outcome [OF e(1,2)] by (simp add: scan_links_snoc)
  ultimately show "well_ordered (?es @ [sort_members out]) \<and> exec_inv (scan_links (?es @ [sort_members out])) (xs @ ys)" ..
qed

lemma other_keeps:
  assumes inv: "sys_inv P path s"
    and app: "append_event_atomic P path fault build q (y_bytes s) (w_index (y_mem s p)) = (r, f', c')"
    and ok: "wf_write P (locked_event P (y_bytes s) (\<lambda>prev. build prev (prior_of P (y_bytes s) q)))"
    and side: "\<forall>e. locked_event P (y_bytes s) (\<lambda>prev. build prev (prior_of P (y_bytes s) q)) = Inr e \<longrightarrow> side_event P s e"
  shows "sys_inv P path (s\<lparr>y_bytes := f',
      y_mem := (y_mem s)(p := (y_mem s p)\<lparr>w_store := (w_store (y_mem s p))\<lparr>j_index := c'\<rparr>\<rparr>), y_running := y_running s\<rparr>)"
proof -
  let ?es = "scan_events P (y_bytes s)"
  have li: "log_inv P (y_bytes s) (y_running s)" using inv by (simp add: sys_inv_def)
  show ?thesis
  proof (cases "refuses P (y_bytes s)")
    case True
    with atomic_refused [OF app] li show ?thesis by (intro sys_inv_update [OF inv]) auto
  next
    case False
    have cs: "cache_ok P path (y_bytes s) (w_index (y_mem s p))" and lv: "live P (y_bytes s) (y_running s)"
      using inv log_live [OF li False] False by (simp_all add: sys_inv_def)
    then have ord: "well_ordered ?es" and ex: "exec_inv (scan_links ?es) (y_running s)" by (simp_all add: live_def)
    obtain t where m: "tables_match (scan_links ?es) t" using links_match [OF ord] by blast
    have full: "well_ordered (?es @ [sort_members e]) \<and> exec_inv (scan_links (?es @ [sort_members e])) (y_running s)"
      if "side_event P s e" for e
      using that unfolding scan_links_snoc
      by (intro conjI exec_side [OF ex m]) (auto simp: side_event_def jsort_eq_simps)
    have wr: "wrote P path (locked_event P (y_bytes s) (\<lambda>prev. build prev (prior_of P (y_bytes s) q)))
        (y_bytes s) (w_index (y_mem s p)) f' c'" using atomic_wrote [OF app cs ord] by blast
    have "log_inv P f' (y_running s) \<and> (\<exists>g. f' = y_bytes s @ g)
        \<and> (cache_ok P path (y_bytes s) (w_index (y_mem s p)) \<longrightarrow> refuses P f' \<or> cache_ok P path f' c')"
      by (rule log_wrote [OF li wr ok shrinks.same]) (use side full in blast)
    with cs False show ?thesis by (intro sys_inv_update [OF inv]) auto
  qed
qed

lemma sys_inv_step: "sys_step P path s s' \<Longrightarrow> sys_inv P path s \<Longrightarrow> sys_inv P path s'"
proof (induction rule: sys_step.induct)
  case (start s p w k inp key spend sg v pr w')
  then show ?case by (intro start_keeps)
next
  case (refuse s p w k inp key spend sg v r w')
  have w: "w_bytes w = y_bytes s" using refuse.hyps(1) by (simp add: enters_def)
  have lf: "lock_free P k inp key spend sg" using refuse.hyps(2) by (simp add: decided_def)
  show ?case
  proof (rule decision_step_keeps [OF refuse.prems refuse.hyps(1) refuse.hyps(5) _ _ refuse.hyps(6)])
    show "refuses P (y_bytes s) \<Longrightarrow> w_bytes w' = w_bytes w" using reserve_refused [OF refuse.hyps(4)] w by simp
    show "\<not> refuses P (y_bytes s) \<Longrightarrow> touched P path (reserve_event P path k sg inp key spend v w) w w'"
      using reserve_touched [OF refuse.hyps(4) enters_sound(2) [OF refuse.prems refuse.hyps(1)]] by blast
    show "reserve_event P path k sg inp key spend v w = Inr e \<Longrightarrow> decision_event P (y_bytes s) k (w_draws w) e" for e
      using reserve_is_decision [OF _ lf] w by metis
  qed
next
  case (duplicate s p w k inp ky spend sg prior r w')
  have w: "w_bytes w = y_bytes s" using duplicate.hyps(1) by (simp add: enters_def)
  show ?case
  proof (rule decision_step_keeps [OF duplicate.prems duplicate.hyps(1) duplicate.hyps(4) _ _ duplicate.hyps(5)])
    show "refuses P (y_bytes s) \<Longrightarrow> w_bytes w' = w_bytes w" using engine_append_refused [OF duplicate.hyps(3)] w by simp
    show "touched P path (locked_event P (y_bytes s)
        (build_event P (k_contract k) sg (w_draws w) ''decision'' (duplicate_extra k inp ky spend prior))) w w'"
      using engine_append_touched [OF duplicate.hyps(3)] w by simp
  next
    fix e assume "locked_event P (y_bytes s)
        (build_event P (k_contract k) sg (w_draws w) ''decision'' (duplicate_extra k inp ky spend prior)) = Inr e"
    from locked_event_Inr [OF this] duplicate_is_decision show "decision_event P (y_bytes s) k (w_draws w) e" by blast
  qed
next
  case (finish s xs p k pr ys w res x w')
  then show ?case by (intro finish_keeps)
next
  case (other fault build q s p r f' c')
  from other_keeps [OF other.prems other.hyps] show ?case by simp
next
  case (crash s xs x ys)
  then show ?case using log_shrinks [OF _ shrinks.ended, of P "y_bytes s" xs x ys] by (simp add: sys_inv_def)
qed

lemma reachable_inv: "reachable P path s \<Longrightarrow> sys_inv P path s"
  by (induction rule: reachable.induct) (auto intro: sys_inv_init sys_inv_step)


definition demo_system :: "unit system" where
  "demo_system = \<lparr>y_bytes = [], y_mem = (\<lambda>p. demo_world [] p), y_running = []\<rparr>"

definition demo_verdict :: verdict where "demo_verdict = allow ''fine''"

lemma demo_reserves:
  "case prepare_input toy_platform (demo_call (KeyText ''k'') t) [(''n'', PInt 1)] of
     Inl e \<Rightarrow> False
   | Inr inp \<Rightarrow> (case reserve toy_platform (file_store toy_platform ''j'') (demo_call (KeyText ''k'') t)
         (local_signer toy_platform ''k'') inp (Some ''k'') None demo_verdict (demo_world [] 0) of
       (Inr e, w1) \<Rightarrow> event_wf toy_platform e | _ \<Rightarrow> False)"
  by code_simp


section \<open>An uninterrupted preparation is a step\<close>

text \<open>The system after a preparation of process p with this result.\<close>

definition prepared_system :: "'s system \<Rightarrow> nat \<Rightarrow> 's pcall \<Rightarrow> exn + prepared \<Rightarrow> (jstate, 's) world \<Rightarrow> 's system" where
  "prepared_system s p k r w =
     (case r of
        Inl x \<Rightarrow> leaves s p w
      | Inr pr \<Rightarrow> if pr_dry_run pr then leaves s p w else (leaves s p w)\<lparr>y_running := (p, k, pr) # y_running s\<rparr>)"

text \<open>
  C2: The composed code refines the steps: run without interruption in a reachable state, the whole
  preparation either raises and leaves the journal as it was, or is one step of the system, in which it
  writes one event (or a part of it, or nothing): the decision that it returns, if it returns one.
\<close>

theorem preparation_is_step:
  assumes re: "reachable P path s" and ent: "enters s p w" and fresh: "fresh_id P (y_bytes s) (uuid4 P (w_draws w))"
    and prep: "prepare_execution P (file_store P path) k w = (r, w')"
  shows "(isl r \<and> w_bytes w' = y_bytes s)
    \<or> (\<exists>ev. touched P path ev w w' \<and> (\<forall>pr. r = Inr pr \<longrightarrow> ev = Inr (pr_event pr))
         \<and> (wf_write P ev \<longrightarrow> sys_step P path s (prepared_system s p k r w')))"
proof -
  have inv: "sys_inv P path s" by (rule reachable_inv [OF re])
  have w: "w_bytes w = y_bytes s" using ent by (simp add: enters_def)
  from prepare_is_locked [OF prep] consider "isl r" "w_bytes w' = w_bytes w"
    | inp ky spend sg w1 prior r1 where "lock_free P k inp (Some ky) spend sg" "w_bytes w1 = w_bytes w" "w_index w1 = w_index w"
        "w_draws w1 = w_draws w" "isl r"
        "engine_append P (file_store P path) (k_contract k) sg ''decision'' (duplicate_extra k inp ky spend prior) w1 = (r1, w')"
    | inp key spend sg w1 v s1 s2 r1 where "lock_free P k inp key spend sg" "w_bytes w1 = w_bytes w" "w_index w1 = w_index w"
        "w_draws w1 = w_draws w" "evaluate_approval k (approval_request (k_contract k) inp spend) s1 = (Inr v, s2)"
        "reserve P (file_store P path) k sg inp key spend v w1 = (r1, w')"
        "\<forall>pr. r = Inr pr \<longrightarrow> r1 = Inr (pr_event pr) \<and> vd_allowed v \<and> pr_dry_run pr = k_dry_run k"
        "isl r \<longrightarrow> isl r1 \<or> \<not> vd_allowed v"
    by blast
  then show ?thesis
  proof cases
    case 1
    with w show ?thesis by simp
  next
    case 2
    have en: "enters s p w1" using ent 2 by (simp add: enters_def)
    let ?ev = "locked_event P (y_bytes s) (build_event P (k_contract k) sg (w_draws w1) ''decision'' (duplicate_extra k inp ky spend prior))"
    have "touched P path ?ev w w'" using engine_append_touched [OF 2(6)] 2 w by (simp add: touched_def)
    moreover have "wf_write P ?ev \<longrightarrow> sys_step P path s (prepared_system s p k r w')"
      using sys_step.duplicate [OF en 2(1,6)] fresh 2 by (cases r) (simp_all add: prepared_system_def)
    ultimately show ?thesis using 2(5) by (intro disjI2 exI [of _ ?ev]) auto
  next
    case 3
    have en: "enters s p w1" using ent 3 by (simp add: enters_def)
    have d: "decided P k inp key spend sg v" using 3 by (auto simp: decided_def)
    have fr: "fresh_id P (y_bytes s) (uuid4 P (w_draws w1))" using fresh 3 by simp
    let ?ev = "reserve_event P path k sg inp key spend v w1"
    show ?thesis
    proof (cases "refuses P (y_bytes s)")
      case True
      with reserve_refused [OF 3(6)] 3 w show ?thesis by (cases r) auto
    next
      case False
      note t = reserve_touched [OF 3(6) enters_sound(2) [OF inv en False]]
      have t': "touched P path ?ev w w'" using t 3 by (simp add: touched_def)
      show ?thesis
      proof (cases "\<exists>pr. r = Inr pr \<and> \<not> k_dry_run k")
        case True
        then obtain pr where pr: "r = Inr pr" "\<not> k_dry_run k" by blast
        with 3(7) t have ev: "?ev = Inr (pr_event pr)" and v: "vd_allowed v" and r1: "r1 = Inr (pr_event pr)"
          and dry: "pr_dry_run pr = k_dry_run k" by auto
        have "wf_write P ?ev \<longrightarrow> sys_step P path s (prepared_system s p k r w')"
          using sys_step.start [OF en d v pr(2) 3(6) [unfolded r1] _ fr] ev pr dry
          by (simp add: prepared_system_def wf_write_def del: json_wf.simps)
        with t' ev pr show ?thesis by (intro disjI2 exI [of _ ?ev]) auto
      next
        case no: False
        then have nd: "isl r1 \<or> \<not> vd_allowed v \<or> k_dry_run k" using 3(8) by (cases r) auto
        have "prepared_system s p k r w' = leaves s p w'"
          using no 3(7) by (cases r) (auto simp: prepared_system_def)
        then have "wf_write P ?ev \<longrightarrow> sys_step P path s (prepared_system s p k r w')"
          using sys_step.refuse [OF en d nd 3(6) _ fr] by simp
        moreover have "\<forall>pr. r = Inr pr \<longrightarrow> ?ev = Inr (pr_event pr)" using 3(7) t by auto
        ultimately show ?thesis using t' by blast
      qed
    qed
  qed
qed

lemma demo_keyed_prepares:
  "case prepare_execution toy_platform (file_store toy_platform ''j'') (demo_call (KeyText ''k'') t) (demo_world [] 0) of
     (Inr pr, w1) \<Rightarrow> \<not> pr_dry_run pr \<and> event_wf toy_platform (pr_event pr) | _ \<Rightarrow> False"
  by code_simp

lemma preparation_is_step_witness:
  "\<exists>pr w1. prepare_execution toy_platform (file_store toy_platform ''j'') (demo_call (KeyText ''k'') (Inr PNone))
        (demo_world [] 0) = (Inr pr, w1)
     \<and> sys_step toy_platform ''j'' demo_system ((leaves demo_system 0 w1)\<lparr>y_running := [(0, demo_call (KeyText ''k'') (Inr PNone), pr)]\<rparr>)"
proof -
  let ?k = "demo_call (KeyText ''k'') (Inr PNone)" and ?w = "demo_world [] 0"
  obtain r w1 where p: "prepare_execution toy_platform (file_store toy_platform ''j'') ?k ?w = (r, w1)"
    by (cases "prepare_execution toy_platform (file_store toy_platform ''j'') ?k ?w")
  note run = demo_keyed_prepares [of "Inr PNone", unfolded p prod.case]
  then obtain pr where r: "r = Inr pr" by (cases r) simp_all
  have pr: "\<not> pr_dry_run pr" "event_wf toy_platform (pr_event pr)" using run [unfolded r sum.case] by blast+
  have "reachable toy_platform ''j'' demo_system" by (rule reachable.init) (simp add: initial_def demo_system_def)
  moreover have "enters demo_system 0 ?w" by (simp add: enters_def demo_system_def)
  moreover have "fresh_id toy_platform (y_bytes demo_system) (uuid4 toy_platform (w_draws ?w))"
    by (simp add: fresh_id_def demo_system_def scan_events_def List.map_filter_def)
  ultimately have "sys_step toy_platform ''j'' demo_system (prepared_system demo_system 0 ?k r w1)"
    using preparation_is_step [OF _ _ _ p] r pr by (auto simp: wf_write_def simp del: json_wf.simps)
  with p r pr show ?thesis by (simp add: prepared_system_def demo_system_def)
qed

end
