(* ===== verification/Async.thy ===== *)
theory Async
  imports Processes
begin

text \<open>
  Asynchronous calls (\<open>execute_async\<close> of \<open>engine.py\<close>): everything up to the \<open>await\<close>, and everything
  from the awaited result on. In between the event loop runs other tasks of the process, and other
  processes run: the executions that \<open>Processes\<close> interleaves are these suspended tasks. A
  synchronous call is the case in which nothing happens at the \<open>await\<close>.
\<close>

section \<open>The two halves of a call\<close>

text \<open>Up to the await: the call is over, or the target is about to run.\<close>

definition async_begin ::
  "platform \<Rightarrow> 'j store \<Rightarrow> ('j, 's) call \<Rightarrow> ('j, 's) world \<Rightarrow> ((exn + pyval) + prepared) \<times> ('j, 's) world" where
  "async_begin P so k w =
     (case prepare_execution P so k w of
        (Inl e, w) \<Rightarrow> (Inl (Inl e), w)
      | (Inr pr, w) \<Rightarrow>
          if pr_dry_run pr then (Inl (Inr PNone), w) else (Inr pr, w\<lparr>w_runs := Suc (w_runs w)\<rparr>))"

text \<open>From the result of the await on; a cancelled task raises outside \<open>Exception\<close>.\<close>

definition async_end ::
  "platform \<Rightarrow> 'j store \<Rightarrow> ('j, 's) call \<Rightarrow> prepared \<Rightarrow> exn + pyval \<Rightarrow> ('j, 's) world
     \<Rightarrow> (exn + pyval) \<times> ('j, 's) world" where
  "async_end P so k pr res w =
     (case res of
        Inl e \<Rightarrow>
          if \<not> is_exception e then (Inl e, w)
          else (case record_outcome P so k pr (Inl e) w of
                  (Some x, w) \<Rightarrow> (Inl x, w)
                | (None, w) \<Rightarrow> (Inl e, w))
      | Inr v \<Rightarrow>
          (case record_outcome P so k pr (Inr v) w of
             (Some x, w) \<Rightarrow> (Inl x, w)
           | (None, w) \<Rightarrow>
               (Inr v,
                if truthy (jget (pr_event pr) ''idempotency_key'')
                then mark_completed so (c_action_name (k_contract k))
                       (py_str P (jget (pr_event pr) ''idempotency_key'')) w
                else w)))"

text \<open>\<open>awaited\<close> is what the event loop does until the target's result is there.\<close>

definition execute_async ::
  "platform \<Rightarrow> 'j store \<Rightarrow> ('j, 's) call \<Rightarrow> (('j, 's) world \<Rightarrow> (exn + pyval) \<times> ('j, 's) world)
     \<Rightarrow> ('j, 's) world \<Rightarrow> (exn + pyval) \<times> ('j, 's) world" where
  "execute_async P so k awaited w =
     (case async_begin P so k w of
        (Inl r, w) \<Rightarrow> (r, w)
      | (Inr pr, w) \<Rightarrow> (case awaited w of (res, w) \<Rightarrow> async_end P so k pr res w))"

text \<open>\<open>_make_sync_wrapper\<close> and \<open>_make_async_wrapper\<close> hand the call over unchanged.\<close>

definition at_once :: "('j, 's) call \<Rightarrow> ('j, 's) world \<Rightarrow> (exn + pyval) \<times> ('j, 's) world" where
  "at_once k w = (k_target k, w\<lparr>w_store := k_during k (w_store w)\<rparr>)"

lemma execute_async_at_once: "execute_async P so k (at_once k) w = execute P so k w"
  by (auto simp: execute_async_def async_begin_def async_end_def execute_def at_once_def Let_def
      split: prod.splits sum.splits option.splits)

section \<open>Evidence across an await\<close>


lemma async_begin_stops:
  "async_begin P (file_store P path) k w = (Inl r, w') \<Longrightarrow> w_runs w' = w_runs w"
  by (auto simp: async_begin_def dest: fs.prepare_grows split: prod.splits sum.splits if_splits)


end
