(* ===== verification/Shipping.thy ===== *)
theory Shipping
  imports EngineProps
begin

text \<open>
  Event shipping (\<open>shipping.py\<close>): a store that appends to a primary and then sends a copy of the
  event to each sink. A sink is a step on the state of the sinks. The store is again one the engine's
  guarantees hold for.
\<close>

section \<open>Sinks\<close>

type_synonym 'x sink = "event \<Rightarrow> 'x \<Rightarrow> (exn + unit) \<times> 'x"

text \<open>\<open>FileMirrorSink.send\<close> on the content of the mirror file.\<close>

definition mirror_send :: "platform \<Rightarrow> fault \<Rightarrow> bytes sink" where
  "mirror_send P fault e f =
     (if fault = OpenFails then (Inl JournalError, f)
      else if \<not> utf8_ok (json_text P (JObj e)) then (Inl UnicodeEncodeError, f)
      else (case fault of
              WriteFails n \<Rightarrow> (Inl JournalError, f @ take n (line_of P e))
            | SyncFails \<Rightarrow> (Inl JournalError, f @ line_of P e)
            | _ \<Rightarrow> (Inr (), f @ line_of P e)))"

definition authorizing_decision :: "event \<Rightarrow> string option" where
  "authorizing_decision e =
     (if jget e ''event_type'' = JStr ''decision'' then str_of (jget e ''event_id'')
      else str_of (jget e ''decision_event_id''))"

text \<open>\<open>_ship\<close>; \<open>fail_closed\<close> is the policy \<open>raise\<close>.\<close>

fun ship_event :: "bool \<Rightarrow> 'x sink list \<Rightarrow> event \<Rightarrow> 'x \<Rightarrow> (exn + unit) \<times> 'x" where
  "ship_event fail_closed [] e x = (Inr (), x)"
| "ship_event fail_closed (s # ss) e x =
     (case s e x of
        (Inr _, x') \<Rightarrow> ship_event fail_closed ss e x'
      | (Inl err, x') \<Rightarrow>
          (case err of
             EventShipError _ _ _ \<Rightarrow> (Inl err, x')
           | _ \<Rightarrow>
               if \<not> is_exception err then (Inl err, x')
               else if fail_closed then (Inl (EventShipError (authorizing_decision e) False None), x')
               else ship_event fail_closed ss e x'))"

text \<open>\<open>FanoutJournalStore\<close>: the primary's append, then the sinks.\<close>

definition shipped :: "bool \<Rightarrow> 'x sink list \<Rightarrow> (exn + event) \<times> 'j \<Rightarrow> 'x \<Rightarrow> (exn + event) \<times> 'j \<times> 'x" where
  "shipped fail_closed sinks r x =
     (case r of
        (Inl err, j) \<Rightarrow> (Inl err, j, x)
      | (Inr e, j) \<Rightarrow>
          (case ship_event fail_closed sinks e x of
             (Inl err, x') \<Rightarrow> (Inl err, j, x')
           | (Inr _, x') \<Rightarrow> (Inr e, j, x')))"

definition fanout_store :: "'j store \<Rightarrow> bool \<Rightarrow> 'x sink list \<Rightarrow> ('j \<times> 'x) store" where
  "fanout_store primary fail_closed sinks =
     \<lparr>so_path = so_path primary, so_atomic = so_atomic primary, so_key = so_key primary,
      so_append = (\<lambda>build (j, x). shipped fail_closed sinks (so_append primary build j) x),
      so_append_atomic = (\<lambda>build action key (j, x).
        shipped fail_closed sinks (so_append_atomic primary build action key j) x),
      so_completed = (\<lambda>action key (j, x). case so_completed primary action key j of (r, j') \<Rightarrow> (r, j', x)),
      so_blocking = (\<lambda>action key (j, x). case so_blocking primary action key j of (r, j') \<Rightarrow> (r, j', x))\<rparr>"

definition new_fanout :: "'j store \<Rightarrow> string \<Rightarrow> 'x sink list \<Rightarrow> exn + ('j \<times> 'x) store" where
  "new_fanout primary on_ship_failure sinks =
     (if on_ship_failure \<notin> {''raise'', ''ignore''} then Inl ValueError
      else Inr (fanout_store primary (on_ship_failure = ''raise'') sinks))"

section \<open>The fan-out is a store for the engine\<close>

lemma shipped_frame: "fst (snd (shipped fc sinks r x)) = snd r"
  by (auto simp: shipped_def split: prod.splits sum.splits)

lemma shipped_Inr:
  "shipped fc sinks r x = (Inr e, j, x') \<Longrightarrow> r = (Inr e, j) \<and> ship_event fc sinks e x = (Inr (), x')"
  by (auto simp: shipped_def split: prod.splits sum.splits)

interpretation fan: evidence_store P "fanout_store (file_store P path) fc sinks" "j_bytes \<circ> fst"
  "j_sound P path \<circ> fst" "\<lambda>a k. j_blocked P a k \<circ> fst" "j_good P path \<circ> fst" for P path fc sinks
proof
  fix bld jx e jx'
  assume a: "so_append (fanout_store (file_store P path) fc sinks) bld jx = (Inr e, jx')"
  then have "so_append (file_store P path) bld (fst jx) = (Inr e, fst jx')"
    by (cases jx; cases jx') (auto simp: fanout_store_def dest: shipped_Inr)
  then show "(j_bytes \<circ> fst) jx' = (j_bytes \<circ> fst) jx @ line_of P e \<and> (\<exists>prev. bld prev = Inr e)
      \<and> ((j_good P path \<circ> fst) jx \<and> event_wf P e \<longrightarrow> (j_good P path \<circ> fst) jx')"
    using fs.append_ok by (simp del: json_wf.simps)
next
  fix bld jx r jx'
  assume a: "so_append (fanout_store (file_store P path) fc sinks) bld jx = (r, jx')"
  then have "snd (so_append (file_store P path) bld (fst jx)) = fst jx'"
    using shipped_frame [of fc sinks "so_append (file_store P path) bld (fst jx)" "snd jx"]
    by (cases jx) (simp add: fanout_store_def)
  then show "\<exists>g. (j_bytes \<circ> fst) jx' = (j_bytes \<circ> fst) jx @ g"
    using fs.append_grows [of P path bld "fst jx"] by (metis comp_apply prod.collapse)
next
  fix build a k jx e jx'
  assume "so_append_atomic (fanout_store (file_store P path) fc sinks) build a k jx = (Inr e, jx')"
  then have "so_append_atomic (file_store P path) build a k (fst jx) = (Inr e, fst jx')"
    by (cases jx; cases jx') (auto simp: fanout_store_def dest: shipped_Inr)
  then show "(j_bytes \<circ> fst) jx' = (j_bytes \<circ> fst) jx @ line_of P e
      \<and> (\<exists>prev b. build prev b = Inr e \<and> ((j_sound P path \<circ> fst) jx \<longrightarrow> b = (j_blocked P a k \<circ> fst) jx))
      \<and> ((j_good P path \<circ> fst) jx \<and> event_wf P e \<longrightarrow> (j_good P path \<circ> fst) jx')"
    using fs.atomic_ok by (simp del: json_wf.simps)
next
  fix build a k jx r jx'
  assume "so_append_atomic (fanout_store (file_store P path) fc sinks) build a k jx = (r, jx')"
  then have "snd (so_append_atomic (file_store P path) build a k (fst jx)) = fst jx'"
    using shipped_frame [of fc sinks "so_append_atomic (file_store P path) build a k (fst jx)" "snd jx"]
    by (cases jx) (simp add: fanout_store_def)
  then show "\<exists>g. (j_bytes \<circ> fst) jx' = (j_bytes \<circ> fst) jx @ g"
    using fs.atomic_grows [of P path build a k "fst jx"] by (metis comp_apply prod.collapse)
qed (use fs.completed_frame in \<open>force simp: fanout_store_def split: prod.splits\<close>)+

section \<open>Mirrors under the fail-closed policy\<close>

lemma record_event:
  assumes "record_outcome P so k pr res w = (None, w')"
  obtains extra out where "outcome_extra P k pr res = Inr extra"
    and "engine_append P so (k_contract k) (pr_signer pr) ''outcome'' extra w = (Inr out, w')"
  using assms by (auto simp: record_outcome_def Let_def split: sum.splits prod.splits)

text \<open>Mirror files as sinks: the state maps the number of a mirror to its content.\<close>

definition mirror_sink :: "platform \<Rightarrow> (nat \<Rightarrow> fault) \<Rightarrow> nat \<Rightarrow> (nat \<Rightarrow> bytes) sink" where
  "mirror_sink P faults i e x = (case mirror_send P (faults i) e (x i) of (r, f) \<Rightarrow> (r, x(i := f)))"

definition mirror_sinks :: "platform \<Rightarrow> (nat \<Rightarrow> fault) \<Rightarrow> nat \<Rightarrow> (nat \<Rightarrow> bytes) sink list" where
  "mirror_sinks P faults n = map (mirror_sink P faults) [0..<n]"

lemma mirror_send_ok: "mirror_send P fault e f = (Inr u, f') \<Longrightarrow> f' = f @ line_of P e"
  by (auto simp: mirror_send_def split: if_splits fault.splits)

lemma mirror_send_grows: "\<exists>g. snd (mirror_send P fault e f) = f @ g"
  by (auto simp: mirror_send_def split: fault.splits)

lemma mirror_sink_at:
  "\<exists>g. snd (mirror_sink P faults i e x) i = x i @ g" "j \<noteq> i \<Longrightarrow> snd (mirror_sink P faults i e x) j = x j"
  using mirror_send_grows [of P "faults i" e "x i"] by (auto simp: mirror_sink_def split: prod.splits)

lemma ship_mirrors_ok:
  "ship_event True (map (mirror_sink P faults) is) e x = (Inr u, x') \<Longrightarrow> distinct is \<Longrightarrow>
   x' j = (if j \<in> set is then x j @ line_of P e else x j)"
proof (induction "is" arbitrary: x)
  case (Cons i js)
  from Cons.prems(1) obtain x1 v where s: "mirror_sink P faults i e x = (Inr v, x1)"
    and r: "ship_event True (map (mirror_sink P faults) js) e x1 = (Inr u, x')"
    by (auto split: prod.splits sum.splits exn.splits if_splits)
  have "x1 i = x i @ line_of P e"
    using s mirror_send_ok by (auto simp: mirror_sink_def split: prod.splits)
  moreover have "x1 j = x j" if "j \<noteq> i" using mirror_sink_at(2) [OF that, of P faults e x] s by simp
  ultimately show ?case using Cons.IH [OF r] Cons.prems(2) by auto
qed simp

lemma ship_mirrors_grow: "\<exists>g. snd (ship_event fc (map (mirror_sink P faults) is) e x) j = x j @ g"
proof (induction "is" arbitrary: x)
  case (Cons i js)
  obtain r x1 where s: "mirror_sink P faults i e x = (r, x1)" by (cases "mirror_sink P faults i e x")
  obtain g where g: "x1 j = x j @ g"
    using mirror_sink_at(1) [of P faults i e x] mirror_sink_at(2) [of j i P faults e x] s by (cases "j = i") auto
  obtain h where h: "snd (ship_event fc (map (mirror_sink P faults) js) e x1) j = x1 j @ h" using Cons.IH by blast
  have "snd (ship_event fc (map (mirror_sink P faults) (i # js)) e x) \<in>
      {x1, snd (ship_event fc (map (mirror_sink P faults) js) e x1)}"
    using s by (auto split: sum.splits exn.splits)
  with g h show ?case by auto
qed simp

lemma shipped_mirror:
  "shipped True (mirror_sinks P faults n) r x = (Inr e, j', x') \<Longrightarrow> i < n \<Longrightarrow> x' i = x i @ line_of P e"
  "\<exists>g. snd (snd (shipped fc (mirror_sinks P faults n) r x)) i = x i @ g"
proof -
  assume s: "shipped True (mirror_sinks P faults n) r x = (Inr e, j', x')" and i: "i < n"
  from ship_mirrors_ok [OF shipped_Inr [OF s, THEN conjunct2, unfolded mirror_sinks_def], of i] i
  show "x' i = x i @ line_of P e" by simp
next
  show "\<exists>g. snd (snd (shipped fc (mirror_sinks P faults n) r x)) i = x i @ g"
  proof (cases "fst r")
    case (Inr e)
    obtain r' x' where s: "ship_event fc (mirror_sinks P faults n) e x = (r', x')"
      by (cases "ship_event fc (mirror_sinks P faults n) e x")
    with ship_mirrors_grow [of fc P faults "[0..<n]" e x i] have "\<exists>g. x' i = x i @ g" by (simp add: mirror_sinks_def)
    with s Inr show ?thesis by (cases r; cases r') (auto simp: shipped_def)
  qed (cases r, simp add: shipped_def)
qed

text \<open>Each mirror meets the contract of the engine's store by itself.\<close>

lemma mirror_store:
  assumes "i < n"
  shows "evidence_store P (fanout_store (file_store P path) True (mirror_sinks P faults n)) (\<lambda>jx. snd jx i)
    (\<lambda>_. False) (\<lambda>_ _ _. None) (\<lambda>_. True)"
proof
  fix bld jx e jx'
  assume a: "so_append (fanout_store (file_store P path) True (mirror_sinks P faults n)) bld jx = (Inr e, jx')"
  then have s: "shipped True (mirror_sinks P faults n) (so_append (file_store P path) bld (fst jx)) (snd jx)
      = (Inr e, fst jx', snd jx')"
    by (cases jx; cases jx') (simp add: fanout_store_def)
  have "so_append (file_store P path) bld (fst jx) = (Inr e, fst jx')" using shipped_Inr [OF s] by simp
  then have "\<exists>prev. bld prev = Inr e" using fs.append_ok by blast
  with shipped_mirror(1) [OF s assms]
  show "snd jx' i = snd jx i @ line_of P e \<and> (\<exists>prev. bld prev = Inr e) \<and> (True \<and> event_wf P e \<longrightarrow> True)" by simp
next
  fix bld jx r jx'
  assume "so_append (fanout_store (file_store P path) True (mirror_sinks P faults n)) bld jx = (r, jx')"
  then show "\<exists>g. snd jx' i = snd jx i @ g"
    using shipped_mirror(2) [of True P faults n "so_append (file_store P path) bld (fst jx)" "snd jx" i]
    by (cases jx) (simp add: fanout_store_def)
next
  fix build a k jx e jx'
  assume "so_append_atomic (fanout_store (file_store P path) True (mirror_sinks P faults n)) build a k jx = (Inr e, jx')"
  then have s: "shipped True (mirror_sinks P faults n) (so_append_atomic (file_store P path) build a k (fst jx)) (snd jx)
      = (Inr e, fst jx', snd jx')"
    by (cases jx; cases jx') (simp add: fanout_store_def)
  have "so_append_atomic (file_store P path) build a k (fst jx) = (Inr e, fst jx')" using shipped_Inr [OF s] by simp
  then have "\<exists>prev b. build prev b = Inr e" using fs.atomic_ok by blast
  with shipped_mirror(1) [OF s assms]
  show "snd jx' i = snd jx i @ line_of P e \<and> (\<exists>prev b. build prev b = Inr e \<and> (False \<longrightarrow> b = None))
      \<and> (True \<and> event_wf P e \<longrightarrow> True)" by blast
next
  fix build a k jx r jx'
  assume "so_append_atomic (fanout_store (file_store P path) True (mirror_sinks P faults n)) build a k jx = (r, jx')"
  then show "\<exists>g. snd jx' i = snd jx i @ g"
    using shipped_mirror(2) [of True P faults n "so_append_atomic (file_store P path) build a k (fst jx)" "snd jx" i]
    by (cases jx) (simp add: fanout_store_def)
qed (auto simp: fanout_store_def split: prod.splits)


lemma demo_fanout_runs:
  "case execute toy_platform (fanout_store (file_store toy_platform ''j'') True (mirror_sinks toy_platform (\<lambda>_. NoFault) 1))
      (any_call NoKey (Inr (PInt 1))) (fresh_world (demo_file [], \<lambda>_. []) 0) of (r, w') \<Rightarrow> w_runs w' = 1"
  by code_simp


end
