(* ===== verification/AuditReport.thy ===== *)
theory AuditReport
  imports Verification
begin

text \<open>
  The operational audit (\<open>audit.py\<close>): what happened to each approved invocation of a verified
  journal, and which ones an operator still has to reconcile. Subscripts that a missing field makes
  fail are kept as \<open>KeyError\<close>; issues keep their code and event id, not the message text.
\<close>

section \<open>The report\<close>

datatype invocation_status =
    DENIED | SUCCEEDED | FAILED | NEEDS_RECONCILIATION | DRY_RUN | RESOLVED_COMPLETED | RESOLVED_NOT_COMPLETED

type_synonym audit_issue = "string \<times> string"

record audited =
  ai_action_name :: string
  ai_action_id :: string
  ai_contract_hash :: string
  ai_input_hash :: string
  ai_risk :: string
  ai_approval_mode :: string
  ai_decision_event_id :: string
  ai_decision :: string
  ai_decision_timestamp :: string
  ai_outcome_event_id :: "string option"
  ai_outcome_timestamp :: "string option"
  ai_status :: invocation_status

record audit_report =
  ar_invocations :: "audited list"
  ar_issues :: "audit_issue list"

definition structurally_valid :: "audit_report \<Rightarrow> bool" where
  "structurally_valid r \<longleftrightarrow> ar_issues r = []"

definition needs_reconciliation :: "audit_report \<Rightarrow> bool" where
  "needs_reconciliation r \<longleftrightarrow> (\<exists>i \<in> set (ar_invocations r). ai_status i \<in> {FAILED, NEEDS_RECONCILIATION})"

section \<open>Collecting\<close>

type_synonym linked = "(string, (nat \<times> event) list) dict"

record audit_state =
  as_issues :: "audit_issue list"
  as_decisions :: "(string, nat \<times> event) dict"
  as_outcomes :: linked
  as_resolutions :: linked
  as_seen :: "string list"

definition link :: "string \<Rightarrow> nat \<times> event \<Rightarrow> linked \<Rightarrow> linked" where
  "link k x d = dset k (dget_default d k [] @ [x]) d"

definition audit_start :: audit_state where
  "audit_start = \<lparr>as_issues = [], as_decisions = [], as_outcomes = [], as_resolutions = [], as_seen = []\<rparr>"

definition audit_collect_step :: "platform \<Rightarrow> nat \<Rightarrow> event \<Rightarrow> audit_state \<Rightarrow> exn + audit_state" where
  "audit_collect_step P index e s =
     bindR (jindex e ''event_id'') (\<lambda>raw.
       let i = py_str P raw;
           s = (if i \<in> set (as_seen s) then s\<lparr>as_issues := as_issues s @ [(''duplicate_event_id'', i)]\<rparr> else s);
           s = s\<lparr>as_seen := as_seen s @ [i]\<rparr>
       in bindR (jindex e ''event_type'') (\<lambda>ty.
            if ty = JStr ''decision'' then
              Inr (if dget (as_decisions s) i = None then s\<lparr>as_decisions := dset i (index, e) (as_decisions s)\<rparr> else s)
            else if ty = JStr ''outcome'' then
              bindR (jindex e ''decision_event_id'') (\<lambda>d.
                Inr (s\<lparr>as_outcomes := link (py_str P d) (index, e) (as_outcomes s)\<rparr>))
            else if ty = JStr ''resolution'' then
              bindR (jindex e ''decision_event_id'') (\<lambda>d.
                Inr (s\<lparr>as_resolutions := link (py_str P d) (index, e) (as_resolutions s)\<rparr>))
            else Inr s))"

fun audit_collect :: "platform \<Rightarrow> nat \<Rightarrow> event list \<Rightarrow> audit_state \<Rightarrow> exn + audit_state" where
  "audit_collect P index [] s = Inr s"
| "audit_collect P index (e # es) s =
     bindR (audit_collect_step P index e s) (\<lambda>s'. audit_collect P (Suc index) es s')"

section \<open>Linked events\<close>

definition resolution_issues ::
  "platform \<Rightarrow> (string, nat \<times> event) dict \<Rightarrow> string \<times> (nat \<times> event) list \<Rightarrow> exn + audit_issue list" where
  "resolution_issues P decisions x =
     (case x of (i, linked) \<Rightarrow>
        case dget decisions i of
          None \<Rightarrow> mapR (\<lambda>(_, r). bindR (jindex r ''event_id'') (\<lambda>v. Inr (''orphan_resolution'', py_str P v))) linked
        | Some (pos, _) \<Rightarrow>
            bindR (mapR (\<lambda>(_, r). bindR (jindex r ''event_id'') (\<lambda>v. Inr (''resolution_before_decision'', py_str P v)))
                     (filter (\<lambda>(n, _). n \<le> pos) linked)) (\<lambda>early.
              Inr ((if 1 < length (remdups (map (\<lambda>(_, r). py_str P (jget r ''resolution'')) linked))
                    then [(''conflicting_resolution'', i)] else []) @ early)))"

definition identity_fields :: "string list" where
  "identity_fields = [''action_id'', ''action_name'', ''contract_hash'']"

definition outcome_checks :: "platform \<Rightarrow> nat \<Rightarrow> event \<Rightarrow> nat \<times> event \<Rightarrow> exn + audit_issue list" where
  "outcome_checks P pos decision x =
     (case x of (n, oc) \<Rightarrow>
        bindR (jindex oc ''event_id'') (\<lambda>v. let i = py_str P v in
        bindR (jindex decision ''decision'') (\<lambda>d.
        bindR (mapR (\<lambda>f. bindR (jindex oc f) (\<lambda>a. bindR (jindex decision f) (\<lambda>b. Inr (f, py_eq a b)))) identity_fields) (\<lambda>same.
          Inr ((if n \<le> pos then [(''outcome_before_decision'', i)] else [])
             @ (if d \<noteq> JStr ''allowed'' then [(''outcome_for_denied_decision'', i)] else [])
             @ map (\<lambda>_. (''outcome_identity_mismatch'', i)) (filter (\<lambda>(_, eq). \<not> eq) same)
             @ (if jget oc ''status'' \<notin> {JStr ''succeeded'', JStr ''failed''}
                then [(''invalid_outcome_status'', i)] else []))))))"

definition outcome_issues ::
  "platform \<Rightarrow> (string, nat \<times> event) dict \<Rightarrow> string \<times> (nat \<times> event) list \<Rightarrow> exn + audit_issue list" where
  "outcome_issues P decisions x =
     (case x of (i, linked) \<Rightarrow>
        case dget decisions i of
          None \<Rightarrow> mapR (\<lambda>(_, oc). bindR (jindex oc ''event_id'') (\<lambda>v. Inr (''orphan_outcome'', py_str P v))) linked
        | Some (pos, decision) \<Rightarrow>
            bindR (mapR (outcome_checks P pos decision) linked) (\<lambda>checks.
              Inr ((if 1 < length linked then [(''duplicate_outcome'', i)] else []) @ concat checks)))"

section \<open>Invocations\<close>

text \<open>The status of a decision, and whether a resolution contradicts a recorded success.\<close>

definition invocation_status_of ::
  "platform \<Rightarrow> event \<Rightarrow> (nat \<times> event) list \<Rightarrow> (nat \<times> event) list \<Rightarrow> invocation_status \<times> bool" where
  "invocation_status_of P decision outcomes resolutions =
     (let d = jget decision ''decision'';
          oc = (case outcomes of [(_, e)] \<Rightarrow> Some e | _ \<Rightarrow> None);
          succeeded = (case oc of Some e \<Rightarrow> jget e ''status'' = JStr ''succeeded'' | None \<Rightarrow> False);
          failed = (case oc of Some e \<Rightarrow> jget e ''status'' = JStr ''failed'' | None \<Rightarrow> False);
          rv = (if resolutions = [] then None else Some (py_str P (jget (snd (last resolutions)) ''resolution'')))
      in if jget decision ''dry_run'' = JBool True \<and> d = JStr ''allowed'' \<and> oc = None then (DRY_RUN, False)
         else if d = JStr ''denied'' \<and> outcomes = [] then (DENIED, False)
         else if d = JStr ''allowed'' \<and> succeeded \<and> rv = None then (SUCCEEDED, False)
         else if d = JStr ''allowed'' \<and> succeeded then (NEEDS_RECONCILIATION, True)
         else if d = JStr ''allowed'' \<and> rv = Some ''confirmed_completed'' then (RESOLVED_COMPLETED, False)
         else if d = JStr ''allowed'' \<and> rv = Some ''confirmed_not_completed'' then (RESOLVED_NOT_COMPLETED, False)
         else if d = JStr ''allowed'' \<and> failed then (FAILED, False)
         else (NEEDS_RECONCILIATION, False))"

type_synonym seen_keys = "(string \<times> string, string) dict"

definition audit_decision ::
  "platform \<Rightarrow> linked \<Rightarrow> linked \<Rightarrow> string \<times> nat \<times> event \<Rightarrow> seen_keys
     \<Rightarrow> exn + (audited \<times> audit_issue list) \<times> seen_keys" where
  "audit_decision P outcomes resolutions x seen =
     (case x of (i, _, decision) \<Rightarrow>
        let linked = dget_default outcomes i [];
            oc = (case linked of [(_, e)] \<Rightarrow> Some e | _ \<Rightarrow> None);
            d = jget decision ''decision'';
            (status, contradicted) = invocation_status_of P decision linked (dget_default resolutions i []);
            marker = (case (jget decision ''idempotency_key'', status, jget decision ''action_name'') of
                (JStr key, SUCCEEDED, JStr name) \<Rightarrow> if key \<noteq> [] then Some (name, key) else None
              | _ \<Rightarrow> None);
            twice = (case marker of Some m \<Rightarrow> dget seen m \<noteq> None | None \<Rightarrow> False);
            seen' = (case marker of Some m \<Rightarrow> if twice then seen else dset m i seen | None \<Rightarrow> seen);
            issues = (if d \<notin> {JStr ''allowed'', JStr ''denied''} then [(''invalid_decision'', i)] else [])
              @ (if contradicted then [(''conflicting_resolution'', i)] else [])
              @ (if twice then [(''duplicate_idempotency_key'', i)] else []);
            text = (\<lambda>e k. bindR (jindex e k) (\<lambda>v. Inr (py_str P v)))
        in bindR (text decision ''action_name'') (\<lambda>an. bindR (text decision ''action_id'') (\<lambda>ad.
           bindR (text decision ''contract_hash'') (\<lambda>ch. bindR (text decision ''input_hash'') (\<lambda>ih.
           bindR (text decision ''risk'') (\<lambda>rk. bindR (text decision ''approval_mode'') (\<lambda>am.
           bindR (text decision ''timestamp_utc'') (\<lambda>ts.
           bindR (case oc of None \<Rightarrow> Inr (None, None)
                  | Some e \<Rightarrow> bindR (text e ''event_id'') (\<lambda>a. bindR (text e ''timestamp_utc'') (\<lambda>b. Inr (Some a, Some b))))
             (\<lambda>(oid, ots).
              Inr ((\<lparr>ai_action_name = an, ai_action_id = ad, ai_contract_hash = ch, ai_input_hash = ih, ai_risk = rk,
                     ai_approval_mode = am, ai_decision_event_id = i, ai_decision = py_str P d,
                     ai_decision_timestamp = ts, ai_outcome_event_id = oid, ai_outcome_timestamp = ots,
                     ai_status = status\<rparr>, issues), seen'))))))))))"

fun audit_decisions ::
  "platform \<Rightarrow> linked \<Rightarrow> linked \<Rightarrow> (string \<times> nat \<times> event) list \<Rightarrow> seen_keys
     \<Rightarrow> exn + (audited \<times> audit_issue list) list" where
  "audit_decisions P outcomes resolutions [] seen = Inr []"
| "audit_decisions P outcomes resolutions (x # xs) seen =
     bindR (audit_decision P outcomes resolutions x seen) (\<lambda>(y, seen').
       bindR (audit_decisions P outcomes resolutions xs seen') (\<lambda>ys. Inr (y # ys)))"

definition audit_events :: "platform \<Rightarrow> event list \<Rightarrow> exn + audit_report" where
  "audit_events P es =
     bindR (audit_collect P 0 es audit_start) (\<lambda>s.
     bindR (mapR (resolution_issues P (as_decisions s)) (as_resolutions s)) (\<lambda>ri.
     bindR (mapR (outcome_issues P (as_decisions s)) (as_outcomes s)) (\<lambda>oi.
     bindR (audit_decisions P (as_outcomes s) (as_resolutions s) (as_decisions s) []) (\<lambda>ds.
       Inr \<lparr>ar_invocations = map fst ds,
            ar_issues = as_issues s @ concat ri @ concat oi @ concat (map snd ds)\<rparr>))))"

definition audit_verified_snapshot :: "platform \<Rightarrow> vresult \<times> event list \<Rightarrow> exn + audit_report" where
  "audit_verified_snapshot P snapshot =
     (if \<not> r_valid (fst snapshot) then Inl EvidenceAuditError else audit_events P (snd snapshot))"

section \<open>Entry points\<close>

definition count_journal_lines :: "bytes \<Rightarrow> nat" where
  "count_journal_lines f = length (filter (\<lambda>raw. bstrip raw \<noteq> []) (py_lines f))"

definition check_max_events :: "bytes option \<Rightarrow> int option \<Rightarrow> exn + unit" where
  "check_max_events file max_events =
     (case max_events of
        None \<Rightarrow> Inr ()
      | Some n \<Rightarrow>
          if n < 1 then Inl ValueError
          else (case file of
                  None \<Rightarrow> Inr ()
                | Some f \<Rightarrow> if n < int (count_journal_lines f) then Inl EvidenceAuditError else Inr ()))"

definition audit_journal :: "platform \<Rightarrow> bytes option \<Rightarrow> bytes list \<Rightarrow> int option \<Rightarrow> exn + audit_report" where
  "audit_journal P file keys max_events =
     bindR (check_max_events file max_events) (\<lambda>_.
       bindR (load_journal_snapshot P file keys (\<lambda>e. e)) (audit_verified_snapshot P))"

definition AUDIT_EVENT_FIELDS :: "string list" where
  "AUDIT_EVENT_FIELDS =
     [''event_id'', ''event_type'', ''decision_event_id'', ''decision'', ''action_id'', ''action_name'',
      ''contract_hash'', ''input_hash'', ''risk'', ''approval_mode'', ''timestamp_utc'', ''dry_run'',
      ''idempotency_key'', ''status'', ''resolution'']"

definition project_audit_event :: "event \<Rightarrow> event" where
  "project_audit_event e = map (\<lambda>k. (k, jget e k)) AUDIT_EVENT_FIELDS"

definition audit_journal_streaming :: "platform \<Rightarrow> bytes option \<Rightarrow> bytes list \<Rightarrow> int option \<Rightarrow> exn + audit_report" where
  "audit_journal_streaming P file keys max_events =
     bindR (check_max_events file max_events) (\<lambda>_.
       bindR (load_journal_snapshot P file keys project_audit_event) (audit_verified_snapshot P))"

end
