(* ===== verification/AuditProps.thy ===== *)
theory AuditProps
  imports AuditReport
begin

text \<open>
  What an audit report says about the journal: the streaming pass gives the same report, the
  statuses are those of the linked events, and a report without issues means that outcomes and
  decisions fit together.
\<close>

section \<open>What the collection holds\<close>

definition id_text :: "platform \<Rightarrow> event \<Rightarrow> string" where
  "id_text P e = py_str P (jget e ''event_id'')"

definition ref_text :: "platform \<Rightarrow> event \<Rightarrow> string" where
  "ref_text P e = py_str P (jget e ''decision_event_id'')"

definition linked_to :: "platform \<Rightarrow> string \<Rightarrow> string \<Rightarrow> nat \<times> event \<Rightarrow> bool" where
  "linked_to P ty i x \<longleftrightarrow> etype ty (snd x) \<and> ref_text P (snd x) = i"

definition decision_at :: "platform \<Rightarrow> string \<Rightarrow> nat \<times> event \<Rightarrow> bool" where
  "decision_at P i x \<longleftrightarrow> etype ''decision'' (snd x) \<and> id_text P (snd x) = i"

lemma linked_to_simps [simp]:
  "linked_to P ty i (n, e) \<longleftrightarrow> etype ty e \<and> ref_text P e = i"
  "decision_at P i (n, e) \<longleftrightarrow> etype ''decision'' e \<and> id_text P e = i"
  by (simp_all add: linked_to_def decision_at_def)

lemma jindex_Inr [simp]: "jindex e k = Inr v \<longleftrightarrow> has_key e k \<and> v = jget e k"
  by (auto simp: jindex_def has_key_def jget_def split: option.splits)

lemma dget_default_link:
  "dget_default (link k x d) k' [] = (if k' = k then dget_default d k [] @ [x] else dget_default d k' [])"
  by (simp add: link_def dget_default_def)

lemma collect_step:
  assumes "audit_collect_step P n e s = Inr s'"
  shows "has_key e ''event_id'' \<and> has_key e ''event_type''
    \<and> (etype ''outcome'' e \<or> etype ''resolution'' e \<longrightarrow> has_key e ''decision_event_id'')
    \<and> as_seen s' = as_seen s @ [id_text P e]
    \<and> as_issues s' = as_issues s @ (if id_text P e \<in> set (as_seen s) then [(''duplicate_event_id'', id_text P e)] else [])
    \<and> as_decisions s' = (if etype ''decision'' e \<and> dget (as_decisions s) (id_text P e) = None
        then as_decisions s @ [(id_text P e, n, e)] else as_decisions s)
    \<and> as_outcomes s' = (if etype ''outcome'' e then link (ref_text P e) (n, e) (as_outcomes s) else as_outcomes s)
    \<and> as_resolutions s' = (if etype ''resolution'' e then link (ref_text P e) (n, e) (as_resolutions s) else as_resolutions s)"
  using assms
  by (auto simp: audit_collect_step_def bindR_Inr_iff Let_def etype_def id_text_def ref_text_def dset_fresh split: if_splits)

lemma collect_links:
  "audit_collect P n es s = Inr s' \<Longrightarrow>
   dget_default (as_outcomes s') i [] = dget_default (as_outcomes s) i [] @ filter (linked_to P ''outcome'' i) (enumerate n es)
   \<and> dget_default (as_resolutions s') i [] = dget_default (as_resolutions s) i [] @ filter (linked_to P ''resolution'' i) (enumerate n es)"
proof (induction es arbitrary: n s)
  case (Cons e es)
  from Cons.prems obtain s1 where s1: "audit_collect_step P n e s = Inr s1" and r: "audit_collect P (Suc n) es s1 = Inr s'"
    by (auto simp: bindR_Inr_iff)
  from Cons.IH [OF r] collect_step [OF s1] show ?case
    by (simp add: dget_default_link)
qed simp

lemma collect_decisions:
  "audit_collect P n es s = Inr s' \<Longrightarrow>
   dget (as_decisions s') i = (case dget (as_decisions s) i of Some x \<Rightarrow> Some x | None \<Rightarrow> find (decision_at P i) (enumerate n es))"
proof (induction es arbitrary: n s)
  case (Cons e es)
  from Cons.prems obtain s1 where s1: "audit_collect_step P n e s = Inr s1" and r: "audit_collect P (Suc n) es s1 = Inr s'"
    by (auto simp: bindR_Inr_iff)
  have d: "as_decisions s1 = (if etype ''decision'' e \<and> dget (as_decisions s) (id_text P e) = None
      then as_decisions s @ [(id_text P e, n, e)] else as_decisions s)"
    using collect_step [OF s1] by blast
  show ?case
    unfolding Cons.IH [OF r] by (auto simp: d map_add_def split: option.split)
qed (simp split: option.split)

lemma collect_keys:
  "audit_collect P n es s = Inr s' \<Longrightarrow> distinct (map fst (as_decisions s)) \<Longrightarrow> distinct (map fst (as_decisions s'))"
proof (induction es arbitrary: n s)
  case (Cons e es)
  from Cons.prems obtain s1 where s1: "audit_collect_step P n e s = Inr s1" and r: "audit_collect P (Suc n) es s1 = Inr s'"
    by (auto simp: bindR_Inr_iff)
  have "distinct (map fst (as_decisions s1))"
    using collect_step [OF s1] Cons.prems(2) by (auto simp: dget_None_iff)
  from Cons.IH [OF r this] show ?case .
qed simp

lemma collect_issues: "audit_collect P n es s = Inr s' \<Longrightarrow> \<exists>xs. as_issues s' = as_issues s @ xs"
proof (induction es arbitrary: n s)
  case (Cons e es)
  from Cons.prems obtain s1 where s1: "audit_collect_step P n e s = Inr s1" and r: "audit_collect P (Suc n) es s1 = Inr s'"
    by (auto simp: bindR_Inr_iff)
  from Cons.IH [OF r] collect_step [OF s1] show ?case by auto
qed simp

lemma collect_unique:
  "audit_collect P n es s = Inr s' \<Longrightarrow> as_issues s' = as_issues s \<Longrightarrow> distinct (as_seen s) \<Longrightarrow>
   distinct (as_seen s @ map (id_text P) es)"
proof (induction es arbitrary: n s)
  case (Cons e es)
  from Cons.prems obtain s1 where s1: "audit_collect_step P n e s = Inr s1" and r: "audit_collect P (Suc n) es s1 = Inr s'"
    by (auto simp: bindR_Inr_iff)
  have "\<exists>xs. as_issues s' = as_issues s1 @ xs" using r by (rule collect_issues)
  with Cons.prems(2) collect_step [OF s1] have "as_issues s' = as_issues s1" "id_text P e \<notin> set (as_seen s)"
    by (auto split: if_splits)
  with Cons.IH [OF r] collect_step [OF s1] Cons.prems(3) show ?case by auto
qed simp

lemma collect_has_keys:
  "audit_collect P n es s = Inr s' \<Longrightarrow> e \<in> set es \<Longrightarrow> has_key e ''event_id''
   \<and> (etype ''outcome'' e \<or> etype ''resolution'' e \<longrightarrow> has_key e ''decision_event_id'')"
  by (induction es arbitrary: n s) (auto simp: bindR_Inr_iff dest!: collect_step)

section \<open>The parts of a report\<close>

abbreviation audited_outcomes :: "platform \<Rightarrow> event list \<Rightarrow> string \<Rightarrow> (nat \<times> event) list" where
  "audited_outcomes P es i \<equiv> filter (linked_to P ''outcome'' i) (enumerate 0 es)"

abbreviation audited_resolutions :: "platform \<Rightarrow> event list \<Rightarrow> string \<Rightarrow> (nat \<times> event) list" where
  "audited_resolutions P es i \<equiv> filter (linked_to P ''resolution'' i) (enumerate 0 es)"

abbreviation audited_decision :: "platform \<Rightarrow> event list \<Rightarrow> string \<Rightarrow> (nat \<times> event) option" where
  "audited_decision P es i \<equiv> find (decision_at P i) (enumerate 0 es)"

lemma audit_events_parts:
  assumes "audit_events P es = Inr r"
  obtains s ri oi ds where "audit_collect P 0 es audit_start = Inr s"
    "mapR (resolution_issues P (as_decisions s)) (as_resolutions s) = Inr ri"
    "mapR (outcome_issues P (as_decisions s)) (as_outcomes s) = Inr oi"
    "audit_decisions P (as_outcomes s) (as_resolutions s) (as_decisions s) [] = Inr ds"
    "ar_invocations r = map fst ds" "ar_issues r = as_issues s @ concat ri @ concat oi @ concat (map snd ds)"
    "\<And>i. dget_default (as_outcomes s) i [] = audited_outcomes P es i"
    "\<And>i. dget_default (as_resolutions s) i [] = audited_resolutions P es i"
    "\<And>i. dget (as_decisions s) i = audited_decision P es i" "distinct (map fst (as_decisions s))"
proof -
  from assms obtain s ri oi ds where c: "audit_collect P 0 es audit_start = Inr s"
    and rest: "mapR (resolution_issues P (as_decisions s)) (as_resolutions s) = Inr ri"
      "mapR (outcome_issues P (as_decisions s)) (as_outcomes s) = Inr oi"
      "audit_decisions P (as_outcomes s) (as_resolutions s) (as_decisions s) [] = Inr ds"
      "ar_invocations r = map fst ds" "ar_issues r = as_issues s @ concat ri @ concat oi @ concat (map snd ds)"
    unfolding audit_events_def by (auto simp: bindR_Inr_iff)
  have start: "dget_default (as_outcomes audit_start) i [] = []" "dget_default (as_resolutions audit_start) i [] = []"
    "dget (as_decisions audit_start) i = None" "distinct (map fst (as_decisions audit_start))" for i
    by (simp_all add: audit_start_def dget_default_def)
  show thesis
    using collect_links [OF c] collect_decisions [OF c] collect_keys [OF c] by (intro that [OF c rest]) (simp_all add: start)
qed

lemma enumerate_set: "set es = snd ` set (enumerate n es)"
  by (metis map_snd_enumerate set_map)

lemma found_decision:
  "audited_decision P es i \<noteq> None \<longleftrightarrow> i \<in> id_text P ` {e \<in> set es. etype ''decision'' e}"
proof -
  have "audited_decision P es i \<noteq> None \<longleftrightarrow> (\<exists>x \<in> set (enumerate 0 es). decision_at P i x)"
    unfolding find_None_iff by blast
  then show ?thesis
    unfolding enumerate_set [of es 0] decision_at_def image_iff by blast
qed

lemma audit_decision_fields:
  assumes "audit_decision P oc rs (i, n, d) seen = Inr (y, seen')"
  shows "ai_decision_event_id (fst y) = i \<and> ai_decision (fst y) = py_str P (jget d ''decision'')
    \<and> ai_action_name (fst y) = py_str P (jget d ''action_name'')
    \<and> ai_status (fst y) = fst (invocation_status_of P d (dget_default oc i []) (dget_default rs i []))"
  using assms
  by (auto simp: audit_decision_def Let_def bindR_Inr_iff split: prod.splits)

lemma audit_decisions_mem:
  "audit_decisions P oc rs xs seen = Inr ys \<Longrightarrow> y \<in> set ys \<Longrightarrow>
   \<exists>x \<in> set xs. \<exists>s s'. audit_decision P oc rs x s = Inr (y, s')"
  by (induction xs arbitrary: seen ys) (fastforce simp: bindR_Inr_iff)+

lemma audit_decisions_ids:
  "audit_decisions P oc rs xs seen = Inr ys \<Longrightarrow> map (ai_decision_event_id \<circ> fst) ys = map fst xs"
proof (induction xs arbitrary: seen ys)
  case (Cons x xs)
  obtain i n d where x: "x = (i, n, d)" by (cases x) auto
  with Cons show ?case by (auto simp: bindR_Inr_iff dest!: audit_decision_fields)
qed simp

section \<open>Statuses\<close>

text \<open>The status rules, one line per status.\<close>

definition status_agrees :: "platform \<Rightarrow> event \<Rightarrow> (nat \<times> event) list \<Rightarrow> (nat \<times> event) list \<Rightarrow> invocation_status \<Rightarrow> bool" where
  "status_agrees P d outs rs st \<longleftrightarrow>
     (let allowed = (jget d ''decision'' = JStr ''allowed''); dry = (jget d ''dry_run'' = JBool True);
          word = (\<lambda>w. rs \<noteq> [] \<and> py_str P (jget (snd (last rs)) ''resolution'') = w);
          single = (\<lambda>w. \<exists>x. outs = [x] \<and> jget (snd x) ''status'' = JStr w)
      in (st = SUCCEEDED \<longleftrightarrow> allowed \<and> rs = [] \<and> single ''succeeded'')
       \<and> (st = DENIED \<longleftrightarrow> jget d ''decision'' = JStr ''denied'' \<and> outs = [])
       \<and> (st = DRY_RUN \<longleftrightarrow> allowed \<and> dry \<and> length outs \<noteq> 1)
       \<and> (st = FAILED \<longrightarrow> allowed \<and> single ''failed'')
       \<and> (st = RESOLVED_COMPLETED \<longrightarrow> allowed \<and> word ''confirmed_completed'')
       \<and> (st = RESOLVED_NOT_COMPLETED \<longrightarrow> allowed \<and> word ''confirmed_not_completed'')
       \<and> (allowed \<and> \<not> dry \<and> outs = [] \<and> rs = [] \<longrightarrow> st = NEEDS_RECONCILIATION))"

lemma status_agrees: "status_agrees P d outs rs (fst (invocation_status_of P d outs rs))"
proof -
  consider "outs = []" | x where "outs = [x]" | x y zs where "outs = x # y # zs" by (metis neq_Nil_conv)
  then show ?thesis
    by cases (auto simp: status_agrees_def invocation_status_of_def Let_def split: prod.splits)
qed


section \<open>A report without issues\<close>

lemma concat_Nil_all: "concat xs = [] \<longleftrightarrow> (\<forall>x \<in> set xs. x = [])"
  by auto

lemma in_set_nonempty: "x \<in> set xs \<Longrightarrow> xs \<noteq> []"
  by auto

lemma dget_default_nonempty: "dget_default d k [] \<noteq> [] \<Longrightarrow> dget d k = Some (dget_default d k [])"
  by (simp add: dget_default_def split: option.splits)

lemma one_element: "length xs = 1 \<Longrightarrow> x \<in> set xs \<Longrightarrow> xs = [x]"
  by (cases xs) auto

lemma mapR_silent: "mapR f xs = Inr ys \<Longrightarrow> concat ys = [] \<Longrightarrow> x \<in> set xs \<Longrightarrow> f x = Inr []"
  by (induction xs arbitrary: ys) (auto simp: bindR_Inr_iff)

lemma outcome_silent:
  assumes "outcome_issues P ds (i, linked) = Inr []" and "linked \<noteq> []"
  shows "\<exists>pos d. dget ds i = Some (pos, d) \<and> length linked = 1
    \<and> (\<forall>x \<in> set linked. outcome_checks P pos d x = Inr [])"
proof (cases "dget ds i")
  case None
  with assms show ?thesis by (cases linked) (auto simp: outcome_issues_def bindR_Inr_iff)
next
  case (Some x)
  obtain pos d where x: "x = (pos, d)" by (cases x)
  with assms(1) Some obtain checks where c: "mapR (outcome_checks P pos d) linked = Inr checks" "concat checks = []"
    and l: "\<not> 1 < length linked"
    by (auto simp: outcome_issues_def bindR_Inr_iff split: if_splits)
  from mapR_silent [OF c] l assms(2) Some x show ?thesis by (cases linked) auto
qed

lemma checks_silent:
  assumes "outcome_checks P pos d (n, oc) = Inr []"
  shows "pos < n \<and> jget d ''decision'' = JStr ''allowed''
    \<and> (\<forall>f \<in> set identity_fields. py_eq (jget oc f) (jget d f))
    \<and> jget oc ''status'' \<in> {JStr ''succeeded'', JStr ''failed''}"
  using assms
  by (auto simp: outcome_checks_def Let_def bindR_Inr_iff identity_fields_def split: if_splits)

lemma resolution_silent:
  assumes "resolution_issues P ds (i, linked) = Inr []" and "(n, r) \<in> set linked"
  shows "\<exists>pos d. pos < n \<and> dget ds i = Some (pos, d)"
proof (cases "dget ds i")
  case None
  with assms show ?thesis by (cases linked) (auto simp: resolution_issues_def bindR_Inr_iff)
next
  case (Some x)
  obtain pos d where x: "x = (pos, d)" by (cases x)
  with assms(1) Some have e: "mapR (\<lambda>(_, r). bindR (jindex r ''event_id'') (\<lambda>v. Inr (''resolution_before_decision'', py_str P v)))
      (filter (\<lambda>(n, _). n \<le> pos) linked) = Inr []"
    by (auto simp: resolution_issues_def bindR_Inr_iff split: if_splits)
  have "filter (\<lambda>(n, _). n \<le> pos) linked = []" using mapR_length [OF e] by simp
  then have "\<not> n \<le> pos" using assms(2) by (auto simp: filter_empty_conv)
  then show ?thesis using Some x by auto
qed

lemma audit_decisions_cover:
  "audit_decisions P oc rs xs seen = Inr ys \<Longrightarrow> x \<in> set xs \<Longrightarrow>
   \<exists>s y s'. audit_decision P oc rs x s = Inr (y, s') \<and> y \<in> set ys"
proof (induction xs arbitrary: seen ys)
  case (Cons a xs)
  from Cons.prems(1) obtain y seen' ys' where a: "audit_decision P oc rs a seen = Inr (y, seen')"
    and r: "audit_decisions P oc rs xs seen' = Inr ys'" and ys: "ys = y # ys'"
    by (auto simp: bindR_Inr_iff)
  show ?case
  proof (cases "x = a")
    case False
    with Cons.IH [OF r] Cons.prems(2) ys show ?thesis by auto
  next
    case True
    with a ys show ?thesis by (intro exI [of _ seen] exI [of _ y] exI [of _ seen']) simp
  qed
qed simp

text \<open>
  C21: When the audit of a journal reports no issue, its events fit together: identifiers are
  unique; every outcome answers a decision that stands before it in the journal, was allowed,
  names the same action and contract, and no other outcome answers the same decision; every
  resolution stands after a decision; every decision is an allowance or a denial.
\<close>

theorem clean_audit_consistent:
  assumes "audit_events P es = Inr r" and "structurally_valid r"
  shows "distinct (map (id_text P) es)
    \<and> (\<forall>n oc. (n, oc) \<in> set (enumerate 0 es) \<longrightarrow> etype ''outcome'' oc \<longrightarrow>
         audited_outcomes P es (ref_text P oc) = [(n, oc)]
         \<and> jget oc ''status'' \<in> {JStr ''succeeded'', JStr ''failed''}
         \<and> (\<exists>m d. m < n \<and> audited_decision P es (ref_text P oc) = Some (m, d) \<and> jget d ''decision'' = JStr ''allowed''
              \<and> (\<forall>f \<in> set identity_fields. py_eq (jget oc f) (jget d f))))
    \<and> (\<forall>n rs. (n, rs) \<in> set (enumerate 0 es) \<longrightarrow> etype ''resolution'' rs \<longrightarrow>
         (\<exists>m d. m < n \<and> audited_decision P es (ref_text P rs) = Some (m, d)))
    \<and> (\<forall>i n d. audited_decision P es i = Some (n, d) \<longrightarrow> jget d ''decision'' \<in> {JStr ''allowed'', JStr ''denied''})"
  using assms(1)
proof (rule audit_events_parts)
  fix s ri oi ds
  assume c: "audit_collect P 0 es audit_start = Inr s"
    and ri: "mapR (resolution_issues P (as_decisions s)) (as_resolutions s) = Inr ri"
    and oi: "mapR (outcome_issues P (as_decisions s)) (as_outcomes s) = Inr oi"
    and ds: "audit_decisions P (as_outcomes s) (as_resolutions s) (as_decisions s) [] = Inr ds"
    and iss: "ar_issues r = as_issues s @ concat ri @ concat oi @ concat (map snd ds)"
    and oc: "\<And>i. dget_default (as_outcomes s) i [] = audited_outcomes P es i"
    and rs: "\<And>i. dget_default (as_resolutions s) i [] = audited_resolutions P es i"
    and dec: "\<And>i. dget (as_decisions s) i = audited_decision P es i"
  have none: "as_issues s = []" "concat ri = []" "concat oi = []" "concat (map snd ds) = []"
    using assms(2) iss by (simp_all add: structurally_valid_def)
  have "distinct (map (id_text P) es)"
    using collect_unique [OF c] none(1) by (simp add: audit_start_def)
  moreover have "audited_outcomes P es (ref_text P o') = [(n, o')] \<and> jget o' ''status'' \<in> {JStr ''succeeded'', JStr ''failed''}
      \<and> (\<exists>m d. m < n \<and> audited_decision P es (ref_text P o') = Some (m, d) \<and> jget d ''decision'' = JStr ''allowed''
           \<and> (\<forall>f \<in> set identity_fields. py_eq (jget o' f) (jget d f)))"
    if m: "(n, o') \<in> set (enumerate 0 es)" and e: "etype ''outcome'' o'" for n o'
  proof -
    let ?l = "audited_outcomes P es (ref_text P o')"
    have mem: "(n, o') \<in> set ?l" using m e by simp
    then have ne: "?l \<noteq> []" by (rule in_set_nonempty)
    then have "dget_default (as_outcomes s) (ref_text P o') [] \<noteq> []" unfolding oc .
    then have "dget (as_outcomes s) (ref_text P o') = Some ?l"
      using dget_default_nonempty [of "as_outcomes s" "ref_text P o'"] unfolding oc by blast
    then have "(ref_text P o', ?l) \<in> set (as_outcomes s)" by (rule map_of_SomeD)
    from mapR_silent [OF oi none(3) this] have "outcome_issues P (as_decisions s) (ref_text P o', ?l) = Inr []" .
    from outcome_silent [OF this ne, unfolded dec] mem obtain pos d where
      d: "audited_decision P es (ref_text P o') = Some (pos, d)"
      and one: "length ?l = 1" and checks: "outcome_checks P pos d (n, o') = Inr []"
      by blast
    have "?l = [(n, o')]" by (rule one_element [OF one mem])
    with checks_silent [OF checks] d show ?thesis by blast
  qed
  moreover have "\<exists>m d. m < n \<and> audited_decision P es (ref_text P o') = Some (m, d)"
    if m: "(n, o') \<in> set (enumerate 0 es)" and e: "etype ''resolution'' o'" for n o'
  proof -
    let ?l = "audited_resolutions P es (ref_text P o')"
    have mem: "(n, o') \<in> set ?l" using m e by simp
    then have "dget_default (as_resolutions s) (ref_text P o') [] \<noteq> []" unfolding rs by (rule in_set_nonempty)
    then have "dget (as_resolutions s) (ref_text P o') = Some ?l"
      using dget_default_nonempty [of "as_resolutions s" "ref_text P o'"] unfolding rs by blast
    then have "(ref_text P o', ?l) \<in> set (as_resolutions s)" by (rule map_of_SomeD)
    from mapR_silent [OF ri none(2) this] have "resolution_issues P (as_decisions s) (ref_text P o', ?l) = Inr []" .
    with resolution_silent [OF this mem] show ?thesis unfolding dec by blast
  qed
  moreover have "jget d ''decision'' \<in> {JStr ''allowed'', JStr ''denied''}"
    if "audited_decision P es i = Some (n, d)" for i n d
  proof -
    have "(i, n, d) \<in> set (as_decisions s)" using that unfolding dec [symmetric] by (rule map_of_SomeD)
    from audit_decisions_cover [OF ds this] obtain seen y seen' where
      a: "audit_decision P (as_outcomes s) (as_resolutions s) (i, n, d) seen = Inr (y, seen')" and y: "y \<in> set ds" by blast
    from y none(4) have "snd y = []" by auto
    with a show ?thesis by (auto simp: audit_decision_def Let_def bindR_Inr_iff split: prod.splits if_splits)
  qed
  ultimately show ?thesis by blast
qed

section \<open>A concrete journal\<close>

definition demo_audit :: "event list" where
  "demo_audit =
    [[(''event_type'', JStr ''decision''), (''event_id'', JStr ''d1''), (''decision'', JStr ''allowed''),
      (''action_id'', JStr ''m.f''), (''action_name'', JStr ''pay''), (''contract_hash'', JStr ''c''),
      (''input_hash'', JStr ''h''), (''risk'', JStr ''high''), (''approval_mode'', JStr ''required''),
      (''timestamp_utc'', JStr ''t1'')],
     [(''event_type'', JStr ''outcome''), (''event_id'', JStr ''o1''), (''decision_event_id'', JStr ''d1''),
      (''action_id'', JStr ''m.f''), (''action_name'', JStr ''pay''), (''contract_hash'', JStr ''c''),
      (''status'', JStr ''succeeded''), (''timestamp_utc'', JStr ''t2'')]]"

lemma demo_audit_report: obtains r where "audit_events toy_platform demo_audit = Inr r" "structurally_valid r"
proof -
  have "case audit_events toy_platform demo_audit of Inr r \<Rightarrow> structurally_valid r | Inl _ \<Rightarrow> False" by code_simp
  then show ?thesis using that by (cases "audit_events toy_platform demo_audit") simp_all
qed


lemma clean_audit_consistent_witness:
  "audited_outcomes toy_platform demo_audit ''d1'' \<noteq> [] \<and> distinct (map (id_text toy_platform) demo_audit)
   \<and> (\<exists>m d. m < 1 \<and> audited_decision toy_platform demo_audit ''d1'' = Some (m, d))"
proof (rule demo_audit_report)
  fix r assume r: "audit_events toy_platform demo_audit = Inr r" "structurally_valid r"
  obtain oc where oc: "(1, oc) \<in> set (enumerate 0 demo_audit)" "etype ''outcome'' oc" "ref_text toy_platform oc = ''d1''"
    by (rule that [of "demo_audit ! 1"]) (simp_all add: demo_audit_def etype_def ref_text_def jget_def py_str_def)
  note c = clean_audit_consistent [OF r]
  note c2 = c [THEN conjunct2, THEN conjunct1, THEN spec, THEN spec, THEN mp, OF oc(1), THEN mp, OF oc(2), unfolded oc(3)]
  show ?thesis using c [THEN conjunct1] c2 by (intro conjI) (elim conjE exE; simp; blast)+
qed

end
