(* ===== verification/AuditStream.thy ===== *)
theory AuditStream
  imports AuditProps Chain
begin

text \<open>
  The streaming audit drops every field the audit does not read while the journal is verified.
  This theory proves that it gives the report of the full audit, exceptions included.
\<close>

section \<open>The projection\<close>

abbreviation pj :: "event \<Rightarrow> event" where
  "pj \<equiv> project_audit_event"

definition pj_pair :: "nat \<times> event \<Rightarrow> nat \<times> event" where
  "pj_pair x = (fst x, pj (snd x))"

definition pj_links :: "linked \<Rightarrow> linked" where
  "pj_links d = map (\<lambda>(k, xs). (k, map pj_pair xs)) d"

definition pj_decisions :: "(string, nat \<times> event) dict \<Rightarrow> (string, nat \<times> event) dict" where
  "pj_decisions d = map (\<lambda>(k, x). (k, pj_pair x)) d"

definition pj_state :: "audit_state \<Rightarrow> audit_state" where
  "pj_state s = s\<lparr>as_decisions := pj_decisions (as_decisions s), as_outcomes := pj_links (as_outcomes s),
     as_resolutions := pj_links (as_resolutions s)\<rparr>"

lemma pj_pair_simps [simp]: "pj_pair (n, e) = (n, pj e)" "fst (pj_pair x) = fst x" "snd (pj_pair x) = pj (snd x)"
  by (simp_all add: pj_pair_def)

lemma dget_project: "dget (map (\<lambda>k. (k, f k)) ks) k = (if k \<in> set ks then Some (f k) else None)"
  by (induction ks) auto

lemma project_get:
  "k \<in> set AUDIT_EVENT_FIELDS \<Longrightarrow> jget (pj e) k = jget e k"
  "k \<in> set AUDIT_EVENT_FIELDS \<Longrightarrow> has_key e k \<Longrightarrow> jindex (pj e) k = jindex e k"
  by (auto simp: jget_def has_key_def jindex_def project_audit_event_def dget_project)

lemmas project_simps [simp] = project_get [of "''event_id''"] project_get [of "''event_type''"]
  project_get [of "''decision_event_id''"] project_get [of "''decision''"] project_get [of "''action_id''"]
  project_get [of "''action_name''"] project_get [of "''contract_hash''"] project_get [of "''input_hash''"]
  project_get [of "''risk''"] project_get [of "''approval_mode''"] project_get [of "''timestamp_utc''"]
  project_get [of "''dry_run''"] project_get [of "''idempotency_key''"] project_get [of "''status''"]
  project_get [of "''resolution''"]

lemma jindex_has [simp]: "has_key e k \<Longrightarrow> jindex e k = Inr (jget e k)"
  by simp

text \<open>The events the verifier lets through have every field the audit subscripts.\<close>

definition audit_ready :: "event \<Rightarrow> bool" where
  "audit_ready e \<longleftrightarrow>
     has_key e ''event_id'' \<and> has_key e ''event_type''
     \<and> (etype ''outcome'' e \<or> etype ''resolution'' e \<longrightarrow> has_key e ''decision_event_id'')
     \<and> (etype ''outcome'' e \<or> etype ''decision'' e \<longrightarrow>
          (\<forall>k \<in> {''action_id'', ''action_name'', ''contract_hash'', ''timestamp_utc''}. has_key e k))
     \<and> (etype ''decision'' e \<longrightarrow> (\<forall>k \<in> {''decision'', ''risk'', ''approval_mode'', ''input_hash''}. has_key e k))"

lemma missing_has_key: "missing_fields ks e = [] \<Longrightarrow> k \<in> set ks \<Longrightarrow> has_key e k"
  by (auto simp: missing_fields_def filter_empty_conv)

lemma event_codes_ready:
  assumes "event_codes P e prev trusted known = Inr []"
  shows "audit_ready e"
proof -
  from event_codes_integrity [OF assms] obtain ty where ty: "jget e ''event_type'' = JStr ty" "ty \<in> set KNOWN_EVENT_TYPES"
    and m: "missing_fields (required_fields ty @ [''previous_event_hash'']) e = []" by blast
  have "has_key e k" if "k \<in> set (required_fields ty)" for k
    using missing_has_key [OF m] that by simp
  then show ?thesis
    using ty unfolding audit_ready_def etype_def
    by (auto simp: required_fields_def SHARED_REQUIRED_FIELDS_def DECISION_REQUIRED_FIELDS_def
        OUTCOME_REQUIRED_FIELDS_def LINKED_REQUIRED_FIELDS_def CHECKPOINT_REQUIRED_FIELDS_def
        RESOLUTION_REQUIRED_FIELDS_def COUNTERSIGNATURE_REQUIRED_FIELDS_def ARCHIVE_REQUIRED_FIELDS_def
        ROTATION_REQUIRED_FIELDS_def KNOWN_EVENT_TYPES_def split: if_splits)
qed

section \<open>Collecting commutes with the projection\<close>

lemma map_dset_pair: "map (\<lambda>(k, x). (k, g x)) (dset k v d) = dset k (g v) (map (\<lambda>(k, x). (k, g x)) d)"
  by (induction d) auto

lemma pj_decisions_get [simp]: "dget (pj_decisions d) k = map_option pj_pair (dget d k)"
  by (simp add: pj_decisions_def dget_map_snd)

lemma pj_links_get [simp]: "dget_default (pj_links d) k [] = map pj_pair (dget_default d k [])"
  by (simp add: pj_links_def dget_default_def dget_map_snd split: option.split)

lemma pj_dset [simp]: "pj_decisions (dset k x d) = dset k (pj_pair x) (pj_decisions d)"
  unfolding pj_decisions_def by (rule map_dset_pair)

lemma pj_link [simp]: "pj_links (link k x d) = link k (pj_pair x) (pj_links d)"
proof -
  have "pj_links (dset k xs d) = dset k (map pj_pair xs) (pj_links d)" for xs
    unfolding pj_links_def by (rule map_dset_pair)
  then show ?thesis by (simp add: link_def)
qed

lemma collect_step_project:
  assumes "audit_ready e"
  shows "audit_collect_step P n (pj e) (pj_state s) = map_sum id pj_state (audit_collect_step P n e s)"
proof -
  consider "jget e ''event_type'' = JStr ''decision''" | "jget e ''event_type'' = JStr ''outcome''"
    | "jget e ''event_type'' = JStr ''resolution''"
    | "jget e ''event_type'' \<notin> {JStr ''decision'', JStr ''outcome'', JStr ''resolution''}" by blast
  then show ?thesis
    using assms
    by cases (simp_all add: audit_collect_step_def Let_def pj_state_def audit_ready_def etype_def AUDIT_EVENT_FIELDS_def)
qed

lemma map_sum_bindR: "map_sum id h (bindR m f) = bindR m (\<lambda>x. map_sum id h (f x))"
  by (cases m) simp_all

lemma collect_project:
  "\<forall>e \<in> set es. audit_ready e \<Longrightarrow>
   audit_collect P n (map pj es) (pj_state s) = map_sum id pj_state (audit_collect P n es s)"
proof (induction es arbitrary: n s)
  case (Cons e es)
  then show ?case
    by (cases "audit_collect_step P n e s") (simp_all add: collect_step_project map_sum_bindR)
qed simp

text \<open>What the collected events are.\<close>

definition links_ready :: "string \<Rightarrow> linked \<Rightarrow> bool" where
  "links_ready ty d \<longleftrightarrow> (\<forall>(k, xs) \<in> set d. \<forall>(n, e) \<in> set xs. audit_ready e \<and> etype ty e)"

definition state_ready :: "audit_state \<Rightarrow> bool" where
  "state_ready s \<longleftrightarrow>
     (\<forall>(k, n, e) \<in> set (as_decisions s). audit_ready e \<and> etype ''decision'' e)
     \<and> links_ready ''outcome'' (as_outcomes s) \<and> links_ready ''resolution'' (as_resolutions s)"

lemma links_ready_link:
  assumes "links_ready ty d" and "audit_ready e" and "etype ty e"
  shows "links_ready ty (link k (n, e) d)"
proof -
  have old: "\<forall>(m, x) \<in> set (dget_default d k []). audit_ready x \<and> etype ty x"
    using assms(1) by (cases "dget d k") (fastforce simp: links_ready_def dget_default_def dest: map_of_SomeD)+
  show ?thesis
    using assms old unfolding links_ready_def link_def by (fastforce dest: dset_values)
qed

lemma collect_ready:
  "audit_collect P n es s = Inr s' \<Longrightarrow> \<forall>e \<in> set es. audit_ready e \<Longrightarrow> state_ready s \<Longrightarrow> state_ready s'"
proof (induction es arbitrary: n s)
  case (Cons e es)
  from Cons.prems(1) obtain s1 where s1: "audit_collect_step P n e s = Inr s1" and r: "audit_collect P (Suc n) es s1 = Inr s'"
    by (auto simp: bindR_Inr_iff)
  have "state_ready s1"
    using collect_step [OF s1] Cons.prems(2,3) by (auto simp: state_ready_def intro: links_ready_link)
  from Cons.IH [OF r _ this] Cons.prems(2) show ?case by simp
qed simp

section \<open>The checks see the same\<close>

lemma mapR_map: "mapR f (map g xs) = mapR (\<lambda>x. f (g x)) xs"
  by (induction xs) auto

lemma resolution_issues_project:
  assumes "\<forall>(n, e) \<in> set linked. audit_ready e \<and> etype ''resolution'' e"
  shows "resolution_issues P (pj_decisions ds) (i, map pj_pair linked) = resolution_issues P ds (i, linked)"
proof -
  have one: "(\<lambda>(_, r). bindR (jindex r ''event_id'') (\<lambda>v. Inr (c, py_str P v))) (pj_pair x)
      = (\<lambda>(_, r). bindR (jindex r ''event_id'') (\<lambda>v. Inr (c, py_str P v))) x" if "x \<in> set linked" for x c
    using assms that by (cases x) (auto simp: audit_ready_def AUDIT_EVENT_FIELDS_def)
  have same: "mapR (\<lambda>(_, r). bindR (jindex r ''event_id'') (\<lambda>v. Inr (c, py_str P v))) (map pj_pair xs)
      = mapR (\<lambda>(_, r). bindR (jindex r ''event_id'') (\<lambda>v. Inr (c, py_str P v))) xs" if "set xs \<subseteq> set linked" for xs c
    unfolding mapR_map by (rule mapR_cong [OF refl one]) (use that in blast)
  have filt: "filter (\<lambda>(n, _). n \<le> p) (map pj_pair linked) = map pj_pair (filter (\<lambda>(n, _). n \<le> p) linked)" for p
    by (induction linked) auto
  have res: "map (\<lambda>(_, r). py_str P (jget r ''resolution'')) (map pj_pair linked)
      = map (\<lambda>(_, r). py_str P (jget r ''resolution'')) linked"
    by (auto simp: AUDIT_EVENT_FIELDS_def)
  show ?thesis
    unfolding resolution_issues_def prod.case pj_decisions_get
    by (cases "dget ds i") (auto simp only: option.map option.case prod.case pj_pair_simps same filt res
        order.refl filter_is_subset split: prod.split)
qed

lemma outcome_issues_project:
  assumes l: "\<forall>(n, e) \<in> set linked. audit_ready e \<and> etype ''outcome'' e"
    and d: "\<forall>(k, n, e) \<in> set ds. audit_ready e \<and> etype ''decision'' e"
  shows "outcome_issues P (pj_decisions ds) (i, map pj_pair linked) = outcome_issues P ds (i, linked)"
proof (cases "dget ds i")
  case None
  have "mapR (\<lambda>(_, oc). bindR (jindex oc ''event_id'') (\<lambda>v. Inr (''orphan_outcome'', py_str P v))) (map pj_pair linked)
      = mapR (\<lambda>(_, oc). bindR (jindex oc ''event_id'') (\<lambda>v. Inr (''orphan_outcome'', py_str P v))) linked"
    unfolding mapR_map by (rule mapR_cong [OF refl]) (use l in \<open>auto simp: audit_ready_def AUDIT_EVENT_FIELDS_def\<close>)
  with None show ?thesis by (simp add: outcome_issues_def)
next
  case (Some x)
  obtain pos e where x: "x = (pos, e)" by (cases x)
  have e: "audit_ready e" "etype ''decision'' e" using d Some x by (auto dest: map_of_SomeD)
  have "outcome_checks P pos (pj e) (pj_pair y) = outcome_checks P pos e y" if "y \<in> set linked" for y
    using l that e
    by (cases y) (auto simp: outcome_checks_def audit_ready_def identity_fields_def AUDIT_EVENT_FIELDS_def Let_def)
  then have "mapR (outcome_checks P pos (pj e)) (map pj_pair linked) = mapR (outcome_checks P pos e) linked"
    unfolding mapR_map by (intro mapR_cong [OF refl]) auto
  with Some x show ?thesis by (simp add: outcome_issues_def)
qed

lemma status_project:
  "invocation_status_of P (pj d) (map pj_pair outs) (map pj_pair rs) = invocation_status_of P d outs rs"
proof -
  have last: "rs \<noteq> [] \<Longrightarrow> jget (snd (last (map pj_pair rs))) ''resolution'' = jget (snd (last rs)) ''resolution''"
    by (simp add: last_map AUDIT_EVENT_FIELDS_def)
  consider "outs = []" | n e where "outs = [(n, e)]" | x y zs where "outs = x # y # zs"
    by (metis neq_Nil_conv surj_pair)
  then show ?thesis
    by cases (cases "rs = []"; simp add: invocation_status_of_def Let_def last AUDIT_EVENT_FIELDS_def split: prod.split)+
qed

lemma audit_decision_project:
  assumes d: "audit_ready d" "etype ''decision'' d"
    and o: "links_ready ''outcome'' oc"
  shows "audit_decision P (pj_links oc) (pj_links rs) (i, n, pj d) seen = audit_decision P oc rs (i, n, d) seen"
proof -
  let ?l = "dget_default oc i []"
  have keys: "has_key d ''action_name''" "has_key d ''action_id''" "has_key d ''contract_hash''" "has_key d ''input_hash''"
    "has_key d ''risk''" "has_key d ''approval_mode''" "has_key d ''timestamp_utc''"
    using d by (simp_all add: audit_ready_def)
  have out: "has_key e ''event_id'' \<and> has_key e ''timestamp_utc''" if "?l = [(m, e)]" for m e
  proof -
    have "(i, [(m, e)]) \<in> set oc"
      using that by (cases "dget oc i") (auto simp: dget_default_def dest: map_of_SomeD)
    with o show ?thesis by (auto simp: links_ready_def audit_ready_def)
  qed
  note same_status = status_project [of P d _ "dget_default rs i []"]
  consider "?l = []" | m e where "?l = [(m, e)]" | x y zs where "?l = x # y # zs"
    by (metis neq_Nil_conv surj_pair)
  then show ?thesis
  proof cases
    case 1
    then show ?thesis
      unfolding audit_decision_def prod.case pj_links_get status_project
      by (simp add: keys AUDIT_EVENT_FIELDS_def Let_def same_status [of "[]", simplified] same_status
          cong: if_cong prod.case_cong option.case_cong invocation_status.case_cong json.case_cong)
  next
    case (2 m e)
    from out [OF 2] 2 show ?thesis
      unfolding audit_decision_def prod.case pj_links_get status_project
      by (simp add: keys AUDIT_EVENT_FIELDS_def Let_def same_status [of "[(m, e)]", simplified]
          cong: if_cong prod.case_cong option.case_cong invocation_status.case_cong json.case_cong)
  next
    case (3 x y zs)
    then show ?thesis
      unfolding audit_decision_def prod.case pj_links_get status_project
      by (simp add: keys AUDIT_EVENT_FIELDS_def Let_def same_status [of "x # y # zs", simplified] same_status
          cong: if_cong prod.case_cong option.case_cong invocation_status.case_cong json.case_cong)
  qed
qed

lemma audit_decisions_project:
  "\<forall>(k, n, e) \<in> set ds. audit_ready e \<and> etype ''decision'' e \<Longrightarrow> links_ready ''outcome'' oc \<Longrightarrow>
   audit_decisions P (pj_links oc) (pj_links rs) (pj_decisions ds) seen = audit_decisions P oc rs ds seen"
proof (induction ds arbitrary: seen)
  case (Cons x ds)
  obtain i n d where x: "x = (i, n, d)" by (cases x) auto
  have "audit_decision P (pj_links oc) (pj_links rs) (i, n, pj d) seen = audit_decision P oc rs (i, n, d) seen"
    using Cons.prems x by (intro audit_decision_project) auto
  moreover have "audit_decisions P (pj_links oc) (pj_links rs) (pj_decisions ds) s = audit_decisions P oc rs ds s" for s
    using Cons.IH Cons.prems by auto
  moreover have "pj_decisions (x # ds) = (i, n, pj d) # pj_decisions ds" by (simp add: x pj_decisions_def)
  ultimately show ?case by (simp add: x)
qed (simp add: pj_decisions_def)

lemma audit_events_project:
  assumes ready: "\<forall>e \<in> set es. audit_ready e"
  shows "audit_events P (map pj es) = audit_events P es"
proof -
  have "pj_state audit_start = audit_start" by (simp add: pj_state_def audit_start_def pj_decisions_def pj_links_def)
  then have c: "audit_collect P 0 (map pj es) audit_start = map_sum id pj_state (audit_collect P 0 es audit_start)"
    using collect_project [OF ready, of P 0 audit_start] by simp
  show ?thesis
  proof (cases "audit_collect P 0 es audit_start")
    case (Inl x)
    with c show ?thesis by (simp add: audit_events_def)
  next
    case (Inr s)
    have "state_ready audit_start" by (simp add: state_ready_def links_ready_def audit_start_def)
    then have r: "state_ready s" using collect_ready [OF Inr ready] by blast
    have ri: "mapR (resolution_issues P (pj_decisions (as_decisions s))) (pj_links (as_resolutions s))
        = mapR (resolution_issues P (as_decisions s)) (as_resolutions s)"
      unfolding pj_links_def mapR_map using r
      by (intro mapR_cong [OF refl])
        (auto simp: state_ready_def links_ready_def intro!: resolution_issues_project split: prod.split)
    have oi: "mapR (outcome_issues P (pj_decisions (as_decisions s))) (pj_links (as_outcomes s))
        = mapR (outcome_issues P (as_decisions s)) (as_outcomes s)"
      unfolding pj_links_def mapR_map using r
      by (intro mapR_cong [OF refl])
        (auto simp: state_ready_def links_ready_def intro!: outcome_issues_project split: prod.split)
    have di: "audit_decisions P (pj_links (as_outcomes s)) (pj_links (as_resolutions s)) (pj_decisions (as_decisions s)) []
        = audit_decisions P (as_outcomes s) (as_resolutions s) (as_decisions s) []"
      using r by (intro audit_decisions_project) (auto simp: state_ready_def)
    show ?thesis
      unfolding audit_events_def c Inr by (simp add: pj_state_def ri oi di)
  qed
qed

section \<open>The verifier does not see the projection\<close>

abbreviation retained :: "(event \<Rightarrow> event) \<Rightarrow> vstate \<Rightarrow> vstate" where
  "retained g s \<equiv> s\<lparr>v_events := map g (v_events s)\<rparr>"

lemma verify_step_retained:
  "verify_step P trusted g wid e (retained g s) = map_sum id (retained g) (verify_step P trusted (\<lambda>e. e) wid e s)"
  by (cases "event_codes P e (v_previous s) trusted (v_checkpoints s)")
    (simp_all add: verify_step_def Let_def cong: if_cong option.case_cong bool.case_cong)

lemma verify_lines_retained:
  "verify_lines P trusted g wid lines (retained g s) = map_sum id (retained g) (verify_lines P trusted (\<lambda>e. e) wid lines s)"
proof (induction lines arbitrary: s)
  case (Cons raw lines)
  let ?s = "s\<lparr>v_line := Suc (v_line s)\<rparr>"
  have r: "(retained g s)\<lparr>v_line := Suc (v_line (retained g s))\<rparr> = retained g ?s" by simp
  show ?case
  proof (cases "bstrip raw = []")
    case True
    then show ?thesis using Cons.IH [of ?s] unfolding verify_lines.simps Let_def r by simp
  next
    case False
    show ?thesis
    proof (cases "\<exists>e. json_loads P (bstrip raw) = Some (JObj e)")
      case True
      then obtain e where e: "json_loads P (bstrip raw) = Some (JObj e)" by blast
      show ?thesis
        using False Cons.IH verify_step_retained [of P trusted g wid e ?s]
        unfolding verify_lines.simps Let_def r e
        by (cases "verify_step P trusted (\<lambda>e. e) wid e ?s") simp_all
    next
      case no: False
      then show ?thesis
        using False unfolding verify_lines.simps Let_def r by (simp split: option.split json.split)
    qed
  qed
qed simp

lemma snapshot_retained:
  "load_journal_snapshot P file keys g = map_sum id (map_prod id (map g)) (load_journal_snapshot P file keys (\<lambda>e. e))"
proof (cases "file")
  case None
  then show ?thesis by (simp add: load_journal_snapshot_def read_and_verify_def)
next
  case (Some f)
  have "retained g (vstart []) = vstart []" by (simp add: vstart_def)
  with verify_lines_retained [of P "to_keyring P keys" g None "py_lines f" "vstart []"]
  have "verify_lines P (to_keyring P keys) g None (py_lines f) (vstart [])
      = map_sum id (retained g) (verify_lines P (to_keyring P keys) (\<lambda>e. e) None (py_lines f) (vstart []))" by simp
  then show ?thesis
    using Some by (cases "verify_lines P (to_keyring P keys) (\<lambda>e. e) None (py_lines f) (vstart [])")
      (simp_all add: load_journal_snapshot_def read_and_verify_def map_sum_bindR Let_def)
qed

text \<open>
  C22: The streaming audit, which drops every field the audit does not read while it verifies,
  returns exactly what the full audit returns for every journal, key set and limit: the same
  report, the same refusal, the same exception.
\<close>

theorem streaming_audit_same:
  "audit_journal_streaming P file keys max_events = audit_journal P file keys max_events"
proof -
  have "audit_verified_snapshot P (map_prod id (map pj) snap) = audit_verified_snapshot P snap"
    if l: "load_journal_snapshot P file keys (\<lambda>e. e) = Inr snap" for snap
  proof (cases "r_valid (fst snap)")
    case True
    obtain r es where snap: "snap = (r, es)" by (cases snap)
    have "file \<noteq> None"
      using l True snap by (cases "file") (auto simp: load_journal_snapshot_def read_and_verify_def)
    then obtain f where f: "file = Some f" by blast
    from read_and_verify_valid [of P f "to_keyring P keys" None r es] l True snap f
    have "journal_valid P (to_keyring P keys) f es" by (auto simp: load_journal_snapshot_def)
    then have "audit_ready e" if "e \<in> set es" for e
      using valid_from_sound [OF _ that] event_codes_ready by (metis journal_valid_def)
    with snap show ?thesis by (simp add: audit_verified_snapshot_def audit_events_project)
  next
    case False
    then show ?thesis by (simp add: audit_verified_snapshot_def)
  qed
  then show ?thesis
    unfolding audit_journal_streaming_def audit_journal_def snapshot_retained [of P "file" keys pj]
    by (cases "load_journal_snapshot P file keys (\<lambda>e. e)") (simp_all add: bindR_def split: sum.split)
qed

end
