(* ===== verification/Archive.thy ===== *)
theory Archive
  imports Records Glob JsonSpace
begin

text \<open>
  Journal rotation (\<open>archive.py\<close>). A directory maps names to files; the live journal and its
  archives are siblings in it. What the system and other processes may do to a rotation is a
  parameter of it: the failing calls, and for each step what other processes wrote before it.
\<close>

section \<open>Following the links\<close>

type_synonym chain_issue = "string \<times> string" \<comment> \<open>file, code\<close>

record chain_report =
  cr_files :: "string list"
  cr_issues :: "chain_issue list"

definition chain_valid :: "chain_report \<Rightarrow> bool" where
  "chain_valid r \<longleftrightarrow> cr_issues r = []"

definition readable :: "dir_entry \<Rightarrow> bytes option" where
  "readable e = (if de_regular e then Some (de_content e) else None)"

text \<open>The first non-blank line: None if it does not parse, \<open>Some None\<close> if it is no object.\<close>

definition first_line_event :: "platform \<Rightarrow> bytes \<Rightarrow> event option option" where
  "first_line_event P f =
     (case find (\<lambda>raw. bstrip raw \<noteq> []) (py_lines f) of
        None \<Rightarrow> Some None
      | Some raw \<Rightarrow>
          (case json_loads P raw of
             None \<Rightarrow> None
           | Some (JObj e) \<Rightarrow> Some (Some e)
           | Some _ \<Rightarrow> Some None))"

text \<open>The count and the head that a predecessor really has.\<close>

definition head_step :: "platform \<Rightarrow> bytes \<Rightarrow> string option \<Rightarrow> string option" where
  "head_step P raw head =
     (if bstrip raw = [] then head
      else case json_loads P raw of
        Some (JObj e) \<Rightarrow> (case jget e ''event_hash'' of JStr h \<Rightarrow> Some h | _ \<Rightarrow> head)
      | _ \<Rightarrow> head)"

definition file_head :: "platform \<Rightarrow> bytes \<Rightarrow> string option" where
  "file_head P f = fold (head_step P) (py_lines f) None"

text \<open>What follows a verified file: the end of the chain, an issue, or its predecessor.\<close>

datatype chain_next = Genesis | Broken chain_issue | Predecessor string

definition archive_link :: "platform \<Rightarrow> int \<Rightarrow> directory \<Rightarrow> nat \<Rightarrow> string \<Rightarrow> bytes \<Rightarrow> chain_next" where
  "archive_link P max_links d links current content =
     (case first_line_event P content of
        None \<Rightarrow> Broken (current, ''archive_unreadable'')
      | Some None \<Rightarrow> Genesis
      | Some (Some e) \<Rightarrow>
          if jget e ''event_type'' \<noteq> JStr ''archive'' then Genesis
          else if max_links \<le> int links then Broken (current, ''archive_too_deep'')
          else case jget e ''archived_path'' of
            JStr name \<Rightarrow>
              (if \<not> bare_file_name name then Broken (current, ''archive_bad_link'')
               else case (if name = [] then Some None else map_option readable (dget d name)) of
                 None \<Rightarrow> Broken (name, ''archive_missing'')
               | Some None \<Rightarrow> Broken (name, ''archive_unreadable'')
               | Some (Some f) \<Rightarrow>
                   if int_of (jget e ''prior_count'') \<noteq> Some (int (count_event_lines f))
                     then Broken (current, ''archive_count_mismatch'')
                   else if jget e ''prior_head'' \<noteq> opt_str (file_head P f)
                     then Broken (current, ''archive_head_mismatch'')
                   else Predecessor name)
          | _ \<Rightarrow> Broken (current, ''archive_bad_link''))"

text \<open>The loop, which a priori need not end; None is that it does not.\<close>

partial_function (option) chain_loop ::
  "platform \<Rightarrow> bytes list \<Rightarrow> int \<Rightarrow> directory \<Rightarrow> string \<Rightarrow> string list \<Rightarrow> string list \<Rightarrow> nat
     \<Rightarrow> (exn + chain_report) option" where
  "chain_loop P keys max_links d current seen files links =
     (if current \<in> set seen
      then Some (Inr \<lparr>cr_files = files, cr_issues = [(current, ''archive_cycle'')]\<rparr>)
      else case dget d current of
        None \<Rightarrow> Some (Inr \<lparr>cr_files = files, cr_issues = [(current, ''archive_missing'')]\<rparr>)
      | Some entry \<Rightarrow>
          (case verify_journal P (readable entry) keys None of
             Inl x \<Rightarrow> Some (Inl x)
           | Inr r \<Rightarrow>
               if \<not> r_valid r
               then Some (Inr \<lparr>cr_files = files @ [current], cr_issues = [(current, ''archive_invalid'')]\<rparr>)
               else case archive_link P max_links d links current (de_content entry) of
                 Genesis \<Rightarrow> Some (Inr \<lparr>cr_files = files @ [current], cr_issues = []\<rparr>)
               | Broken i \<Rightarrow> Some (Inr \<lparr>cr_files = files @ [current], cr_issues = [i]\<rparr>)
               | Predecessor name \<Rightarrow>
                   chain_loop P keys max_links d name (seen @ [current]) (files @ [current]) (Suc links)))"

definition verify_archive_chain ::
  "platform \<Rightarrow> bytes list \<Rightarrow> int \<Rightarrow> directory \<Rightarrow> string \<Rightarrow> (exn + chain_report) option" where
  "verify_archive_chain P keys max_links d live = chain_loop P keys max_links d live [] [] 0"

section \<open>The files of a rotation\<close>

text \<open>\<open>Path.stem\<close> of a bare name.\<close>

definition path_stem :: "string \<Rightarrow> string" where
  "path_stem name =
     (let ext = takeWhile (\<lambda>c. c \<noteq> CHR ''.'') (rev name); i = length name - Suc (length ext) in
      if CHR ''.'' \<in> set name \<and> 0 < i \<and> ext \<noteq> [] then take i name else name)"

definition archive_name :: "string \<Rightarrow> string \<Rightarrow> nat \<Rightarrow> string" where
  "archive_name live stamp index =
     (if index = 0 then path_stem live @ ''-'' @ stamp @ ''.jsonl''
      else path_stem live @ ''-'' @ stamp @ ''-'' @ dec_nat index @ ''.jsonl'')"

definition contents :: "directory \<Rightarrow> string \<Rightarrow> bytes" where
  "contents d name = (case dget d name of Some e \<Rightarrow> de_content e | None \<Rightarrow> [])"

text \<open>Opening for append creates the file; writing sets its time.\<close>

definition touch :: "string \<Rightarrow> nat \<Rightarrow> bytes \<Rightarrow> directory \<Rightarrow> directory" where
  "touch name now f d =
     (case dget d name of
        Some e \<Rightarrow> if de_content e = f then d else dset name (e\<lparr>de_content := f, de_mtime := now\<rparr>) d
      | None \<Rightarrow> dset name \<lparr>de_content = f, de_mtime = now, de_regular = True\<rparr> d)"

definition open_fault :: "directory \<Rightarrow> string \<Rightarrow> fault \<Rightarrow> fault" where
  "open_fault d name fault =
     (case dget d name of Some e \<Rightarrow> if de_regular e then fault else OpenFails | None \<Rightarrow> fault)"

definition stats_at ::
  "platform \<Rightarrow> fault \<Rightarrow> nat \<Rightarrow> string \<Rightarrow> directory \<Rightarrow> (exn + nat \<times> string option) \<times> directory" where
  "stats_at P fault now name d =
     (let fault = open_fault d name fault in
      (archive_stats P fault (contents d name),
       if fault = OpenFails then d else touch name now (contents d name) d))"

text \<open>\<open>O_CREAT | O_EXCL\<close> on the first free name; with more tries than files one is free.\<close>

definition claim_archive_path :: "string \<Rightarrow> string \<Rightarrow> nat \<Rightarrow> directory \<Rightarrow> string \<times> directory" where
  "claim_archive_path live stamp now d =
     (let index = (case find (\<lambda>i. dget d (archive_name live stamp i) = None) [0..<Suc (length d)] of
                     Some i \<Rightarrow> i | None \<Rightarrow> Suc (length d));
          name = archive_name live stamp index
      in (name, dset name \<lparr>de_content = [], de_mtime = now, de_regular = True\<rparr> d))"

definition replace_file :: "string \<Rightarrow> string \<Rightarrow> directory \<Rightarrow> directory option" where
  "replace_file source target d =
     map_option (\<lambda>e. dset target e (ddel source d)) (dget d source)"

definition rollback_archive :: "bool \<Rightarrow> string \<Rightarrow> string \<Rightarrow> directory \<Rightarrow> bool \<times> directory" where
  "rollback_archive fails archived live d =
     (if dget d live \<noteq> None then (False, d)
      else if fails then (False, d)
      else case replace_file archived live d of None \<Rightarrow> (False, d) | Some d' \<Rightarrow> (True, d'))"

definition is_archive :: "string \<Rightarrow> string \<Rightarrow> bool" where
  "is_archive live name \<longleftrightarrow> fnmatchcase name (path_stem live @ ''-*.jsonl'')"

definition archive_order :: "string \<Rightarrow> directory \<Rightarrow> string list" where
  "archive_order live d =
     map fst (sort_key (\<lambda>(name, e). de_mtime e)
       (sort_key fst (filter (\<lambda>(name, e). is_archive live name) d)))"

definition prune_archives :: "string \<Rightarrow> nat \<Rightarrow> string list \<Rightarrow> directory \<Rightarrow> string list \<times> directory" where
  "prune_archives live keep undeletable d =
     (let archives = archive_order live d;
          doomed = take (length archives - keep) archives;
          pruned = filter (\<lambda>name. name \<notin> set undeletable
            \<and> (case dget d name of Some e \<Rightarrow> de_regular e | None \<Rightarrow> False)) doomed
      in (pruned, fold ddel pruned d))"

section \<open>Rotating\<close>

record rotation =
  ro_now :: nat
  ro_stamp :: string
  ro_stats_fault :: fault
  ro_claim_fails :: bool
  ro_replace_fails :: bool
  ro_settled_fault :: fault
  ro_rollback_fails :: bool
  ro_append_fault :: fault
  ro_undeletable :: "string list"
  ro_others :: "nat \<Rightarrow> directory \<Rightarrow> directory" \<comment> \<open>other processes before step i\<close>

record archive_report =
  ac_archived_path :: string
  ac_event :: event
  ac_prior_count :: nat
  ac_prior_head :: "string option"
  ac_pruned :: "string list"

definition as_archive_error :: "exn \<Rightarrow> exn" where
  "as_archive_error x = (if x = JournalError then ArchiveError else x)"

text \<open>Up to the settled statistics: the live file has become the archive, or is back.\<close>

definition move_live ::
  "platform \<Rightarrow> rotation \<Rightarrow> string \<Rightarrow> directory \<Rightarrow> (exn + string \<times> nat \<times> string option) \<times> directory" where
  "move_live P ro live d =
     (case stats_at P (ro_stats_fault ro) (ro_now ro) live (ro_others ro 0 d) of
        (Inl x, d) \<Rightarrow> (Inl (as_archive_error x), d)
      | (Inr (cnt, head), d) \<Rightarrow>
          if cnt = 0 then (Inl ArchiveError, d)
          else if ro_claim_fails ro then (Inl ArchiveError, ro_others ro 1 d)
          else (let (archived, d) = claim_archive_path live (ro_stamp ro) (ro_now ro) (ro_others ro 1 d);
                    d = ro_others ro 2 d
                in case (if ro_replace_fails ro then None else replace_file live archived d) of
                     None \<Rightarrow> (Inl ArchiveError, d)
                   | Some d \<Rightarrow>
                       (case stats_at P (ro_settled_fault ro) (ro_now ro) archived (ro_others ro 3 d) of
                          (Inl x, d) \<Rightarrow>
                            (if x = JournalError
                             then (Inl ArchiveError, snd (rollback_archive (ro_rollback_fails ro) archived live (ro_others ro 4 d)))
                             else (Inl x, d))
                        | (Inr settled, d) \<Rightarrow>
                            if settled \<noteq> (cnt, head)
                            then (Inl ArchiveError, snd (rollback_archive (ro_rollback_fails ro) archived live (ro_others ro 4 d)))
                            else (Inr (archived, cnt, head), d))))"

definition archive_payload :: "platform \<Rightarrow> signer \<Rightarrow> nat \<Rightarrow> nat \<Rightarrow> string option \<Rightarrow> string \<Rightarrow> event" where
  "archive_payload P sg n cnt head archived =
     [(''schema_version'', JStr EVENT_SCHEMA_VERSION),
      (''event_type'', JStr ''archive''),
      (''event_id'', JStr (uuid4 P n)),
      (''timestamp_utc'', JStr (utc_now P n)),
      (''key_id'', JStr (s_key_id sg)),
      (''previous_event_hash'', JNull),
      (''prior_count'', JInt (int cnt)),
      (''prior_head'', opt_str head),
      (''archived_path'', JStr archived)]"

definition archive_event ::
  "platform \<Rightarrow> signer \<Rightarrow> nat \<Rightarrow> nat \<Rightarrow> string option \<Rightarrow> string \<Rightarrow> string option \<Rightarrow> exn + event" where
  "archive_event P sg n cnt head archived previous_hash =
     (if previous_hash \<noteq> None then Inl ArchiveError
      else finalize_event P (archive_payload P sg n cnt head archived) (s_sign sg))"

text \<open>\<open>signer\<close> is the identity given, or what loading the local one gave.\<close>

definition archive_journal ::
  "platform \<Rightarrow> rotation \<Rightarrow> string \<Rightarrow> int option \<Rightarrow> exn + signer \<Rightarrow> nat \<Rightarrow> directory \<Rightarrow> idem_cache
     \<Rightarrow> (exn + archive_report) \<times> directory \<times> idem_cache" where
  "archive_journal P ro live keep signer n d c =
     (if (case keep of Some k \<Rightarrow> k < 1 | None \<Rightarrow> False) then (Inl ArchiveError, d, c)
      else case move_live P ro live d of
        (Inl x, d) \<Rightarrow> (Inl x, d, c)
      | (Inr (archived, cnt, head), d) \<Rightarrow>
          (case signer of
             Inl x \<Rightarrow> (Inl x, d, c)
           | Inr sg \<Rightarrow>
               (let d = ro_others ro 5 d;
                    fault = open_fault d live (ro_append_fault ro);
                    (r, f, c) = append_event P live fault (archive_event P sg n cnt head archived) (contents d live) c;
                    d = (if fault = OpenFails then d else touch live (ro_now ro) f d)
                in case r of
                     Inl x \<Rightarrow> (Inl (if is_exception x then ArchiveError else x), d, c)
                   | Inr e \<Rightarrow>
                       (let (pruned, d) = (case keep of None \<Rightarrow> ([], d)
                                           | Some k \<Rightarrow> prune_archives live (nat k) (ro_undeletable ro) (ro_others ro 6 d))
                        in (Inr \<lparr>ac_archived_path = archived, ac_event = e, ac_prior_count = cnt,
                                 ac_prior_head = head, ac_pruned = pruned\<rparr>, d, c)))))"

end
