(* ===== verification/ArchiveProps.thy ===== *)
theory ArchiveProps
  imports Archive RecordProps
begin

text \<open>
  What archive verification shows and what rotation keeps. The verifier returns on every directory
  and accepts exactly the chains of custody; two accepted chains from the same live file hold the
  same events; a rotation loses no file, and a quiet one extends the chain.
\<close>

section \<open>The loop ends\<close>

lemma fresh_names_shrink:
  assumes "dget d current = Some e" and "current \<notin> set seen"
  shows "card (set (map fst d) - set (seen @ [current])) < card (set (map fst d) - set seen)"
proof (rule psubset_card_mono)
  have "current \<in> set (map fst d)" using dget_mem [OF assms(1)] by force
  then show "set (map fst d) - set (seen @ [current]) \<subset> set (map fst d) - set seen"
    using assms(2) by auto
qed simp

lemma archive_link_follows:
  "archive_link P max_links d links current f = Predecessor name \<Longrightarrow>
   int links < max_links \<and> dget d name \<noteq> None"
  by (auto simp: archive_link_def Let_def split: option.splits json.splits if_splits)

definition walked :: "directory \<Rightarrow> int \<Rightarrow> string list \<Rightarrow> bool" where
  "walked d max_links files \<longleftrightarrow>
     distinct files \<and> set files \<subseteq> set (map fst d) \<and> (length files \<le> 1 \<or> int (length files) \<le> max_links + 1)"

lemma chain_loop_ends:
  "distinct seen \<Longrightarrow> set seen \<subseteq> set (map fst d) \<Longrightarrow> seen = [] \<or> int (length seen) \<le> max_links \<Longrightarrow>
   \<exists>r. chain_loop P keys max_links d current seen seen (length seen) = Some r
     \<and> (case r of Inl _ \<Rightarrow> True | Inr rep \<Rightarrow> walked d max_links (cr_files rep))"
proof (induction "card (set (map fst d) - set seen)" arbitrary: current seen rule: less_induct)
  case less
  have one: "walked d max_links seen" using less.prems by (auto simp: walked_def)
  show ?case
  proof (cases "current \<in> set seen")
    case True
    then show ?thesis using one by (subst chain_loop.simps) simp
  next
    case new: False
    show ?thesis
    proof (cases "dget d current")
      case None
      then show ?thesis using one new by (subst chain_loop.simps) simp
    next
      case (Some e)
      have mem: "current \<in> set (map fst d)" using dget_mem [OF Some] by force
      with less.prems new have two: "walked d max_links (seen @ [current])" by (auto simp: walked_def)
      show ?thesis
      proof (cases "\<exists>r name. verify_journal P (readable e) keys None = Inr r \<and> r_valid r
          \<and> archive_link P max_links d (length seen) current (de_content e) = Predecessor name")
        case True
        then obtain r name where r: "verify_journal P (readable e) keys None = Inr r" "r_valid r"
          "archive_link P max_links d (length seen) current (de_content e) = Predecessor name" by blast
        from archive_link_follows [OF r(3)] have "int (length (seen @ [current])) \<le> max_links" by simp
        from less.hyps [OF fresh_names_shrink [OF Some new], of name] this less.prems new mem
        show ?thesis using new Some r by (subst chain_loop.simps) simp
      next
        case False
        then show ?thesis
          using new Some two by (subst chain_loop.simps) (auto split: sum.splits chain_next.splits)
      qed
    qed
  qed
qed

text \<open>
  C23: The verifier of archive chains always returns, on every directory, cyclic links included: it
  checks each file at most once and at most \<open>max_links + 1\<close> files.
\<close>

theorem verify_archive_chain_returns:
  "\<exists>r. verify_archive_chain P keys max_links d live = Some r
     \<and> (case r of Inl _ \<Rightarrow> True | Inr rep \<Rightarrow> walked d max_links (cr_files rep))"
  using chain_loop_ends [of "[]" d max_links P keys live] by (simp add: verify_archive_chain_def)

section \<open>What the scans see of a verified file\<close>

definition verified_file :: "platform \<Rightarrow> bytes list \<Rightarrow> bytes \<Rightarrow> event list \<Rightarrow> bool" where
  "verified_file P keys f es \<longleftrightarrow>
     (\<exists>r. verify_journal P (Some f) keys None = Inr r \<and> r_valid r) \<and> parse_lines P (py_lines f) = Some es"

lemma verified_valid: "verified_file P keys f es \<Longrightarrow> journal_valid P (to_keyring P keys) f es"
proof -
  assume v: "verified_file P keys f es"
  then obtain r es' where "read_and_verify P (Some f) (to_keyring P keys) None (\<lambda>e. e) = Inr (r, es')" "r_valid r"
    by (auto simp: verified_file_def verify_journal_def bindR_Inr_iff)
  from read_and_verify_valid [OF this] v show ?thesis by (auto simp: verified_file_def journal_valid_def)
qed

lemma verified_ex:
  assumes "verify_journal P (Some f) keys None = Inr r" and "r_valid r"
  shows "\<exists>es. verified_file P keys f es"
proof -
  from assms obtain es where "read_and_verify P (Some f) (to_keyring P keys) None (\<lambda>e. e) = Inr (r, es)"
    by (auto simp: verify_journal_def bindR_Inr_iff)
  from read_and_verify_valid [OF this assms(2)] assms show ?thesis
    by (auto simp: verified_file_def journal_valid_def)
qed

lemma verified_unique: "verified_file P keys f es \<Longrightarrow> verified_file P keys' f es' \<Longrightarrow> es = es'"
  by (simp add: verified_file_def)

lemma verified_count: "verified_file P keys f es \<Longrightarrow> count_event_lines f = length es"
  using parse_lines_scan [of P "py_lines f" es] by (simp add: verified_file_def count_event_lines_def)

lemma space_only_lines: "json_space_only f \<Longrightarrow> raw \<in> set (py_lines f) \<Longrightarrow> json_space_only raw"
  using concat_py_lines [of f] by (auto simp: json_space_only_def) (metis UN_I set_concat)+

lemma first_line_parsed:
  "parse_lines P ls = Some es \<Longrightarrow> \<forall>raw \<in> set ls. json_space_only raw \<Longrightarrow>
   (case find (\<lambda>raw. bstrip raw \<noteq> []) ls of
      None \<Rightarrow> es = [] | Some raw \<Rightarrow> \<exists>e es'. es = e # es' \<and> json_loads P raw = Some (JObj e))"
proof (induction ls)
  case (Cons raw ls)
  then show ?case
    using json_loads_bstrip [of raw P] by (cases "bstrip raw = []") (auto split: option.splits json.splits)
qed simp

lemma first_line_verified:
  assumes "verified_file P keys f es" and "json_space_only f"
  shows "first_line_event P f = Some (case es of [] \<Rightarrow> None | e # _ \<Rightarrow> Some e)"
  using first_line_parsed [of P "py_lines f" es] assms space_only_lines [OF assms(2)]
  by (auto simp: verified_file_def first_line_event_def split: option.splits)

lemma head_parsed:
  "parse_lines P ls = Some es \<Longrightarrow> \<forall>raw \<in> set ls. json_space_only raw \<Longrightarrow>
   \<forall>e \<in> set es. \<exists>h. jget e ''event_hash'' = JStr h \<Longrightarrow> fold (head_step P) ls head = last_hash head es"
proof (induction ls arbitrary: es head)
  case (Cons raw ls)
  show ?case
  proof (cases "bstrip raw = []")
    case True
    with Cons show ?thesis by (simp add: head_step_def)
  next
    case False
    with Cons.prems(1) obtain e es' where e: "json_loads P (bstrip raw) = Some (JObj e)" "es = e # es'"
      "parse_lines P ls = Some es'" by (auto split: option.splits json.splits)
    from json_loads_bstrip [OF _ e(1) False] Cons.prems(2) have "json_loads P raw = Some (JObj e)" by simp
    moreover from Cons.prems(3) e(2) obtain h where "jget e ''event_hash'' = JStr h" by auto
    ultimately show ?thesis
      using Cons.IH [OF e(3), of "Some h"] Cons.prems False e(2)
      by (simp add: head_step_def last_hash_def event_hash_of_def)
  qed
qed (simp add: last_hash_def)

lemma file_head_verified:
  assumes "verified_file P keys f es" and "json_space_only f"
  shows "file_head P f = last_hash None es"
proof -
  have v: "parse_lines P (py_lines f) = Some es" "valid_from P (to_keyring P keys) None [] es"
    using verified_valid [OF assms(1)] by (simp_all add: journal_valid_def)
  have "\<exists>h. jget e ''event_hash'' = JStr h" if "e \<in> set es" for e
    using valid_from_sound [OF v(2) that] event_codes_sound by blast
  with head_parsed [OF v(1)] space_only_lines [OF assms(2)] show ?thesis by (simp add: file_head_def)
qed

section \<open>Chains of custody\<close>

definition holds_file :: "platform \<Rightarrow> bytes list \<Rightarrow> directory \<Rightarrow> string \<times> event list \<Rightarrow> bool" where
  "holds_file P keys d x \<longleftrightarrow>
     (\<exists>entry. dget d (fst x) = Some entry \<and> de_regular entry \<and> verified_file P keys (de_content entry) (snd x))"

text \<open>The first event names the predecessor and commits to its count and head.\<close>

definition commits :: "event list \<Rightarrow> string \<times> event list \<Rightarrow> bool" where
  "commits es y \<longleftrightarrow>
     es \<noteq> [] \<and> etype ''archive'' (hd es)
     \<and> jget (hd es) ''archived_path'' = JStr (fst y) \<and> fst y \<noteq> [] \<and> bare_file_name (fst y)
     \<and> int_of (jget (hd es) ''prior_count'') = Some (int (length (snd y)))
     \<and> jget (hd es) ''prior_head'' = opt_str (last_hash None (snd y))"

fun custody :: "platform \<Rightarrow> bytes list \<Rightarrow> directory \<Rightarrow> (string \<times> event list) list \<Rightarrow> bool" where
  "custody P keys d [] = False"
| "custody P keys d [x] = (holds_file P keys d x \<and> \<not> (snd x \<noteq> [] \<and> etype ''archive'' (hd (snd x))))"
| "custody P keys d (x # y # cs) = (holds_file P keys d x \<and> commits (snd x) y \<and> custody P keys d (y # cs))"

definition spaced :: "directory \<Rightarrow> bool" where
  "spaced d \<longleftrightarrow> (\<forall>name entry. dget d name = Some entry \<longrightarrow> json_space_only (de_content entry))"

lemma spacedD: "spaced d \<Longrightarrow> dget d name = Some entry \<Longrightarrow> json_space_only (de_content entry)"
  by (simp add: spaced_def)

text \<open>One step of the loop, once its file is known to verify.\<close>

lemma archive_link_genesis:
  assumes "verified_file P keys f es" and "json_space_only f"
  shows "archive_link P max_links d links current f = Genesis \<longleftrightarrow> \<not> (es \<noteq> [] \<and> etype ''archive'' (hd es))"
  by (auto simp: archive_link_def first_line_verified [OF assms] etype_def Let_def
      split: list.splits option.splits json.splits if_splits)

lemma archive_link_predecessor:
  assumes "verified_file P keys f es" and "json_space_only f" and "spaced d" and "holds_file P keys d (name, es')"
  shows "archive_link P max_links d links current f = Predecessor name \<longleftrightarrow>
    int links < max_links \<and> commits es (name, es')"
proof -
  from assms(4) obtain entry where e: "dget d name = Some entry" "de_regular entry"
    "verified_file P keys (de_content entry) es'" by (auto simp: holds_file_def)
  note n = verified_count [OF e(3)] file_head_verified [OF e(3) spacedD [OF assms(3) e(1)]]
  show ?thesis
    by (auto simp: archive_link_def first_line_verified [OF assms(1,2)] commits_def etype_def e(1,2) n readable_def
        split: list.splits option.splits json.splits if_splits)
qed

definition in_reach :: "int \<Rightarrow> nat \<Rightarrow> 'a list \<Rightarrow> bool" where
  "in_reach max_links links cs \<longleftrightarrow> length cs \<le> 1 \<or> int (links + length cs) \<le> max_links + 1"

lemma chain_loop_complete:
  "custody P keys d cs \<Longrightarrow> spaced d \<Longrightarrow> distinct (map fst cs) \<Longrightarrow> set (map fst cs) \<inter> set seen = {} \<Longrightarrow>
   in_reach max_links links cs \<Longrightarrow>
   chain_loop P keys max_links d (fst (hd cs)) seen files links
     = Some (Inr \<lparr>cr_files = files @ map fst cs, cr_issues = []\<rparr>)"
proof (induction P keys d cs arbitrary: seen files links rule: custody.induct)
  case (2 P keys d x)
  from "2.prems" obtain e where e: "dget d (fst x) = Some e" "de_regular e" "verified_file P keys (de_content e) (snd x)"
    by (auto simp: holds_file_def)
  from archive_link_genesis [OF e(3) spacedD [OF "2.prems"(2) e(1)], of max_links d links "fst x"] "2.prems"(1)
  have "archive_link P max_links d links (fst x) (de_content e) = Genesis" by simp
  with e "2.prems"(4) show ?case
    by (subst chain_loop.simps) (auto simp: readable_def verified_file_def)
next
  case (3 P keys d x y cs)
  from "3.prems" obtain e where e: "dget d (fst x) = Some e" "de_regular e" "verified_file P keys (de_content e) (snd x)"
    by (auto simp: holds_file_def)
  from "3.prems"(1) have y: "holds_file P keys d (fst y, snd y)" by (cases cs) auto
  from archive_link_predecessor [OF e(3) spacedD [OF "3.prems"(2) e(1)] "3.prems"(2) y, of max_links links "fst x"] "3.prems"
  have p: "archive_link P max_links d links (fst x) (de_content e) = Predecessor (fst y)" by (simp add: in_reach_def)
  have "in_reach max_links (Suc links) (y # cs)" using "3.prems"(5) by (auto simp: in_reach_def)
  from "3.IH" [OF _ "3.prems"(2) _ _ this, of "seen @ [fst x]" "files @ [fst x]"] "3.prems"
  have "chain_loop P keys max_links d (fst y) (seen @ [fst x]) (files @ [fst x]) (Suc links)
      = Some (Inr \<lparr>cr_files = files @ map fst (x # y # cs), cr_issues = []\<rparr>)" by auto
  with e "3.prems"(4) p show ?case
    by (subst chain_loop.simps) (auto simp: readable_def verified_file_def)
qed simp

lemma chain_loop_sound:
  "chain_loop P keys max_links d current seen files links = Some (Inr rep) \<Longrightarrow> chain_valid rep \<Longrightarrow> spaced d \<Longrightarrow>
   \<exists>cs. custody P keys d cs \<and> fst (hd cs) = current \<and> cr_files rep = files @ map fst cs
     \<and> distinct (map fst cs) \<and> set (map fst cs) \<inter> set seen = {} \<and> in_reach max_links links cs"
proof (induction "card (set (map fst d) - set seen)" arbitrary: current seen files links rule: less_induct)
  case less
  from less.prems(1,2) have new: "current \<notin> set seen"
    by (subst (asm) chain_loop.simps) (auto simp: chain_valid_def split: if_splits)
  with less.prems(1,2) obtain e where e: "dget d current = Some e"
    by (subst (asm) chain_loop.simps) (auto simp: chain_valid_def split: option.splits)
  with less.prems(1,2) new obtain r where r: "verify_journal P (readable e) keys None = Inr r" "r_valid r"
    by (subst (asm) chain_loop.simps) (auto simp: chain_valid_def split: sum.splits if_splits)
  then have reg: "de_regular e"
    by (auto simp: readable_def verify_journal_def read_and_verify_def split: if_splits)
  with r have "verify_journal P (Some (de_content e)) keys None = Inr r" by (simp add: readable_def)
  from verified_ex [OF this r(2)] obtain es where es: "verified_file P keys (de_content e) es" by blast
  have held: "holds_file P keys d (current, es)" using e reg es by (simp add: holds_file_def)
  note sp = spacedD [OF less.prems(3) e]
  show ?case
  proof (cases "archive_link P max_links d links current (de_content e)")
    case Genesis
    with less.prems(1) new e r have "cr_files rep = files @ [current]"
      by (subst (asm) chain_loop.simps) auto
    then show ?thesis
      using held new archive_link_genesis [OF es sp] Genesis
      by (intro exI [of _ "[(current, es)]"]) (auto simp: in_reach_def)
  next
    case (Broken i)
    with less.prems(1,2) new e r have False by (subst (asm) chain_loop.simps) (auto simp: chain_valid_def)
    then show ?thesis ..
  next
    case (Predecessor name)
    with less.prems(1) new e r
    have "chain_loop P keys max_links d name (seen @ [current]) (files @ [current]) (Suc links) = Some (Inr rep)"
      by (subst (asm) chain_loop.simps) auto
    from less.hyps [OF fresh_names_shrink [OF e new] this less.prems(2,3)] obtain cs where
      cs: "custody P keys d cs" "fst (hd cs) = name" "cr_files rep = (files @ [current]) @ map fst cs"
        "distinct (map fst cs)" "set (map fst cs) \<inter> set (seen @ [current]) = {}" "in_reach max_links (Suc links) cs"
      by blast
    then obtain y cs' where y: "cs = y # cs'" by (cases cs) auto
    have "holds_file P keys d y" using cs(1) y by (cases cs') auto
    moreover have "(name, snd y) = y" using cs(2) y by auto
    ultimately have h: "holds_file P keys d (name, snd y)" by simp
    from archive_link_predecessor [OF es sp less.prems(3) h] Predecessor
    have "int links < max_links" "commits es (name, snd y)" by auto
    then show ?thesis
      using held cs y new by (intro exI [of _ "(current, es) # cs"]) (auto simp: in_reach_def)
  qed
qed

text \<open>
  C24: Verification of an archive chain accepts exactly the chains of custody: files that verify, each
  but the last opening with an archive record that commits to the count and the head of the next,
  no file twice and at most \<open>max_links\<close> links; the report names these files.
\<close>

theorem archive_chain_exact:
  assumes "spaced d"
  shows "(\<exists>rep. verify_archive_chain P keys max_links d live = Some (Inr rep) \<and> chain_valid rep \<and> cr_files rep = files)
    \<longleftrightarrow> (\<exists>cs. custody P keys d cs \<and> map fst cs = files \<and> fst (hd cs) = live
           \<and> distinct files \<and> in_reach max_links 0 files)"
proof
  assume "\<exists>rep. verify_archive_chain P keys max_links d live = Some (Inr rep) \<and> chain_valid rep \<and> cr_files rep = files"
  then obtain rep where r: "chain_loop P keys max_links d live [] [] 0 = Some (Inr rep)" "chain_valid rep" "cr_files rep = files"
    by (auto simp: verify_archive_chain_def)
  from chain_loop_sound [OF r(1,2) assms] obtain cs where
    "custody P keys d cs" "fst (hd cs) = live" "cr_files rep = map fst cs" "distinct (map fst cs)" "in_reach max_links 0 cs"
    by auto
  with r(3) show "\<exists>cs. custody P keys d cs \<and> map fst cs = files \<and> fst (hd cs) = live
      \<and> distinct files \<and> in_reach max_links 0 files" by (intro exI [of _ cs]) (auto simp: in_reach_def)
next
  assume "\<exists>cs. custody P keys d cs \<and> map fst cs = files \<and> fst (hd cs) = live \<and> distinct files \<and> in_reach max_links 0 files"
  then obtain cs where c: "custody P keys d cs" "map fst cs = files" "fst (hd cs) = live" "distinct files" "in_reach max_links 0 files"
    by blast
  then have "in_reach max_links 0 cs" by (auto simp: in_reach_def)
  with chain_loop_complete [OF c(1) assms, of "[]" max_links 0 "[]"] c
  show "\<exists>rep. verify_archive_chain P keys max_links d live = Some (Inr rep) \<and> chain_valid rep \<and> cr_files rep = files"
    by (auto simp: verify_archive_chain_def chain_valid_def)
qed

section \<open>The live file determines the whole history\<close>

abbreviation payloads :: "event list \<Rightarrow> event list" where
  "payloads \<equiv> map (\<lambda>e. sort_members (unsigned_payload e))"

lemma payloads_hd:
  assumes "payloads es = payloads es'" and "es \<noteq> []" and "k \<notin> {''event_hash'', ''signature''}"
  shows "jsort (jget (hd es) k) = jsort (jget (hd es') k)"
proof -
  from assms(1,2) have "sort_members (unsigned_payload (hd es)) = sort_members (unsigned_payload (hd es'))"
    by (cases es; cases es') auto
  then have "jget (sort_members (unsigned_payload (hd es))) k = jget (sort_members (unsigned_payload (hd es'))) k" by simp
  then show ?thesis using assms(3) by (simp add: unsigned_get)
qed

lemma int_of_jsort [simp]: "int_of (jsort v) = int_of v"
  by (cases v) simp_all

lemma commits_determined:
  assumes "payloads es = payloads es'" and "commits es y" and "commits es' z"
  shows "fst y = fst z \<and> length (snd y) = length (snd z) \<and> last_hash None (snd y) = last_hash None (snd z)"
proof -
  have "es \<noteq> []" using assms(2) by (simp add: commits_def)
  note k = payloads_hd [OF assms(1) this]
  from k [of "''archived_path''"] k [of "''prior_count''"] k [of "''prior_head''"] assms(2,3) show ?thesis
    by (auto simp: commits_def dest: opt_str_inj arg_cong [of _ _ int_of])
qed

lemma linked_determined:
  assumes "payloads es = payloads es'"
  shows "(es \<noteq> [] \<and> etype ''archive'' (hd es)) = (es' \<noteq> [] \<and> etype ''archive'' (hd es'))"
proof (cases "es = []")
  case True
  with assms show ?thesis by simp
next
  case False
  moreover have "es' \<noteq> []" using assms False by auto
  moreover from payloads_hd [OF assms False, of "''event_type''"]
  have "jsort (jget (hd es) ''event_type'') = jsort (jget (hd es') ''event_type'')" by simp
  then have "etype ''archive'' (hd es) = etype ''archive'' (hd es')"
    using jsort_eq_simps(1) [of "jget (hd es) ''event_type''" "''archive''"]
      jsort_eq_simps(1) [of "jget (hd es') ''event_type''" "''archive''"] unfolding etype_def by simp
  ultimately show ?thesis by simp
qed

definition chain_events :: "(string \<times> event list) list \<Rightarrow> event set" where
  "chain_events cs = \<Union> (set ` snd ` set cs)"

lemma chain_events_simps [simp]:
  "chain_events [] = {}" "chain_events (x # cs) = set (snd x) \<union> chain_events cs"
  by (simp_all add: chain_events_def)

lemma held_determined:
  assumes "holds_file P keys d y" and "holds_file P keys' d' z"
    and "length (snd y) = length (snd z)" and "last_hash None (snd y) = last_hash None (snd z)"
    and "\<forall>e \<in> set (snd y) \<union> set (snd z). event_wf P e"
    and "inj_on (sha256 P) (payload_text P ` (set (snd y) \<union> set (snd z)))"
  shows "payloads (snd y) = payloads (snd z)"
proof (cases "snd y = []")
  case False
  then have "snd z \<noteq> []" using assms(3) by auto
  with False assms(4) have l: "event_hash_of (last (snd y)) = event_hash_of (last (snd z))" by (simp add: last_hash_def)
  from assms(1,2) obtain f f' where "verified_file P keys f (snd y)" "verified_file P keys' f' (snd z)"
    by (auto simp: holds_file_def)
  from head_determines_journal [OF verified_valid [OF this(1)] verified_valid [OF this(2)] False \<open>snd z \<noteq> []\<close> l assms(5,6)]
  show ?thesis .
qed (use assms(3) in simp)

lemma custody_determined:
  "custody P keys d cs \<Longrightarrow> custody P keys' d' cs' \<Longrightarrow>
   payloads (snd (hd cs)) = payloads (snd (hd cs')) \<Longrightarrow> fst (hd cs) = fst (hd cs') \<Longrightarrow>
   \<forall>e \<in> chain_events cs \<union> chain_events cs'. event_wf P e \<Longrightarrow>
   inj_on (sha256 P) (payload_text P ` (chain_events cs \<union> chain_events cs')) \<Longrightarrow>
   map (\<lambda>x. (fst x, payloads (snd x))) cs = map (\<lambda>x. (fst x, payloads (snd x))) cs'"
proof (induction P keys d cs arbitrary: cs' rule: custody.induct)
  case (2 P keys d x)
  then obtain z zs where z: "cs' = z # zs" by (cases cs') auto
  have "zs = []"
  proof (rule ccontr)
    assume "zs \<noteq> []"
    with "2.prems"(2) z obtain u us where "commits (snd z) u" by (cases zs) auto
    with linked_determined [OF "2.prems"(3)] "2.prems"(1) z show False by (auto simp: commits_def)
  qed
  with "2.prems"(3,4) z show ?case by simp
next
  case (3 P keys d x y cs)
  from "3.prems"(2) obtain z zs where z: "cs' = z # zs" by (cases cs') auto
  have c: "commits (snd x) y" "holds_file P keys d y" using "3.prems"(1) by (cases cs; simp)+
  have "zs \<noteq> []"
  proof
    assume "zs = []"
    with "3.prems"(2) z linked_determined [OF "3.prems"(3)] c(1) show False by (auto simp: commits_def)
  qed
  then obtain u us where u: "zs = u # us" by (cases zs) auto
  have cu: "commits (snd z) u" "holds_file P keys' d' u" "custody P keys' d' zs"
    using "3.prems"(2) z u by (cases us; simp)+
  have "payloads (snd x) = payloads (snd z)" using "3.prems"(3) z by simp
  from commits_determined [OF this c(1) cu(1)]
  have same: "fst y = fst u" "length (snd y) = length (snd u)" "last_hash None (snd y) = last_hash None (snd u)" by auto
  have sub: "chain_events (y # cs) \<union> chain_events zs \<subseteq> chain_events (x # y # cs) \<union> chain_events cs'"
    "set (snd y) \<union> set (snd u) \<subseteq> chain_events (x # y # cs) \<union> chain_events cs'" using z u by auto
  have wf: "\<forall>e \<in> A. event_wf P e" and inj: "inj_on (sha256 P) (payload_text P ` A)"
    if "A \<subseteq> chain_events (x # y # cs) \<union> chain_events cs'" for A
    using "3.prems"(5) that inj_on_subset [OF "3.prems"(6) image_mono [OF that]] by blast+
  have "payloads (snd y) = payloads (snd u)"
    by (rule held_determined [OF c(2) cu(2) same(2,3) wf [OF sub(2)] inj [OF sub(2)]])
  with "3.IH" [OF _ cu(3) _ _ wf [OF sub(1)] inj [OF sub(1)]] "3.prems" z u same(1) show ?case by simp
qed simp

definition held_events :: "platform \<Rightarrow> bytes list \<Rightarrow> directory \<Rightarrow> event set" where
  "held_events P keys d = \<Union> {set (snd x) | x. holds_file P keys d x}"

lemma custody_holds: "custody P keys d cs \<Longrightarrow> x \<in> set cs \<Longrightarrow> holds_file P keys d x"
proof (induction P keys d cs rule: custody.induct)
  case (3 P keys d x y cs)
  then show ?case by (cases cs) auto
qed simp_all

lemma custody_events: "custody P keys d cs \<Longrightarrow> chain_events cs \<subseteq> held_events P keys d"
proof
  fix e assume c: "custody P keys d cs" and "e \<in> chain_events cs"
  then obtain x where x: "x \<in> set cs" "e \<in> set (snd x)" by (auto simp: chain_events_def)
  from custody_holds [OF c x(1)] x(2) show "e \<in> held_events P keys d"
    unfolding held_events_def by (intro UnionI [of "set (snd x)"] CollectI exI [of _ x]) simp_all
qed

text \<open>
  C13: Custody across rotations: if two directories with the same live file both pass the archive
  verification, under whatever trusted keys, then their chains have the same files and every file
  has the same events, up to a collision of SHA-256. So no archived event can be changed, dropped
  or reordered without changing the live file or failing the verification.
\<close>

theorem live_file_determines_archives:
  assumes "verify_archive_chain P keys max_links d live = Some (Inr rep)" and "chain_valid rep"
    and "verify_archive_chain P keys' max_links' d' live = Some (Inr rep')" and "chain_valid rep'"
    and "contents d live = contents d' live" and "spaced d" and "spaced d'"
    and "\<forall>e \<in> held_events P keys d \<union> held_events P keys' d'. event_wf P e"
    and "inj_on (sha256 P) (payload_text P ` (held_events P keys d \<union> held_events P keys' d'))"
  shows "cr_files rep = cr_files rep'
    \<and> (\<forall>name \<in> set (cr_files rep). \<exists>es es'. holds_file P keys d (name, es) \<and> holds_file P keys' d' (name, es')
         \<and> payloads es = payloads es')"
proof -
  from chain_loop_sound [OF assms(1) [unfolded verify_archive_chain_def] assms(2,6)] obtain cs where
    cs: "custody P keys d cs" "fst (hd cs) = live" "cr_files rep = map fst cs" by auto
  from chain_loop_sound [OF assms(3) [unfolded verify_archive_chain_def] assms(4,7)] obtain cs' where
    cs': "custody P keys' d' cs'" "fst (hd cs') = live" "cr_files rep' = map fst cs'" by auto
  from cs(1) cs'(1) have ne: "cs \<noteq> []" "cs' \<noteq> []" by auto
  from custody_holds [OF cs(1), of "hd cs"] custody_holds [OF cs'(1), of "hd cs'"] ne
  have "verified_file P keys (contents d live) (snd (hd cs))" "verified_file P keys' (contents d' live) (snd (hd cs'))"
    by (auto simp: holds_file_def contents_def cs(2) cs'(2))
  from verified_unique [OF this [unfolded assms(5)]] have "payloads (snd (hd cs)) = payloads (snd (hd cs'))" by simp
  moreover have sub: "chain_events cs \<union> chain_events cs' \<subseteq> held_events P keys d \<union> held_events P keys' d'"
    using custody_events [OF cs(1)] custody_events [OF cs'(1)] by blast
  ultimately have eq: "map (\<lambda>x. (fst x, payloads (snd x))) cs = map (\<lambda>x. (fst x, payloads (snd x))) cs'"
    using assms(8) by (intro custody_determined [OF cs(1) cs'(1)])
      (auto simp: cs(2) cs'(2) intro: inj_on_subset [OF assms(9) image_mono [OF sub]])
  then have "map fst cs = map fst cs'" by (metis (no_types, lifting) comp_apply fst_conv list.map_comp map_eq_conv)
  moreover have "\<exists>es es'. holds_file P keys d (name, es) \<and> holds_file P keys' d' (name, es') \<and> payloads es = payloads es'"
    if "name \<in> set (map fst cs)" for name
  proof -
    from that obtain x where x: "x \<in> set cs" "fst x = name" by auto
    then have "(name, payloads (snd x)) \<in> set (map (\<lambda>x. (fst x, payloads (snd x))) cs')" unfolding eq [symmetric] by auto
    then obtain y where "y \<in> set cs'" "fst y = name" "payloads (snd y) = payloads (snd x)" by auto
    with x custody_holds [OF cs(1) x(1)] custody_holds [OF cs'(1), of y] show ?thesis by (metis prod.collapse)
  qed
  ultimately show ?thesis by (simp add: cs(3) cs'(3))
qed

section \<open>A rotation loses no file\<close>

text \<open>Every file of d is in d', under its new name and possibly longer.\<close>

definition tracks :: "(string \<Rightarrow> string) \<Rightarrow> directory \<Rightarrow> directory \<Rightarrow> bool" where
  "tracks f d d' \<longleftrightarrow>
     (\<forall>name e. dget d name = Some e \<longrightarrow> (\<exists>e' g. dget d' (f name) = Some e' \<and> de_content e' = de_content e @ g))"

abbreviation grown :: "directory \<Rightarrow> directory \<Rightarrow> bool" where
  "grown \<equiv> tracks (\<lambda>name. name)"

definition appending :: "rotation \<Rightarrow> bool" where
  "appending ro \<longleftrightarrow> (\<forall>i d. grown d (ro_others ro i d))"

lemma tracksD: "tracks f d d' \<Longrightarrow> dget d name = Some e \<Longrightarrow> \<exists>e' g. dget d' (f name) = Some e' \<and> de_content e' = de_content e @ g"
  by (simp add: tracks_def)

lemma grown_refl [simp]: "grown d d"
  by (simp add: tracks_def)

lemma tracks_grown:
  assumes "tracks f d d'" and "grown d' d''"
  shows "tracks f d d''"
  unfolding tracks_def
proof (intro allI impI)
  fix name e assume "dget d name = Some e"
  from tracksD [OF assms(1) this] obtain e' g where e': "dget d' (f name) = Some e'" "de_content e' = de_content e @ g"
    by blast
  from tracksD [OF assms(2) e'(1)] e'(2)
  show "\<exists>e' g. dget d'' (f name) = Some e' \<and> de_content e' = de_content e @ g" by auto
qed

lemma grown_fresh: "dget d name = None \<Longrightarrow> grown d (dset name e d)"
  by (auto simp: tracks_def)

lemma grown_touch: "\<exists>g. f = contents d name @ g \<Longrightarrow> grown d (touch name now f d)"
  by (auto simp: tracks_def touch_def contents_def split: option.splits)

lemma stats_at_grown: "grown d (snd (stats_at P fault now name d))"
  by (auto simp: stats_at_def Let_def intro: grown_touch)

lemma claimed_fresh:
  assumes "claim_archive_path live stamp now d = (name, d')"
  shows "dget d name = None \<and> (\<exists>i. name = archive_name live stamp i)
    \<and> d' = dset name \<lparr>de_content = [], de_mtime = now, de_regular = True\<rparr> d"
proof -
  let ?taken = "\<lambda>i. dget d (archive_name live stamp i) \<noteq> None"
  have "\<exists>i \<in> set [0..<Suc (length d)]. \<not> ?taken i"
  proof (rule ccontr)
    assume "\<not> (\<exists>i \<in> set [0..<Suc (length d)]. \<not> ?taken i)"
    then have "archive_name live stamp ` {0..<Suc (length d)} \<subseteq> set (map fst d)"
      by (auto simp: dget_None_iff simp del: upt_Suc)
    moreover have "inj (archive_name live stamp)"
      by (rule injI) (auto simp: archive_name_def dest: inj_dec_nat split: if_splits)
    then have "card (archive_name live stamp ` {0..<Suc (length d)}) = Suc (length d)"
      by (subst card_image) (auto intro: inj_on_subset)
    ultimately have "Suc (length d) \<le> card (set (map fst d))" by (metis List.finite_set card_mono)
    also have "\<dots> \<le> length d" using card_length [of "map fst d"] by simp
    finally show False by simp
  qed
  then have "find (\<lambda>i. dget d (archive_name live stamp i) = None) [0..<Suc (length d)] \<noteq> None"
    by (auto simp: find_None_iff simp del: upt_Suc)
  then obtain i where i: "find (\<lambda>i. dget d (archive_name live stamp i) = None) [0..<Suc (length d)] = Some i" by blast
  with find_Some_mem [OF i] assms show ?thesis by (auto simp: claim_archive_path_def Let_def)
qed

lemma replaced_tracks:
  assumes "grown d d1" and "dget d a = None" and "replace_file live a d1 = Some d2"
  shows "tracks (\<lambda>name. if name = live then a else name) d d2"
  using assms by (fastforce simp: tracks_def replace_file_def)

lemma rolled_back_tracks:
  assumes "tracks (\<lambda>name. if name = live then a else name) d d1" and "dget d a = None" and "dget d1 live = None"
    and "replace_file a live d1 = Some d2"
  shows "grown d d2"
  using assms by (fastforce simp: tracks_def replace_file_def)

lemma rollback_tracks:
  assumes "tracks (\<lambda>name. if name = live then a else name) d d1" and "dget d a = None"
  shows "\<exists>f. tracks f d (snd (rollback_archive fails a live d1)) \<and> (f = (\<lambda>name. name) \<or> f = (\<lambda>name. if name = live then a else name))"
proof (cases "dget d1 live = None \<and> \<not> fails")
  case True
  then show ?thesis
    using rolled_back_tracks [OF assms, of _] assms(1)
    by (cases "replace_file a live d1") (auto simp: rollback_archive_def)
qed (use assms(1) in \<open>auto simp: rollback_archive_def\<close>)

definition moved :: "string \<Rightarrow> directory \<Rightarrow> directory \<Rightarrow> bool" where
  "moved live d d' \<longleftrightarrow>
     grown d d' \<or> (\<exists>a. dget d a = None \<and> (\<exists>i stamp. a = archive_name live stamp i)
       \<and> tracks (\<lambda>name. if name = live then a else name) d d')"

lemma moved_away:
  "tracks (\<lambda>name. if name = live then a else name) d d' \<Longrightarrow> dget d a = None \<Longrightarrow>
   \<exists>i stamp. a = archive_name live stamp i \<Longrightarrow> moved live d d'"
  unfolding moved_def by (rule disjI2, rule exI [of _ a]) simp

lemma rollback_moved:
  assumes "tracks (\<lambda>name. if name = live then a else name) d d1" and "dget d a = None"
    and "\<exists>i stamp. a = archive_name live stamp i"
  shows "moved live d (snd (rollback_archive fails a live d1))"
proof -
  from rollback_tracks [OF assms(1,2), of fails] obtain f where
    t: "tracks f d (snd (rollback_archive fails a live d1))"
    and f: "f = (\<lambda>name. name) \<or> f = (\<lambda>name. if name = live then a else name)" by (elim exE conjE)
  from f show ?thesis
  proof
    assume "f = (\<lambda>name. name)"
    with t show ?thesis by (simp add: moved_def)
  next
    assume "f = (\<lambda>name. if name = live then a else name)"
    with t have "tracks (\<lambda>name. if name = live then a else name) d (snd (rollback_archive fails a live d1))" by simp
    from moved_away [OF this assms(2,3)] show ?thesis .
  qed
qed

lemma moved_grown: "moved live d d' \<Longrightarrow> grown d' d'' \<Longrightarrow> moved live d d''"
  unfolding moved_def using tracks_grown by blast

lemma move_live_moved:
  assumes ap: "appending ro"
  shows "moved live d (snd (move_live P ro live d))"
proof -
  have o: "grown d (ro_others ro i d)" for i d using ap by (simp add: appending_def)
  obtain r d1 where s: "stats_at P (ro_stats_fault ro) (ro_now ro) live (ro_others ro 0 d) = (r, d1)"
    by (cases "stats_at P (ro_stats_fault ro) (ro_now ro) live (ro_others ro 0 d)")
  have d1: "grown d d1" using tracks_grown [OF o stats_at_grown [of _ P _ _ live, of "ro_others ro 0 d"]] s by (metis snd_conv)
  have d1': "grown d (ro_others ro 1 d1)" by (rule tracks_grown [OF d1 o])
  obtain a d2 where c: "claim_archive_path live (ro_stamp ro) (ro_now ro) (ro_others ro 1 d1) = (a, d2)"
    by (cases "claim_archive_path live (ro_stamp ro) (ro_now ro) (ro_others ro 1 d1)")
  note fresh = claimed_fresh [OF c]
  have a: "dget d a = None" "\<exists>i stamp. a = archive_name live stamp i"
    using fresh tracksD [OF d1', of a] by (cases "dget d a"; auto)+
  have "grown (ro_others ro 1 d1) d2" using grown_fresh [of "ro_others ro 1 d1" a] fresh by simp
  with d1' have d2: "grown d (ro_others ro 2 d2)" using o tracks_grown by blast
  show ?thesis
  proof (cases "\<exists>cnt head. r = Inr (cnt, head) \<and> cnt \<noteq> 0 \<and> \<not> ro_claim_fails ro")
    case False
    with s d1 d1' show ?thesis by (auto simp: move_live_def moved_def Let_def split: sum.splits)
  next
    case True
    then obtain cnt head where r: "r = Inr (cnt, head)" "cnt \<noteq> 0" "\<not> ro_claim_fails ro" by blast
    show ?thesis
    proof (cases "if ro_replace_fails ro then None else replace_file live a (ro_others ro 2 d2)")
      case None
      with s r c d2 show ?thesis by (simp add: move_live_def moved_def)
    next
      case (Some d3)
      then have "replace_file live a (ro_others ro 2 d2) = Some d3" by (simp split: if_splits)
      note t3 = replaced_tracks [OF d2 a(1) this]
      obtain r' d4 where s': "stats_at P (ro_settled_fault ro) (ro_now ro) a (ro_others ro 3 d3) = (r', d4)"
        by (cases "stats_at P (ro_settled_fault ro) (ro_now ro) a (ro_others ro 3 d3)")
      have t4: "tracks (\<lambda>name. if name = live then a else name) d d4"
        using tracks_grown [OF tracks_grown [OF t3 o] stats_at_grown] s' by (metis snd_conv)
      have undone: "moved live d (snd (rollback_archive (ro_rollback_fails ro) a live (ro_others ro 4 d4)))"
        by (rule rollback_moved [OF tracks_grown [OF t4 o] a])
      have "moved live d d4" by (rule moved_away [OF t4 a])
      with undone s r c Some s' show ?thesis by (auto simp: move_live_def split: sum.splits)
    qed
  qed
qed

text \<open>
  C25: Rotation loses no evidence: whatever fails or is interrupted, and whatever other processes append
  in between, after an archive without a retention limit every file that was in the directory is
  there under its name with at least its old content; only the old live file may instead be under an
  archive name that was free.
\<close>

theorem archive_loses_nothing:
  assumes "archive_journal P ro live None signer n d c = (r, d', c')" and "appending ro"
  shows "moved live d d'"
proof -
  have o: "grown d (ro_others ro i d)" for i d using assms(2) by (simp add: appending_def)
  obtain x d1 where m: "move_live P ro live d = (x, d1)" by (cases "move_live P ro live d")
  have d1: "moved live d d1" using move_live_moved [OF assms(2), of live d P] m by simp
  show ?thesis
  proof (cases "\<exists>a cnt head sg. x = Inr (a, cnt, head) \<and> signer = Inr sg")
    case False
    with assms(1) m d1 show ?thesis by (auto simp: archive_journal_def split: sum.splits)
  next
    case True
    then obtain a cnt head sg where x: "x = Inr (a, cnt, head)" "signer = Inr sg" by blast
    let ?d = "ro_others ro 5 d1" and ?fault = "open_fault (ro_others ro 5 d1) live (ro_append_fault ro)"
    obtain q f c1 where ap: "append_event P live ?fault (archive_event P sg n cnt head a) (contents ?d live) c = (q, f, c1)"
      by (cases "append_event P live ?fault (archive_event P sg n cnt head a) (contents ?d live) c")
    have "\<exists>g. f = contents ?d live @ g"
      using append_event_grows [of P live ?fault "archive_event P sg n cnt head a" "contents ?d live" c] ap by simp
    then have "grown ?d (if ?fault = OpenFails then ?d else touch live (ro_now ro) f ?d)"
      by (auto intro: grown_touch)
    with moved_grown [OF moved_grown [OF d1 o]]
    have "moved live d (if ?fault = OpenFails then ?d else touch live (ro_now ro) f ?d)" .
    with assms(1) m x ap show ?thesis
      by (auto simp: archive_journal_def Let_def split: sum.splits)
  qed
qed

section \<open>A quiet rotation extends the chain\<close>

definition quiet :: "rotation \<Rightarrow> bool" where
  "quiet ro \<longleftrightarrow> (\<forall>i d. ro_others ro i d = d)"

definition portable_name :: "string \<Rightarrow> bool" where
  "portable_name s \<longleftrightarrow> ascii_text s \<and> CHR ''/'' \<notin> set s \<and> bslash \<notin> set s"

lemma plain_archive_name:
  assumes "portable_name live" and "portable_name stamp"
  shows "bare_file_name (archive_name live stamp i) \<and> utf8_ok (archive_name live stamp i)
    \<and> archive_name live stamp i \<noteq> []"
proof -
  have "set (path_stem live) \<subseteq> set live"
    by (auto simp: path_stem_def Let_def dest: in_set_takeD)
  then have stem: "portable_name (path_stem live)" using assms(1) by (auto simp: portable_name_def ascii_text_def)
  have digits: "portable_name (dec_nat n)" for n
  proof -
    have "code c < 127 \<and> c \<noteq> CHR ''/'' \<and> c \<noteq> bslash" if "is_digit c" for c
      using that by (auto simp: is_digit_def)
    then show ?thesis using dec_nat_digits [of n] by (force simp: portable_name_def ascii_text_def)
  qed
  have lits: "portable_name ''-''" "portable_name ''.jsonl''" by code_simp+
  have app: "portable_name s \<Longrightarrow> portable_name t \<Longrightarrow> portable_name (s @ t)" for s t by (auto simp: portable_name_def)
  have dash: "portable_name t \<Longrightarrow> portable_name (CHR ''-'' # t)" for t using app [OF lits(1)] by simp
  have "portable_name (archive_name live stamp i)"
    unfolding archive_name_def by (simp add: app dash stem assms(2) digits lits)
  moreover have "length (archive_name live stamp i) > 2" by (simp add: archive_name_def)
  ultimately show ?thesis by (auto simp: portable_name_def bare_file_name_def intro: ascii_text_utf8)
qed

lemma touch_same: "dget d name = Some e \<Longrightarrow> touch name now (contents d name) d = d"
  by (simp add: touch_def contents_def)

lemma stats_at_ok:
  assumes "stats_at P fault now name d = (Inr (cnt, head), d')" and "cnt \<noteq> 0"
  obtains entry where "dget d name = Some entry" "de_regular entry" "d' = d"
    "cnt = count_event_lines (de_content entry)" "read_last_event_hash P (de_content entry) = Inr head"
proof -
  from assms have f: "open_fault d name fault \<noteq> OpenFails" "contents d name \<noteq> []"
    "read_last_event_hash P (contents d name) = Inr head" "cnt = count_event_lines (contents d name)"
    "d' = touch name now (contents d name) d"
    by (auto simp: stats_at_def archive_stats_def Let_def bindR_Inr_iff split: if_splits)
  then obtain entry where e: "dget d name = Some entry" by (auto simp: contents_def split: option.splits)
  with f(1) have "de_regular entry" by (auto simp: open_fault_def split: if_splits)
  with f e touch_same [OF e] that show ?thesis by (simp add: contents_def)
qed

lemma quiet_move:
  assumes m: "move_live P ro live d = (Inr (a, cnt, head), d1)" and q: "quiet ro"
  obtains entry where "dget d live = Some entry" "de_regular entry" "0 < cnt"
    "cnt = count_event_lines (de_content entry)" "read_last_event_hash P (de_content entry) = Inr head"
    "dget d a = None" "\<exists>i. a = archive_name live (ro_stamp ro) i"
    "dget d1 a = Some entry" "dget d1 live = None"
    "\<And>name. name \<noteq> live \<Longrightarrow> name \<noteq> a \<Longrightarrow> dget d1 name = dget d name"
proof -
  have o: "ro_others ro i x = x" for i x using q by (simp add: quiet_def)
  obtain ds where s: "stats_at P (ro_stats_fault ro) (ro_now ro) live d = (Inr (cnt, head), ds)" and cnt: "cnt \<noteq> 0"
    and rest: "\<not> ro_claim_fails ro" using m by (auto simp: move_live_def o Let_def split: sum.splits prod.splits if_splits option.splits)
  from stats_at_ok [OF s cnt] obtain entry where e: "dget d live = Some entry" "de_regular entry" "ds = d"
    "cnt = count_event_lines (de_content entry)" "read_last_event_hash P (de_content entry) = Inr head" by blast
  obtain a' d2 where c: "claim_archive_path live (ro_stamp ro) (ro_now ro) d = (a', d2)"
    by (cases "claim_archive_path live (ro_stamp ro) (ro_now ro) d")
  note fresh = claimed_fresh [OF c]
  have index: "\<exists>i. a' = archive_name live (ro_stamp ro) i" using c by (auto simp: claim_archive_path_def Let_def)
  have ne: "a' \<noteq> live" using fresh e(1) by auto
  have r: "replace_file live a' d2 = Some (dset a' entry (ddel live d2))"
    using fresh e(1) ne by (simp add: replace_file_def)
  let ?d3 = "dset a' entry (ddel live d2)"
  have t: "touch a' (ro_now ro) (contents ?d3 a') ?d3 = ?d3" by (rule touch_same) simp
  from m s cnt rest c e(3) r have "a' = a" and d1: "d1 = ?d3"
    using t by (auto simp: move_live_def o stats_at_def Let_def split: sum.splits if_splits)
  with e cnt fresh index ne show ?thesis by (intro that [of entry]) auto
qed

lemma quiet_rotation:
  assumes a: "archive_journal P ro live None (Inr sg) n d c = (Inr rep, d', c')" and q: "quiet ro"
  obtains entry e where "dget d live = Some entry" "de_regular entry" "0 < count_event_lines (de_content entry)"
    "read_last_event_hash P (de_content entry) = Inr (ac_prior_head rep)"
    "dget d (ac_archived_path rep) = None" "\<exists>i. ac_archived_path rep = archive_name live (ro_stamp ro) i"
    "finalize_event P (archive_payload P sg n (count_event_lines (de_content entry)) (ac_prior_head rep) (ac_archived_path rep)) (s_sign sg) = Inr e"
    "dget d' (ac_archived_path rep) = Some entry"
    "\<exists>new. dget d' live = Some new \<and> de_regular new \<and> de_content new = line_of P e"
    "\<And>name. name \<noteq> live \<Longrightarrow> name \<noteq> ac_archived_path rep \<Longrightarrow> dget d' name = dget d name"
proof -
  have o: "ro_others ro i x = x" for i x using q by (simp add: quiet_def)
  from a obtain ar cnt head d1 where m: "move_live P ro live d = (Inr (ar, cnt, head), d1)"
    by (auto simp: archive_journal_def split: sum.splits prod.splits)
  from quiet_move [OF m q] obtain entry where e: "dget d live = Some entry" "de_regular entry" "0 < cnt"
    "cnt = count_event_lines (de_content entry)" "read_last_event_hash P (de_content entry) = Inr head"
    "dget d ar = None" "\<exists>i. ar = archive_name live (ro_stamp ro) i"
    "dget d1 ar = Some entry" "dget d1 live = None"
    "\<And>name. name \<noteq> live \<Longrightarrow> name \<noteq> ar \<Longrightarrow> dget d1 name = dget d name" by blast
  have empty: "contents d1 live = []" "open_fault d1 live fault = fault" for fault
    using e(9) by (simp_all add: contents_def open_fault_def)
  let ?ap = "append_event P live (ro_append_fault ro) (archive_event P sg n cnt head ar) [] c"
  from a m obtain x f c1 where ap: "?ap = (Inr x, f, c1)"
    by (cases ?ap) (auto simp: archive_journal_def o empty Let_def split: sum.splits)
  from append_event_ok [OF ap] have f: "f = line_of P x" and x: "archive_event P sg n cnt head ar None = Inr x"
    by (auto simp: read_last_event_hash_def)
  have fault: "ro_append_fault ro \<noteq> OpenFails" using ap by (auto simp: append_event_def)
  from a m ap fault have r: "rep = \<lparr>ac_archived_path = ar, ac_event = x, ac_prior_count = cnt, ac_prior_head = head, ac_pruned = []\<rparr>"
    and d': "d' = touch live (ro_now ro) f d1"
    by (simp_all add: archive_journal_def o empty)
  have ne: "ar \<noteq> live" using e(1,6) by auto
  have t: "dget d' name = (if name = live then Some \<lparr>de_content = f, de_mtime = ro_now ro, de_regular = True\<rparr> else dget d1 name)" for name
    unfolding d' touch_def using e(9) by simp
  show ?thesis
    by (rule that [of entry x]) (use e r t ne f x in \<open>auto simp: archive_event_def\<close>)
qed

lemma archive_payload_ok:
  assumes "0 < cnt" and "bare_file_name a"
  shows "payload_ok None (s_key_id sg) known (archive_payload P sg n cnt head a)"
proof -
  have "archive_shape (sort_members (archive_payload P sg n cnt head a)) = []"
    using assms by (simp add: archive_shape_def archive_payload_def jget_def when_code_def bad_count_def
        jget_sort_members [unfolded jget_def])
  then show ?thesis
    by (simp add: archive_payload_def payload_ok_def unsigned_def has_key_def jget_def EVENT_SCHEMA_VERSION_def
        KNOWN_EVENT_TYPES_def missing_fields_def field_defs shape_codes_def opt_str_def)
qed

lemma archive_payload_wf:
  assumes "ascii_stamps P" and "ascii_text (s_key_id sg)" and "\<And>h. head = Some h \<Longrightarrow> ascii_text h" and "utf8_ok a"
  shows "event_wf P (archive_payload P sg n cnt head a)"
proof -
  have k: "list_all ascii_text [''schema_version'', ''event_type'', ''event_id'', ''timestamp_utc'',
      ''key_id'', ''previous_event_hash'', ''prior_count'', ''prior_head'', ''archived_path'', ''1'', ''archive'']"
    by code_simp
  have "json_wf P (opt_str head)" using assms(3) ascii_text_utf8 by (cases head) (simp_all add: opt_str_def)
  then show ?thesis
    using assms(1,2,4) k ascii_text_utf8
    by (simp add: archive_payload_def ascii_stamps_def EVENT_SCHEMA_VERSION_def del: opt_str_simps(4))
qed

text \<open>The new live file: one archive record that verifies on its own.\<close>

lemma link_file_verified:
  assumes fin: "finalize_event P (archive_payload P (local_signer P sk) n cnt head a) (local_sign P sk) = Inr e"
    and p: "0 < cnt" "bare_file_name a" "utf8_ok a" "\<And>h. head = Some h \<Longrightarrow> ascii_text h"
    and ring: "dget (to_keyring P keys) (key_id_for P (ed_public P sk)) = Some (ed_public P sk)"
    and P: "ed_correct P sk" "ascii_stamps P"
  shows "verified_file P keys (line_of P e) [sort_members e] \<and> json_space_only (line_of P e)"
    and "\<And>k. k \<notin> {''signature'', ''event_hash''} \<Longrightarrow>
           jget (sort_members e) k = jsort (jget (archive_payload P (local_signer P sk) n cnt head a) k)"
proof -
  let ?sg = "local_signer P sk" and ?p = "archive_payload P (local_signer P sk) n cnt head a"
  have kid: "s_key_id ?sg = key_id_for P (ed_public P sk)" by (simp add: local_signer_def)
  have wf: "event_wf P ?p" using archive_payload_wf [OF P(2), of ?sg head a] key_id_ascii kid p(3,4) by simp
  have pok: "payload_ok None (key_id_for P (ed_public P sk)) (fold known_after [] []) ?p"
    using archive_payload_ok [OF p(1,2), of ?sg] kid by simp
  note we = finalize_wf [OF fin wf local_sign_utf8]
  show get: "jget (sort_members e) k = jsort (jget ?p k)" if "k \<notin> {''signature'', ''event_hash''}" for k
    using finalize_get [OF fin, of k] that by simp
  from finalize_hash [OF fin] obtain x where x: "dget e ''event_hash'' = Some (JStr x)" by blast
  have "event_codes P (sort_members e) (last_hash None []) (to_keyring P keys) (fold known_after [] []) = Inr []"
    using finalize_event_codes [OF fin _ ring P(1)] pok by (simp add: last_hash_def)
  from healthy_extend [OF healthy_Nil we x this]
  have v: "journal_valid P (to_keyring P keys) (line_of P e) [sort_members e]" by (simp add: healthy_def)
  have "jget (sort_members e) ''event_type'' = JStr ''archive''"
    by (subst get) (simp_all add: archive_payload_def jget_def)
  then have "\<not> etype ''checkpoint'' (sort_members e)" by (simp add: etype_def)
  then have "checkpoint_coverage (last_checkpoint None [sort_members e]) None False 1 = Inr []"
    by (simp add: last_checkpoint_def checkpoint_coverage_def effective_checkpoint_def)
  with read_and_verify_complete [OF v, of None None]
  have "verify_journal P (Some (line_of P e)) keys None = Inr \<lparr>r_valid = True, r_verified = 1, r_issues = []\<rparr>"
    by (simp add: verify_journal_def)
  then show "verified_file P keys (line_of P e) [sort_members e] \<and> json_space_only (line_of P e)"
    using v json_space_only_line [OF we] by (simp add: verified_file_def journal_valid_def line_of_def)
qed

lemma custody_frame:
  "custody P keys d cs \<Longrightarrow> (\<And>name. name \<in> set (map fst cs) \<Longrightarrow> dget d' name = dget d name) \<Longrightarrow> custody P keys d' cs"
proof (induction P keys d cs rule: custody.induct)
  case (3 P keys d x y cs)
  then show ?case by (auto simp: holds_file_def)
qed (auto simp: holds_file_def)

text \<open>The custody chain whose first file was renamed and given a successor.\<close>

lemma custody_renamed:
  assumes c: "custody P keys d ((live, es) # cs)" and a: "dget d' a = Some entry" "dget d live = Some entry"
    and frame: "\<And>name. name \<in> set (map fst cs) \<Longrightarrow> dget d' name = dget d name"
  shows "custody P keys d' ((a, es) # cs)"
proof -
  have h: "holds_file P keys d' (a, es)"
    using custody_holds [OF c, of "(live, es)"] a by (simp add: holds_file_def)
  show ?thesis
  proof (cases cs)
    case Nil
    with c h show ?thesis by simp
  next
    case (Cons y ys)
    with c have "custody P keys d (y # ys)" "commits es y" by simp_all
    with custody_frame [OF this(1), of d'] frame h Cons show ?thesis by simp
  qed
qed

lemma link_commits:
  assumes "\<And>k. k \<notin> {''signature'', ''event_hash''} \<Longrightarrow>
      jget (sort_members e) k = jsort (jget (archive_payload P sg n (length es) (last_hash None es) a) k)"
    and "bare_file_name a" and "a \<noteq> []"
  shows "commits [sort_members e] (a, es)"
proof -
  have "jget (sort_members e) ''event_type'' = JStr ''archive''" "jget (sort_members e) ''archived_path'' = JStr a"
    "jget (sort_members e) ''prior_count'' = JInt (int (length es))"
    "jget (sort_members e) ''prior_head'' = opt_str (last_hash None es)"
    by (subst assms(1); simp add: archive_payload_def jget_def)+
  with assms(2,3) show ?thesis by (simp add: commits_def etype_def)
qed

text \<open>
  A quiet rotation by a trusted signer extends the chain of custody: if the live journal is healthy
  and its chain verifies, then after the rotation the chain of the new live file verifies too and
  consists of the new file, the archive and the former predecessors.
\<close>

theorem rotation_extends_chain:
  assumes a: "archive_journal P ro live None (Inr (local_signer P sk)) n d c = (Inr rep, d', c')" and q: "quiet ro"
    and old: "verify_archive_chain P keys max_links d live = Some (Inr r)" "chain_valid r" "spaced d"
    and h: "healthy P (to_keyring P keys) (contents d live) es"
    and room: "int (length (cr_files r)) \<le> max_links"
    and names: "portable_name live" "portable_name (ro_stamp ro)"
    and ring: "dget (to_keyring P keys) (key_id_for P (ed_public P sk)) = Some (ed_public P sk)"
    and P: "ed_correct P sk" "ascii_stamps P"
  shows "\<exists>r'. verify_archive_chain P keys max_links d' live = Some (Inr r') \<and> chain_valid r'
    \<and> cr_files r' = live # ac_archived_path rep # tl (cr_files r)"
proof -
  from chain_loop_sound [OF old(1) [unfolded verify_archive_chain_def] old(2,3)] obtain cs where
    cs: "custody P keys d cs" "fst (hd cs) = live" "cr_files r = map fst cs" "distinct (map fst cs)" by auto
  then obtain es0 cs0 where c0: "cs = (live, es0) # cs0" by (cases cs) auto
  show ?thesis
  proof (rule quiet_rotation [OF a q])
  fix entry e
  assume e: "dget d live = Some entry" "de_regular entry" "0 < count_event_lines (de_content entry)"
    "read_last_event_hash P (de_content entry) = Inr (ac_prior_head rep)"
    "dget d (ac_archived_path rep) = None" "\<exists>i. ac_archived_path rep = archive_name live (ro_stamp ro) i"
    "finalize_event P (archive_payload P (local_signer P sk) n (count_event_lines (de_content entry)) (ac_prior_head rep)
       (ac_archived_path rep)) (s_sign (local_signer P sk)) = Inr e"
    "dget d' (ac_archived_path rep) = Some entry" "\<exists>new. dget d' live = Some new \<and> de_regular new \<and> de_content new = line_of P e"
    and frame: "\<And>name. name \<noteq> live \<Longrightarrow> name \<noteq> ac_archived_path rep \<Longrightarrow> dget d' name = dget d name"
  let ?a = "ac_archived_path rep"
  have f: "contents d live = de_content entry" using e(1) by (simp add: contents_def)
  have "verified_file P keys (de_content entry) es0"
    using custody_holds [OF cs(1), of "(live, es0)"] c0 e(1) by (simp add: holds_file_def)
  with h f have es0: "es0 = es" by (simp add: healthy_def journal_valid_def verified_file_def)
  have cnt: "count_event_lines (de_content entry) = length es" and hd: "ac_prior_head rep = last_hash None es"
    using healthy_scan(2) [OF h] healthy_read [OF h] e(4) f by simp_all
  from e(6) obtain i where i: "?a = archive_name live (ro_stamp ro) i" by blast
  have nm: "bare_file_name ?a" "utf8_ok ?a" "?a \<noteq> []" using plain_archive_name [OF names, of i] by (simp_all add: i)
  have sign: "s_sign (local_signer P sk) = local_sign P sk" by (simp add: local_signer_def)
  note fin = e(7) [unfolded cnt hd sign]
  have pos: "0 < length es" using e(3) cnt by simp
  note link = link_file_verified [OF fin pos nm(1,2) last_hash_ascii [OF h] ring P]
  have "holds_file P keys d' (live, [sort_members e])" using e(9) link(1) by (auto simp: holds_file_def)
  moreover have "commits [sort_members e] (?a, es)" by (rule link_commits [OF link(2) nm(1,3)])
  moreover have out: "name \<noteq> live" "name \<noteq> ?a" if name: "name \<in> set (map fst cs0)" for name
  proof -
    show "name \<noteq> live" using name cs(4) c0 by auto
    from name obtain x where "x \<in> set cs" "fst x = name" using c0 by auto
    with custody_holds [OF cs(1), of x] e(5) show "name \<noteq> ?a" by (auto simp: holds_file_def)
  qed
  then have "custody P keys d' ((?a, es) # cs0)"
    using custody_renamed [OF cs(1) [unfolded c0 es0] e(8) e(1)] frame by blast
  ultimately have new: "custody P keys d' ((live, [sort_members e]) # (?a, es) # cs0)" by simp
  have "spaced d'"
    unfolding spaced_def
  proof (intro allI impI)
    fix name x assume x: "dget d' name = Some x"
    show "json_space_only (de_content x)"
      using x e(1,8,9) link(1) frame [of name] old(3) by (cases "name = live"; cases "name = ?a") (auto simp: spaced_def)
  qed
  moreover have "?a \<noteq> live" using e(1,5) by auto
  then have "distinct (map fst ((live, [sort_members e]) # (?a, es) # cs0))"
    using cs(4) c0 out by auto
  moreover have "in_reach max_links 0 ((live, [sort_members e]) # (?a, es) # cs0)"
    using room cs(3) c0 by (simp add: in_reach_def)
  ultimately have "chain_loop P keys max_links d' live [] [] 0
      = Some (Inr \<lparr>cr_files = map fst ((live, [sort_members e]) # (?a, es) # cs0), cr_issues = []\<rparr>)"
    using chain_loop_complete [OF new, of "[]" max_links 0 "[]"] by simp
  then show ?thesis using cs(3) c0 by (auto simp: verify_archive_chain_def chain_valid_def)
  qed
qed

end
