(* ===== verification/ArchiveDemo.thy ===== *)
theory ArchiveDemo
  imports ArchiveProps
begin

text \<open>
  A concrete rotation: the smallest real journal in a directory of its own, before and after. It
  instantiates the guarantees of \<open>ArchiveProps\<close>, and shows two behaviours of the rotation that
  lose custody: an identity that does not load, and pruning beside another journal.
\<close>

section \<open>The rotation\<close>

definition demo_env :: "fault \<Rightarrow> rotation" where
  "demo_env fault = \<lparr>ro_now = 5, ro_stamp = ''20260101T000000Z'', ro_stats_fault = NoFault, ro_claim_fails = False,
     ro_replace_fails = False, ro_settled_fault = NoFault, ro_rollback_fails = False, ro_append_fault = fault,
     ro_undeletable = [], ro_others = (\<lambda>i d. d)\<rparr>"

definition demo_shelf :: "bytes \<Rightarrow> directory" where
  "demo_shelf f = [(''j.jsonl'', \<lparr>de_content = f, de_mtime = 1, de_regular = True\<rparr>)]"

definition demo_rotates :: "event \<Rightarrow> bytes \<Rightarrow> bool" where
  "demo_rotates e f \<longleftrightarrow>
     is_ok (fst (archive_journal toy_platform (demo_env NoFault) ''j.jsonl'' None (Inr (local_signer toy_platform ''k'')) 1 (demo_shelf f) []))
     \<and> (case verify_journal toy_platform (Some f) [''k''] None of Inr r \<Rightarrow> r_valid r | Inl _ \<Rightarrow> False)
     \<and> (CHR 0x0B \<notin> set f \<and> CHR 0x0C \<notin> set f) \<and> \<not> etype ''archive'' (sort_members e)"

lemma demo_rotation_runs:
  "case checkpoint_journal toy_platform ''j'' NoFault (local_signer toy_platform ''k'') 0 [] [] of
    (Inr (e, w), f, c) \<Rightarrow> demo_rotates e f | _ \<Rightarrow> False"
  by code_simp

lemma demo_facts: obtains e w f c where "demo_signed e w f c" "demo_rotates e f"
proof -
  obtain e w f c where "demo_signed e w f c" by (rule demo_signed_ex)
  with demo_rotation_runs that show ?thesis unfolding demo_signed_def by auto
qed

lemma demo_names: "portable_name ''j.jsonl''" "portable_name (ro_stamp (demo_env fault))"
  unfolding demo_env_def by code_simp+

lemma demo_quiet: "quiet (demo_env fault)" "appending (demo_env fault)"
  by (simp_all add: quiet_def appending_def demo_env_def)

lemma demo_spaced: "demo_rotates e f \<Longrightarrow> spaced (demo_shelf f)"
  by (auto simp: demo_rotates_def spaced_def demo_shelf_def json_space_only_def split: if_splits)

lemma demo_held:
  assumes "demo_signed e w f c" and "demo_rotates e f"
  shows "holds_file toy_platform [''k''] (demo_shelf f) (''j.jsonl'', [sort_members e])"
proof -
  from demo_journal(1) [OF assms(1)] have "parse_lines toy_platform (py_lines f) = Some [sort_members e]"
    by (simp add: healthy_def journal_valid_def)
  with assms(2) show ?thesis
    by (auto simp: holds_file_def demo_shelf_def verified_file_def demo_rotates_def split: sum.splits)
qed

lemma demo_custody:
  "demo_signed e w f c \<Longrightarrow> demo_rotates e f \<Longrightarrow>
   custody toy_platform [''k''] (demo_shelf f) [(''j.jsonl'', [sort_members e])]"
  using demo_held by (auto simp: demo_rotates_def)

lemma demo_chain:
  assumes "demo_signed e w f c" and "demo_rotates e f"
  shows "verify_archive_chain toy_platform [''k''] 10 (demo_shelf f) ''j.jsonl''
    = Some (Inr \<lparr>cr_files = [''j.jsonl''], cr_issues = []\<rparr>)"
  using chain_loop_complete [OF demo_custody [OF assms] demo_spaced [OF assms(2)], of "[]" 10 0 "[]"]
  by (simp add: verify_archive_chain_def in_reach_def)

section \<open>The guarantees apply\<close>

lemma archive_chain_exact_witness:
  "\<exists>d. spaced d \<and> (\<exists>rep. verify_archive_chain toy_platform [''k''] 10 d ''j.jsonl'' = Some (Inr rep)
     \<and> chain_valid rep \<and> cr_files rep = [''j.jsonl''])"
proof (rule demo_facts)
  fix e w f c assume d: "demo_signed e w f c" "demo_rotates e f"
  have "\<exists>cs. custody toy_platform [''k''] (demo_shelf f) cs \<and> map fst cs = [''j.jsonl''] \<and> fst (hd cs) = ''j.jsonl''
      \<and> distinct [''j.jsonl''] \<and> in_reach 10 0 [''j.jsonl'']"
    using demo_custody [OF d] by (intro exI [of _ "[(''j.jsonl'', [sort_members e])]"]) (simp add: in_reach_def)
  with archive_chain_exact [OF demo_spaced [OF d(2)], of toy_platform "[''k'']" 10 "''j.jsonl''" "[''j.jsonl'']"]
    demo_spaced [OF d(2)] show ?thesis by (intro exI [of _ "demo_shelf f"]) simp
qed

lemma live_file_determines_archives_witness:
  "\<exists>d rep. verify_archive_chain toy_platform [''k''] 10 d ''j.jsonl'' = Some (Inr rep) \<and> chain_valid rep
     \<and> (\<forall>name \<in> set (cr_files rep). \<exists>es. holds_file toy_platform [''k''] d (name, es))"
proof (rule demo_facts)
  fix e w f c assume d: "demo_signed e w f c" "demo_rotates e f"
  let ?rep = "\<lparr>cr_files = [''j.jsonl''], cr_issues = []\<rparr> :: chain_report"
  have v: "chain_valid ?rep" by (simp add: chain_valid_def)
  have "holds_file toy_platform [''k''] (demo_shelf f) x \<Longrightarrow> snd x = [sort_members e]" for x
    using demo_held [OF d] verified_unique by (auto simp: holds_file_def demo_shelf_def split: if_splits)
  then have ev: "held_events toy_platform [''k''] (demo_shelf f) \<subseteq> {sort_members e}"
    unfolding held_events_def by fastforce
  have "event_wf toy_platform (sort_members e)"
    using json_wf_jsort [OF demo_journal(3) [OF d(1)]] by (simp add: jsort_JObj del: jsort.simps json_wf.simps)
  then have "\<forall>e \<in> held_events toy_platform [''k''] (demo_shelf f) \<union> held_events toy_platform [''k''] (demo_shelf f).
      event_wf toy_platform e" using ev by auto
  moreover have "inj_on (sha256 toy_platform) (payload_text toy_platform `
      (held_events toy_platform [''k''] (demo_shelf f) \<union> held_events toy_platform [''k''] (demo_shelf f)))"
    by (rule inj_on_subset [of _ "{payload_text toy_platform (sort_members e)}"]) (use ev in auto)
  ultimately have "\<forall>name \<in> set (cr_files ?rep). \<exists>es es'. holds_file toy_platform [''k''] (demo_shelf f) (name, es)
      \<and> holds_file toy_platform [''k''] (demo_shelf f) (name, es') \<and> payloads es = payloads es'"
    using live_file_determines_archives [OF demo_chain [OF d] v demo_chain [OF d] v refl demo_spaced [OF d(2)] demo_spaced [OF d(2)]]
    by blast
  with demo_chain [OF d] v show ?thesis by (intro exI [of _ "demo_shelf f"] exI [of _ ?rep]) auto
qed

lemma archive_loses_nothing_witness:
  "\<exists>f d'. moved ''j.jsonl'' (demo_shelf f) d' \<and> f \<noteq> []"
proof (rule demo_facts)
  fix e w f c assume d: "demo_signed e w f c" "demo_rotates e f"
  obtain r d' c' where a: "archive_journal toy_platform (demo_env NoFault) ''j.jsonl'' None
      (Inr (local_signer toy_platform ''k'')) 1 (demo_shelf f) [] = (r, d', c')"
    by (cases "archive_journal toy_platform (demo_env NoFault) ''j.jsonl'' None
      (Inr (local_signer toy_platform ''k'')) 1 (demo_shelf f) []") 
  have "f \<noteq> []" using demo_journal(1) [OF d(1)] by (auto simp: healthy_def journal_valid_def)
  with archive_loses_nothing [OF a demo_quiet(2)] show ?thesis by blast
qed

lemma rotation_extends_chain_witness:
  "\<exists>d' a r. verify_archive_chain toy_platform [''k''] 10 d' ''j.jsonl'' = Some (Inr r) \<and> chain_valid r
     \<and> cr_files r = [''j.jsonl'', a]"
proof (rule demo_facts)
  fix e w f c assume d: "demo_signed e w f c" "demo_rotates e f"
  then obtain rep d' c' where a: "archive_journal toy_platform (demo_env NoFault) ''j.jsonl'' None
      (Inr (local_signer toy_platform ''k'')) 1 (demo_shelf f) [] = (Inr rep, d', c')"
    by (cases "archive_journal toy_platform (demo_env NoFault) ''j.jsonl'' None
      (Inr (local_signer toy_platform ''k'')) 1 (demo_shelf f) []") (auto simp: demo_rotates_def is_ok_iff)
  have h: "healthy toy_platform (to_keyring toy_platform [''k'']) (contents (demo_shelf f) ''j.jsonl'') [sort_members e]"
    using demo_journal(1) [OF d(1)] by (simp add: contents_def demo_shelf_def)
  from rotation_extends_chain [OF a demo_quiet(1) demo_chain [OF d] _ demo_spaced [OF d(2)] h _ demo_names demo_ring
      ed_correct_toy ascii_stamps_toy]
  show ?thesis by (auto simp: chain_valid_def)
qed

section \<open>Two ways to lose custody\<close>

text \<open>
  The identity is loaded after the rename, outside the guarded part: if it does not load, the journal
  is gone from its path, no link exists, and the archive chain of the next journal at that path does
  not know the archived file.
\<close>

lemma unloadable_identity_orphans_archive:
  assumes "move_live P ro live d = (Inr (a, cnt, head), d1)"
  shows "archive_journal P ro live None (Inl x) n d c = (Inl x, d1, c)"
  using assms by (simp add: archive_journal_def)

text \<open>
  Pruning selects by the name pattern alone: a sibling journal whose name starts like the archives
  of this one is deleted as an archive.
\<close>

lemma pruning_deletes_sibling_journal:
  "fst (prune_archives ''journal.jsonl'' 1 []
     [(''journal-eu.jsonl'', \<lparr>de_content = ''x'', de_mtime = 1, de_regular = True\<rparr>),
      (''journal-20260101T000000Z.jsonl'', \<lparr>de_content = ''y'', de_mtime = 2, de_regular = True\<rparr>)])
   = [''journal-eu.jsonl'']"
  by code_simp

end
