(* ===== verification/Privacy.thy ===== *)
theory Privacy
  imports Records Redaction JsonSpace
begin

text \<open>
  Privacy inspection (\<open>privacy.py\<close>): which argument values a verified journal still holds, by the
  retention records of its decisions or, in old journals, by parsing their summaries. The report
  keeps names and classes; the explanations are left out. \<open>ident\<close> is \<open>str.isidentifier\<close>, which
  rests on Unicode data.
\<close>

section \<open>Retention records\<close>

datatype privacy_class = FULLY_REDACTED | PARTIALLY_REDACTED | NO_ARGUMENTS | UNKNOWN

type_synonym classified = "privacy_class \<times> string list"

definition RETENTION_STATES :: "string list" where
  "RETENTION_STATES = [''redacted'', ''retained'', ''unsupported'']"

text \<open>The names and states in order, and whether all records were well-formed.\<close>

fun retention_records :: "json list \<Rightarrow> (string \<times> string) list \<Rightarrow> exn + bool \<times> (string \<times> string) list" where
  "retention_records [] acc = Inr (True, acc)"
| "retention_records (r # rs) acc =
     (case r of
        JObj d \<Rightarrow>
          (case jget d ''name'' of
             JStr name \<Rightarrow>
               (if \<not> hashable (jget d ''state'') then Inl TypeError
                else case jget d ''state'' of
                  JStr state \<Rightarrow>
                    (if state \<notin> set RETENTION_STATES then Inr (False, acc)
                     else if name \<in> set (map fst acc) then Inr (False, acc)
                     else retention_records rs (acc @ [(name, state)]))
                | _ \<Rightarrow> Inr (False, acc))
           | _ \<Rightarrow> Inr (False, acc))
      | _ \<Rightarrow> Inr (False, acc))"

definition classify_retention :: "json \<Rightarrow> exn + classified" where
  "classify_retention v =
     (case v of
        JArr rs \<Rightarrow>
          (if rs = [] then Inr (NO_ARGUMENTS, [])
           else bindR (retention_records rs []) (\<lambda>(ok, acc).
             Inr (if \<not> ok then (UNKNOWN, map fst acc)
                  else if ''unsupported'' \<in> set (map snd acc) then (UNKNOWN, sort (map fst acc))
                  else if ''retained'' \<in> set (map snd acc)
                    then (PARTIALLY_REDACTED, map fst (filter (\<lambda>(_, state). state = ''retained'') acc))
                  else (FULLY_REDACTED, []))))
      | _ \<Rightarrow> Inr (UNKNOWN, []))"

section \<open>Summaries\<close>

lemma field_shrinks:
  assumes "CHR ''='' \<in> set s" and "read_value P n (tl (dropWhile (\<lambda>c. c \<noteq> CHR ''='') s)) = Some (v, r)"
  shows "length (drop 2 r) < length s" and "length r - 2 < length s"
proof -
  have "s \<noteq> []" using assms(1) by auto
  then have "length (tl (dropWhile (\<lambda>c. c \<noteq> CHR ''='') s)) < length s"
    using length_dropWhile_le [of "\<lambda>c. c \<noteq> CHR ''=''" s] by (cases s) (auto simp: less_Suc_eq_le)
  with read_shrinks(1) [OF assms(2)] show "length (drop 2 r) < length s" "length r - 2 < length s" by simp_all
qed

text \<open>The loop over \<open>name=value\<close> fields: whether it ran to the end, and the fields read.\<close>

function summary_fields ::
  "platform \<Rightarrow> (string \<Rightarrow> bool) \<Rightarrow> string \<Rightarrow> (string \<times> json) list \<Rightarrow> bool \<times> (string \<times> json) list" where
  "summary_fields P ident s acc =
     (if s = [] then (True, acc)
      else if CHR ''='' \<notin> set s then (False, acc)
      else
        (let name = takeWhile (\<lambda>c. c \<noteq> CHR ''='') s; rest = tl (dropWhile (\<lambda>c. c \<noteq> CHR ''='') s) in
         if \<not> ident name \<or> name \<in> set (map fst acc) then (False, acc)
         else case read_value P (read_fuel rest) rest of
           None \<Rightarrow> (False, acc)
         | Some (v, r) \<Rightarrow>
             (if r = [] then (True, acc @ [(name, v)])
              else if \<not> starts_with '', '' r then (False, acc @ [(name, v)])
              else summary_fields P ident (drop 2 r) (acc @ [(name, v)]))))"
  by pat_completeness auto
termination
  by (relation "measure (\<lambda>(P, ident, s, acc). length s)") (auto intro: field_shrinks(2))

declare summary_fields.simps [simp del]

text \<open>\<open>_parse_exact_summary\<close>: only a summary that prints back to itself is believed.\<close>

definition parse_exact_summary ::
  "platform \<Rightarrow> (string \<Rightarrow> bool) \<Rightarrow> string \<Rightarrow> (string \<times> json) list option \<times> string list" where
  "parse_exact_summary P ident summary =
     (if ends_with ''...(truncated)'' summary then (None, [])
      else (let (ok, parsed) = summary_fields P ident summary []; names = map fst parsed in
            if \<not> ok then (None, names)
            else if names \<noteq> sort names \<or> bounded_summary P (JObj parsed) \<noteq> summary then (None, names)
            else (Some parsed, names)))"

definition unsupported_value :: "json \<Rightarrow> bool" where
  "unsupported_value v = (case v of JStr s \<Rightarrow> starts_with UNSUPPORTED_MARKER s | _ \<Rightarrow> False)"

definition classify_summary :: "platform \<Rightarrow> (string \<Rightarrow> bool) \<Rightarrow> json \<Rightarrow> classified" where
  "classify_summary P ident summary =
     (case summary of
        JStr s \<Rightarrow>
          (if s = [] then (NO_ARGUMENTS, [])
           else case parse_exact_summary P ident s of
             (None, names) \<Rightarrow> (UNKNOWN, names)
           | (Some parsed, _) \<Rightarrow>
               (let kept = filter (\<lambda>(_, v). v \<noteq> JStr REDACTED) parsed;
                    unsupported = map fst (filter (\<lambda>(_, v). unsupported_value v) kept);
                    retained = map fst (filter (\<lambda>(_, v). \<not> unsupported_value v) kept)
                in if unsupported \<noteq> [] then (UNKNOWN, sort (retained @ unsupported))
                   else if retained \<noteq> [] then (PARTIALLY_REDACTED, sort retained)
                   else (FULLY_REDACTED, [])))
      | _ \<Rightarrow> (UNKNOWN, []))"

definition classify_event :: "platform \<Rightarrow> (string \<Rightarrow> bool) \<Rightarrow> event \<Rightarrow> exn + classified" where
  "classify_event P ident e =
     (if jget e ''parameter_retention'' = JNull
      then Inr (classify_summary P ident (jget e ''redacted_input_summary''))
      else classify_retention (jget e ''parameter_retention''))"

section \<open>The report\<close>

definition outcome_discloses :: "event \<Rightarrow> bool" where
  "outcome_discloses e \<longleftrightarrow>
     (case jget e ''receipt'' of JObj d \<Rightarrow> d \<noteq> [] | _ \<Rightarrow> False)
     \<or> (case jget e ''sanitized_error_summary'' of JStr s \<Rightarrow> s \<noteq> [] | _ \<Rightarrow> False)"

record action_privacy =
  ap_action_name :: string
  ap_class :: privacy_class
  ap_names :: "string list"

record privacy_report =
  pv_events :: nat
  pv_decisions :: nat
  pv_outcomes :: nat
  pv_allowed :: nat
  pv_denied :: nat
  pv_succeeded :: nat
  pv_failed :: nat
  pv_actions :: "action_privacy list"
  pv_disclosing :: "string list"

definition class_count :: "privacy_class \<Rightarrow> privacy_report \<Rightarrow> nat" where
  "class_count c rep = length (filter (\<lambda>a. ap_class a = c) (pv_actions rep))"

definition safe_for_upload :: "privacy_report \<Rightarrow> bool" where
  "safe_for_upload rep \<longleftrightarrow>
     class_count PARTIALLY_REDACTED rep = 0 \<and> class_count UNKNOWN rep = 0 \<and> pv_disclosing rep = []"

definition inspect_action :: "platform \<Rightarrow> (string \<Rightarrow> bool) \<Rightarrow> event \<Rightarrow> exn + action_privacy" where
  "inspect_action P ident e =
     bindR (classify_event P ident e) (\<lambda>(c, names).
       Inr \<lparr>ap_action_name = (case jget e ''action_name'' of JStr s \<Rightarrow> s | _ \<Rightarrow> ''<unknown-action>''),
            ap_class = c, ap_names = names\<rparr>)"

text \<open>One event into the counts and lists.\<close>

definition inspect_step :: "platform \<Rightarrow> (string \<Rightarrow> bool) \<Rightarrow> event \<Rightarrow> privacy_report \<Rightarrow> exn + privacy_report" where
  "inspect_step P ident e rep =
     (if etype ''decision'' e then
        bindR (inspect_action P ident e) (\<lambda>a.
          Inr (rep\<lparr>pv_decisions := Suc (pv_decisions rep),
                   pv_allowed := pv_allowed rep + of_bool (jget e ''decision'' = JStr ''allowed''),
                   pv_denied := pv_denied rep + of_bool (jget e ''decision'' = JStr ''denied''),
                   pv_actions := pv_actions rep @ [a]\<rparr>))
      else if etype ''outcome'' e then
        Inr (rep\<lparr>pv_outcomes := Suc (pv_outcomes rep),
                 pv_succeeded := pv_succeeded rep + of_bool (jget e ''status'' = JStr ''succeeded''),
                 pv_failed := pv_failed rep + of_bool (jget e ''status'' = JStr ''failed''),
                 pv_disclosing := pv_disclosing rep
                   @ (if outcome_discloses e
                      then [case jget e ''event_id'' of JStr i \<Rightarrow> i | _ \<Rightarrow> ''<unknown>''] else [])\<rparr>)
      else Inr rep)"

fun inspect_events :: "platform \<Rightarrow> (string \<Rightarrow> bool) \<Rightarrow> event list \<Rightarrow> privacy_report \<Rightarrow> exn + privacy_report" where
  "inspect_events P ident [] rep = Inr rep"
| "inspect_events P ident (e # es) rep = bindR (inspect_step P ident e rep) (inspect_events P ident es)"

definition inspect_verified_snapshot :: "platform \<Rightarrow> (string \<Rightarrow> bool) \<Rightarrow> event list \<Rightarrow> exn + privacy_report" where
  "inspect_verified_snapshot P ident es =
     inspect_events P ident es
       \<lparr>pv_events = length es, pv_decisions = 0, pv_outcomes = 0, pv_allowed = 0, pv_denied = 0,
        pv_succeeded = 0, pv_failed = 0, pv_actions = [], pv_disclosing = []\<rparr>"

text \<open>
  \<open>inspect_journal\<close>. The journal is None when it does not exist, and then unreadable or its content;
  \<open>pinned\<close> are the key files given, otherwise the trusted keys of the home are used.
\<close>

definition inspection_keys :: "home \<Rightarrow> keyfile list option \<Rightarrow> exn + bytes list" where
  "inspection_keys hm pinned =
     (case (case pinned of
              Some paths \<Rightarrow> if paths = [] then Inl EvidencePrivacyInspectionError else mapR load_key paths
            | None \<Rightarrow> load_trusted_public_keys hm) of
        Inl x \<Rightarrow> Inl (if x \<in> {IdentityError, OSError} then EvidencePrivacyInspectionError else x)
      | Inr keys \<Rightarrow> if keys = [] then Inl EvidencePrivacyInspectionError else Inr keys)"

definition inspect_journal ::
  "platform \<Rightarrow> (string \<Rightarrow> bool) \<Rightarrow> home \<Rightarrow> keyfile list option \<Rightarrow> bytes option option \<Rightarrow> exn + privacy_report" where
  "inspect_journal P ident hm pinned journal =
     (case journal of
        None \<Rightarrow> Inl EvidencePrivacyInspectionError
      | Some file \<Rightarrow>
          bindR (inspection_keys hm pinned) (\<lambda>keys.
          bindR (load_journal_snapshot P file keys (\<lambda>e. e)) (\<lambda>(r, es).
            if \<not> r_valid r then Inl EvidencePrivacyInspectionError
            else inspect_verified_snapshot P ident es)))"

end
