(* ===== verification/PrivacyProps.thy ===== *)
theory PrivacyProps
  imports Privacy EngineProps
begin

text \<open>
  What a privacy report is worth: a journal reported safe holds no argument values, and the records
  that the engine writes are classified by exactly what the canonical input was.
\<close>

section \<open>A safe report\<close>

text \<open>Every record of a decision is redacted, or its summary prints redacted values only.\<close>

definition redacted_record :: "json \<Rightarrow> bool" where
  "redacted_record r \<longleftrightarrow> (\<exists>d name. r = JObj d \<and> jget d ''name'' = JStr name \<and> jget d ''state'' = JStr ''redacted'')"

definition nothing_retained :: "platform \<Rightarrow> event \<Rightarrow> bool" where
  "nothing_retained P e \<longleftrightarrow>
     (case jget e ''parameter_retention'' of
        JNull \<Rightarrow> \<exists>d. jget e ''redacted_input_summary'' = JStr (bounded_summary P (JObj d)) \<and> (\<forall>(k, v) \<in> set d. v = JStr REDACTED)
      | JArr rs \<Rightarrow> \<forall>r \<in> set rs. redacted_record r
      | _ \<Rightarrow> False)"

lemma retention_records_sound:
  "retention_records rs acc = Inr (True, acc') \<Longrightarrow> \<forall>(name, state) \<in> set acc'. state = ''redacted'' \<Longrightarrow>
   \<forall>r \<in> set rs. redacted_record r"
proof (induction rs arbitrary: acc)
  case (Cons r rs)
  then obtain d name state where r: "r = JObj d" "jget d ''name'' = JStr name" "jget d ''state'' = JStr state"
    "retention_records rs (acc @ [(name, state)]) = Inr (True, acc')"
    by (auto split: json.splits if_splits)
  have "set acc \<subseteq> set acc'" if "retention_records rs acc = Inr (True, acc')" for acc
    using that by (induction rs arbitrary: acc) (fastforce split: json.splits if_splits)+
  from this [OF r(4)] Cons.prems(2) have "state = ''redacted''" by auto
  with r Cons.IH [OF r(4) Cons.prems(2)] show ?case by (auto simp: redacted_record_def)
qed simp

lemma retention_records_states:
  "retention_records rs acc = Inr (ok, acc') \<Longrightarrow> \<forall>x \<in> set acc. snd x \<in> set RETENTION_STATES \<Longrightarrow>
   \<forall>x \<in> set acc'. snd x \<in> set RETENTION_STATES"
proof (induction rs arbitrary: acc)
  case (Cons r rs)
  then show ?case
    by (auto split: json.splits if_splits)
qed auto

lemma retention_states: "set RETENTION_STATES = {''redacted'', ''retained'', ''unsupported''}"
  by (simp add: RETENTION_STATES_def)

lemma only_first:
  "\<forall>x \<in> set xs. snd x \<in> {a, b, c} \<Longrightarrow> b \<notin> set (map snd xs) \<Longrightarrow> c \<notin> set (map snd xs) \<Longrightarrow>
   \<forall>(k, v) \<in> set xs. v = a"
  by force

lemma classify_retention_ok:
  assumes "rs \<noteq> []" and "retention_records rs [] = Inr (True, acc)"
  shows "classify_retention (JArr rs) = Inr
      (if ''unsupported'' \<in> set (map snd acc) then (UNKNOWN, sort (map fst acc))
       else if ''retained'' \<in> set (map snd acc)
         then (PARTIALLY_REDACTED, map fst (filter (\<lambda>(_, state). state = ''retained'') acc))
       else (FULLY_REDACTED, []))"
  using assms by (simp add: classify_retention_def)

lemma classify_safe:
  assumes "classify_event P ident e = Inr (c, names)" and "c \<in> {FULLY_REDACTED, NO_ARGUMENTS}"
  shows "nothing_retained P e"
proof (cases "jget e ''parameter_retention'' = JNull")
  case True
  with assms have s: "classify_summary P ident (jget e ''redacted_input_summary'') = (c, names)" by (simp add: classify_event_def)
  then obtain s where s': "jget e ''redacted_input_summary'' = JStr s"
    using assms(2) by (auto simp: classify_summary_def split: json.splits)
  show ?thesis
  proof (cases "s = []")
    case True
    then have "s = bounded_summary P (JObj [])" using py_len_le [of "[]"] by (simp add: truncate_text_def)
    with s' \<open>jget e ''parameter_retention'' = JNull\<close> show ?thesis
      by (auto simp: nothing_retained_def intro!: exI [of _ "[]"])
  next
    case False
    with s s' assms(2) obtain d ns where p: "parse_exact_summary P ident s = (Some d, ns)"
      by (auto simp: classify_summary_def split: prod.splits option.splits)
    with s s' False assms(2) have "\<forall>(k, v) \<in> set d. v = JStr REDACTED"
      by (auto simp: classify_summary_def Let_def filter_empty_conv split: if_splits)
    moreover from p have "s = bounded_summary P (JObj d)"
      by (auto simp: parse_exact_summary_def Let_def split: if_splits prod.splits)
    ultimately show ?thesis using s' True by (auto simp: nothing_retained_def)
  qed
next
  case False
  with assms(1) have c: "classify_retention (jget e ''parameter_retention'') = Inr (c, names)" by (simp add: classify_event_def)
  then obtain rs where rs: "jget e ''parameter_retention'' = JArr rs"
    using assms(2) by (auto simp: classify_retention_def split: json.splits)
  show ?thesis
  proof (cases "rs = []")
    case True
    with rs show ?thesis by (simp add: nothing_retained_def)
  next
    case ne: False
    with c rs obtain ok acc where a: "retention_records rs [] = Inr (ok, acc)"
      by (auto simp: classify_retention_def bindR_Inr_iff)
    with c rs ne assms(2) have "ok" "''unsupported'' \<notin> set (map snd acc)" "''retained'' \<notin> set (map snd acc)"
      by (auto simp: classify_retention_def split: if_splits)
    moreover from retention_records_states [OF a] have "\<forall>x \<in> set acc. snd x \<in> set RETENTION_STATES" by simp
    ultimately have "\<forall>(name, state) \<in> set acc. state = ''redacted''"
      unfolding retention_states by (intro only_first)
    with retention_records_sound [of rs "[]" acc] a \<open>ok\<close> rs show ?thesis by (simp add: nothing_retained_def)
  qed
qed

lemma inspect_step_mono:
  "inspect_step P ident e rep = Inr rep' \<Longrightarrow>
   set (pv_actions rep) \<subseteq> set (pv_actions rep') \<and> set (pv_disclosing rep) \<subseteq> set (pv_disclosing rep')"
  by (auto simp: inspect_step_def bindR_Inr_iff split: if_splits)

lemma inspect_events_mono:
  "inspect_events P ident es rep = Inr rep' \<Longrightarrow>
   set (pv_actions rep) \<subseteq> set (pv_actions rep') \<and> set (pv_disclosing rep) \<subseteq> set (pv_disclosing rep')"
proof (induction es arbitrary: rep)
  case (Cons e es)
  then obtain rep1 where "inspect_step P ident e rep = Inr rep1" "inspect_events P ident es rep1 = Inr rep'"
    by (auto simp: bindR_Inr_iff)
  with Cons.IH inspect_step_mono show ?case by fast
qed simp

lemma inspect_events_mem:
  "inspect_events P ident es rep = Inr rep' \<Longrightarrow> e \<in> set es \<Longrightarrow>
   (etype ''decision'' e \<longrightarrow> (\<exists>a \<in> set (pv_actions rep'). inspect_action P ident e = Inr a))
   \<and> (etype ''outcome'' e \<longrightarrow> outcome_discloses e \<longrightarrow> pv_disclosing rep' \<noteq> [])"
proof (induction es arbitrary: rep)
  case (Cons x es)
  then obtain rep1 where s: "inspect_step P ident x rep = Inr rep1" "inspect_events P ident es rep1 = Inr rep'"
    by (auto simp: bindR_Inr_iff)
  show ?case
  proof (cases "e = x")
    case True
    note m = inspect_events_mono [OF s(2)]
    have "etype ''decision'' e \<Longrightarrow> \<exists>a \<in> set (pv_actions rep'). inspect_action P ident e = Inr a"
      using s(1) m True by (auto simp: inspect_step_def bindR_Inr_iff)
    moreover have "etype ''outcome'' e \<Longrightarrow> outcome_discloses e \<Longrightarrow> pv_disclosing rep1 \<noteq> []"
      using s(1) True by (auto simp: inspect_step_def etype_exclusive bindR_Inr_iff split: if_splits)
    ultimately show ?thesis using m by auto
  next
    case False
    with Cons.prems(2) Cons.IH [OF s(2)] show ?thesis by auto
  qed
qed simp

lemma safe_report:
  assumes "inspect_verified_snapshot P ident es = Inr rep" and "safe_for_upload rep" and "e \<in> set es"
  shows "(etype ''decision'' e \<longrightarrow> nothing_retained P e) \<and> (etype ''outcome'' e \<longrightarrow> \<not> outcome_discloses e)"
proof -
  note m = inspect_events_mem [OF assms(1) [unfolded inspect_verified_snapshot_def] assms(3)]
  have "nothing_retained P e" if "etype ''decision'' e"
  proof -
    from m that obtain a where a: "a \<in> set (pv_actions rep)" "inspect_action P ident e = Inr a" by blast
    from a(1) assms(2) have "ap_class a \<noteq> PARTIALLY_REDACTED" "ap_class a \<noteq> UNKNOWN"
      by (auto simp: safe_for_upload_def class_count_def filter_empty_conv)
    then have "ap_class a \<in> {FULLY_REDACTED, NO_ARGUMENTS}" by (cases "ap_class a") auto
    with a(2) show ?thesis by (auto simp: inspect_action_def bindR_Inr_iff intro: classify_safe)
  qed
  with m assms(2) show ?thesis by (auto simp: safe_for_upload_def)
qed

text \<open>
  C28: A journal that the inspection reports as safe for upload discloses nothing it looks at: every
  retention record of every decision says redacted (in old journals, its summary is the text of
  redacted values only), and no outcome carries a receipt or an error summary.
\<close>

theorem safe_upload_sound:
  assumes "inspect_verified_snapshot P ident es = Inr rep" and "safe_for_upload rep" and "e \<in> set es"
  shows "(etype ''decision'' e \<longrightarrow> nothing_retained P e) \<and> (etype ''outcome'' e \<longrightarrow> \<not> outcome_discloses e)"
  using assms by (rule safe_report)

section \<open>What the engine records\<close>

definition members_class :: "(string \<times> json) list \<Rightarrow> classified" where
  "members_class d =
     (if d = [] then (NO_ARGUMENTS, [])
      else if \<exists>(k, v) \<in> set d. unsupported_value v then (UNKNOWN, sort (map fst d))
      else if \<exists>(k, v) \<in> set d. v \<noteq> JStr REDACTED
        then (PARTIALLY_REDACTED, sort (map fst (filter (\<lambda>(k, v). v \<noteq> JStr REDACTED) d)))
      else (FULLY_REDACTED, []))"

definition member_state :: "json \<Rightarrow> string" where
  "member_state v = (if v = JStr REDACTED then ''redacted'' else if unsupported_value v then ''unsupported'' else ''retained'')"

definition member_record :: "string \<times> json \<Rightarrow> json" where
  "member_record x = JObj [(''name'', JStr (fst x)), (''state'', JStr (member_state (snd x)))]"

lemma parameter_retention_records: "parameter_retention d = JArr (map member_record (sort_key fst d))"
  by (auto simp: parameter_retention_def member_record_def member_state_def unsupported_value_def)

lemma not_unsupported_redacted: "\<not> unsupported_value (JStr REDACTED)"
  by (simp add: unsupported_value_def REDACTED_def UNSUPPORTED_MARKER_def starts_with_def)

lemma member_state_simps:
  "member_state v = ''redacted'' \<longleftrightarrow> v = JStr REDACTED" "member_state v = ''unsupported'' \<longleftrightarrow> unsupported_value v"
  "member_state v = ''retained'' \<longleftrightarrow> v \<noteq> JStr REDACTED \<and> \<not> unsupported_value v"
  "member_state v \<in> set RETENTION_STATES"
  using not_unsupported_redacted by (auto simp: member_state_def RETENTION_STATES_def)

lemma retention_records_members:
  "distinct (map fst acc @ map fst d) \<Longrightarrow>
   retention_records (map member_record d) acc = Inr (True, acc @ map (\<lambda>x. (fst x, member_state (snd x))) d)"
proof (induction d arbitrary: acc)
  case (Cons x d)
  from Cons.IH [of "acc @ [(fst x, member_state (snd x))]"] Cons.prems show ?case
    by (auto simp: member_record_def jget_def member_state_simps(4))
qed simp

lemma map_insort_key: "map f (insort_key f x xs) = insort (f x) (map f xs)"
  by (induction xs) simp_all

lemma map_fst_sort_key: "map fst (sort_key fst d) = sort (map fst d)"
  by (induction d) (simp_all add: map_insort_key)

lemma jsort_records: "jsort (parameter_retention d) = parameter_retention d"
  by (simp add: parameter_retention_records member_record_def)

lemma classify_members:
  assumes "distinct (map fst d)"
  shows "classify_retention (parameter_retention d) = Inr (members_class d)"
proof (cases "d = []")
  case False
  let ?s = "sort_key fst d"
  let ?acc = "map (\<lambda>x. (fst x, member_state (snd x))) ?s"
  have "distinct (map fst ?s)" using assms by (simp add: map_fst_sort_key)
  from retention_records_members [of "[]" ?s] this
  have r: "retention_records (map member_record ?s) [] = Inr (True, ?acc)" by simp
  have ne: "map member_record ?s \<noteq> []" using False by (metis Nil_is_map_conv length_0_conv length_sort)
  have names: "map fst ?acc = sort (map fst d)" by (simp add: map_fst_sort_key comp_def)
  have mem: "s \<in> set (map snd ?acc) \<longleftrightarrow> (\<exists>x \<in> set d. member_state (snd x) = s)" for s by auto
  have un: "''unsupported'' \<in> set (map snd ?acc) \<longleftrightarrow> (\<exists>(k, v) \<in> set d. unsupported_value v)"
    unfolding mem member_state_simps(2) split_def ..
  have kept: "map fst (filter (\<lambda>(_, state). state = ''retained'') ?acc)
      = sort (map fst (filter (\<lambda>(k, v). v \<noteq> JStr REDACTED) d))" if "\<not> (\<exists>(k, v) \<in> set d. unsupported_value v)"
  proof -
    have "filter (\<lambda>(_, state). state = ''retained'') ?acc
        = map (\<lambda>x. (fst x, member_state (snd x))) (filter (\<lambda>x. member_state (snd x) = ''retained'') ?s)"
      by (simp add: filter_map comp_def)
    also have "filter (\<lambda>x. member_state (snd x) = ''retained'') ?s = sort_key fst (filter (\<lambda>x. member_state (snd x) = ''retained'') d)"
      by (rule filter_sort_key)
    also have "filter (\<lambda>x. member_state (snd x) = ''retained'') d = filter (\<lambda>(k, v). v \<noteq> JStr REDACTED) d"
      using that by (intro filter_cong) (auto simp: member_state_simps(3))
    finally show ?thesis by (simp add: comp_def map_fst_sort_key [symmetric] del: map_map) (simp add: comp_def)
  qed
  have ret: "''retained'' \<in> set (map snd ?acc) \<longleftrightarrow> (\<exists>(k, v) \<in> set d. v \<noteq> JStr REDACTED)"
    if "\<not> (\<exists>(k, v) \<in> set d. unsupported_value v)"
    using that unfolding mem member_state_simps(3) split_def by blast
  have "classify_retention (parameter_retention d) = Inr
      (if ''unsupported'' \<in> set (map snd ?acc) then (UNKNOWN, sort (map fst ?acc))
       else if ''retained'' \<in> set (map snd ?acc)
         then (PARTIALLY_REDACTED, map fst (filter (\<lambda>(_, state). state = ''retained'') ?acc))
       else (FULLY_REDACTED, []))"
    unfolding parameter_retention_records by (rule classify_retention_ok [OF ne r])
  also have "\<dots> = Inr (members_class d)"
  proof (cases "\<exists>(k, v) \<in> set d. unsupported_value v")
    case True
    have "sort (sort (map fst d)) = sort (map fst d)" by (rule sorted_sort_id) simp
    then show ?thesis unfolding un names members_class_def if_P [OF True] if_not_P [OF False] by (rule arg_cong)
  next
    case none: False
    show ?thesis unfolding un members_class_def ret [OF none] kept [OF none] if_not_P [OF none] if_not_P [OF False] ..
  qed
  finally show ?thesis .
qed (simp add: parameter_retention_def classify_retention_def members_class_def)

lemma build_decision_retention:
  assumes "build_event P c sg n ''decision'' (decision_extra k inp key spend v) prev = Inr e"
  shows "jget e ''parameter_retention'' = parameter_retention (in_members inp)"
  using finalize_dget [OF assms [unfolded build_event_def decision_payload], of "''parameter_retention''"]
  by (simp add: event_field_simps)

text \<open>
  The engine's records and the inspection agree: a decision that the engine appended is classified
  by its canonical input alone (unknown if a value is an unsupported placeholder, partially redacted
  with exactly the names of the other values that are not the redaction marker, fully redacted if
  every value is the marker), and if the journal is reported safe then every recorded argument is
  the redaction marker.
\<close>

theorem engine_decisions_classified:
  assumes e: "build_event P c sg n ''decision'' (decision_extra k inp key spend v) prev = Inr e"
    and d: "distinct (map fst (in_members inp))"
  shows "classify_event P ident (sort_members e) = Inr (members_class (in_members inp))
    \<and> (\<forall>es rep. inspect_verified_snapshot P ident es = Inr rep \<longrightarrow> safe_for_upload rep \<longrightarrow> sort_members e \<in> set es \<longrightarrow>
         (\<forall>(name, value) \<in> set (in_members inp). value = JStr REDACTED))"
proof -
  have r: "jget (sort_members e) ''parameter_retention'' = parameter_retention (in_members inp)"
    using build_decision_retention [OF e] by (simp add: jsort_records)
  have c: "classify_event P ident (sort_members e) = Inr (members_class (in_members inp))"
    unfolding classify_event_def r using classify_members [OF d] by (simp add: parameter_retention_def)
  moreover have "\<forall>(name, value) \<in> set (in_members inp). value = JStr REDACTED"
    if i: "inspect_verified_snapshot P ident es = Inr rep" "safe_for_upload rep" "sort_members e \<in> set es" for es rep
  proof -
    have "etype ''decision'' (sort_members e)"
      using build_decision_fields(1) [OF e] by (simp add: etype_def)
    with safe_report [OF i] have "nothing_retained P (sort_members e)" by blast
    then have "\<forall>x \<in> set (in_members inp). redacted_record (member_record x)"
      unfolding nothing_retained_def r parameter_retention_records by simp
    then show ?thesis by (auto simp: redacted_record_def member_record_def jget_def member_state_simps(1))
  qed
  ultimately show ?thesis by blast
qed

section \<open>A concrete snapshot\<close>

definition demo_snapshot :: "event list" where
  "demo_snapshot =
    [[(''event_type'', JStr ''decision''), (''decision'', JStr ''allowed''), (''action_name'', JStr ''pay''),
      (''parameter_retention'', parameter_retention [(''pin'', JStr REDACTED)])],
     [(''event_type'', JStr ''decision''), (''decision'', JStr ''allowed''), (''action_name'', JStr ''old''),
      (''redacted_input_summary'', JStr (''pin='' @ dump_str REDACTED))],
     [(''event_type'', JStr ''outcome''), (''status'', JStr ''succeeded'')]]"

lemma safe_upload_sound_witness:
  "\<exists>rep. inspect_verified_snapshot toy_platform (\<lambda>s. s \<noteq> []) demo_snapshot = Inr rep \<and> safe_for_upload rep
     \<and> nothing_retained toy_platform (demo_snapshot ! 1)"
proof -
  have "case inspect_verified_snapshot toy_platform (\<lambda>s. s \<noteq> []) demo_snapshot of Inr rep \<Rightarrow> safe_for_upload rep | Inl _ \<Rightarrow> False"
    by code_simp
  then obtain rep where r: "inspect_verified_snapshot toy_platform (\<lambda>s. s \<noteq> []) demo_snapshot = Inr rep" "safe_for_upload rep"
    by (auto split: sum.splits)
  have "demo_snapshot ! 1 \<in> set demo_snapshot" "etype ''decision'' (demo_snapshot ! 1)"
    by (simp_all add: demo_snapshot_def etype_def jget_def)
  with safe_upload_sound [OF r] r show ?thesis by blast
qed

lemma engine_decisions_classified_witness:
  "\<exists>e. classify_event toy_platform (\<lambda>s. True) (sort_members e) = Inr (FULLY_REDACTED, [])"
proof -
  let ?inp = "\<lparr>in_members = [(''pin'', JStr REDACTED)], in_hash = ''h'', in_summary = ''s'', in_redacted = []\<rparr>"
    and ?k = "any_call NoKey (Inr (PInt 1))" and ?sg = "local_signer toy_platform ''k''"
    and ?v = "allow ''ok''"
  have "is_ok (build_event toy_platform demo_contract ?sg 0 ''decision'' (decision_extra ?k ?inp None None ?v) None)"
    by code_simp
  then obtain e where e: "build_event toy_platform demo_contract ?sg 0 ''decision'' (decision_extra ?k ?inp None None ?v) None = Inr e"
    by (auto simp: is_ok_iff)
  have "members_class (in_members ?inp) = (FULLY_REDACTED, [])" by code_simp
  with engine_decisions_classified [OF e] show ?thesis by auto
qed

end
