(* ===== verification/Reconcile.thy ===== *)
theory Reconcile
  imports Verification
begin

text \<open>
  Reconciliation of transcribed receipts with the provider's records (\<open>reconcile.py\<close>) and the
  Stripe fetcher (\<open>providers.py\<close>). The fetcher is a step on a state of its own; the texts of the
  details are left out.
\<close>

section \<open>Receipts and records\<close>

type_synonym 'x fetcher = "event \<Rightarrow> 'x \<Rightarrow> (exn + event option) \<times> 'x"

datatype receipt_status = MATCHED | MISMATCHED string | PROVIDER_UNKNOWN | FETCH_ERROR exn

record reconciliation =
  rc_decision_id :: string
  rc_outcome_id :: string
  rc_action :: string
  rc_receipt :: event
  rc_status :: receipt_status

definition reconcile_complete :: "reconciliation list \<Rightarrow> bool" where
  "reconcile_complete items \<longleftrightarrow> items \<noteq> [] \<and> list_all (\<lambda>i. rc_status i = MATCHED) items"

definition reconcile_mismatched :: "reconciliation list \<Rightarrow> bool" where
  "reconcile_mismatched items \<longleftrightarrow> (\<exists>i \<in> set items. \<exists>k. rc_status i = MISMATCHED k)"

fun first_mismatch :: "platform \<Rightarrow> event \<Rightarrow> event \<Rightarrow> string option" where
  "first_mismatch P [] provider = None"
| "first_mismatch P ((k, claimed) # receipt) provider =
     (case dget provider k of
        None \<Rightarrow> Some k
      | Some actual \<Rightarrow> if py_str P actual \<noteq> py_str P claimed then Some k else first_mismatch P receipt provider)"

section \<open>The loop\<close>

definition receipt_of :: "event \<Rightarrow> event option" where
  "receipt_of e =
     (if \<not> etype ''outcome'' e \<or> jget e ''status'' \<noteq> JStr ''succeeded'' then None
      else case jget e ''receipt'' of JObj d \<Rightarrow> Some d | _ \<Rightarrow> None)"

definition text_or :: "platform \<Rightarrow> string \<Rightarrow> event \<Rightarrow> string \<Rightarrow> string" where
  "text_or P default_text e k = (case dget e k of None \<Rightarrow> default_text | Some v \<Rightarrow> py_str P v)"

text \<open>One receipted outcome; an exception of the fetcher that is no \<open>Exception\<close> escapes.\<close>

definition reconcile_event ::
  "platform \<Rightarrow> 'x fetcher \<Rightarrow> event \<Rightarrow> event \<Rightarrow> 'x \<Rightarrow> (exn + reconciliation) \<times> 'x" where
  "reconcile_event P fetch e receipt x =
     (let item = (\<lambda>status. \<lparr>rc_decision_id = text_or P [] e ''decision_event_id'',
                            rc_outcome_id = text_or P [] e ''event_id'',
                            rc_action = text_or P ''<unknown>'' e ''action_name'',
                            rc_receipt = receipt, rc_status = status\<rparr>)
      in case fetch receipt x of
           (Inl err, x') \<Rightarrow> (if is_exception err then Inr (item (FETCH_ERROR err)) else Inl err, x')
         | (Inr None, x') \<Rightarrow> (Inr (item PROVIDER_UNKNOWN), x')
         | (Inr (Some provider), x') \<Rightarrow>
             (Inr (item (case first_mismatch P receipt provider of None \<Rightarrow> MATCHED | Some k \<Rightarrow> MISMATCHED k)), x'))"

fun reconcile_events ::
  "platform \<Rightarrow> 'x fetcher \<Rightarrow> event list \<Rightarrow> 'x \<Rightarrow> (exn + reconciliation list) \<times> 'x" where
  "reconcile_events P fetch [] x = (Inr [], x)"
| "reconcile_events P fetch (e # es) x =
     (case receipt_of e of
        None \<Rightarrow> reconcile_events P fetch es x
      | Some receipt \<Rightarrow>
          (case reconcile_event P fetch e receipt x of
             (Inl err, x') \<Rightarrow> (Inl err, x')
           | (Inr item, x') \<Rightarrow>
               (case reconcile_events P fetch es x' of
                  (Inl err, x'') \<Rightarrow> (Inl err, x'')
                | (Inr items, x'') \<Rightarrow> (Inr (item # items), x''))))"

definition reconcile_verified_snapshot ::
  "platform \<Rightarrow> 'x fetcher \<Rightarrow> vresult \<times> event list \<Rightarrow> 'x \<Rightarrow> (exn + reconciliation list) \<times> 'x" where
  "reconcile_verified_snapshot P fetch snapshot x =
     (if \<not> r_valid (fst snapshot) then (Inl EvidenceAuditError, x)
      else reconcile_events P fetch (snd snapshot) x)"

definition reconcile_journal ::
  "platform \<Rightarrow> 'x fetcher \<Rightarrow> bytes option \<Rightarrow> bytes list \<Rightarrow> 'x \<Rightarrow> (exn + reconciliation list) \<times> 'x" where
  "reconcile_journal P fetch file keys x =
     (case load_journal_snapshot P file keys (\<lambda>e. e) of
        Inl err \<Rightarrow> (Inl err, x)
      | Inr snapshot \<Rightarrow> reconcile_verified_snapshot P fetch snapshot x)"

section \<open>Stripe refunds\<close>

text \<open>\<open>retrieve\<close> is the client's \<open>Refund.retrieve\<close>: a record by its attributes, or an exception.\<close>

definition stripe_fetch ::
  "string list \<Rightarrow> (string \<Rightarrow> 'x \<Rightarrow> (exn + (string, json) dict) \<times> 'x) \<Rightarrow> 'x fetcher" where
  "stripe_fetch extra_fields retrieve receipt x =
     (if jget receipt ''processor'' \<noteq> JStr ''stripe'' then (Inr None, x)
      else case jget receipt ''refund_id'' of
        JStr i \<Rightarrow>
          (if i = [] then (Inr None, x)
           else case retrieve i x of
             (Inl err, x') \<Rightarrow> (Inl err, x')
           | (Inr refund, x') \<Rightarrow>
               (Inr (Some (fold (\<lambda>f. dset f (jget refund f)) extra_fields
                  [(''processor'', jget receipt ''processor''),
                   (''refund_id'', dget_default refund ''id'' (JStr i)),
                   (''status'', jget refund ''status'')])), x'))
      | _ \<Rightarrow> (Inr None, x))"

section \<open>A complete report\<close>

definition agrees :: "platform \<Rightarrow> event \<Rightarrow> event \<Rightarrow> bool" where
  "agrees P receipt provider \<longleftrightarrow>
     (\<forall>(k, claimed) \<in> set receipt. \<exists>actual. dget provider k = Some actual \<and> py_str P actual = py_str P claimed)"

lemma first_mismatch_None: "first_mismatch P receipt provider = None \<longleftrightarrow> agrees P receipt provider"
  by (induction receipt) (auto simp: agrees_def split: option.splits if_splits)

lemma first_mismatch_Some:
  "first_mismatch P receipt provider = Some k \<Longrightarrow>
   \<exists>claimed. (k, claimed) \<in> set receipt \<and> (\<forall>actual. dget provider k = Some actual \<longrightarrow> py_str P actual \<noteq> py_str P claimed)"
  by (induction receipt) (auto split: option.splits if_splits)

definition justified :: "platform \<Rightarrow> 'x fetcher \<Rightarrow> reconciliation \<Rightarrow> bool" where
  "justified P fetch item \<longleftrightarrow>
     (\<exists>x x'. case rc_status item of
        MATCHED \<Rightarrow> \<exists>provider. fetch (rc_receipt item) x = (Inr (Some provider), x') \<and> agrees P (rc_receipt item) provider
      | MISMATCHED k \<Rightarrow> \<exists>provider claimed. fetch (rc_receipt item) x = (Inr (Some provider), x')
          \<and> (k, claimed) \<in> set (rc_receipt item)
          \<and> (\<forall>actual. dget provider k = Some actual \<longrightarrow> py_str P actual \<noteq> py_str P claimed)
      | PROVIDER_UNKNOWN \<Rightarrow> fetch (rc_receipt item) x = (Inr None, x')
      | FETCH_ERROR err \<Rightarrow> fetch (rc_receipt item) x = (Inl err, x'))"

lemma reconcile_event_justified:
  "reconcile_event P fetch e receipt x = (Inr item, x') \<Longrightarrow> justified P fetch item \<and> rc_receipt item = receipt"
proof -
  assume a: "reconcile_event P fetch e receipt x = (Inr item, x')"
  obtain q x1 where f: "fetch receipt x = (q, x1)" by (cases "fetch receipt x")
  show ?thesis
    using a f unfolding justified_def reconcile_event_def Let_def
    by (intro conjI exI [of _ x] exI [of _ x1])
      (auto simp: first_mismatch_None dest: first_mismatch_Some split: sum.splits option.splits if_splits)
qed

lemma reconcile_events_items:
  "reconcile_events P fetch es x = (Inr items, x') \<Longrightarrow>
   map rc_receipt items = List.map_filter receipt_of es \<and> (\<forall>item \<in> set items. justified P fetch item)"
proof (induction es arbitrary: x items)
  case (Cons e es)
  show ?case
  proof (cases "receipt_of e")
    case None
    with Cons show ?thesis by (simp add: map_filter_simps)
  next
    case (Some receipt)
    with Cons.prems obtain item x1 items' where i: "reconcile_event P fetch e receipt x = (Inr item, x1)"
      "reconcile_events P fetch es x1 = (Inr items', x')" "items = item # items'"
      by (auto split: prod.splits sum.splits)
    from Cons.IH [OF i(2)] reconcile_event_justified [OF i(1)] i(3) Some show ?thesis
      by (simp add: map_filter_simps)
  qed
qed (simp add: map_filter_simps)

text \<open>
  A reconciliation report lists the receipts of the succeeded outcomes in journal order, each with a
  status that what the provider answered for that receipt justifies; so a complete report means that
  there was a receipt and that the provider's record of every one has each of its fields with the
  same text.
\<close>

theorem reconcile_sound:
  assumes "reconcile_journal P fetch file keys x = (Inr items, x')"
  shows "\<exists>r es. load_journal_snapshot P file keys (\<lambda>e. e) = Inr (r, es) \<and> r_valid r
    \<and> map rc_receipt items = List.map_filter receipt_of es \<and> (\<forall>item \<in> set items. justified P fetch item)
    \<and> (reconcile_complete items \<longrightarrow> List.map_filter receipt_of es \<noteq> []
         \<and> (\<forall>receipt \<in> set (List.map_filter receipt_of es). \<exists>y y' provider.
              fetch receipt y = (Inr (Some provider), y') \<and> agrees P receipt provider))"
proof -
  from assms obtain r es where s: "load_journal_snapshot P file keys (\<lambda>e. e) = Inr (r, es)" "r_valid r"
    "reconcile_events P fetch es x = (Inr items, x')"
    by (auto simp: reconcile_journal_def reconcile_verified_snapshot_def split: sum.splits if_splits)
  note i = reconcile_events_items [OF s(3)]
  have "\<exists>y y' provider. fetch receipt y = (Inr (Some provider), y') \<and> agrees P receipt provider"
    if c: "reconcile_complete items" and m: "receipt \<in> set (List.map_filter receipt_of es)" for receipt
  proof -
    from m i obtain item where item: "item \<in> set items" "rc_receipt item = receipt" by (metis image_iff list.set_map)
    with c have "rc_status item = MATCHED" by (auto simp: reconcile_complete_def list_all_iff)
    with i item show ?thesis unfolding justified_def by force
  qed
  moreover have "reconcile_complete items \<Longrightarrow> List.map_filter receipt_of es \<noteq> []"
    using i by (metis map_is_Nil_conv reconcile_complete_def)
  ultimately show ?thesis using s i by blast
qed

section \<open>A concrete report\<close>

definition demo_outcome :: event where
  "demo_outcome =
    [(''schema_version'', JStr ''1''), (''event_type'', JStr ''outcome''), (''event_id'', JStr ''o''), (''action_id'', JStr ''a''),
     (''action_name'', JStr ''refund''), (''contract_hash'', JStr ''c''), (''timestamp_utc'', JStr ''t''),
     (''key_id'', JStr (key_id_for toy_platform ''k'')), (''previous_event_hash'', JNull), (''decision_event_id'', JStr ''d''),
     (''status'', JStr ''succeeded''),
     (''receipt'', JObj [(''processor'', JStr ''stripe''), (''refund_id'', JStr ''re1'')])]"

definition demo_reconciliation :: "(exn + reconciliation list) \<times> nat" where
  "demo_reconciliation =
     (case finalize_event toy_platform demo_outcome (local_sign toy_platform ''k'') of
        Inl err \<Rightarrow> (Inl err, 0)
      | Inr e \<Rightarrow> reconcile_journal toy_platform
          (stripe_fetch [] (\<lambda>i n. (Inr [(''id'', JStr i), (''status'', JStr ''paid'')], Suc n)))
          (Some (line_of toy_platform e)) [''k''] 0)"

lemma demo_reconciles: "case demo_reconciliation of (Inr items, n) \<Rightarrow> reconcile_complete items \<and> n = 1 | _ \<Rightarrow> False"
  by code_simp

lemma reconcile_sound_witness:
  "\<exists>f items. reconcile_complete items \<and> (\<exists>r es. load_journal_snapshot toy_platform (Some f) [''k''] (\<lambda>e. e) = Inr (r, es)
     \<and> List.map_filter receipt_of es \<noteq> [])"
proof -
  obtain items n where d: "demo_reconciliation = (Inr items, n)" "reconcile_complete items"
  proof -
    obtain q n where q: "demo_reconciliation = (q, n)" by (cases demo_reconciliation)
    show ?thesis using demo_reconciles [unfolded q] q that by (cases q) simp_all
  qed
  then obtain e where "reconcile_journal toy_platform
      (stripe_fetch [] (\<lambda>i n. (Inr [(''id'', JStr i), (''status'', JStr ''paid'')], Suc n)))
      (Some (line_of toy_platform e)) [''k''] 0 = (Inr items, n)"
    unfolding demo_reconciliation_def by (auto split: sum.splits)
  from reconcile_sound [OF this] d(2) show ?thesis by blast
qed

end
