(* ===== verification/Gateway.thy ===== *)
theory Gateway
  imports Engine
begin

text \<open>
  The tool gateway (\<open>gateway.py\<close>): tools are reached by registered names only. A name that is not a
  string is None; what a callable is, whether it is callable and whether it carries a contract are
  facts about the object, parameters here.
\<close>

record 'f gateway =
  gw_require_guarded :: bool
  gw_tools :: "(string, 'f) dict"

definition new_gateway :: "bool \<Rightarrow> 'f gateway" where
  "new_gateway require_guarded = \<lparr>gw_require_guarded = require_guarded, gw_tools = []\<rparr>"

definition gateway_register ::
  "('f \<Rightarrow> bool) \<Rightarrow> ('f \<Rightarrow> bool) \<Rightarrow> string option \<Rightarrow> 'f \<Rightarrow> 'f gateway \<Rightarrow> exn + 'f gateway" where
  "gateway_register is_callable is_guarded name f g =
     (case name of
        None \<Rightarrow> Inl ToolWrapError
      | Some n \<Rightarrow>
          if n = [] then Inl ToolWrapError
          else if dget (gw_tools g) n \<noteq> None then Inl ToolWrapError
          else if \<not> is_callable f then Inl ToolWrapError
          else if gw_require_guarded g \<and> \<not> is_guarded f then Inl ToolWrapError
          else Inr (g\<lparr>gw_tools := dset n f (gw_tools g)\<rparr>))"

definition gateway_names :: "'f gateway \<Rightarrow> string list" where
  "gateway_names g = map fst (gw_tools g)"

definition gateway_contains :: "'f gateway \<Rightarrow> string \<Rightarrow> bool" where
  "gateway_contains g name \<longleftrightarrow> dget (gw_tools g) name \<noteq> None"

text \<open>\<open>invoke\<close>; \<open>call\<close> runs a callable on its arguments.\<close>

definition gateway_invoke ::
  "('f \<Rightarrow> 'a \<Rightarrow> 'w \<Rightarrow> (exn + 'r) \<times> 'w) \<Rightarrow> 'f gateway \<Rightarrow> string \<Rightarrow> 'a \<Rightarrow> 'w \<Rightarrow> (exn + 'r) \<times> 'w" where
  "gateway_invoke call g name args w =
     (case dget (gw_tools g) name of
        None \<Rightarrow> (Inl (ActionDenied name), w)
      | Some f \<Rightarrow> call f args w)"

fun register_all ::
  "('f \<Rightarrow> bool) \<Rightarrow> ('f \<Rightarrow> bool) \<Rightarrow> (string option \<times> 'f) list \<Rightarrow> 'f gateway \<Rightarrow> exn + 'f gateway" where
  "register_all is_callable is_guarded [] g = Inr g"
| "register_all is_callable is_guarded ((name, f) # tools) g =
     bindR (gateway_register is_callable is_guarded name f g) (register_all is_callable is_guarded tools)"

definition gateway_from_mapping ::
  "('f \<Rightarrow> bool) \<Rightarrow> ('f \<Rightarrow> bool) \<Rightarrow> bool \<Rightarrow> (string option \<times> 'f) list \<Rightarrow> exn + 'f gateway" where
  "gateway_from_mapping is_callable is_guarded require_guarded tools =
     register_all is_callable is_guarded tools (new_gateway require_guarded)"

section \<open>Only guarded tools\<close>

definition gateway_wf :: "('f \<Rightarrow> bool) \<Rightarrow> ('f \<Rightarrow> bool) \<Rightarrow> 'f gateway \<Rightarrow> bool" where
  "gateway_wf is_callable is_guarded g \<longleftrightarrow>
     distinct (map fst (gw_tools g))
     \<and> (\<forall>(n, f) \<in> set (gw_tools g). n \<noteq> [] \<and> is_callable f \<and> (gw_require_guarded g \<longrightarrow> is_guarded f))"

lemma register_wf:
  "gateway_register is_callable is_guarded name f g = Inr g' \<Longrightarrow> gateway_wf is_callable is_guarded g \<Longrightarrow>
   gateway_wf is_callable is_guarded g' \<and> gw_require_guarded g' = gw_require_guarded g
   \<and> (\<exists>n. name = Some n \<and> gw_tools g' = gw_tools g @ [(n, f)])"
proof -
  assume r: "gateway_register is_callable is_guarded name f g = Inr g'" and wf: "gateway_wf is_callable is_guarded g"
  from r obtain n where n: "name = Some n" "n \<noteq> []" "dget (gw_tools g) n = None" "is_callable f"
    "gw_require_guarded g \<longrightarrow> is_guarded f" "g' = g\<lparr>gw_tools := dset n f (gw_tools g)\<rparr>"
    by (cases name) (simp_all add: gateway_register_def split: if_splits)
  from n(6) have g': "g' = g\<lparr>gw_tools := gw_tools g @ [(n, f)]\<rparr>" unfolding dset_fresh [OF n(3)] .
  have "n \<notin> set (map fst (gw_tools g))" using n(3) by (simp add: dget_None_iff)
  with wf n(1,2,4,5) show ?thesis unfolding g' gateway_wf_def by simp
qed

lemma register_all_wf:
  "register_all is_callable is_guarded tools g = Inr g' \<Longrightarrow> gateway_wf is_callable is_guarded g \<Longrightarrow>
   gateway_wf is_callable is_guarded g' \<and> gw_require_guarded g' = gw_require_guarded g
   \<and> gw_tools g' = gw_tools g @ map (\<lambda>(n, f). (the n, f)) tools"
proof (induction tools arbitrary: g)
  case (Cons x tools)
  obtain name f where x: "x = (name, f)" by (cases x)
  with Cons.prems obtain g1 where g1: "gateway_register is_callable is_guarded name f g = Inr g1"
    "register_all is_callable is_guarded tools g1 = Inr g'" by (auto simp: bindR_Inr_iff)
  from register_wf [OF g1(1) Cons.prems(2)] Cons.IH [OF g1(2)] x show ?case by auto
qed simp

lemma registered_names:
  "register_all is_callable is_guarded tools g = Inr g' \<Longrightarrow> \<forall>(n, f) \<in> set tools. \<exists>m. n = Some m"
  by (induction tools arbitrary: g) (fastforce simp: bindR_Inr_iff gateway_register_def split: option.splits if_splits)+

text \<open>
  A gateway that could be built reaches exactly the tools of its mapping, in order and under
  distinct non-empty names, all of them callable and, unless it was told otherwise, guarded; any other name is
  denied and calls nothing.
\<close>

theorem gateway_only_registered:
  assumes "gateway_from_mapping is_callable is_guarded require_guarded tools = Inr g"
  shows "gateway_wf is_callable is_guarded g \<and> gw_require_guarded g = require_guarded
    \<and> gateway_names g = map (the \<circ> fst) tools
    \<and> (\<forall>name args w.
         (if gateway_contains g name
          then \<exists>f. (Some name, f) \<in> set tools \<and> (is_guarded f \<or> \<not> require_guarded)
                 \<and> gateway_invoke call g name args w = call f args w
          else gateway_invoke call g name args w = (Inl (ActionDenied name), w)))"
proof -
  have "gateway_wf is_callable is_guarded (new_gateway require_guarded)" by (simp add: gateway_wf_def new_gateway_def)
  from register_all_wf [OF assms [unfolded gateway_from_mapping_def] this]
  have g: "gateway_wf is_callable is_guarded g" "gw_require_guarded g = require_guarded"
    "gw_tools g = map (\<lambda>(n, f). (the n, f)) tools" by (simp_all add: new_gateway_def)
  have some: "\<forall>(n, f) \<in> set tools. \<exists>m. n = Some m"
    using registered_names [OF assms [unfolded gateway_from_mapping_def]] .
  have "\<exists>f. (Some name, f) \<in> set tools \<and> (is_guarded f \<or> \<not> require_guarded) \<and> gateway_invoke call g name args w = call f args w"
    if c: "gateway_contains g name" for name args w
  proof -
    from c obtain f where f: "dget (gw_tools g) name = Some f" by (auto simp: gateway_contains_def)
    with dget_mem [OF f] g some have "(Some name, f) \<in> set tools" by fastforce
    moreover have "is_guarded f \<or> \<not> require_guarded" using dget_mem [OF f] g(1,2) by (auto simp: gateway_wf_def)
    ultimately show ?thesis using f by (auto simp: gateway_invoke_def)
  qed
  moreover have "\<not> gateway_contains g name \<Longrightarrow> gateway_invoke call g name args w = (Inl (ActionDenied name), w)" for name args w
    by (simp add: gateway_contains_def gateway_invoke_def)
  moreover have "gateway_names g = map (the \<circ> fst) tools" by (auto simp: gateway_names_def g(3))
  ultimately show ?thesis using g(1,2) by auto
qed

lemma gateway_only_registered_witness:
  "\<exists>g. gateway_from_mapping (\<lambda>f. True) (\<lambda>f. f) True [(Some ''pay'', True)] = Inr g \<and> gateway_names g = [''pay'']"
proof -
  have "gateway_from_mapping (\<lambda>f. True) (\<lambda>f. f) True [(Some ''pay'', True)]
      = Inr \<lparr>gw_require_guarded = True, gw_tools = [(''pay'', True)]\<rparr>" by code_simp
  from gateway_only_registered [OF this] this show ?thesis by auto
qed

end
