(* ===== verification/Guard.thy ===== *)
theory Guard
  imports Engine
begin

text \<open>
  Guarding a function: the decorator (\<open>guard.py\<close>) and the wrapping of existing tools
  (\<open>wrap_tool.py\<close>). A callable is what \<open>inspect\<close> reports of it; the guarded function is the data
  that every call hands to the engine. The options that only the call uses (journal, identity,
  observer, key and the extractors) belong to the call.
\<close>

section \<open>Callables\<close>

record kind =
  kd_coroutine :: bool
  kd_generator :: bool
  kd_asyncgen :: bool

text \<open>The object itself, the function of a \<open>functools.partial\<close>, and \<open>__call__\<close> of its type.\<close>

record target =
  tg_fn :: func
  tg_callable :: bool
  tg_guarded :: bool \<comment> \<open>it carries a contract already\<close>
  tg_self :: kind
  tg_partial :: "kind option"
  tg_call :: kind

definition is_async_callable :: "target \<Rightarrow> bool" where
  "is_async_callable t =
     (if kd_coroutine (tg_self t) then True
      else case tg_partial t of Some k \<Rightarrow> kd_coroutine k | None \<Rightarrow> kd_coroutine (tg_call t))"

definition is_generator_callable :: "target \<Rightarrow> bool" where
  "is_generator_callable t =
     (if kd_generator (tg_self t) then True
      else if kd_asyncgen (tg_self t) then True
      else case tg_partial t of
        Some k \<Rightarrow> kd_generator k \<or> kd_asyncgen k
      | None \<Rightarrow> kd_generator (tg_call t) \<or> kd_asyncgen (tg_call t))"

section \<open>Options and the guarded function\<close>

text \<open>The action name is None when it is not given and \<open>Some None\<close> when it is not a string.\<close>

record 's options =
  op_action :: "string option option"
  op_risk :: string
  op_approval :: string
  op_provider :: "(bool \<times> 's provider) option"
  op_redact :: "string option list"
  op_redact_patterns :: "string option list"
  op_metadata :: "(heap \<times> pyval) option"
  op_dry_run :: bool

record 's guarded =
  gd_async :: bool
  gd_contract :: contract
  gd_sensitive :: "string list"
  gd_patterns :: "pattern list"
  gd_metadata :: "json option"
  gd_provider :: "(bool \<times> 's provider) option"
  gd_dry_run :: bool

text \<open>What one invocation of the wrapper passes to the engine.\<close>

definition guarded_call :: "'s guarded \<Rightarrow> ('j, 's) call \<Rightarrow> ('j, 's) call" where
  "guarded_call g k =
     k\<lparr>k_contract := gd_contract g, k_sensitive := gd_sensitive g, k_patterns := gd_patterns g,
       k_metadata := gd_metadata g, k_provider := gd_provider g, k_dry_run := gd_dry_run g\<rparr>"

definition prepare_metadata ::
  "platform \<Rightarrow> (pyval \<Rightarrow> string) \<Rightarrow> string list \<Rightarrow> pattern list \<Rightarrow> (heap \<times> pyval) option \<Rightarrow> exn + json option" where
  "prepare_metadata P shw sensitive pats metadata =
     (case metadata of
        None \<Rightarrow> Inr None
      | Some (h, v) \<Rightarrow>
          (case (case v of PRef a \<Rightarrow> (case h a of ODict kvs \<Rightarrow> all_strings (map fst kvs) | _ \<Rightarrow> None) | _ \<Rightarrow> None) of
             None \<Rightarrow> Inl ContractError
           | Some _ \<Rightarrow>
               (case canonicalize P sensitive pats shw h v of
                  Inl x \<Rightarrow> Inl (if x = CanonicalizationError then ContractError else x)
                | Inr (j, _) \<Rightarrow> Inr (Some j))))"

text \<open>The steps both entry points share, with the exception of an unreadable signature.\<close>

definition guard_target ::
  "platform \<Rightarrow> (string \<Rightarrow> pattern option) \<Rightarrow> (pyval \<Rightarrow> string) \<Rightarrow> exn \<Rightarrow> 's options \<Rightarrow> target \<Rightarrow> exn + 's guarded" where
  "guard_target P re_compile shw unreadable opts t =
     (let async = is_async_callable t;
          build = (if async then build_contract_unchecked P else build_contract P)
      in bindR (build (tg_fn t) (op_action opts) (op_risk opts) (op_approval opts)) (\<lambda>c.
         bindR (build_sensitive_set P (op_redact opts)) (\<lambda>sensitive.
         bindR (compile_value_patterns re_compile (op_redact_patterns opts)) (\<lambda>pats.
         bindR (prepare_metadata P shw sensitive pats (op_metadata opts)) (\<lambda>metadata.
         case fn_signature (tg_fn t) of
           Inl x \<Rightarrow> Inl (if x \<in> {TypeError, ValueError} then unreadable else x)
         | Inr _ \<Rightarrow>
             Inr \<lparr>gd_async = async, gd_contract = c, gd_sensitive = sensitive, gd_patterns = pats,
                  gd_metadata = metadata, gd_provider = op_provider opts, gd_dry_run = op_dry_run opts\<rparr>)))))"

section \<open>The decorator\<close>

definition guard ::
  "platform \<Rightarrow> (string \<Rightarrow> pattern option) \<Rightarrow> (pyval \<Rightarrow> string) \<Rightarrow> 's options \<Rightarrow> target \<Rightarrow> exn + 's guarded" where
  "guard P re_compile shw opts t =
     (if op_approval opts = ''never'' \<and> op_provider opts \<noteq> None then Inl ContractError
      else if is_generator_callable t then Inl UnsupportedFunctionError
      else guard_target P re_compile shw ContractError opts t)"

section \<open>Wrapping tools\<close>

definition wrap_tool ::
  "platform \<Rightarrow> (string \<Rightarrow> pattern option) \<Rightarrow> (pyval \<Rightarrow> string) \<Rightarrow> 's options \<Rightarrow> target \<Rightarrow> exn + 's guarded" where
  "wrap_tool P re_compile shw opts t =
     (if \<not> tg_callable t then Inl ToolWrapError
      else if op_approval opts = ''never'' \<and> op_provider opts \<noteq> None then Inl ToolWrapError
      else if tg_guarded t then Inl ToolWrapError
      else if is_generator_callable t then Inl ToolWrapError
      else guard_target P re_compile shw ToolWrapError opts t)"

definition tool_name :: "target \<Rightarrow> string option" where
  "tool_name t = (case fn_name (tg_fn t) of Some n \<Rightarrow> if n \<noteq> [] then Some n else None | None \<Rightarrow> None)"

text \<open>\<open>_wrap_one\<close>, with the action names seen so far.\<close>

definition wrap_one ::
  "platform \<Rightarrow> (string \<Rightarrow> pattern option) \<Rightarrow> (pyval \<Rightarrow> string) \<Rightarrow> target \<Rightarrow> 's options \<Rightarrow> string list
     \<Rightarrow> exn + 's guarded \<times> string list" where
  "wrap_one P re_compile shw t opts seen =
     (case op_action opts of
        Some (Some a) \<Rightarrow>
          (if a = [] then Inl ToolWrapError
           else if a \<in> set seen then Inl ToolWrapError
           else case wrap_tool P re_compile shw opts t of
             Inl x \<Rightarrow> Inl (if x \<in> {ContractError, UnsupportedFunctionError} then ToolWrapError else x)
           | Inr g \<Rightarrow> Inr (g, seen @ [a]))
      | _ \<Rightarrow> Inl ToolWrapError)"

text \<open>The loop of both forms; the key of an entry is its given name, or the name of the callable.\<close>

fun wrap_entries ::
  "platform \<Rightarrow> (string \<Rightarrow> pattern option) \<Rightarrow> (pyval \<Rightarrow> string) \<Rightarrow> (string, 's options) dict
     \<Rightarrow> (string option \<times> target) list \<Rightarrow> string list \<Rightarrow> exn + (string \<times> 's guarded) list" where
  "wrap_entries P re_compile shw configuration [] seen = Inr []"
| "wrap_entries P re_compile shw configuration ((key, t) # ts) seen =
     (if \<not> tg_callable t then Inl ToolWrapError
      else case (case key of Some k \<Rightarrow> Some k | None \<Rightarrow> tool_name t) of
        None \<Rightarrow> Inl ToolWrapError
      | Some name \<Rightarrow>
          (case dget configuration name of
             None \<Rightarrow> Inl ToolWrapError
           | Some opts \<Rightarrow>
               bindR (wrap_one P re_compile shw t opts seen) (\<lambda>(g, seen').
                 bindR (wrap_entries P re_compile shw configuration ts seen') (\<lambda>gs. Inr ((name, g) # gs)))))"

text \<open>
  \<open>_auto_configuration\<close>: one entry per name, with its action and risk unless the keyword defaults
  name an action themselves.
\<close>

definition auto_configuration ::
  "(string option \<times> target) list \<Rightarrow> string \<Rightarrow> string \<Rightarrow> 's options \<Rightarrow> exn + (string, 's options) dict" where
  "auto_configuration tools action_prefix risk defaults =
     bindR (mapR (\<lambda>(key, t). case (case key of Some k \<Rightarrow> Some k | None \<Rightarrow> tool_name t) of
                    None \<Rightarrow> Inl ToolWrapError | Some name \<Rightarrow> Inr name) tools) (\<lambda>names.
       Inr (fold (\<lambda>name. dset name (defaults\<lparr>op_risk := risk,
               op_action := (case op_action defaults of None \<Rightarrow> Some (Some (action_prefix @ ''.'' @ name)) | Some a \<Rightarrow> Some a)\<rparr>))
              names []))"

text \<open>\<open>defaults\<close> is None when no keyword defaults are given; then the library's own apply.\<close>

definition wrap_tools ::
  "platform \<Rightarrow> (string \<Rightarrow> pattern option) \<Rightarrow> (pyval \<Rightarrow> string) \<Rightarrow> 's options \<Rightarrow> (string, 's options) dict option
     \<Rightarrow> string \<Rightarrow> string \<Rightarrow> 's options option \<Rightarrow> (string option \<times> target) list \<Rightarrow> exn + (string \<times> 's guarded) list" where
  "wrap_tools P re_compile shw standard configuration action_prefix risk defaults tools =
     bindR (case configuration of
              None \<Rightarrow> auto_configuration tools action_prefix risk (case defaults of None \<Rightarrow> standard | Some d \<Rightarrow> d)
            | Some c \<Rightarrow> if defaults \<noteq> None then Inl ToolWrapError else Inr c) (\<lambda>c.
       wrap_entries P re_compile shw c tools [])"

section \<open>One guard, two entry points\<close>

lemma guard_target_unreadable:
  "guard_target P re_compile shw x opts t = Inr g \<longleftrightarrow> guard_target P re_compile shw y opts t = Inr g"
  by (auto simp: guard_target_def Let_def bindR_Inr_iff split: sum.splits)

text \<open>
  Wrapping a tool and decorating it are the same guard: for every callable that is not guarded yet and
  all options, \<open>wrap_tool\<close> succeeds exactly when the decorator does, with the same contract, redaction
  and metadata; what is not callable or already guarded is refused.
\<close>

theorem wrap_tool_same_guard:
  "wrap_tool P re_compile shw opts t = Inr g \<longleftrightarrow>
     tg_callable t \<and> \<not> tg_guarded t \<and> guard P re_compile shw opts t = Inr g"
  by (auto simp: wrap_tool_def guard_def
      guard_target_unreadable [of P re_compile shw ToolWrapError opts t g ContractError])

lemma guard_target_contract:
  assumes "guard_target P re_compile shw x opts t = Inr g"
  shows "build_contract_unchecked P (tg_fn t) (op_action opts) (op_risk opts) (op_approval opts) = Inr (gd_contract g)"
proof -
  from assms obtain c where c: "(if is_async_callable t then build_contract_unchecked P else build_contract P)
      (tg_fn t) (op_action opts) (op_risk opts) (op_approval opts) = Inr c" and "gd_contract g = c"
    by (cases "fn_signature (tg_fn t)")
      (auto simp: guard_target_def Let_def bindR_Inr_iff split: if_splits)
  then show ?thesis by (auto simp: build_contract_def split: if_splits)
qed

lemma contract_action_name:
  "build_contract_unchecked P fn (Some (Some a)) risk approval = Inr c \<Longrightarrow> c_action_name c = a"
  by (auto simp: build_contract_unchecked_def Let_def bindR_Inr_iff validate_action_name_def split: if_splits)

lemma contract_approval_mode:
  "build_contract_unchecked P fn action risk approval = Inr c \<Longrightarrow> c_approval_mode c = approval"
  unfolding build_contract_unchecked_def Let_def by (force simp: bindR_Inr_iff split: if_splits)

definition entry_name :: "string option \<times> target \<Rightarrow> string option" where
  "entry_name x = (case fst x of Some k \<Rightarrow> Some k | None \<Rightarrow> tool_name (snd x))"

lemma wrap_entries_ok:
  "wrap_entries P re_compile shw conf tools seen = Inr gs \<Longrightarrow>
   map (Some \<circ> fst) gs = map entry_name tools
   \<and> list_all2 (\<lambda>x y. \<exists>opts. dget conf (fst y) = Some opts \<and> wrap_tool P re_compile shw opts (snd x) = Inr (snd y)
        \<and> op_action opts = Some (Some (c_action_name (gd_contract (snd y))))) tools gs
   \<and> distinct (map (c_action_name \<circ> gd_contract \<circ> snd) gs)
   \<and> set (map (c_action_name \<circ> gd_contract \<circ> snd) gs) \<inter> set seen = {}"
proof (induction tools arbitrary: seen gs)
  case (Cons x tools)
  obtain key t where x: "x = (key, t)" by (cases x)
  with Cons.prems obtain name opts g seen' gs' where e: "entry_name x = Some name" "dget conf name = Some opts"
    "wrap_one P re_compile shw t opts seen = Inr (g, seen')" "wrap_entries P re_compile shw conf tools seen' = Inr gs'"
    "gs = (name, g) # gs'"
    by (auto simp: entry_name_def bindR_Inr_iff split: if_splits option.splits)
  from e(3) obtain a where a: "op_action opts = Some (Some a)" "a \<notin> set seen" "seen' = seen @ [a]"
    "wrap_tool P re_compile shw opts t = Inr g"
    by (auto simp: wrap_one_def split: option.splits if_splits sum.splits)
  then have "c_action_name (gd_contract g) = a"
    by (auto simp: wrap_tool_def split: if_splits dest!: guard_target_contract intro: contract_action_name)
  with Cons.IH [OF e(4)] e a x show ?case by auto
qed simp

text \<open>
  Wrapping a collection is all or nothing and keeps actions apart: on success the result has one entry
  per tool in order, under its name, each the wrapping of that tool with its own configuration, and
  no two of them share an action name (so none shares its evidence or its idempotency keys).
\<close>

theorem wrap_tools_keeps_actions_apart:
  assumes "wrap_tools P re_compile shw standard configuration action_prefix risk defaults tools = Inr gs"
  shows "map (Some \<circ> fst) gs = map entry_name tools
    \<and> (\<exists>conf. list_all2 (\<lambda>x y. \<exists>opts. dget conf (fst y) = Some opts
          \<and> wrap_tool P re_compile shw opts (snd x) = Inr (snd y)) tools gs)
    \<and> distinct (map (c_action_name \<circ> gd_contract \<circ> snd) gs)"
proof -
  from assms obtain conf where "wrap_entries P re_compile shw conf tools [] = Inr gs"
    by (auto simp: wrap_tools_def bindR_Inr_iff)
  from wrap_entries_ok [OF this] show ?thesis by (auto elim!: list_all2_mono)
qed

text \<open>Two entries, one named by its key; the second has the name of the first when both are unnamed.\<close>

definition plain_kind :: kind where
  "plain_kind = \<lparr>kd_coroutine = False, kd_generator = False, kd_asyncgen = False\<rparr>"

definition demo_target :: target where
  "demo_target = \<lparr>tg_fn = demo_func, tg_callable = True, tg_guarded = False, tg_self = plain_kind,
     tg_partial = None, tg_call = plain_kind\<rparr>"

definition standard_options :: "'s options" where
  "standard_options = \<lparr>op_action = None, op_risk = ''medium'', op_approval = ''required'', op_provider = None,
     op_redact = [], op_redact_patterns = [], op_metadata = None, op_dry_run = False\<rparr>"

abbreviation demo_wrap :: "(string option \<times> target) list \<Rightarrow> exn + (string \<times> unit guarded) list" where
  "demo_wrap \<equiv> wrap_tools toy_platform (\<lambda>_. None) (\<lambda>_. []) standard_options None ''tool'' ''low'' None"

lemma wrap_tools_keeps_actions_apart_witness:
  "\<exists>gs. demo_wrap [(None, demo_target), (Some ''g'', demo_target)] = Inr gs
     \<and> distinct (map (c_action_name \<circ> gd_contract \<circ> snd) gs)"
proof -
  have "case demo_wrap [(None, demo_target), (Some ''g'', demo_target)] of Inr gs \<Rightarrow> True | Inl x \<Rightarrow> False"
    by code_simp
  then obtain gs where gs: "demo_wrap [(None, demo_target), (Some ''g'', demo_target)] = Inr gs"
    by (cases "demo_wrap [(None, demo_target), (Some ''g'', demo_target)]") simp_all
  from wrap_tools_keeps_actions_apart [OF gs] gs show ?thesis by simp
qed

lemma same_name_refused:
  "case demo_wrap [(None, demo_target), (None, demo_target)] of Inl x \<Rightarrow> x = ToolWrapError | Inr gs \<Rightarrow> False"
  by code_simp

section \<open>What a guarded function is\<close>

lemma guard_target_shape:
  assumes "guard_target P re_compile shw x opts t = Inr g"
  shows "gd_async g = is_async_callable t" "gd_provider g = op_provider opts" "gd_dry_run g = op_dry_run opts"
    "set SENSITIVE_NAMES \<subseteq> set (gd_sensitive g)" "set compiled_defaults \<subseteq> set (gd_patterns g)"
    "\<not> is_async_callable t \<Longrightarrow> \<not> fn_generator (tg_fn t)"
  using assms
  by (cases "fn_signature (tg_fn t)";
      auto simp: guard_target_def Let_def bindR_Inr_iff build_sensitive_set_def build_contract_def split: if_splits)+

text \<open>
  C40: The type of a guarded function: whatever the options, a callable that the decorator accepts is no
  generator, its contract has a declared risk and approval mode and the hash of its own content, the
  built-in redaction names and secret patterns are in force, and no provider stands beside the mode
  that would ignore it.
\<close>

theorem guarded_function_typed:
  assumes "guard P re_compile shw opts t = Inr g"
  shows "\<not> is_generator_callable t
    \<and> c_risk (gd_contract g) \<in> set RISK_LEVELS \<and> c_approval_mode (gd_contract g) \<in> set APPROVAL_MODES
    \<and> (\<exists>b. canonical_json_bytes P (JObj (contract_members (gd_contract g))) = Inr b
         \<and> c_hash (gd_contract g) = sha256_hex P b)
    \<and> set SENSITIVE_NAMES \<subseteq> set (gd_sensitive g) \<and> set compiled_defaults \<subseteq> set (gd_patterns g)
    \<and> \<not> (c_approval_mode (gd_contract g) = ''never'' \<and> gd_provider g \<noteq> None)"
proof -
  from assms have g: "guard_target P re_compile shw ContractError opts t = Inr g" "\<not> is_generator_callable t"
    "\<not> (op_approval opts = ''never'' \<and> op_provider opts \<noteq> None)"
    by (auto simp: guard_def split: if_splits)
  note c = guard_target_contract [OF g(1)]
  have "c_approval_mode (gd_contract g) = op_approval opts"
    by (rule contract_approval_mode [OF c])
  with g(2,3) build_contract_shape [OF c] guard_target_shape [OF g(1)] show ?thesis by auto
qed

lemma guarded_function_typed_witness:
  "\<exists>g :: unit guarded. guard toy_platform (\<lambda>_. None) (\<lambda>_. []) standard_options demo_target = Inr g
     \<and> set SENSITIVE_NAMES \<subseteq> set (gd_sensitive g)"
proof -
  let ?r = "guard toy_platform (\<lambda>_. None) (\<lambda>_. []) (standard_options :: unit options) demo_target"
  have "case ?r of Inr g \<Rightarrow> True | Inl x \<Rightarrow> False" by code_simp
  then obtain g where g: "?r = Inr g" by (cases ?r) simp_all
  from guarded_function_typed [OF g] g show ?thesis by simp
qed

end
