(* ===== verification/Html.thy ===== *)
theory Html
  imports PyText
begin

text \<open>
  \<open>html.escape\<close> (with quotes) of the standard library, which the approval page and the evidence
  report apply to every text they embed, and the markup of a page: the characters that a browser
  reads as the start or end of a tag or of an attribute value.
\<close>

definition escape_char :: "char \<Rightarrow> string" where
  "escape_char c =
     (if c = CHR ''&'' then ''&amp;''
      else if c = CHR ''<'' then ''&lt;''
      else if c = CHR ''>'' then ''&gt;''
      else if c = CHR 0x22 then ''&quot;''
      else if c = CHR 0x27 then ''&#x27;''
      else [c])"

definition html_escape :: "string \<Rightarrow> string" where
  "html_escape s = concat (map escape_char s)"

definition is_markup :: "char \<Rightarrow> bool" where
  "is_markup c \<longleftrightarrow> c \<in> {CHR ''<'', CHR ''>'', CHR 0x22, CHR 0x27}"

definition markup :: "string \<Rightarrow> string" where
  "markup s = filter is_markup s"

named_theorems markup_simps \<open>the markup of composed text\<close>

lemma markup_append [markup_simps]: "markup (s @ t) = markup s @ markup t"
  by (simp add: markup_def)

lemma markup_Nil [markup_simps]: "markup [] = []"
  by (simp add: markup_def)

lemma markup_concat [markup_simps]: "markup (concat ss) = concat (map markup ss)"
  by (induction ss) (simp_all add: markup_def)

lemma escape_char_no_markup: "x \<in> set (escape_char c) \<Longrightarrow> \<not> is_markup x"
  by (auto simp: escape_char_def is_markup_def split: if_splits)

lemma markup_escape [markup_simps, simp]: "markup (html_escape s) = []"
  by (auto simp: markup_def html_escape_def filter_empty_conv dest: escape_char_no_markup)

end
