(* ===== verification/ApproveServer.thy ===== *)
theory ApproveServer
  imports Html Approval
begin

text \<open>
  The approval server (\<open>approve_server.py\<close>): pending requests, the two HTTP handlers and the
  provider that waits for an operator. A request object is shared between the table, the handler
  threads and the waiting call, so the objects live in a heap and the table holds their numbers.
  Each method runs under the server's lock; what happens between them is a step relation. A request
  to the server is its path with the parsed query and form (\<open>urllib.parse\<close>), and the tokens drawn
  by \<open>secrets\<close> are arguments.
\<close>

section \<open>The server\<close>

record pending =
  pn_request :: request
  pn_created :: rat
  pn_decided :: bool
  pn_decision :: "verdict option"
  pn_token :: string

record server =
  sv_token :: string
  sv_ttl :: rat
  sv_pending :: "(string, nat) dict"
  sv_counter :: nat
  sv_heap :: "pending list"

definition new_server :: "string \<Rightarrow> rat \<Rightarrow> server" where
  "new_server token ttl =
     \<lparr>sv_token = token, sv_ttl = ttl, sv_pending = [], sv_counter = 0, sv_heap = []\<rparr>"

definition settle :: "nat \<Rightarrow> verdict \<Rightarrow> server \<Rightarrow> server" where
  "settle n v s = s\<lparr>sv_heap := (sv_heap s)[n := (sv_heap s ! n)\<lparr>pn_decision := Some v, pn_decided := True\<rparr>]\<rparr>"

text \<open>\<open>_sweep_locked\<close>: undecided requests older than the time to live leave the table, denied.\<close>

definition expired_entries :: "rat \<Rightarrow> server \<Rightarrow> (string \<times> nat) list" where
  "expired_entries now s =
     filter (\<lambda>(pid, n). sv_ttl s < now - pn_created (sv_heap s ! n) \<and> \<not> pn_decided (sv_heap s ! n)) (sv_pending s)"

definition expire :: "string \<times> nat \<Rightarrow> server \<Rightarrow> server" where
  "expire x s = (case x of (pid, n) \<Rightarrow>
     settle n (deny ''approval request expired'') (s\<lparr>sv_pending := ddel pid (sv_pending s)\<rparr>))"

definition sweep_locked :: "rat \<Rightarrow> server \<Rightarrow> server" where
  "sweep_locked now s = fold expire (expired_entries now s) s"

definition request_id :: "nat \<Rightarrow> string" where
  "request_id n = ''req-'' @ dec_nat n"

text \<open>\<open>register\<close>: the identifier and the number of the new object; two readings of the clock.\<close>

definition server_register :: "rat \<Rightarrow> rat \<Rightarrow> string \<Rightarrow> request \<Rightarrow> server \<Rightarrow> (string \<times> nat) \<times> server" where
  "server_register created now token r s =
     (let k = sv_counter s + 1;
          pid = request_id k;
          n = length (sv_heap s);
          pending = \<lparr>pn_request = r, pn_created = created, pn_decided = False, pn_decision = None, pn_token = token\<rparr>;
          s = s\<lparr>sv_counter := k, sv_heap := sv_heap s @ [pending], sv_pending := dset pid n (sv_pending s)\<rparr>
      in ((pid, n), sweep_locked now s))"

text \<open>\<open>secrets.compare_digest\<close> raises on text outside ASCII.\<close>

definition compare_digest :: "string \<Rightarrow> string \<Rightarrow> exn + bool" where
  "compare_digest a b =
     (if (\<forall>c \<in> set a. code c < 128) \<and> (\<forall>c \<in> set b. code c < 128) then Inr (a = b) else Inl TypeError)"

definition operator_verdict :: "bool \<Rightarrow> string \<Rightarrow> verdict" where
  "operator_verdict allows by =
     (let who = (if by = [] then ''web'' else by)
      in \<lparr>vd_decision = (if allows then DECISION_ALLOWED else DECISION_DENIED),
          vd_reason = ''decided by operator ('' @ who @ '')'', vd_approved_by = Some who\<rparr>)"

lemma operator_verdict_allowed [simp]: "vd_allowed (operator_verdict allows by) \<longleftrightarrow> allows"
  by (simp add: operator_verdict_def vd_allowed_def Let_def DECISION_ALLOWED_def DECISION_DENIED_def)

text \<open>\<open>_decide\<close>\<close>

definition server_decide :: "string \<Rightarrow> bool \<Rightarrow> string \<Rightarrow> string \<Rightarrow> server \<Rightarrow> exn + bool \<times> server" where
  "server_decide pid allows by token s =
     (case dget (sv_pending s) pid of
        None \<Rightarrow> Inr (False, s)
      | Some n \<Rightarrow>
          if pn_decided (sv_heap s ! n) then Inr (False, s)
          else bindR (compare_digest token (pn_token (sv_heap s ! n))) (\<lambda>ok.
            if \<not> ok then Inr (False, s) else Inr (True, settle n (operator_verdict allows by) s)))"

text \<open>\<open>await_decision\<close>, before and after the wait; \<open>decided\<close> is what the wait returned.\<close>

definition await_enter :: "string \<Rightarrow> server \<Rightarrow> verdict + nat" where
  "await_enter pid s =
     (case dget (sv_pending s) pid of None \<Rightarrow> Inl (deny ''approval request expired'') | Some n \<Rightarrow> Inr n)"

definition await_leave :: "platform \<Rightarrow> rat \<Rightarrow> string \<Rightarrow> nat \<Rightarrow> bool \<Rightarrow> server \<Rightarrow> verdict \<times> server" where
  "await_leave P timeout pid n decided s =
     (case (decided, pn_decision (sv_heap s ! n)) of
        (True, Some v) \<Rightarrow> v
      | _ \<Rightarrow> deny (''no operator decision within '' @ format_g P timeout @ ''s; failing closed''),
      s\<lparr>sv_pending := ddel pid (sv_pending s)\<rparr>)"

section \<open>The handlers\<close>

record http =
  ht_path :: string
  ht_query :: "(string, string list) dict"
  ht_form :: "exn + (string, string list) dict" \<comment> \<open>the body read, decoded and parsed\<close>

definition first_value :: "(string, string list) dict \<Rightarrow> string \<Rightarrow> string \<Rightarrow> string" where
  "first_value d k missing = hd (dget_default d k [missing])"

type_synonym response = "nat \<times> string"

definition do_POST :: "http \<Rightarrow> server \<Rightarrow> exn + response \<times> server" where
  "do_POST q s =
     (if ht_path q \<noteq> ''/decide'' then Inr ((404, []), s)
      else bindR (ht_form q) (\<lambda>form.
        bindR (compare_digest (first_value form ''token'' []) (sv_token s)) (\<lambda>authed.
          if \<not> authed then Inr ((403, ''forbidden''), s)
          else bindR (server_decide (first_value form ''id'' []) (first_value form ''decision'' [] = ''allow'')
                        (py_take 120 (first_value form ''by'' ''web'')) (first_value form ''req_token'' []) s)
            (\<lambda>(ok, s'). Inr ((if ok then (200, ''recorded'') else (410, ''gone'')), s')))))"

definition page_row :: "string \<Rightarrow> string \<times> pending \<Rightarrow> string" where
  "page_row token x =
     (case x of (pid, pending) \<Rightarrow>
        let req = pn_request pending
        in ''<tr><td>'' @ html_escape pid @ ''</td><td>'' @ html_escape (rq_action_name req)
           @ ''</td><td>'' @ html_escape (rq_risk req) @ ''</td>''
           @ ''<td>'' @ html_escape (rq_summary req) @ ''</td>''
           @ ''<td><form method='post' action='/decide'>''
           @ ''<input type='hidden' name='token' value='' @ [CHR 0x27] @ html_escape token @ [CHR 0x27] @ ''>''
           @ ''<input type='hidden' name='id' value='' @ [CHR 0x27] @ html_escape pid @ [CHR 0x27] @ ''>''
           @ ''<input type='hidden' name='req_token' value='' @ [CHR 0x27] @ html_escape (pn_token pending) @ [CHR 0x27] @ ''>''
           @ ''<button name='decision' value='allow'>Allow</button>''
           @ ''<button name='decision' value='deny'>Deny</button>''
           @ ''</form></td></tr>'')"

definition page_head :: string where
  "page_head =
     ''<!DOCTYPE html><html><head><meta charset='utf-8'>''
     @ ''<meta name='viewport' content='width=device-width'>''
     @ ''<title>Approvals</title></head><body>''
     @ ''<h1>Pending approvals</h1>''
     @ ''<table border='1' cellpadding='6'>''
     @ ''<tr><th>ID</th><th>Action</th><th>Risk</th><th>Input</th><th></th></tr>''"

definition page_none :: string where "page_none = ''<tr><td colspan='5'>(none)</td></tr>''"
definition page_tail :: string where "page_tail = ''</table></body></html>''"

definition page :: "string \<Rightarrow> (string \<times> pending) list \<Rightarrow> string" where
  "page token entries =
     page_head @ (if entries = [] then page_none else concat (map (page_row token) entries)) @ page_tail"

text \<open>\<open>do_GET\<close>: the sweep of \<open>_snapshot\<close>, then the page.\<close>

definition do_GET :: "rat \<Rightarrow> http \<Rightarrow> server \<Rightarrow> exn + response \<times> server" where
  "do_GET now q s =
     bindR (compare_digest (first_value (ht_query q) ''token'' []) (sv_token s)) (\<lambda>authed.
       if \<not> authed then Inr ((403, ''forbidden''), s)
       else (let s' = sweep_locked now s
             in Inr ((200, page (sv_token s') (map (\<lambda>(pid, n). (pid, sv_heap s' ! n)) (sv_pending s'))), s')))"

section \<open>Calls, operators and time\<close>

text \<open>A call that asks for approval is at one of four places of \<open>ServerApprovalProvider.decide\<close>.\<close>

datatype phase = Registered | Waiting | Woken bool | Answered verdict

record exchange =
  wd_server :: server
  wd_phase :: "nat \<Rightarrow> phase option"
  wd_ids :: "nat \<Rightarrow> string"
  wd_recorded :: "http list" \<comment> \<open>the posts answered 200, in order\<close>

definition start_exchange :: "string \<Rightarrow> rat \<Rightarrow> exchange" where
  "start_exchange token ttl =
     \<lparr>wd_server = new_server token ttl, wd_phase = (\<lambda>_. None), wd_ids = (\<lambda>_. []), wd_recorded = []\<rparr>"

inductive serve :: "platform \<Rightarrow> rat \<Rightarrow> exchange \<Rightarrow> exchange \<Rightarrow> bool" for P timeout where
  register: "server_register created now token r (wd_server w) = ((pid, n), s) \<Longrightarrow>
    serve P timeout w (w\<lparr>wd_server := s, wd_phase := (wd_phase w)(n \<mapsto> Registered), wd_ids := (wd_ids w)(n := pid)\<rparr>)"
| enter: "wd_phase w n = Some Registered \<Longrightarrow> await_enter (wd_ids w n) (wd_server w) = Inr m \<Longrightarrow>
    serve P timeout w (w\<lparr>wd_phase := (wd_phase w)(n \<mapsto> Waiting)\<rparr>)"
| enter_expired: "wd_phase w n = Some Registered \<Longrightarrow> await_enter (wd_ids w n) (wd_server w) = Inl v \<Longrightarrow>
    serve P timeout w (w\<lparr>wd_phase := (wd_phase w)(n \<mapsto> Answered v)\<rparr>)"
| wake: "wd_phase w n = Some Waiting \<Longrightarrow>
    serve P timeout w (w\<lparr>wd_phase := (wd_phase w)(n \<mapsto> Woken (pn_decided (sv_heap (wd_server w) ! n)))\<rparr>)"
| leave: "wd_phase w n = Some (Woken decided) \<Longrightarrow>
    await_leave P timeout (wd_ids w n) n decided (wd_server w) = (v, s) \<Longrightarrow>
    serve P timeout w (w\<lparr>wd_server := s, wd_phase := (wd_phase w)(n \<mapsto> Answered v)\<rparr>)"
| post: "do_POST q (wd_server w) = Inr ((status, body), s) \<Longrightarrow>
    serve P timeout w (w\<lparr>wd_server := s, wd_recorded := (if status = 200 then wd_recorded w @ [q] else wd_recorded w)\<rparr>)"
| get: "do_GET now q (wd_server w) = Inr (resp, s) \<Longrightarrow> serve P timeout w (w\<lparr>wd_server := s\<rparr>)"

section \<open>Requests are settled once\<close>

definition lapsed :: "pending \<Rightarrow> pending" where
  "lapsed p = p\<lparr>pn_decision := Some (deny ''approval request expired''), pn_decided := True\<rparr>"

lemma lapsed_simps [simp]:
  "lapsed (lapsed p) = lapsed p" "pn_token (lapsed p) = pn_token p" "pn_decided (lapsed p)"
  "pn_decision (lapsed p) = Some (deny ''approval request expired'')" "pn_request (lapsed p) = pn_request p"
  by (simp_all add: lapsed_def)

lemma settle_simps [simp]:
  "sv_token (settle n v s) = sv_token s" "sv_pending (settle n v s) = sv_pending s"
  "sv_counter (settle n v s) = sv_counter s" "length (sv_heap (settle n v s)) = length (sv_heap s)"
  by (simp_all add: settle_def)

lemma expire_simps [simp]:
  "sv_token (expire (pid, n) s) = sv_token s" "sv_counter (expire (pid, n) s) = sv_counter s"
  "sv_pending (expire (pid, n) s) = ddel pid (sv_pending s)"
  "sv_heap (expire (pid, n) s) = (sv_heap s)[n := lapsed (sv_heap s ! n)]"
  by (simp_all add: expire_def settle_def lapsed_def)

lemma ddel_subset: "set (ddel k d) \<subseteq> set d"
  by (induction d) auto

lemma fold_expire_table:
  "sv_token (fold expire xs s) = sv_token s \<and> sv_counter (fold expire xs s) = sv_counter s
   \<and> length (sv_heap (fold expire xs s)) = length (sv_heap s)
   \<and> set (sv_pending (fold expire xs s)) \<subseteq> set (sv_pending s)
   \<and> (distinct (map fst (sv_pending s)) \<longrightarrow> distinct (map fst (sv_pending (fold expire xs s))))"
proof (induction xs arbitrary: s)
  case (Cons x xs)
  obtain pid n where "x = (pid, n)" by (cases x)
  with Cons.IH [of "expire x s"] ddel_subset [of pid "sv_pending s"] distinct_ddel [of "sv_pending s" pid]
  show ?case by auto
qed simp

lemma fold_expire_heap:
  assumes "n < length (sv_heap s)"
  shows "sv_heap (fold expire xs s) ! n = (if n \<in> snd ` set xs then lapsed (sv_heap s ! n) else sv_heap s ! n)"
  using assms
proof (induction xs arbitrary: s)
  case (Cons x xs)
  obtain pid m where x: "x = (pid, m)" by (cases x)
  with Cons.prems Cons.IH [of "expire x s"] show ?case by (cases "m = n") auto
qed simp

lemma sweep_table:
  "sv_token (sweep_locked now s) = sv_token s" "sv_counter (sweep_locked now s) = sv_counter s"
  "length (sv_heap (sweep_locked now s)) = length (sv_heap s)"
  "set (sv_pending (sweep_locked now s)) \<subseteq> set (sv_pending s)"
  "distinct (map fst (sv_pending s)) \<Longrightarrow> distinct (map fst (sv_pending (sweep_locked now s)))"
  using fold_expire_table [of "expired_entries now s" s] by (auto simp: sweep_locked_def)

lemma sweep_heap:
  assumes "n < length (sv_heap s)"
  shows "sv_heap (sweep_locked now s) ! n = sv_heap s ! n
    \<or> \<not> pn_decided (sv_heap s ! n) \<and> sv_heap (sweep_locked now s) ! n = lapsed (sv_heap s ! n)"
  using fold_expire_heap [OF assms, of "expired_entries now s"]
  by (auto simp: sweep_locked_def expired_entries_def split: if_splits)

section \<open>Invariant of the server\<close>

definition server_ok :: "server \<Rightarrow> bool" where
  "server_ok s \<longleftrightarrow> sv_counter s = length (sv_heap s) \<and> distinct (map fst (sv_pending s))
     \<and> (\<forall>(pid, n) \<in> set (sv_pending s). n < length (sv_heap s) \<and> pid = request_id (Suc n))
     \<and> (\<forall>n < length (sv_heap s). pn_decided (sv_heap s ! n) \<longleftrightarrow> pn_decision (sv_heap s ! n) \<noteq> None)"

text \<open>
  What one step may do to the requests: none is lost or renamed, a settled one never changes, and
  each newly settled one has expired or has the verdict \<open>new\<close> gives for it.
\<close>

definition evolves :: "(nat \<Rightarrow> verdict \<Rightarrow> bool) \<Rightarrow> server \<Rightarrow> server \<Rightarrow> bool" where
  "evolves new s s' \<longleftrightarrow> sv_token s' = sv_token s \<and> length (sv_heap s) \<le> length (sv_heap s')
     \<and> (\<forall>n < length (sv_heap s). pn_token (sv_heap s' ! n) = pn_token (sv_heap s ! n)
          \<and> (pn_decided (sv_heap s ! n) \<longrightarrow> sv_heap s' ! n = sv_heap s ! n))
     \<and> (\<forall>n < length (sv_heap s'). \<forall>v. pn_decision (sv_heap s' ! n) = Some v \<longrightarrow>
          v = deny ''approval request expired'' \<or> n < length (sv_heap s) \<and> pn_decision (sv_heap s ! n) = Some v
          \<or> n < length (sv_heap s) \<and> \<not> pn_decided (sv_heap s ! n) \<and> new n v)"

lemma evolves_decision:
  "evolves new s s' \<Longrightarrow> n < length (sv_heap s') \<Longrightarrow> pn_decision (sv_heap s' ! n) = Some v \<Longrightarrow>
   v = deny ''approval request expired'' \<or> n < length (sv_heap s) \<and> pn_decision (sv_heap s ! n) = Some v
   \<or> n < length (sv_heap s) \<and> \<not> pn_decided (sv_heap s ! n) \<and> new n v"
  by (simp add: evolves_def)

lemma request_id_inj [simp]: "request_id m = request_id n \<longleftrightarrow> m = n"
  by (auto simp: request_id_def dest: inj_dec_nat)

lemma sweep_evolves:
  assumes "server_ok s"
  shows "server_ok (sweep_locked now s)" and "evolves (\<lambda>_ _. False) s (sweep_locked now s)"
proof -
  have s: "pn_token (sv_heap (sweep_locked now s) ! n) = pn_token (sv_heap s ! n)"
    "pn_decided (sv_heap s ! n) \<Longrightarrow> sv_heap (sweep_locked now s) ! n = sv_heap s ! n"
    "pn_decided (sv_heap (sweep_locked now s) ! n) \<longleftrightarrow> pn_decision (sv_heap (sweep_locked now s) ! n) \<noteq> None"
    "pn_decision (sv_heap (sweep_locked now s) ! n) = Some v \<Longrightarrow>
       v = deny ''approval request expired'' \<or> pn_decision (sv_heap s ! n) = Some v"
    if "n < length (sv_heap s)" for n v
    using sweep_heap [OF that, of now] assms that by (auto simp: server_ok_def)
  show "server_ok (sweep_locked now s)"
    using assms s(3) sweep_table [where now = now and s = s] by (fastforce simp: server_ok_def)
  show "evolves (\<lambda>_ _. False) s (sweep_locked now s)"
    using s sweep_table [where now = now and s = s] by (auto simp: evolves_def)
qed

lemma evolves_trans:
  assumes "evolves new s t" and "evolves (\<lambda>_ _. False) t u"
  shows "evolves new s u"
proof -
  have len: "length (sv_heap s) \<le> length (sv_heap t)" "length (sv_heap t) \<le> length (sv_heap u)"
    and tok: "sv_token t = sv_token s" "sv_token u = sv_token t"
    using assms by (simp_all add: evolves_def)
  have old: "pn_token (sv_heap u ! n) = pn_token (sv_heap s ! n)"
    "pn_decided (sv_heap s ! n) \<Longrightarrow> sv_heap u ! n = sv_heap s ! n" if "n < length (sv_heap s)" for n
    using that len assms by (auto simp: evolves_def)
  have "v = deny ''approval request expired'' \<or> n < length (sv_heap s) \<and> pn_decision (sv_heap s ! n) = Some v
      \<or> n < length (sv_heap s) \<and> \<not> pn_decided (sv_heap s ! n) \<and> new n v"
    if "n < length (sv_heap u)" "pn_decision (sv_heap u ! n) = Some v" for n v
  proof (cases "v = deny ''approval request expired''")
    case False
    with that assms(2) have "n < length (sv_heap t)" "pn_decision (sv_heap t ! n) = Some v"
      by (auto simp: evolves_def)
    with assms(1) show ?thesis by (auto simp: evolves_def)
  qed simp
  with len tok old show ?thesis by (auto simp: evolves_def)
qed

lemma register_ok:
  assumes s: "server_ok s" and r: "server_register created now token r s = ((pid, n), s')"
  shows "n = length (sv_heap s)" "pid = request_id (Suc n)" "n < length (sv_heap s')" "server_ok s'"
    "evolves (\<lambda>_ _. False) s s'"
proof -
  let ?p = "\<lparr>pn_request = r, pn_created = created, pn_decided = False, pn_decision = None, pn_token = token\<rparr>"
  let ?s = "s\<lparr>sv_counter := sv_counter s + 1, sv_heap := sv_heap s @ [?p],
     sv_pending := dset (request_id (sv_counter s + 1)) (length (sv_heap s)) (sv_pending s)\<rparr>"
  from r have s': "s' = sweep_locked now ?s" and n: "n = length (sv_heap s)"
    and pid: "pid = request_id (sv_counter s + 1)"
    by (auto simp: server_register_def Let_def)
  from s have c: "sv_counter s = length (sv_heap s)" by (simp add: server_ok_def)
  have ok: "server_ok ?s"
    using s by (auto simp: server_ok_def nth_append less_Suc_eq dest!: dset_values)
  have "evolves (\<lambda>_ _. False) s ?s"
    by (auto simp: evolves_def nth_append less_Suc_eq)
  from evolves_trans [OF this sweep_evolves(2) [OF ok]] show "evolves (\<lambda>_ _. False) s s'" by (simp add: s')
  show "n = length (sv_heap s)" "pid = request_id (Suc n)" using n pid c by simp_all
  show "server_ok s'" using sweep_evolves(1) [OF ok] by (simp add: s')
  show "n < length (sv_heap s')" using n sweep_table(3) [of now ?s] by (simp add: s')
qed

lemma decide_settles:
  assumes "server_ok s" and "server_decide pid allows by token s = Inr (ok, s')"
  shows "\<not> ok \<Longrightarrow> s' = s"
    and "ok \<Longrightarrow> \<exists>n < length (sv_heap s). pid = request_id (Suc n) \<and> \<not> pn_decided (sv_heap s ! n)
       \<and> token = pn_token (sv_heap s ! n) \<and> s' = settle n (operator_verdict allows by) s"
  using assms
  by (auto simp: server_decide_def server_ok_def bindR_Inr_iff compare_digest_def
      split: option.splits if_splits dest!: dget_mem)

lemma settle_evolves:
  assumes "server_ok s" and "n < length (sv_heap s)" and "\<not> pn_decided (sv_heap s ! n)"
  shows "server_ok (settle n v s)" "evolves (\<lambda>m w. m = n \<and> w = v) s (settle n v s)"
    "pn_decided (sv_heap (settle n v s) ! n)" "pn_decision (sv_heap (settle n v s) ! n) = Some v"
  using assms by (auto simp: server_ok_def evolves_def settle_def nth_list_update)

text \<open>What a post must carry to settle request number n with verdict v.\<close>

definition authorises :: "string \<Rightarrow> string \<Rightarrow> http \<Rightarrow> nat \<Rightarrow> verdict \<Rightarrow> bool" where
  "authorises page_token request_token q n v \<longleftrightarrow>
     (\<exists>form. ht_path q = ''/decide'' \<and> ht_form q = Inr form
        \<and> first_value form ''token'' [] = page_token \<and> first_value form ''req_token'' [] = request_token
        \<and> first_value form ''id'' [] = request_id (Suc n)
        \<and> v = operator_verdict (first_value form ''decision'' [] = ''allow'') (py_take 120 (first_value form ''by'' ''web'')))"

lemma post_settles:
  assumes "server_ok s" and "do_POST q s = Inr ((status, body), s')"
  shows "status \<noteq> 200 \<Longrightarrow> s' = s"
    and "status = 200 \<Longrightarrow> \<exists>n v. n < length (sv_heap s) \<and> \<not> pn_decided (sv_heap s ! n)
       \<and> authorises (sv_token s) (pn_token (sv_heap s ! n)) q n v \<and> s' = settle n v s"
proof -
  assume "status = 200"
  with assms(2) obtain form where q: "ht_path q = ''/decide''" "ht_form q = Inr form"
    "first_value form ''token'' [] = sv_token s"
    "server_decide (first_value form ''id'' []) (first_value form ''decision'' [] = ''allow'')
       (py_take 120 (first_value form ''by'' ''web'')) (first_value form ''req_token'' []) s = Inr (True, s')"
    by (auto simp: do_POST_def bindR_Inr_iff compare_digest_def split: if_splits)
  from decide_settles(2) [OF assms(1) q(4)] q(1-3)
  show "\<exists>n v. n < length (sv_heap s) \<and> \<not> pn_decided (sv_heap s ! n)
       \<and> authorises (sv_token s) (pn_token (sv_heap s ! n)) q n v \<and> s' = settle n v s"
    by (auto simp: authorises_def)
next
  assume "status \<noteq> 200"
  with assms(2) show "s' = s"
    by (auto simp: do_POST_def bindR_Inr_iff split: if_splits dest: decide_settles(1) [OF assms(1)])
qed

lemma get_evolves:
  assumes "server_ok s" and "do_GET now q s = Inr (resp, s')"
  shows "server_ok s'" "evolves (\<lambda>_ _. False) s s'"
proof -
  from assms(2) consider "s' = s" | "s' = sweep_locked now s"
    by (auto simp: do_GET_def bindR_Inr_iff Let_def split: if_splits)
  note c = this
  have "evolves (\<lambda>_ _. False) s s" using assms(1) by (auto simp: evolves_def)
  with c show "server_ok s'" "evolves (\<lambda>_ _. False) s s'"
    using sweep_evolves [OF assms(1)] assms(1) by auto
qed

lemma leave_evolves:
  assumes "server_ok s" and "await_leave P timeout pid n decided s = (v, s')"
  shows "server_ok s'" "evolves (\<lambda>_ _. False) s s'"
    "vd_allowed v \<Longrightarrow> pn_decision (sv_heap s ! n) = Some v"
proof -
  from assms(2) have s': "s' = s\<lparr>sv_pending := ddel pid (sv_pending s)\<rparr>" by (simp add: await_leave_def)
  show "server_ok s'" using assms(1) ddel_subset [of pid "sv_pending s"] distinct_ddel [of "sv_pending s" pid]
    by (auto simp: server_ok_def s')
  show "evolves (\<lambda>_ _. False) s s'" by (auto simp: evolves_def s')
  show "vd_allowed v \<Longrightarrow> pn_decision (sv_heap s ! n) = Some v"
    using assms(2) by (auto simp: await_leave_def split: bool.splits option.splits)
qed

section \<open>Reachable states\<close>

definition granted_by :: "exchange \<Rightarrow> http \<Rightarrow> nat \<Rightarrow> verdict \<Rightarrow> bool" where
  "granted_by w q n v \<longleftrightarrow> q \<in> set (wd_recorded w)
     \<and> authorises (sv_token (wd_server w)) (pn_token (sv_heap (wd_server w) ! n)) q n v"

definition posted_id :: "http \<Rightarrow> string" where
  "posted_id q = (case ht_form q of Inr form \<Rightarrow> first_value form ''id'' [] | Inl _ \<Rightarrow> [])"

lemma authorises_id: "authorises a b q n v \<Longrightarrow> posted_id q = request_id (Suc n)"
  by (auto simp: authorises_def posted_id_def)

lemma deny_not_allowed: "vd_allowed v \<Longrightarrow> v \<noteq> deny r"
  by auto

definition world_ok :: "exchange \<Rightarrow> bool" where
  "world_ok w \<longleftrightarrow> server_ok (wd_server w)
     \<and> (\<forall>n. wd_phase w n \<noteq> None \<longrightarrow> n < length (sv_heap (wd_server w)) \<and> wd_ids w n = request_id (Suc n))
     \<and> (\<forall>n < length (sv_heap (wd_server w)). \<forall>v. pn_decision (sv_heap (wd_server w) ! n) = Some v \<longrightarrow>
          v = deny ''approval request expired'' \<or> (\<exists>q. granted_by w q n v))
     \<and> (\<forall>n v. wd_phase w n = Some (Answered v) \<longrightarrow> vd_allowed v \<longrightarrow> (\<exists>q. granted_by w q n v))
     \<and> (\<forall>q \<in> set (wd_recorded w). \<exists>n < length (sv_heap (wd_server w)).
          pn_decided (sv_heap (wd_server w) ! n) \<and> posted_id q = request_id (Suc n))
     \<and> distinct (map posted_id (wd_recorded w))"

lemma world_ok_decision:
  assumes "world_ok w" and "n < length (sv_heap (wd_server w))"
    and "pn_decision (sv_heap (wd_server w) ! n) = Some v" and "vd_allowed v"
  shows "\<exists>q. granted_by w q n v"
proof -
  from assms(1-3) have "v = deny ''approval request expired'' \<or> (\<exists>q. granted_by w q n v)"
    unfolding world_ok_def by simp
  with deny_not_allowed [OF assms(4)] show ?thesis by simp
qed

text \<open>A step of the server that records the posts \<open>qs\<close> keeps what is known of the requests.\<close>

lemma world_ok_server:
  assumes w: "world_ok w" and s: "server_ok s"
    and e: "evolves (\<lambda>n v. \<exists>q \<in> set qs. authorises (sv_token (wd_server w)) (pn_token (sv_heap (wd_server w) ! n)) q n v)
        (wd_server w) s"
    and d: "distinct (map posted_id (wd_recorded w @ qs))"
    and q: "\<forall>q \<in> set qs. \<exists>n < length (sv_heap s). pn_decided (sv_heap s ! n) \<and> posted_id q = request_id (Suc n)"
  shows "world_ok (w\<lparr>wd_server := s, wd_recorded := wd_recorded w @ qs\<rparr>)" (is "world_ok ?w")
proof -
  have len: "length (sv_heap (wd_server w)) \<le> length (sv_heap s)" using e by (simp add: evolves_def)
  have keep: "granted_by w q n v \<Longrightarrow> granted_by ?w q n v" if "n < length (sv_heap (wd_server w))" for q n v
    using e that by (auto simp: granted_by_def evolves_def)
  have new: "granted_by ?w q n v" if "n < length (sv_heap (wd_server w))" "q \<in> set qs"
      "authorises (sv_token (wd_server w)) (pn_token (sv_heap (wd_server w) ! n)) q n v" for q n v
    using e that by (auto simp: granted_by_def evolves_def)
  have decisions: "v = deny ''approval request expired'' \<or> (\<exists>q. granted_by ?w q n v)"
    if "n < length (sv_heap s)" "pn_decision (sv_heap s ! n) = Some v" for n v
  proof (cases "v = deny ''approval request expired''")
    case False
    with evolves_decision [OF e that] consider "n < length (sv_heap (wd_server w))" "pn_decision (sv_heap (wd_server w) ! n) = Some v"
      | q where "n < length (sv_heap (wd_server w))" "q \<in> set qs"
          "authorises (sv_token (wd_server w)) (pn_token (sv_heap (wd_server w) ! n)) q n v"
      by blast
    then show ?thesis
    proof cases
      case 1
      with w False have "\<exists>q. granted_by w q n v" by (auto simp: world_ok_def)
      with keep 1 show ?thesis by blast
    qed (use new in blast)
  qed simp
  have answers: "\<exists>q. granted_by ?w q n v" if "wd_phase w n = Some (Answered v)" "vd_allowed v" for n v
  proof -
    from w that have "n < length (sv_heap (wd_server w))" "\<exists>q. granted_by w q n v" by (auto simp: world_ok_def)
    with keep show ?thesis by blast
  qed
  have posts: "\<exists>n < length (sv_heap s). pn_decided (sv_heap s ! n) \<and> posted_id q = request_id (Suc n)"
    if q': "q \<in> set (wd_recorded w)" for q
  proof -
    from w q' obtain n where "n < length (sv_heap (wd_server w))" "pn_decided (sv_heap (wd_server w) ! n)"
      "posted_id q = request_id (Suc n)" by (auto simp: world_ok_def)
    with e len show ?thesis by (intro exI [of _ n]) (auto simp: evolves_def)
  qed
  have phases: "n < length (sv_heap s) \<and> wd_ids w n = request_id (Suc n)" if "wd_phase w n \<noteq> None" for n
    using w that len by (auto simp: world_ok_def dest: order_less_le_trans)
  show ?thesis
    using s d q decisions answers posts phases unfolding world_ok_def by auto
qed

lemma world_ok_phase:
  assumes "world_ok w" and "n < length (sv_heap (wd_server w))" and "pid = request_id (Suc n)"
    and "\<And>v. p = Answered v \<Longrightarrow> vd_allowed v \<Longrightarrow> \<exists>q. granted_by w q n v"
  shows "world_ok (w\<lparr>wd_phase := (wd_phase w)(n \<mapsto> p), wd_ids := (wd_ids w)(n := pid)\<rparr>)"
  using assms unfolding world_ok_def granted_by_def by auto

lemma world_ok_phase':
  assumes "world_ok w" and "wd_phase w n = Some p0"
    and "\<And>v. p = Answered v \<Longrightarrow> vd_allowed v \<Longrightarrow> \<exists>q. granted_by w q n v"
  shows "world_ok (w\<lparr>wd_phase := (wd_phase w)(n \<mapsto> p)\<rparr>)"
  using assms unfolding world_ok_def granted_by_def by auto

lemma world_ok_quiet:
  assumes "world_ok w" and "server_ok s" and "evolves (\<lambda>_ _. False) (wd_server w) s"
  shows "world_ok (w\<lparr>wd_server := s\<rparr>)"
  using world_ok_server [OF assms(1,2), of "[]"] assms by (simp add: world_ok_def)

lemma serve_ok: "serve P timeout w w' \<Longrightarrow> world_ok w \<Longrightarrow> world_ok w'"
proof (induction rule: serve.induct)
  case (register created now token r w pid n s)
  then have ok: "server_ok (wd_server w)" by (simp add: world_ok_def)
  note r = register_ok [OF ok register(1)]
  from world_ok_phase [OF world_ok_quiet [OF register(2) r(4,5)], of n pid Registered] r(2,3)
  show ?case by simp
next
  case (enter w n m)
  then show ?case by (intro world_ok_phase') auto
next
  case (enter_expired w n v)
  then have "\<not> vd_allowed v" by (auto simp: await_enter_def split: option.splits)
  with enter_expired show ?case by (intro world_ok_phase') auto
next
  case (wake w n)
  then show ?case by (intro world_ok_phase') auto
next
  case (leave w n decided v s)
  then have ok: "server_ok (wd_server w)" and n: "n < length (sv_heap (wd_server w))"
    by (auto simp: world_ok_def)
  note l = leave_evolves [OF ok leave(2)]
  have "\<exists>q. granted_by w q n v" if "vd_allowed v"
    using world_ok_decision [OF leave(3) n l(3) [OF that] that] .
  moreover have "granted_by (w\<lparr>wd_server := s\<rparr>) q n v" if "granted_by w q n v" for q
    using that l(2) n by (auto simp: granted_by_def evolves_def)
  ultimately have "world_ok ((w\<lparr>wd_server := s\<rparr>)\<lparr>wd_phase := (wd_phase w)(n \<mapsto> Answered v)\<rparr>)"
    using world_ok_phase' [OF world_ok_quiet [OF leave(3) l(1,2)], of n "Woken decided" "Answered v"] leave(1)
    by auto
  then show ?case by simp
next
  case (post q w status body s)
  then have ok: "server_ok (wd_server w)" by (simp add: world_ok_def)
  show ?case
  proof (cases "status = 200")
    case True
    from post_settles(2) [OF ok post(1) True] obtain n v where n: "n < length (sv_heap (wd_server w))"
      "\<not> pn_decided (sv_heap (wd_server w) ! n)" and s: "s = settle n v (wd_server w)"
      and a: "authorises (sv_token (wd_server w)) (pn_token (sv_heap (wd_server w) ! n)) q n v" by auto
    note e = settle_evolves [OF ok n, of v]
    have "posted_id q \<notin> set (map posted_id (wd_recorded w))"
      using post(2) n authorises_id [OF a] by (fastforce simp: world_ok_def)
    with post(2) have d: "distinct (map posted_id (wd_recorded w @ [q]))" by (auto simp: world_ok_def)
    have "evolves (\<lambda>n v. \<exists>q \<in> set [q]. authorises (sv_token (wd_server w)) (pn_token (sv_heap (wd_server w) ! n)) q n v)
        (wd_server w) s"
      using e(2) a unfolding s evolves_def by auto
    from world_ok_server [OF post(2) _ this d] e(1,3) n authorises_id [OF a] True s show ?thesis by auto
  next
    case False
    with post_settles(1) [OF ok post(1)] post(2) show ?thesis by simp
  qed
next
  case (get now q w resp s)
  then have ok: "server_ok (wd_server w)" by (simp add: world_ok_def)
  from world_ok_quiet [OF get(2) get_evolves [OF ok get(1)]] show ?case .
qed

lemma start_ok: "world_ok (start_exchange token ttl)"
  by (simp add: world_ok_def start_exchange_def new_server_def server_ok_def)

lemma reachable_ok: "(serve P timeout)\<^sup>*\<^sup>* (start_exchange token ttl) w \<Longrightarrow> world_ok w"
  by (induction rule: rtranclp_induct) (auto simp: start_ok intro: serve_ok)

lemma operation_token:
  "server_register created now token r s = (x, s') \<Longrightarrow> sv_token s' = sv_token s"
  "await_leave P timeout pid n decided s = (v, s') \<Longrightarrow> sv_token s' = sv_token s"
  "do_POST q s = Inr (resp, s') \<Longrightarrow> sv_token s' = sv_token s"
  "do_GET now q s = Inr (resp, s') \<Longrightarrow> sv_token s' = sv_token s"
  by (auto simp: server_register_def await_leave_def do_POST_def do_GET_def server_decide_def bindR_Inr_iff
      Let_def sweep_table split: if_splits option.splits)

lemma reachable_token: "(serve P timeout)\<^sup>*\<^sup>* (start_exchange token ttl) w \<Longrightarrow> sv_token (wd_server w) = token"
proof (induction rule: rtranclp_induct)
  case (step w w')
  have "sv_token (wd_server w') = sv_token (wd_server w)"
    using step(2) by (cases rule: serve.cases) (auto dest: operation_token)
  with step(3) show ?case by simp
qed (simp add: start_exchange_def new_server_def)

section \<open>What the server guarantees\<close>

text \<open>
  C18: No approval without the operator: in every interleaving of calls, posts, page loads and expiry, a
  call is allowed only if a post with the page token and the single-use token of that very request
  said allow and was recorded; the call returns that post's verdict, and no request is decided by two
  recorded posts.
\<close>

theorem approval_needs_operator:
  assumes "(serve P timeout)\<^sup>*\<^sup>* (start_exchange token ttl) w"
    and "wd_phase w n = Some (Answered v)" and "vd_allowed v"
  shows "(\<exists>q \<in> set (wd_recorded w). authorises token (pn_token (sv_heap (wd_server w) ! n)) q n v)
    \<and> distinct (map posted_id (wd_recorded w))"
  using reachable_ok [OF assms(1)] reachable_token [OF assms(1)] assms(2,3)
  unfolding world_ok_def granted_by_def by blast

lemma delivered:
  assumes w: "world_ok w" and n: "wd_phase w n = Some Waiting" and q: "do_POST q (wd_server w) = Inr ((200, body), s)"
    and id: "posted_id q = request_id (Suc n)"
  shows "\<exists>v w'. authorises (sv_token (wd_server w)) (pn_token (sv_heap (wd_server w) ! n)) q n v
    \<and> (serve P timeout)\<^sup>*\<^sup>* w w' \<and> wd_phase w' n = Some (Answered v)"
proof -
  from w have ok: "server_ok (wd_server w)" by (simp add: world_ok_def)
  from post_settles(2) [OF ok q refl] obtain m v where m: "m < length (sv_heap (wd_server w))"
    "\<not> pn_decided (sv_heap (wd_server w) ! m)" "s = settle m v (wd_server w)"
    and a: "authorises (sv_token (wd_server w)) (pn_token (sv_heap (wd_server w) ! m)) q m v" by auto
  from id authorises_id [OF a] have mn: "m = n" by simp
  note d = settle_evolves(3,4) [OF ok m(1,2), of v, folded m(3), unfolded mn]
  let ?w1 = "w\<lparr>wd_server := s, wd_recorded := wd_recorded w @ [q]\<rparr>"
  let ?w2 = "?w1\<lparr>wd_phase := (wd_phase w)(n \<mapsto> Woken True)\<rparr>"
  let ?s3 = "s\<lparr>sv_pending := ddel (wd_ids w n) (sv_pending s)\<rparr>"
  have "serve P timeout w ?w1" using serve.post [OF q] by simp
  moreover have "serve P timeout ?w1 ?w2"
    using serve.wake [of ?w1 n P timeout] n d by simp
  moreover have "await_leave P timeout (wd_ids w n) n True s = (v, ?s3)"
    using d by (simp add: await_leave_def)
  then have "serve P timeout ?w2 (?w2\<lparr>wd_server := ?s3, wd_phase := (wd_phase ?w2)(n \<mapsto> Answered v)\<rparr>)"
    by (intro serve.leave [of _ _ True]) simp_all
  ultimately have "(serve P timeout)\<^sup>*\<^sup>* w (?w2\<lparr>wd_server := ?s3, wd_phase := (wd_phase ?w2)(n \<mapsto> Answered v)\<rparr>)"
    by (meson converse_rtranclp_into_rtranclp rtranclp.rtrancl_refl)
  with a mn show ?thesis by (intro exI conjI) auto
qed

text \<open>
  C38: The operator is heard: when a call waits and a post for its request is answered 200, the call can
  return, and it returns the verdict of that post, whatever else is pending.
\<close>

theorem operator_decision_delivered:
  assumes "(serve P timeout)\<^sup>*\<^sup>* (start_exchange token ttl) w" and "wd_phase w n = Some Waiting"
    and "do_POST q (wd_server w) = Inr ((200, body), s)" and "posted_id q = request_id (Suc n)"
  shows "\<exists>v w'. authorises token (pn_token (sv_heap (wd_server w) ! n)) q n v
    \<and> (serve P timeout)\<^sup>*\<^sup>* w w' \<and> wd_phase w' n = Some (Answered v)"
  using delivered [OF reachable_ok [OF assms(1)] assms(2-4)] reachable_token [OF assms(1)] by simp

section \<open>One call and one operator\<close>

definition demo_ask :: request where
  "demo_ask = \<lparr>rq_action_name = ''pay'', rq_risk = ''high'', rq_approval_mode = ''required'',
     rq_summary = ''<b>'', rq_input_hash = ''i'', rq_contract_hash = ''c'', rq_spend_cents = None\<rparr>"

definition demo_post :: http where
  "demo_post = \<lparr>ht_path = ''/decide'', ht_query = [],
     ht_form = Inr [(''token'', [''T'']), (''id'', [''req-1'']), (''req_token'', [''R'']), (''decision'', [''allow''])]\<rparr>"

definition demo_pending :: pending where
  "demo_pending = \<lparr>pn_request = demo_ask, pn_created = 0, pn_decided = False, pn_decision = None, pn_token = ''R''\<rparr>"

definition demo_server :: server where
  "demo_server = \<lparr>sv_token = ''T'', sv_ttl = 900, sv_pending = [(''req-1'', 0)], sv_counter = 1, sv_heap = [demo_pending]\<rparr>"

definition demo_waiting :: exchange where
  "demo_waiting = \<lparr>wd_server = demo_server, wd_phase = [0 \<mapsto> Waiting], wd_ids = (\<lambda>_. [])(0 := ''req-1''), wd_recorded = []\<rparr>"

lemma demo_reachable: "(serve toy_platform 300)\<^sup>*\<^sup>* (start_exchange ''T'' 900) demo_waiting"
proof -
  let ?w = "start_exchange ''T'' 900\<lparr>wd_server := demo_server, wd_phase := [0 \<mapsto> Registered],
     wd_ids := (\<lambda>_. [])(0 := ''req-1'')\<rparr>"
  have "server_register 0 0 ''R'' demo_ask (new_server ''T'' 900) = ((''req-1'', 0), demo_server)"
    by code_simp
  from serve.register [of 0 0 _ _ "start_exchange ''T'' 900"] this
  have "serve toy_platform 300 (start_exchange ''T'' 900) ?w" by (fastforce simp: start_exchange_def)
  moreover have "await_enter ''req-1'' demo_server = Inr 0" by code_simp
  then have "serve toy_platform 300 ?w (?w\<lparr>wd_phase := (wd_phase ?w)(0 \<mapsto> Waiting)\<rparr>)"
    by (intro serve.enter) simp_all
  then have "serve toy_platform 300 ?w demo_waiting"
    by (simp add: start_exchange_def demo_waiting_def)
  ultimately show ?thesis by (rule converse_rtranclp_into_rtranclp [OF _ r_into_rtranclp])
qed

definition posted :: "exn + response \<times> server \<Rightarrow> nat" where
  "posted r = (case r of Inr ((status, _), _) \<Rightarrow> status | Inl _ \<Rightarrow> 0)"

lemma demo_post_recorded: "\<exists>body s. do_POST demo_post demo_server = Inr ((200, body), s)"
proof -
  have "posted (do_POST demo_post demo_server) = 200" by code_simp
  then show ?thesis by (auto simp: posted_def split: sum.splits prod.splits)
qed

lemma demo_posted_id: "posted_id demo_post = request_id (Suc 0)" by code_simp

lemma operator_decision_delivered_witness:
  "\<exists>v w. (serve toy_platform 300)\<^sup>*\<^sup>* demo_waiting w \<and> wd_phase w 0 = Some (Answered v)"
proof -
  obtain body s where "do_POST demo_post (wd_server demo_waiting) = Inr ((200, body), s)"
    using demo_post_recorded by (auto simp: demo_waiting_def)
  from operator_decision_delivered [OF demo_reachable _ this demo_posted_id]
  show ?thesis by (auto simp: demo_waiting_def)
qed

lemma demo_answered:
  "\<exists>v w. (serve toy_platform 300)\<^sup>*\<^sup>* (start_exchange ''T'' 900) w \<and> wd_phase w 0 = Some (Answered v) \<and> vd_allowed v"
proof -
  obtain body s where "do_POST demo_post (wd_server demo_waiting) = Inr ((200, body), s)"
    using demo_post_recorded by (auto simp: demo_waiting_def)
  from delivered [OF reachable_ok [OF demo_reachable] _ this demo_posted_id, of toy_platform 300]
  obtain v w where "authorises ''T'' (pn_token (sv_heap demo_server ! 0)) demo_post 0 v"
    "(serve toy_platform 300)\<^sup>*\<^sup>* demo_waiting w" "wd_phase w 0 = Some (Answered v)"
    by (auto simp: demo_waiting_def demo_server_def)
  moreover from this(1) have "vd_allowed v"
    by (auto simp: authorises_def demo_post_def first_value_def dget_default_def)
  ultimately show ?thesis using rtranclp_trans [OF demo_reachable] by blast
qed

lemma approval_needs_operator_witness:
  "\<exists>(w :: exchange) v. wd_phase w 0 = Some (Answered v) \<and> (\<exists>q \<in> set (wd_recorded w). posted_id q = request_id (Suc 0))"
proof -
  from demo_answered obtain v w where w: "(serve toy_platform 300)\<^sup>*\<^sup>* (start_exchange ''T'' 900) w"
    "wd_phase w 0 = Some (Answered v)" "vd_allowed v" by blast
  from approval_needs_operator [OF w] obtain q where "q \<in> set (wd_recorded w)"
    "authorises ''T'' (pn_token (sv_heap (wd_server w) ! 0)) q 0 v" by blast
  then show ?thesis using w(2)
    by (intro exI [of _ w] exI [of _ v] conjI bexI [of _ q]) (auto dest: authorises_id)
qed

text \<open>
  The wait gives up before the lock is taken, so a post that arrives in between is answered
  ``recorded'' although the call is denied.
\<close>

lemma late_post_lost:
  assumes "do_POST demo_post demo_server = Inr ((200, body), s)"
  shows "\<not> vd_allowed (fst (await_leave P timeout ''req-1'' 0 False s))"
  by (simp add: await_leave_def)

section \<open>The page\<close>

lemma markup_row: "markup (page_row token x) = markup (page_row [] ([], demo_pending))"
  by (cases x) (simp only: page_row_def prod.case Let_def markup_simps)

text \<open>
  The page is inert: the tags and quotes of the page that lists any requests are those of the page
  that lists as many empty ones, so no action name or argument summary can add markup to it.
\<close>

theorem page_inert:
  "markup (page token entries) = markup (page [] (map (\<lambda>_. ([], demo_pending)) entries))"
proof -
  have "concat (map (markup \<circ> page_row token) entries)
      = concat (map (markup \<circ> (page_row [] \<circ> (\<lambda>_. ([], demo_pending)))) entries)"
    by (rule arg_cong [where f = concat], rule map_cong [OF refl], simp only: o_apply, rule markup_row)
  then show ?thesis by (simp add: page_def markup_simps comp_assoc)
qed

end
