(* ===== verification/Schemas.thy ===== *)
theory Schemas
  imports Json
begin

text \<open>
  Tool descriptions (\<open>schemas.py\<close>): the JSON Schema of the parameters of a callable. Annotations are
  hashable objects as \<open>typing\<close> reports them, after \<open>get_type_hints\<close>; the schemas the module builds
  are a datatype, with their dictionary form in \<open>schema_json\<close>. The meaning of a schema and of an
  annotation on a JSON value is the specification side: a schema must accept what the annotation allows.
\<close>

section \<open>Schemas\<close>

datatype schema =
    SAny
  | SType string
  | SAnyOf "schema list"
  | SArray schema
  | SObject "(string \<times> schema) list" "string list"

fun schema_json :: "schema \<Rightarrow> json" where
  "schema_json SAny = JObj []"
| "schema_json (SType t) = JObj [(''type'', JStr t)]"
| "schema_json (SAnyOf ss) = JObj [(''anyOf'', JArr (map schema_json ss))]"
| "schema_json (SArray s) = JObj [(''type'', JStr ''array''), (''items'', schema_json s)]"
| "schema_json (SObject ps req) =
     JObj ([(''type'', JStr ''object''), (''properties'', JObj (map (\<lambda>(k, s). (k, schema_json s)) ps))]
       @ (if req = [] then [] else [(''required'', JArr (map JStr req))]))"

definition with_null :: "schema \<Rightarrow> schema" where
  "with_null s =
     (if s = SAny then SAny else if s = SType ''null'' then s else SAnyOf [s, SType ''null''])"

text \<open>The end of both union branches: the constrained options and whether null is one.\<close>

definition union_schema :: "bool \<Rightarrow> schema list \<Rightarrow> schema" where
  "union_schema nullable options =
     (case options of
        [] \<Rightarrow> if nullable then SType ''null'' else SAny
      | [s] \<Rightarrow> if nullable then with_null s else s
      | _ \<Rightarrow> SAnyOf (options @ (if nullable then [SType ''null''] else [])))"

section \<open>Annotations in text form\<close>

definition NAME_TYPES :: "(string, string) dict" where
  "NAME_TYPES =
     [(''str'', ''string''), (''int'', ''integer''), (''float'', ''number''), (''bool'', ''boolean''),
      (''list'', ''array''), (''dict'', ''object''), (''None'', ''null''), (''NoneType'', ''null'')]"

definition unquoted :: "string \<Rightarrow> string" where
  "unquoted s = strip_by (\<lambda>c. c \<in> {CHR 0x27, CHR 0x22}) (py_strip s)"

fun split_bar :: "string \<Rightarrow> string list" where
  "split_bar [] = [[]]"
| "split_bar (c # cs) =
     (if c = CHR ''|'' then [] # split_bar cs
      else case split_bar cs of [] \<Rightarrow> [[c]] | p # ps \<Rightarrow> (c # p) # ps)"

lemma split_bar_nonempty [simp]: "split_bar s \<noteq> []"
  by (cases s) (auto split: list.splits)

lemma split_bar_length: "p \<in> set (split_bar s) \<Longrightarrow> length p \<le> length s"
  by (induction s arbitrary: p) (fastforce split: if_splits list.splits)+

lemma split_bar_shorter: "CHR ''|'' \<in> set s \<Longrightarrow> p \<in> set (split_bar s) \<Longrightarrow> length p < length s"
proof (induction s arbitrary: p)
  case (Cons c s)
  show ?case
  proof (cases "c = CHR ''|''")
    case True
    with Cons.prems show ?thesis by (auto simp: less_Suc_eq_le dest: split_bar_length)
  next
    case False
    with Cons.prems Cons.IH split_bar_length [of _ s] show ?thesis
      by (cases "split_bar s") (auto simp: less_Suc_eq_le Suc_le_eq)
  qed
qed simp

lemma length_strip_by: "length (strip_by P s) \<le> length s"
  by (metis length_dropWhile_le length_rev order_trans rstrip_def strip_by_def)

lemma length_concat_strip: "length (concat (strip_by P gs)) \<le> length (concat gs)"
proof -
  have d: "length (concat (dropWhile Q xs)) \<le> length (concat xs)" for Q and xs :: "'b list list"
    by (induction xs) auto
  have r: "length (concat (rev xs)) = length (concat xs)" for xs :: "'b list list"
    by (simp add: length_concat rev_map [symmetric])
  show ?thesis unfolding strip_by_def rstrip_def by (metis d r order_trans)
qed

lemma length_unquoted: "length (unquoted s) \<le> length s"
  unfolding unquoted_def py_strip_def
  by (metis concat_glyphs length_concat_strip length_strip_by order_trans)

function schema_for_name :: "string \<Rightarrow> schema" where
  "schema_for_name name =
     (let s = unquoted name
      in case dget NAME_TYPES s of
           Some t \<Rightarrow> SType t
         | None \<Rightarrow>
             if starts_with ''Optional['' s \<and> last s = CHR '']'' then with_null (schema_for_name (butlast (drop 9 s)))
             else if CHR ''|'' \<in> set s then
               (let parts = filter (\<lambda>p. p \<noteq> SAny) (map schema_for_name (split_bar s));
                    non_null = filter (\<lambda>p. p \<noteq> SType ''null'') parts
                in union_schema (length non_null \<noteq> length parts) non_null)
             else if starts_with ''list['' s then SType ''array''
             else if starts_with ''tuple['' s then SType ''array''
             else if starts_with ''dict['' s then SType ''object''
             else SAny)"
  by pat_completeness auto

termination schema_for_name
proof (relation "measure length")
  fix name s
  assume s: "s = unquoted name" and "starts_with ''Optional['' s \<and> last s = CHR '']''"
  then have "s \<noteq> []" by (auto simp: starts_with_def)
  then have "length (butlast (drop 9 s)) < length s" by (cases s) auto
  with length_unquoted [of name] s show "(butlast (drop 9 s), name) \<in> measure length" by simp
next
  fix name s p
  assume "s = unquoted name" and "CHR ''|'' \<in> set s" and "p \<in> set (split_bar s)"
  with split_bar_shorter [of s p] length_unquoted [of name] show "(p, name) \<in> measure length" by simp
qed simp

declare schema_for_name.simps [simp del]

section \<open>Annotations\<close>

datatype simple = TStr | TInt | TFloat | TBool | TList | TDict

fun SIMPLE_TYPES :: "simple \<Rightarrow> string" where
  "SIMPLE_TYPES TStr = ''string''"
| "SIMPLE_TYPES TInt = ''integer''"
| "SIMPLE_TYPES TFloat = ''number''"
| "SIMPLE_TYPES TBool = ''boolean''"
| "SIMPLE_TYPES TList = ''array''"
| "SIMPLE_TYPES TDict = ''object''"

text \<open>
  A union has its arguments; a list or set its element type, if given; a tuple its element types and
  whether an ellipsis follows; a dataclass its fields with their resolved types and whether they have
  no default. Recursive dataclasses, on which the code does not return, are not values of this type.
\<close>

datatype pyann =
    AText string
  | AEmpty
  | ASimple simple
  | ANone
  | AUnion "pyann list"
  | AColl "pyann list"
  | ATuple "pyann list" bool
  | ADict
  | AData "(string \<times> pyann \<times> bool) list"
  | AOther

fun schema_for :: "pyann \<Rightarrow> schema" where
  "schema_for (AText s) = schema_for_name s"
| "schema_for AEmpty = SAny"
| "schema_for (ASimple t) = SType (SIMPLE_TYPES t)"
| "schema_for ANone = SType ''null''"
| "schema_for (AUnion args) =
     union_schema (ANone \<in> set args)
       (filter (\<lambda>s. s \<noteq> SAny) (map schema_for (filter (\<lambda>a. a \<noteq> ANone) args)))"
| "schema_for (AColl args) = SArray (case args of [] \<Rightarrow> SAny | a # _ \<Rightarrow> schema_for a)"
| "schema_for (ATuple args variadic) = SArray (case args of [] \<Rightarrow> SAny | a # _ \<Rightarrow> schema_for a)"
| "schema_for ADict = SType ''object''"
| "schema_for (AData fs) =
     SObject (map (\<lambda>(k, a, _). (k, schema_for a)) fs) (map fst (filter (\<lambda>(_, _, required). required) fs))"
| "schema_for AOther = SAny"

section \<open>Describing a tool\<close>

record tool_param =
  tp_name :: string
  tp_kind :: string
  tp_has_default :: bool
  tp_annotation :: pyann

record tool_func =
  tf_name :: "string option"
  tf_doc :: "string option"
  tf_signature :: "exn + tool_param list"

record description =
  ds_name :: string
  ds_description :: string
  ds_properties :: "(string, schema) dict"
  ds_required :: "string list"

text \<open>\<open>splitlines()[0]\<close>: up to the first line boundary.\<close>

definition is_line_end :: "string \<Rightarrow> bool" where
  "is_line_end g \<longleftrightarrow> cp_of_glyph g \<in> {10, 11, 12, 13, 28, 29, 30, 133, 8232, 8233}"

definition first_line :: "string \<Rightarrow> string" where
  "first_line s = concat (takeWhile (\<lambda>g. \<not> is_line_end g) (glyphs s))"

definition param_schema :: "tool_param \<Rightarrow> schema" where
  "param_schema p =
     (if tp_kind p = ''VAR_POSITIONAL'' then SType ''array''
      else if tp_kind p = ''VAR_KEYWORD'' then SType ''object''
      else schema_for (tp_annotation p))"

definition param_required :: "tool_param \<Rightarrow> bool" where
  "param_required p \<longleftrightarrow> tp_kind p \<notin> {''VAR_POSITIONAL'', ''VAR_KEYWORD''} \<and> \<not> tp_has_default p"

definition describe_tool :: "tool_func \<Rightarrow> exn + description" where
  "describe_tool f =
     (case tf_signature f of
        Inl x \<Rightarrow> Inl (if x = TypeError then ValueError else x)
      | Inr ps \<Rightarrow>
          Inr \<lparr>ds_name = (case tf_name f of Some n \<Rightarrow> if n = [] then ''tool'' else n | None \<Rightarrow> ''tool''),
               ds_description = (case tf_doc f of Some d \<Rightarrow> first_line d | None \<Rightarrow> []),
               ds_properties = fold (\<lambda>p. dset (tp_name p) (param_schema p)) ps [],
               ds_required = map tp_name (filter param_required ps)\<rparr>)"

definition parameters_json :: "description \<Rightarrow> json" where
  "parameters_json d = JObj
     [(''type'', JStr ''object''), (''properties'', JObj (map (\<lambda>(k, s). (k, schema_json s)) (ds_properties d))),
      (''required'', JArr (map JStr (ds_required d)))]"

definition as_openai_tool :: "tool_func \<Rightarrow> string option \<Rightarrow> string option \<Rightarrow> exn + json" where
  "as_openai_tool f name about =
     bindR (describe_tool f) (\<lambda>d. Inr (JObj
       [(''type'', JStr ''function''),
        (''function'', JObj
          [(''name'', JStr (case name of Some n \<Rightarrow> if n = [] then ds_name d else n | None \<Rightarrow> ds_name d)),
           (''description'', JStr (case about of Some t \<Rightarrow> t | None \<Rightarrow> ds_description d)),
           (''parameters'', parameters_json d)])]))"

text \<open>\<open>mcp_tool\<close>: the registration with the server, which is given the name, the description and the callable.\<close>

definition mcp_tool :: "(string \<Rightarrow> string \<Rightarrow> tool_func \<Rightarrow> 'r) \<Rightarrow> tool_func \<Rightarrow> string option \<Rightarrow> exn + 'r" where
  "mcp_tool register f name =
     bindR (describe_tool f) (\<lambda>d.
       Inr (register (case name of Some n \<Rightarrow> if n = [] then ds_name d else n | None \<Rightarrow> ds_name d) (ds_description d) f))"

section \<open>What schemas and annotations mean\<close>

fun json_type :: "string \<Rightarrow> json \<Rightarrow> bool" where
  "json_type t (JStr _) = (t = ''string'')"
| "json_type t (JInt _) = (t \<in> {''integer'', ''number''})"
| "json_type t (JFloat _) = (t = ''number'')"
| "json_type t (JBool _) = (t = ''boolean'')"
| "json_type t (JArr _) = (t = ''array'')"
| "json_type t (JObj _) = (t = ''object'')"
| "json_type t JNull = (t = ''null'')"

fun accepts :: "schema \<Rightarrow> json \<Rightarrow> bool" where
  "accepts SAny v = True"
| "accepts (SType t) v = json_type t v"
| "accepts (SAnyOf ss) v = (\<exists>s \<in> set ss. accepts s v)"
| "accepts (SArray s) v = (case v of JArr xs \<Rightarrow> \<forall>x \<in> set xs. accepts s x | _ \<Rightarrow> False)"
| "accepts (SObject ps req) v =
     (case v of
        JObj d \<Rightarrow> (\<forall>k \<in> set req. dget d k \<noteq> None)
          \<and> (\<forall>p \<in> set ps. case dget d (fst p) of None \<Rightarrow> True | Some x \<Rightarrow> accepts (snd p) x)
      | _ \<Rightarrow> False)"

lemma size_zip_left [termination_simp]:
  "(b, y) \<in> set (zip (a # as) ys) \<Longrightarrow> size b < Suc (Suc (size a + size_list size as))"
  using set_zip_leftD [of b y "a # as" ys] size_list_estimation' [of b as "size b" size] by auto

text \<open>The JSON values that are arguments of the annotated type; an unresolved type allows any.\<close>

fun fits :: "pyann \<Rightarrow> json \<Rightarrow> bool" where
  "fits (AText s) v = (case dget NAME_TYPES (unquoted s) of Some t \<Rightarrow> json_type t v | None \<Rightarrow> True)"
| "fits AEmpty v = True"
| "fits (ASimple t) v = json_type (SIMPLE_TYPES t) v"
| "fits ANone v = (v = JNull)"
| "fits (AUnion args) v = (\<exists>a \<in> set args. fits a v)"
| "fits (AColl args) v = (case v of JArr xs \<Rightarrow> (case args of [] \<Rightarrow> True | a # _ \<Rightarrow> \<forall>x \<in> set xs. fits a x) | _ \<Rightarrow> False)"
| "fits (ATuple args variadic) v =
     (case v of
        JArr xs \<Rightarrow> (case args of
            [] \<Rightarrow> True
          | a # _ \<Rightarrow> if variadic then \<forall>x \<in> set xs. fits a x
                     else length xs = length args \<and> (\<forall>(b, x) \<in> set (zip args xs). fits b x))
      | _ \<Rightarrow> False)"
| "fits ADict v = json_type ''object'' v"
| "fits (AData fs) v =
     (case v of
        JObj d \<Rightarrow> (\<forall>f \<in> set fs. case dget d (fst f) of None \<Rightarrow> \<not> snd (snd f) | Some x \<Rightarrow> fits (fst (snd f)) x)
      | _ \<Rightarrow> False)"
| "fits AOther v = True"

section \<open>Schemas are not narrower than the annotations\<close>

lemma accepts_with_null [simp]: "accepts (with_null s) v \<longleftrightarrow> accepts s v \<or> s \<noteq> SAny \<and> v = JNull"
  by (cases v) (auto simp: with_null_def)

lemma accepts_union:
  "accepts (union_schema nullable ss) v \<longleftrightarrow>
     (if ss = [] \<and> \<not> nullable then True else (\<exists>s \<in> set ss. accepts s v) \<or> nullable \<and> v = JNull)"
  if "SAny \<notin> set ss"
  using that by (cases v) (auto simp: union_schema_def split: list.splits)

text \<open>
  The annotations whose every part the code resolves: each member of a union has a schema that says
  something, fixed tuples repeat one type, and text is a plain name or describes nothing.
\<close>

fun resolved :: "pyann \<Rightarrow> bool" where
  "resolved (AText s) = (dget NAME_TYPES (unquoted s) \<noteq> None \<or> schema_for_name s = SAny)"
| "resolved (AUnion args) = (\<forall>a \<in> set args. resolved a \<and> (a = ANone \<or> schema_for a \<noteq> SAny))"
| "resolved (AColl args) = (\<forall>a \<in> set args. resolved a)"
| "resolved (ATuple args variadic) =
     ((\<forall>a \<in> set args. resolved a) \<and> (variadic \<or> (\<forall>a \<in> set args. a = hd args)))"
| "resolved (AData fs) = (\<forall>f \<in> set fs. resolved (fst (snd f)))"
| "resolved _ = True"

lemma schema_for_name_plain:
  "dget NAME_TYPES (unquoted s) = Some t \<Longrightarrow> schema_for_name s = SType t"
  by (subst schema_for_name.simps) (simp add: Let_def)

lemma union_accepts:
  assumes "\<And>a. a \<in> set args \<Longrightarrow> a = ANone \<or> schema_for a \<noteq> SAny \<and> (fits a v \<longrightarrow> accepts (schema_for a) v)"
    and "fits (AUnion args) v"
  shows "accepts (schema_for (AUnion args)) v"
proof -
  from assms(2) obtain a where a: "a \<in> set args" "fits a v" by auto
  show ?thesis
  proof (cases "a = ANone")
    case True
    with a have "v = JNull" by simp
    with a True show ?thesis by (simp add: accepts_union)
  next
    case False
    with assms(1) a have s: "schema_for a \<noteq> SAny" "accepts (schema_for a) v" by auto
    with a False have "schema_for a \<in> set (filter (\<lambda>s. s \<noteq> SAny) (map schema_for (filter (\<lambda>a. a \<noteq> ANone) args)))"
      by auto
    with s(2) show ?thesis by (auto simp: accepts_union)
  qed
qed

lemma tuple_fits_head:
  assumes "list_all2 fits args xs" and "\<forall>a \<in> set args. a = b"
  shows "\<forall>x \<in> set xs. fits b x"
  using assms by (induction rule: list_all2_induct) auto

lemma schema_accepts: "resolved a \<Longrightarrow> fits a v \<Longrightarrow> accepts (schema_for a) v"
proof (induction a arbitrary: v)
  case (AText s)
  then show ?case by (auto simp: schema_for_name_plain split: option.splits)
next
  case (AUnion args)
  then show ?case by (intro union_accepts) auto
next
  case (AColl args)
  then show ?case by (cases v; cases args) auto
next
  case (ATuple args variadic)
  show ?case
  proof (cases args)
    case Nil
    with ATuple show ?thesis by (cases v) auto
  next
    case (Cons a as)
    from ATuple.prems(2) obtain xs where v: "v = JArr xs" by (cases v) auto
    have "\<forall>x \<in> set xs. fits a x"
    proof (cases variadic)
      case False
      with ATuple.prems Cons v have "list_all2 fits args xs" "\<forall>b \<in> set args. b = a"
        by (auto simp: list_all2_iff)
      then show ?thesis by (rule tuple_fits_head)
    qed (use ATuple.prems Cons v in auto)
    with ATuple.IH [of a] ATuple.prems(1) Cons v show ?thesis by auto
  qed
next
  case (AData fs)
  from AData.prems(2) obtain d where v: "v = JObj d" by (cases v) auto
  have "accepts (schema_for a) x" if "(k, a, required) \<in> set fs" "dget d k = Some x" for k a required x
    using AData.IH [of "(k, a, required)" "(a, required)" a x] AData.prems that by (force simp: v)
  moreover have "dget d k \<noteq> None" if "(k, a, True) \<in> set fs" for k a
    using AData.prems(2) that by (force simp: v split: option.splits)
  ultimately show ?case by (force simp: v split: option.splits)
qed auto



text \<open>Without that condition they do: a union loses its unresolved member, a tuple all but its first type.\<close>

theorem schemas_can_be_narrower:
  "fits (AUnion [ASimple TInt, AOther]) (JStr s) \<and> \<not> accepts (schema_for (AUnion [ASimple TInt, AOther])) (JStr s)
   \<and> fits (ATuple [ASimple TInt, ASimple TStr] False) (JArr [JInt i, JStr s])
   \<and> \<not> accepts (schema_for (ATuple [ASimple TInt, ASimple TStr] False)) (JArr [JInt i, JStr s])"
  by (simp add: union_schema_def)

section \<open>A description matches the signature\<close>

lemma fold_dset_fresh:
  assumes "distinct (map fst d @ map f ps)"
  shows "fold (\<lambda>p. dset (f p) (g p)) ps d = d @ map (\<lambda>p. (f p, g p)) ps"
  using assms
proof (induction ps arbitrary: d)
  case (Cons p ps)
  then have "dset (f p) (g p) d = d @ [(f p, g p)]"
    by (induction d) auto
  with Cons.IH [of "d @ [(f p, g p)]"] Cons.prems show ?case by auto
qed simp

text \<open>
  A description matches the signature: with distinct parameter names, as Python has them, the
  properties are the parameters in order, and exactly those are required that a call cannot omit.
\<close>

lemma description_matches:
  assumes "describe_tool f = Inr d" and "tf_signature f = Inr ps" and "distinct (map tp_name ps)"
  shows "ds_properties d = map (\<lambda>p. (tp_name p, param_schema p)) ps"
    and "k \<in> set (ds_required d) \<longleftrightarrow> (\<exists>p \<in> set ps. tp_name p = k \<and> param_required p)"
  using assms fold_dset_fresh [of "[]" tp_name ps param_schema] by (auto simp: describe_tool_def)

end
