(* ===== verification/Export.thy ===== *)
theory Export
  imports Html Contracts AuditReport
begin

text \<open>
  Evidence packs (\<open>export.py\<close>): the bundle of verification, audit and events, the statistics, and
  the HTML report. The messages of the issues, which the model of the verifier and of the audit
  leaves out, are the arguments \<open>vmsg\<close> and \<open>amsg\<close>.
\<close>

section \<open>The pack\<close>

definition EVIDENCE_PACK_FORMAT :: string where "EVIDENCE_PACK_FORMAT = ''tesera-evidence-pack/1''"

fun status_value :: "invocation_status \<Rightarrow> string" where
  "status_value DENIED = ''denied''"
| "status_value SUCCEEDED = ''succeeded''"
| "status_value FAILED = ''failed''"
| "status_value NEEDS_RECONCILIATION = ''needs_reconciliation''"
| "status_value DRY_RUN = ''dry_run''"
| "status_value RESOLVED_COMPLETED = ''resolved_completed''"
| "status_value RESOLVED_NOT_COMPLETED = ''resolved_not_completed''"

definition invocation_json :: "audited \<Rightarrow> json" where
  "invocation_json i = JObj
     [(''action_name'', JStr (ai_action_name i)), (''action_id'', JStr (ai_action_id i)),
      (''contract_hash'', JStr (ai_contract_hash i)), (''input_hash'', JStr (ai_input_hash i)),
      (''risk'', JStr (ai_risk i)), (''approval_mode'', JStr (ai_approval_mode i)),
      (''decision_event_id'', JStr (ai_decision_event_id i)), (''decision'', JStr (ai_decision i)),
      (''decision_timestamp_utc'', JStr (ai_decision_timestamp i)),
      (''outcome_event_id'', opt_json (ai_outcome_event_id i)),
      (''outcome_timestamp_utc'', opt_json (ai_outcome_timestamp i)),
      (''status'', JStr (status_value (ai_status i)))]"

definition audit_issue_json :: "(audit_issue \<Rightarrow> string) \<Rightarrow> audit_issue \<Rightarrow> json" where
  "audit_issue_json amsg i =
     JObj [(''code'', JStr (fst i)), (''message'', JStr (amsg i)), (''event_id'', JStr (snd i))]"

definition verification_issue_json :: "(issue \<Rightarrow> string) \<Rightarrow> issue \<Rightarrow> json" where
  "verification_issue_json vmsg i =
     JObj [(''line_number'', JInt (int (fst i))), (''code'', JStr (snd i)), (''message'', JStr (vmsg i))]"

definition audit_payload :: "(audit_issue \<Rightarrow> string) \<Rightarrow> audit_report \<Rightarrow> json" where
  "audit_payload amsg r = JObj
     [(''structurally_valid'', JBool (structurally_valid r)),
      (''needs_reconciliation'', JBool (needs_reconciliation r)),
      (''invocations'', JArr (map invocation_json (ar_invocations r))),
      (''issues'', JArr (map (audit_issue_json amsg) (ar_issues r)))]"

definition export_snapshot ::
  "platform \<Rightarrow> (issue \<Rightarrow> string) \<Rightarrow> (audit_issue \<Rightarrow> string) \<Rightarrow> string \<Rightarrow> nat \<Rightarrow> vresult \<times> event list \<Rightarrow> exn + event" where
  "export_snapshot P vmsg amsg path now snapshot =
     bindR (case audit_verified_snapshot P snapshot of
              Inr r \<Rightarrow> Inr (audit_payload amsg r, [])
            | Inl x \<Rightarrow> if x = EvidenceAuditError then Inr (JNull, exn_str P x) else Inl x) (\<lambda>(audit, err).
       Inr [(''format'', JStr EVIDENCE_PACK_FORMAT), (''exported_at'', JStr (utc_now P now)), (''journal'', JStr path),
            (''verification'', JObj
               [(''valid'', JBool (r_valid (fst snapshot))),
                (''events_verified'', JInt (int (r_verified (fst snapshot)))),
                (''issues'', JArr (map (verification_issue_json vmsg) (r_issues (fst snapshot))))]),
            (''audit'', audit), (''audit_error'', JStr err), (''events'', JArr (map JObj (snd snapshot)))])"

definition export_journal ::
  "platform \<Rightarrow> (issue \<Rightarrow> string) \<Rightarrow> (audit_issue \<Rightarrow> string) \<Rightarrow> string \<Rightarrow> bytes option \<Rightarrow> bytes list \<Rightarrow> nat \<Rightarrow> exn + event" where
  "export_journal P vmsg amsg path file keys now =
     bindR (load_journal_snapshot P file keys (\<lambda>e. e)) (export_snapshot P vmsg amsg path now)"

section \<open>Statistics\<close>

record stats =
  st_events :: nat
  st_decisions :: nat
  st_outcomes :: nat
  st_resolutions :: nat
  st_countersignatures :: nat
  st_checkpoints :: nat
  st_archives :: nat
  st_rotations :: nat
  st_by_action :: "(string, nat) dict"
  st_by_risk :: "(string, nat) dict"
  st_by_status :: "(string, nat) dict"

text \<open>\<open>str(event.get(k, "<unknown>"))\<close>, and one more in a counter.\<close>

definition text_or_unknown :: "platform \<Rightarrow> event \<Rightarrow> string \<Rightarrow> string" where
  "text_or_unknown P e k = (case dget e k of None \<Rightarrow> ''<unknown>'' | Some v \<Rightarrow> py_str P v)"

definition count_one :: "string \<Rightarrow> (string, nat) dict \<Rightarrow> (string, nat) dict" where
  "count_one k d = dset k (dget_default d k 0 + 1) d"

definition stats_start :: "nat \<Rightarrow> stats" where
  "stats_start n =
     \<lparr>st_events = n, st_decisions = 0, st_outcomes = 0, st_resolutions = 0, st_countersignatures = 0,
      st_checkpoints = 0, st_archives = 0, st_rotations = 0, st_by_action = [], st_by_risk = [],
      st_by_status = map (\<lambda>s. (status_value s, 0))
        [DENIED, SUCCEEDED, FAILED, NEEDS_RECONCILIATION, DRY_RUN, RESOLVED_COMPLETED, RESOLVED_NOT_COMPLETED]\<rparr>"

definition stats_step :: "platform \<Rightarrow> event \<Rightarrow> stats \<Rightarrow> stats" where
  "stats_step P e s =
     (let ty = jget e ''event_type''
      in if ty = JStr ''decision'' then
           s\<lparr>st_decisions := st_decisions s + 1,
             st_by_action := count_one (text_or_unknown P e ''action_name'') (st_by_action s),
             st_by_risk := count_one (text_or_unknown P e ''risk'') (st_by_risk s)\<rparr>
         else if ty = JStr ''outcome'' then
           s\<lparr>st_outcomes := st_outcomes s + 1,
             st_by_status := count_one (text_or_unknown P e ''status'') (st_by_status s)\<rparr>
         else if ty = JStr ''resolution'' then s\<lparr>st_resolutions := st_resolutions s + 1\<rparr>
         else if ty = JStr ''countersignature'' then s\<lparr>st_countersignatures := st_countersignatures s + 1\<rparr>
         else if ty = JStr ''checkpoint'' then s\<lparr>st_checkpoints := st_checkpoints s + 1\<rparr>
         else if ty = JStr ''archive'' then s\<lparr>st_archives := st_archives s + 1\<rparr>
         else if ty = JStr ''rotation'' then s\<lparr>st_rotations := st_rotations s + 1\<rparr>
         else s)"

definition journal_stats :: "platform \<Rightarrow> event list \<Rightarrow> stats" where
  "journal_stats P events = fold (stats_step P) events (stats_start (length events))"

section \<open>The report\<close>

text \<open>\<open>j[k]\<close> and iteration on a JSON value; \<open>events_verified\<close> goes through \<open>int\<close>.\<close>

definition subscript :: "json \<Rightarrow> string \<Rightarrow> exn + json" where
  "subscript j k = (case j of JObj d \<Rightarrow> jindex d k | _ \<Rightarrow> Inl TypeError)"

fun iterated :: "json \<Rightarrow> exn + json list" where
  "iterated (JArr xs) = Inr xs"
| "iterated (JObj d) = Inr (map (\<lambda>p. JStr (fst p)) d)"
| "iterated (JStr s) = Inr (map JStr (glyphs s))"
| "iterated _ = Inl TypeError"

definition issue_texts :: "platform \<Rightarrow> json \<Rightarrow> exn + (string \<times> string) list" where
  "issue_texts P j =
     bindR (subscript j ''issues'') (\<lambda>xs. bindR (iterated xs) (mapR (\<lambda>i.
       bindR (subscript i ''code'') (\<lambda>c. bindR (subscript i ''message'') (\<lambda>m. Inr (py_str P c, py_str P m))))))"

definition invocation_row :: "platform \<Rightarrow> json \<Rightarrow> exn + string list" where
  "invocation_row P j =
     mapR (\<lambda>k. bindR (subscript j k) (\<lambda>v. Inr (py_str P v)))
       [''action_name'', ''status'', ''decision'', ''decision_timestamp_utc'']"

record report =
  rp_journal :: string
  rp_exported :: string
  rp_valid :: bool
  rp_verified :: int
  rp_rows :: "string list list"
  rp_issues :: "(string \<times> string) list"

definition read_pack :: "platform \<Rightarrow> event \<Rightarrow> exn + report" where
  "read_pack P pack =
     bindR (jindex pack ''verification'') (\<lambda>verification.
     bindR (jindex pack ''audit'') (\<lambda>audit.
     bindR (jindex pack ''journal'') (\<lambda>journal.
     bindR (jindex pack ''exported_at'') (\<lambda>exported.
     bindR (issue_texts P verification) (\<lambda>issues.
     bindR (if audit = JNull then Inr ([], [])
            else bindR (issue_texts P audit) (\<lambda>more.
                 bindR (subscript audit ''invocations'') (\<lambda>xs.
                 bindR (iterated xs) (\<lambda>invs.
                 bindR (mapR (invocation_row P) invs) (\<lambda>rows. Inr (more, rows)))))) (\<lambda>(more, rows).
     bindR (subscript verification ''valid'') (\<lambda>valid.
     bindR (subscript verification ''events_verified'') (\<lambda>n.
     bindR (py_int n) (\<lambda>verified.
       Inr \<lparr>rp_journal = py_str P journal, rp_exported = py_str P exported, rp_valid = truthy valid,
            rp_verified = verified, rp_rows = rows, rp_issues = issues @ more\<rparr>)))))))))"

definition table_row :: "string list \<Rightarrow> string" where
  "table_row cells = ''<tr>'' @ concat (map (\<lambda>c. ''<td>'' @ html_escape c @ ''</td>'') cells) @ ''</tr>''"

definition issue_item :: "string \<times> string \<Rightarrow> string" where
  "issue_item i = ''<li>['' @ html_escape (fst i) @ ''] '' @ html_escape (snd i) @ ''</li>''"

definition html_head :: string where
  "html_head =
     ''<!DOCTYPE html>'' @ [nl] @ ''<html lang='' @ [CHR 0x22] @ ''en'' @ [CHR 0x22] @ ''>'' @ [nl]
     @ ''<head><meta charset='' @ [CHR 0x22] @ ''utf-8'' @ [CHR 0x22] @ ''><title>Evidence pack</title>'' @ [nl]
     @ ''<style>body{font-family:sans-serif;max-width:60rem;margin:2rem auto;padding:0 1rem}'' @ [nl]
     @ ''table{border-collapse:collapse;width:100%}'' @ [nl]
     @ ''td,th{border:1px solid #ccc;padding:.4rem;text-align:left}'' @ [nl]
     @ ''.ok{color:#0a0}.bad{color:#a00}</style></head>'' @ [nl]
     @ ''<body>'' @ [nl] @ ''<h1>Evidence pack</h1>'' @ [nl] @ ''<p>Journal: ''"

definition verdict_text :: "bool \<Rightarrow> string" where
  "verdict_text valid =
     ''<p class='' @ [CHR 0x22] @ (if valid then ''ok'' else ''bad'') @ [CHR 0x22] @ ''>'' @ [nl]
     @ (if valid then ''VALID'' else ''INVALID'') @ '' '' @ [CHR 0xE2, CHR 0x80, CHR 0x94] @ [nl]"

definition html_table_head :: string where
  "html_table_head =
     '' events verified.</p>'' @ [nl] @ ''<h2>Invocations</h2>'' @ [nl]
     @ ''<table><tr><th>Action</th><th>Status</th><th>Decision</th><th>When</th></tr>'' @ [nl]"

definition html_no_rows :: string where "html_no_rows = ''<tr><td colspan='4'>(none)</td></tr>''"
definition html_issues_head :: string where
  "html_issues_head = ''</table>'' @ [nl] @ ''<h2>Issues</h2>'' @ [nl] @ ''<ul>''"
definition html_no_issues :: string where "html_no_issues = ''<li>(none)</li>''"
definition html_tail :: string where
  "html_tail = ''</ul>'' @ [nl] @ ''</body>'' @ [nl] @ ''</html>'' @ [nl]"

definition report_html :: "report \<Rightarrow> string" where
  "report_html r =
     html_head @ html_escape (rp_journal r) @ ''<br>'' @ [nl] @ ''Exported: '' @ html_escape (rp_exported r)
     @ ''</p>'' @ [nl] @ ''<h2>Verification</h2>'' @ [nl] @ verdict_text (rp_valid r) @ dec_int (rp_verified r)
     @ html_table_head @ (if rp_rows r = [] then html_no_rows else concat (map table_row (rp_rows r)))
     @ html_issues_head @ (if rp_issues r = [] then html_no_issues else concat (map issue_item (rp_issues r)))
     @ html_tail"

definition render_html :: "platform \<Rightarrow> event \<Rightarrow> exn + string" where
  "render_html P pack =
     (case read_pack P pack of
        Inl x \<Rightarrow> Inl (if x \<in> {KeyError, TypeError, ValueError} then EvidenceAuditError else x)
      | Inr r \<Rightarrow> Inr (report_html r))"

text \<open>\<open>write_pack\<close>: what is written to the output file.\<close>

definition pack_text :: "platform \<Rightarrow> (json \<Rightarrow> string) \<Rightarrow> event \<Rightarrow> string \<Rightarrow> exn + string" where
  "pack_text P dumps_indented pack fmt =
     (if fmt = ''html'' then render_html P pack else Inr (dumps_indented (JObj pack)))"

section \<open>The statistics add up\<close>

definition total_count :: "(string, nat) dict \<Rightarrow> nat" where
  "total_count d = sum_list (map snd d)"

lemma total_count_one [simp]: "distinct (map fst d) \<Longrightarrow> total_count (count_one k d) = Suc (total_count d)"
  by (induction d) (auto simp: total_count_def count_one_def dget_default_def split: option.splits)

lemma distinct_count_one [simp]: "distinct (map fst d) \<Longrightarrow> distinct (map fst (count_one k d))"
  by (simp add: count_one_def)

definition stats_sum :: "stats \<Rightarrow> nat" where
  "stats_sum s = st_decisions s + st_outcomes s + st_resolutions s + st_countersignatures s + st_checkpoints s
     + st_archives s + st_rotations s"

definition stats_ok :: "stats \<Rightarrow> bool" where
  "stats_ok s \<longleftrightarrow> distinct (map fst (st_by_action s)) \<and> distinct (map fst (st_by_risk s))
     \<and> distinct (map fst (st_by_status s))
     \<and> total_count (st_by_action s) = st_decisions s \<and> total_count (st_by_risk s) = st_decisions s
     \<and> total_count (st_by_status s) = st_outcomes s"

lemma stats_step_ok: "stats_ok s \<Longrightarrow> stats_ok (stats_step P e s)"
  by (auto simp: stats_ok_def stats_step_def Let_def)

definition known_type :: "event \<Rightarrow> bool" where
  "known_type e \<longleftrightarrow> (\<exists>t \<in> set KNOWN_EVENT_TYPES. etype t e)"

lemma stats_step_counts:
  "st_decisions (stats_step P e s) = st_decisions s + (if etype ''decision'' e then 1 else 0)"
  "st_outcomes (stats_step P e s) = st_outcomes s + (if etype ''outcome'' e then 1 else 0)"
  "stats_sum (stats_step P e s) = stats_sum s + (if known_type e then 1 else 0)"
  "st_events (stats_step P e s) = st_events s"
  by (auto simp: stats_step_def Let_def stats_sum_def known_type_def KNOWN_EVENT_TYPES_def etype_def)

lemma stats_start_ok: "stats_ok (stats_start n)"
  by (simp add: stats_ok_def stats_start_def total_count_def)

text \<open>
  The statistics add up: the decisions and outcomes are those of the journal, the counts by action and
  by risk partition the decisions, those by status the outcomes, and all the counts together are the
  events of the known types.
\<close>

theorem journal_stats_partition:
  "let s = journal_stats P es in
     st_events s = length es
     \<and> st_decisions s = length (filter (etype ''decision'') es)
     \<and> st_outcomes s = length (filter (etype ''outcome'') es)
     \<and> stats_sum s = length (filter known_type es)
     \<and> total_count (st_by_action s) = st_decisions s \<and> total_count (st_by_risk s) = st_decisions s
     \<and> total_count (st_by_status s) = st_outcomes s"
proof -
  have "stats_ok (fold (stats_step P) es s)
      \<and> st_events (fold (stats_step P) es s) = st_events s
      \<and> st_decisions (fold (stats_step P) es s) = st_decisions s + length (filter (etype ''decision'') es)
      \<and> st_outcomes (fold (stats_step P) es s) = st_outcomes s + length (filter (etype ''outcome'') es)
      \<and> stats_sum (fold (stats_step P) es s) = stats_sum s + length (filter known_type es)" if "stats_ok s" for s
    using that by (induction es arbitrary: s) (simp_all add: stats_step_ok stats_step_counts)
  from this [OF stats_start_ok, of "length es"] show ?thesis
    by (simp add: journal_stats_def Let_def stats_ok_def) (simp add: stats_start_def stats_sum_def)
qed

section \<open>The report is inert\<close>

lemma markup_dec_int [markup_simps]: "markup (dec_int i) = []"
proof -
  have "\<not> is_markup c" if "is_digit c" for c using that by (auto simp: is_markup_def is_digit_def)
  then show ?thesis using dec_nat_digits
    by (auto simp: dec_int_def markup_def filter_empty_conv is_markup_def)
qed

lemma markup_verdict: "markup (verdict_text valid) = markup (verdict_text False)"
  by (cases valid) (simp_all add: verdict_text_def markup_def is_markup_def)

lemma markup_table_row: "markup (table_row cells) = markup (table_row (replicate (length cells) []))"
proof -
  have "concat (map (markup \<circ> (\<lambda>c. ''<td>'' @ html_escape c @ ''</td>'')) cells)
    = concat (map (markup \<circ> (\<lambda>c. ''<td>'' @ html_escape c @ ''</td>'')) (replicate (length cells) []))"
    by (induction cells) (simp_all only: o_apply markup_simps list.map concat.simps list.size replicate_Suc
        replicate_0 append_Nil append_Nil2 add_Suc_right add_0_right)
  then show ?thesis by (simp only: table_row_def markup_simps map_map)
qed

lemma markup_issue_item: "markup (issue_item i) = markup (issue_item ([], []))"
  by (simp only: issue_item_def markup_simps)

text \<open>The report of a pack with so many invocations and issues, and nothing in it.\<close>

definition blank_report :: "nat \<Rightarrow> nat \<Rightarrow> report" where
  "blank_report rows issues =
     \<lparr>rp_journal = [], rp_exported = [], rp_valid = False, rp_verified = 0,
      rp_rows = replicate rows (replicate 4 []), rp_issues = replicate issues ([], [])\<rparr>"

lemma concat_markup_replicate:
  "\<forall>x \<in> set xs. markup (f x) = m \<Longrightarrow> concat (map markup (map f xs)) = concat (replicate (length xs) m)"
  by (induction xs) auto

lemma report_inert:
  assumes "\<forall>row \<in> set (rp_rows r). length row = 4"
  shows "markup (report_html r) = markup (report_html (blank_report (length (rp_rows r)) (length (rp_issues r))))"
proof -
  let ?b = "blank_report (length (rp_rows r)) (length (rp_issues r))"
  have row: "markup (table_row x) = markup (table_row (replicate 4 []))" if "x \<in> set (rp_rows r)" for x
    using markup_table_row [of x] assms that by metis
  have rows: "concat (map markup (map table_row (rp_rows r))) = concat (map markup (map table_row (rp_rows ?b)))"
    using row
    by (subst (1 2) concat_markup_replicate [where m = "markup (table_row (replicate 4 []))"])
      (auto simp: blank_report_def)
  have issues: "concat (map markup (map issue_item (rp_issues r))) = concat (map markup (map issue_item (rp_issues ?b)))"
    using markup_issue_item
    by (subst (1 2) concat_markup_replicate [where m = "markup (issue_item ([], []))"])
      (auto simp: blank_report_def)
  have none: "rp_rows ?b = [] \<longleftrightarrow> rp_rows r = []" "rp_issues ?b = [] \<longleftrightarrow> rp_issues r = []"
    by (simp_all add: blank_report_def)
  have "markup (if rp_rows r = [] then html_no_rows else concat (map table_row (rp_rows r)))
      = markup (if rp_rows ?b = [] then html_no_rows else concat (map table_row (rp_rows ?b)))"
    using rows none by (simp add: markup_concat del: map_map)
  moreover have "markup (if rp_issues r = [] then html_no_issues else concat (map issue_item (rp_issues r)))
      = markup (if rp_issues ?b = [] then html_no_issues else concat (map issue_item (rp_issues ?b)))"
    using issues none by (simp add: markup_concat del: map_map)
  ultimately show ?thesis
    using markup_verdict [of "rp_valid r"] markup_verdict [of "rp_valid ?b"]
    by (simp only: report_html_def markup_simps)
qed

lemma subscript_error: "subscript j k = Inl x \<Longrightarrow> x \<in> {KeyError, TypeError}"
  by (auto simp: subscript_def jindex_def split: json.splits option.splits)

lemma iterated_error: "iterated j = Inl x \<Longrightarrow> x = TypeError"
  by (cases j) auto

lemma py_int_error: "py_int j = Inl x \<Longrightarrow> x \<in> {TypeError, ValueError, OverflowError}"
  by (cases j) (auto split: flt.splits option.splits)

lemma mapR_error: "mapR f xs = Inl x \<Longrightarrow> \<exists>y \<in> set xs. f y = Inl x"
  by (induction xs) (auto simp: bindR_def split: sum.splits)

lemma bindR_error: "bindR r f = Inl x \<Longrightarrow> r = Inl x \<or> (\<exists>y. r = Inr y \<and> f y = Inl x)"
  by (cases r) auto

lemma jindex_error: "jindex e k = Inl x \<Longrightarrow> x = KeyError"
  by (auto simp: jindex_def split: option.splits)

lemma issue_texts_error: "issue_texts P j = Inl x \<Longrightarrow> x \<in> {KeyError, TypeError}"
  unfolding issue_texts_def
  by (auto dest!: bindR_error mapR_error subscript_error iterated_error)

lemma invocation_row_error: "invocation_row P j = Inl x \<Longrightarrow> x \<in> {KeyError, TypeError}"
  unfolding invocation_row_def by (auto dest!: bindR_error mapR_error subscript_error)

lemma read_pack_error: "read_pack P b = Inl x \<Longrightarrow> x \<in> {KeyError, TypeError, ValueError, OverflowError}"
  unfolding read_pack_def
  by (auto dest!: bindR_error mapR_error subscript_error iterated_error jindex_error issue_texts_error
      invocation_row_error py_int_error split: if_splits)

lemma invocation_row_length: "invocation_row P j = Inr row \<Longrightarrow> length row = 4"
  unfolding invocation_row_def by (drule mapR_length) simp

lemma mapR_row_lengths: "mapR (invocation_row P) js = Inr rows \<Longrightarrow> \<forall>row \<in> set rows. length row = 4"
  by (induction js arbitrary: rows) (auto simp: bindR_Inr_iff dest: invocation_row_length)

lemma read_pack_rows: "read_pack P b = Inr r \<Longrightarrow> \<forall>row \<in> set (rp_rows r). length row = 4"
  unfolding read_pack_def
  by (auto simp: bindR_Inr_iff split: if_splits dest!: mapR_row_lengths)


section \<open>An exported pack says what was verified\<close>

definition row_of :: "audited \<Rightarrow> string list" where
  "row_of i = [ai_action_name i, status_value (ai_status i), ai_decision i, ai_decision_timestamp i]"

lemma py_str_JStr [simp]: "py_str P (JStr s) = s"
  by (simp add: py_str_def)

lemma invocation_row_json: "invocation_row P (invocation_json i) = Inr (row_of i)"
  by (simp add: invocation_row_def invocation_json_def subscript_def jindex_def row_of_def)

lemma mapR_map_Inr: "(\<And>x. f (g x) = Inr (h x)) \<Longrightarrow> mapR f (map g xs) = Inr (map h xs)"
  by (induction xs) simp_all

lemma issue_texts_payload:
  "issue_texts P (audit_payload amsg r) = Inr (map (\<lambda>i. (fst i, amsg i)) (ar_issues r))"
  by (simp add: issue_texts_def audit_payload_def subscript_def jindex_def audit_issue_json_def mapR_map_Inr)

lemma invocations_payload:
  "subscript (audit_payload amsg r) ''invocations'' = Inr (JArr (map invocation_json (ar_invocations r)))"
  by (simp add: audit_payload_def subscript_def jindex_def)

lemma export_reads:
  assumes "export_snapshot P vmsg amsg path now snapshot = Inr b"
  shows "read_pack P b = Inr
    \<lparr>rp_journal = path, rp_exported = utc_now P now, rp_valid = r_valid (fst snapshot),
     rp_verified = int (r_verified (fst snapshot)),
     rp_rows = (case audit_verified_snapshot P snapshot of Inl _ \<Rightarrow> [] | Inr r \<Rightarrow> map row_of (ar_invocations r)),
     rp_issues = map (\<lambda>i. (snd i, vmsg i)) (r_issues (fst snapshot))
       @ (case audit_verified_snapshot P snapshot of Inl _ \<Rightarrow> [] | Inr r \<Rightarrow> map (\<lambda>i. (fst i, amsg i)) (ar_issues r))\<rparr>"
proof -
  let ?v = "JObj [(''valid'', JBool (r_valid (fst snapshot))),
    (''events_verified'', JInt (int (r_verified (fst snapshot)))),
    (''issues'', JArr (map (verification_issue_json vmsg) (r_issues (fst snapshot))))]"
  have v: "issue_texts P ?v = Inr (map (\<lambda>i. (snd i, vmsg i)) (r_issues (fst snapshot)))"
    "subscript ?v ''valid'' = Inr (JBool (r_valid (fst snapshot)))"
    "subscript ?v ''events_verified'' = Inr (JInt (int (r_verified (fst snapshot))))"
    by (simp_all add: issue_texts_def subscript_def jindex_def verification_issue_json_def mapR_map_Inr)
  have nonnull: "audit_payload amsg r \<noteq> JNull" for r by (simp add: audit_payload_def)
  show ?thesis
    using assms nonnull
    by (cases "audit_verified_snapshot P snapshot")
      (auto simp: export_snapshot_def read_pack_def jindex_def v issue_texts_payload invocations_payload
        invocation_row_json mapR_map_Inr split: if_splits)
qed

text \<open>
  A pack states its own verdict: what \<open>export_journal\<close> builds always renders, the report says VALID
  exactly when the verifier did, lists one row per audited invocation in order, and for an invalid
  journal has no invocations at all but the verifier's issues.
\<close>

theorem exported_pack_honest:
  assumes "export_journal P vmsg amsg path file keys now = Inr b"
  shows "\<exists>snapshot r. load_journal_snapshot P file keys (\<lambda>e. e) = Inr snapshot
    \<and> render_html P b = Inr (report_html r) \<and> rp_valid r = r_valid (fst snapshot)
    \<and> rp_rows r = (case audit_verified_snapshot P snapshot of Inl _ \<Rightarrow> [] | Inr a \<Rightarrow> map row_of (ar_invocations a))
    \<and> (r_valid (fst snapshot) \<or> rp_rows r = [] \<and> jget b ''audit'' = JNull
         \<and> rp_issues r = map (\<lambda>i. (snd i, vmsg i)) (r_issues (fst snapshot)))"
proof -
  from assms obtain snapshot where s: "load_journal_snapshot P file keys (\<lambda>e. e) = Inr snapshot"
    and e: "export_snapshot P vmsg amsg path now snapshot = Inr b"
    by (auto simp: export_journal_def bindR_Inr_iff)
  note r = export_reads [OF e]
  have "jget b ''audit'' = JNull" if "\<not> r_valid (fst snapshot)"
    using e that by (auto simp: export_snapshot_def audit_verified_snapshot_def jget_def)
  with s r show ?thesis by (auto simp: render_html_def audit_verified_snapshot_def)
qed

lemma exported_pack_honest_witness:
  "\<exists>h b. export_journal toy_platform (\<lambda>_. ''m'') (\<lambda>_. ''m'') ''<j>'' (Some ''x'') [] 0 = Inr b
     \<and> render_html toy_platform b = Inr h"
proof -
  have "case export_journal toy_platform (\<lambda>_. ''m'') (\<lambda>_. ''m'') ''<j>'' (Some ''x'') [] 0 of
      Inr b \<Rightarrow> True | Inl x \<Rightarrow> False" by code_simp
  then obtain b where "export_journal toy_platform (\<lambda>_. ''m'') (\<lambda>_. ''m'') ''<j>'' (Some ''x'') [] 0 = Inr b"
    by (cases "export_journal toy_platform (\<lambda>_. ''m'') (\<lambda>_. ''m'') ''<j>'' (Some ''x'') [] 0") simp_all
  with exported_pack_honest [OF this] show ?thesis by blast
qed

end
