(* ===== verification/Cli.thy ===== *)
theory Cli
  imports Archive Export Privacy PolicyFiles
begin

text \<open>
  The command line (\<open>cli.py\<close>): dispatch, exit codes and the payloads printed with \<open>--json\<close>. The
  arguments are parsed (\<open>argparse\<close>, which answers a malformed command with exit code 2); a command sees a directory, the evidence home and the key files
  given. The text form of a payload and the message of a failure are left out; texts that the models of
  the components leave out (issue messages, explanations) are arguments, collected in \<open>texts\<close>.
\<close>

section \<open>Commands\<close>

definition EXIT_OK :: nat where "EXIT_OK = 0"
definition EXIT_FAILURE :: nat where "EXIT_FAILURE = 1"

record texts =
  tx_verification :: "issue \<Rightarrow> string"
  tx_audit :: "audit_issue \<Rightarrow> string"
  tx_chain :: "chain_issue \<Rightarrow> string"
  tx_witness :: "string \<Rightarrow> string"
  tx_privacy :: "action_privacy \<Rightarrow> string"

text \<open>The journal is a file of the directory; \<open>ev_public_key\<close> are the files of \<open>--public-key\<close>.\<close>

record environment =
  ev_journal :: string
  ev_directory :: directory
  ev_home :: home
  ev_public_key :: "keyfile list"
  ev_texts :: texts
  ev_now :: nat

text \<open>
  The checking commands. \<open>Verify\<close> has the content of the checkpoint file, its age if it can be read and
  the age allowed; \<open>Export\<close> whether the report is HTML and whether it goes to a file.
\<close>

datatype command =
    Verify "bytes option option" "rat option" "rat option"
  | VerifyChain int
  | WitnessAudit string directory
  | Audit "int option" "string list" "nat option"
  | Export bool bool
  | Stats
  | Inspect "string \<Rightarrow> bool"
  | PolicyTest string "bytes option" string string "string option"

text \<open>The exit code and the payload, if one is printed.\<close>

type_synonym answer = "nat \<times> event option"

definition failed :: answer where "failed = (EXIT_FAILURE, None)"

section \<open>Keys and the journal\<close>

definition resolve_verification_keys :: "environment \<Rightarrow> exn + bytes list" where
  "resolve_verification_keys E =
     (if ev_public_key E \<noteq> [] then mapR load_key (ev_public_key E) else load_trusted_public_keys (ev_home E))"

definition journal_file :: "environment \<Rightarrow> bytes option option" where
  "journal_file E = map_option readable (dget (ev_directory E) (ev_journal E))"

text \<open>How the checking commands start: the journal must exist and there must be keys.\<close>

definition with_keys :: "environment \<Rightarrow> (bytes option \<Rightarrow> bytes list \<Rightarrow> exn + answer) \<Rightarrow> exn + answer" where
  "with_keys E run =
     (case journal_file E of
        None \<Rightarrow> Inr failed
      | Some file \<Rightarrow>
          (case resolve_verification_keys E of
             Inl x \<Rightarrow> if is_tesera_error x then Inr failed else Inl x
           | Inr keys \<Rightarrow> if keys = [] then Inr failed else run file keys))"

definition exit_code :: "bool \<Rightarrow> nat" where
  "exit_code ok = (if ok then EXIT_OK else EXIT_FAILURE)"

section \<open>The checking commands\<close>

definition verify_payload :: "environment \<Rightarrow> bytes option option \<Rightarrow> rat option \<Rightarrow> rat option \<Rightarrow> vresult \<Rightarrow> event" where
  "verify_payload E checkpoint age max_age r =
     [(''journal'', JStr (ev_journal E)), (''valid'', JBool (r_valid r)), (''events_verified'', JInt (int (r_verified r))),
      (''issues'', JArr (map (verification_issue_json (tx_verification (ev_texts E))) (r_issues r)))]
     @ (if checkpoint = None then []
        else let age = map_option (max 0) age
             in [(''witness_age_seconds'', case age of None \<Rightarrow> JNull | Some a \<Rightarrow> JFloat (Fin a)),
                 (''witness_stale_warning'', JBool (case (age, max_age) of (Some a, Some m) \<Rightarrow> m < a | _ \<Rightarrow> False))])"

definition cmd_verify :: "platform \<Rightarrow> environment \<Rightarrow> bytes option option \<Rightarrow> rat option \<Rightarrow> rat option \<Rightarrow> exn + answer" where
  "cmd_verify P E checkpoint age max_age =
     with_keys E (\<lambda>file keys. bindR (verify_journal P file keys checkpoint) (\<lambda>r.
       Inr (exit_code (r_valid r), Some (verify_payload E checkpoint age max_age r))))"

definition chain_payload :: "environment \<Rightarrow> chain_report \<Rightarrow> event" where
  "chain_payload E rep =
     [(''journal'', JStr (ev_journal E)), (''valid'', JBool (chain_valid rep)),
      (''files_checked'', JArr (map JStr (cr_files rep))),
      (''issues'', JArr (map (\<lambda>i. JObj [(''file'', JStr (fst i)), (''code'', JStr (snd i)),
         (''message'', JStr (tx_chain (ev_texts E) i))]) (cr_issues rep)))]"

text \<open>The verification of the chain need not return a priori; None is that it does not.\<close>

definition cmd_verify_chain :: "platform \<Rightarrow> environment \<Rightarrow> int \<Rightarrow> (exn + answer) option" where
  "cmd_verify_chain P E max_links =
     (case journal_file E of
        None \<Rightarrow> Some (Inr failed)
      | Some file \<Rightarrow>
          (case resolve_verification_keys E of
             Inl x \<Rightarrow> Some (if is_tesera_error x then Inr failed else Inl x)
           | Inr keys \<Rightarrow>
               if keys = [] then Some (Inr failed)
               else map_option (\<lambda>r. bindR r (\<lambda>rep. Inr (exit_code (chain_valid rep), Some (chain_payload E rep))))
                      (verify_archive_chain P keys max_links (ev_directory E) (ev_journal E))))"

definition witness_payload :: "environment \<Rightarrow> string \<Rightarrow> (string \<times> int option \<times> bool) list \<Rightarrow> event" where
  "witness_payload E dir statuses =
     [(''journal'', JStr (ev_journal E)), (''witness_dir'', JStr dir), (''valid'', JBool (witness_audit_valid statuses)),
      (''files'', JArr (map (\<lambda>(name, n, covered). JObj
         [(''path'', JStr name), (''checkpoint_count'', case n of None \<Rightarrow> JNull | Some i \<Rightarrow> JInt i),
          (''covered'', JBool covered), (''detail'', JStr (tx_witness (ev_texts E) name))]) statuses))]"

definition cmd_witness_audit :: "platform \<Rightarrow> environment \<Rightarrow> string \<Rightarrow> directory \<Rightarrow> exn + answer" where
  "cmd_witness_audit P E dir d =
     with_keys E (\<lambda>file keys. bindR (audit_witnesses P d file keys) (\<lambda>statuses.
       Inr (exit_code (witness_audit_valid statuses), Some (witness_payload E dir statuses))))"

definition ALL_STATUSES :: "invocation_status list" where
  "ALL_STATUSES =
     [DENIED, SUCCEEDED, FAILED, NEEDS_RECONCILIATION, DRY_RUN, RESOLVED_COMPLETED, RESOLVED_NOT_COMPLETED]"

definition status_counts :: "audited list \<Rightarrow> (string, nat) dict" where
  "status_counts invs =
     fold (\<lambda>i. count_one (status_value (ai_status i))) invs (map (\<lambda>s. (status_value s, 0)) ALL_STATUSES)"

definition shown_invocations :: "string list \<Rightarrow> nat option \<Rightarrow> audited list \<Rightarrow> audited list" where
  "shown_invocations statuses limit invs =
     (let shown = filter (\<lambda>i. statuses = [] \<or> status_value (ai_status i) \<in> set statuses) invs
      in case limit of Some n \<Rightarrow> take n shown | None \<Rightarrow> shown)"

definition audit_passes :: "audit_report \<Rightarrow> bool" where
  "audit_passes r \<longleftrightarrow> structurally_valid r \<and> \<not> needs_reconciliation r"

definition audit_answer :: "environment \<Rightarrow> string list \<Rightarrow> nat option \<Rightarrow> audit_report \<Rightarrow> event" where
  "audit_answer E statuses limit r =
     (let shown = shown_invocations statuses limit (ar_invocations r);
          matching = shown_invocations statuses None (ar_invocations r)
      in [(''journal'', JStr (ev_journal E)), (''structurally_valid'', JBool (structurally_valid r)),
          (''needs_reconciliation'', JBool (needs_reconciliation r)),
          (''counts'', JObj (map (\<lambda>(k, n). (k, JInt (int n))) (status_counts (ar_invocations r)))),
          (''filter'', JObj
             [(''statuses'', if statuses = [] then JNull else JArr (map JStr (sort (remdups statuses)))),
              (''limit'', case limit of None \<Rightarrow> JNull | Some n \<Rightarrow> JInt (int n)),
              (''shown'', JInt (int (length shown))), (''total'', JInt (int (length (ar_invocations r)))),
              (''truncated'', JBool (case limit of None \<Rightarrow> False | Some n \<Rightarrow> n < length matching))]),
          (''invocations'', JArr (map invocation_json shown)),
          (''issues'', JArr (map (audit_issue_json (tx_audit (ev_texts E))) (ar_issues r)))])"

definition cmd_audit :: "platform \<Rightarrow> environment \<Rightarrow> int option \<Rightarrow> string list \<Rightarrow> nat option \<Rightarrow> exn + answer" where
  "cmd_audit P E max_events statuses limit =
     with_keys E (\<lambda>file keys. bindR (audit_journal_streaming P file keys max_events) (\<lambda>r.
       Inr (exit_code (audit_passes r), Some (audit_answer E statuses limit r))))"

text \<open>Whether the pack records a passed verification and audit.\<close>

definition pack_valid :: "event \<Rightarrow> bool" where
  "pack_valid b \<longleftrightarrow>
     (case jget b ''verification'' of JObj v \<Rightarrow> truthy (jget v ''valid'') | _ \<Rightarrow> False)
     \<and> (case jget b ''audit'' of JObj a \<Rightarrow> truthy (jget a ''structurally_valid'') | _ \<Rightarrow> False)"

text \<open>The pack is the payload, as JSON, unless it is written to a file or rendered.\<close>

definition cmd_export :: "platform \<Rightarrow> environment \<Rightarrow> bool \<Rightarrow> bool \<Rightarrow> exn + answer" where
  "cmd_export P E as_html to_file =
     with_keys E (\<lambda>file keys.
       bindR (export_journal P (tx_verification (ev_texts E)) (tx_audit (ev_texts E)) (ev_journal E) file keys (ev_now E))
         (\<lambda>b. bindR (if as_html then bindR (render_html P b) (\<lambda>_. Inr None) else Inr (if to_file then None else Some b))
           (\<lambda>printed. Inr (exit_code (pack_valid b), printed))))"

definition stats_payload :: "environment \<Rightarrow> bool \<Rightarrow> stats \<Rightarrow> event" where
  "stats_payload E valid s =
     (let counts = (\<lambda>d. JObj (map (\<lambda>(k, n). (k, JInt (int n))) d))
      in [(''journal'', JStr (ev_journal E)), (''valid'', JBool valid), (''events'', JInt (int (st_events s))),
          (''decisions'', JInt (int (st_decisions s))), (''outcomes'', JInt (int (st_outcomes s))),
          (''resolutions'', JInt (int (st_resolutions s))),
          (''countersignatures'', JInt (int (st_countersignatures s))),
          (''checkpoints'', JInt (int (st_checkpoints s))), (''archives'', JInt (int (st_archives s))),
          (''rotations'', JInt (int (st_rotations s))), (''by_action'', counts (st_by_action s)),
          (''by_risk'', counts (st_by_risk s)), (''by_outcome_status'', counts (st_by_status s))])"

definition cmd_stats :: "platform \<Rightarrow> environment \<Rightarrow> exn + answer" where
  "cmd_stats P E =
     with_keys E (\<lambda>file keys. bindR (load_journal_snapshot P file keys (\<lambda>e. e)) (\<lambda>(r, es).
       Inr (exit_code (r_valid r), Some (stats_payload E (r_valid r) (journal_stats P es)))))"

section \<open>Inspection and policies\<close>

fun class_value :: "privacy_class \<Rightarrow> string" where
  "class_value FULLY_REDACTED = ''fully_redacted''"
| "class_value PARTIALLY_REDACTED = ''partially_redacted''"
| "class_value NO_ARGUMENTS = ''no_arguments''"
| "class_value UNKNOWN = ''unknown''"

definition inspect_payload :: "environment \<Rightarrow> privacy_report \<Rightarrow> event" where
  "inspect_payload E r =
     [(''journal'', JStr (ev_journal E)), (''event_count'', JInt (int (pv_events r))),
      (''decision_count'', JInt (int (pv_decisions r))), (''outcome_count'', JInt (int (pv_outcomes r))),
      (''safe_for_upload'', JBool (safe_for_upload r)),
      (''disclosing_outcome_event_ids'', JArr (map JStr (pv_disclosing r))),
      (''actions'', JArr (map (\<lambda>a. JObj
         [(''action_name'', JStr (ap_action_name a)), (''classification'', JStr (class_value (ap_class a))),
          (''retained_parameter_names'', JArr (map JStr (ap_names a))),
          (''explanation'', JStr (tx_privacy (ev_texts E) a))]) (pv_actions r)))]"

definition cmd_inspect :: "platform \<Rightarrow> environment \<Rightarrow> (string \<Rightarrow> bool) \<Rightarrow> exn + answer" where
  "cmd_inspect P E ident =
     (case journal_file E of
        None \<Rightarrow> Inr failed
      | Some file \<Rightarrow>
          (case inspect_journal P ident (ev_home E)
                  (if ev_public_key E = [] then None else Some (ev_public_key E)) (Some file) of
             Inl x \<Rightarrow> if is_tesera_error x then Inr failed else Inl x
           | Inr r \<Rightarrow> Inr (EXIT_OK, Some (inspect_payload E r))))"

definition synthetic_request :: "string \<Rightarrow> string \<Rightarrow> request" where
  "synthetic_request action risk =
     \<lparr>rq_action_name = action, rq_risk = risk, rq_approval_mode = ''required'', rq_summary = [],
      rq_input_hash = replicate 64 CHR ''0'', rq_contract_hash = replicate 64 CHR ''0'', rq_spend_cents = None\<rparr>"

definition policy_payload :: "string \<Rightarrow> string \<Rightarrow> string \<Rightarrow> explanation \<Rightarrow> event" where
  "policy_payload policy action risk e =
     [(''policy'', JStr policy), (''action'', JStr action), (''risk'', JStr risk), (''synthetic'', JBool True),
      (''decision'', JStr (ex_decision e)), (''reason'', JStr (ex_reason e)),
      (''matched_rule'', case ex_index e of
         None \<Rightarrow> JNull
       | Some n \<Rightarrow> JObj [(''index'', JInt (int n)), (''action'', opt_json (ex_action e))]),
      (''total_rules'', JInt (int (ex_rules e)))]"

definition cmd_policy_test ::
  "platform \<Rightarrow> string \<Rightarrow> bytes option \<Rightarrow> string \<Rightarrow> string \<Rightarrow> string option \<Rightarrow> exn + answer" where
  "cmd_policy_test P policy file action risk expect =
     (case load_policy_file P file of
        Inl x \<Rightarrow> if x = PolicyError then Inr failed else Inl x
      | Inr (rules, dflt) \<Rightarrow>
          (let e = rules_explain P rules dflt (synthetic_request action risk)
           in Inr (if expect \<noteq> None \<and> Some (ex_decision e) \<noteq> expect then EXIT_FAILURE else EXIT_OK,
                   Some (policy_payload policy action risk e))))"

section \<open>Dispatch\<close>

definition run_command :: "platform \<Rightarrow> environment \<Rightarrow> command \<Rightarrow> (exn + answer) option" where
  "run_command P E cmd =
     (case cmd of
        Verify checkpoint age max_age \<Rightarrow> Some (cmd_verify P E checkpoint age max_age)
      | VerifyChain max_links \<Rightarrow> cmd_verify_chain P E max_links
      | WitnessAudit dir d \<Rightarrow> Some (cmd_witness_audit P E dir d)
      | Audit max_events statuses limit \<Rightarrow> Some (cmd_audit P E max_events statuses limit)
      | Export as_html to_file \<Rightarrow> Some (cmd_export P E as_html to_file)
      | Stats \<Rightarrow> Some (cmd_stats P E)
      | Inspect ident \<Rightarrow> Some (cmd_inspect P E ident)
      | PolicyTest policy file action risk expect \<Rightarrow> Some (cmd_policy_test P policy file action risk expect))"

text \<open>\<open>main\<close>: the library's own errors become a failure, others escape.\<close>

definition main :: "platform \<Rightarrow> environment \<Rightarrow> command \<Rightarrow> (exn + answer) option" where
  "main P E cmd =
     map_option (\<lambda>r. case r of Inl x \<Rightarrow> if is_tesera_error x then Inr failed else Inl x | Inr a \<Rightarrow> Inr a)
       (run_command P E cmd)"

section \<open>The commands that act\<close>

text \<open>
  Each runs its operation on the journal, the directory or the home and reports what was done; the
  identity that the operation loads and the outcome of loading a counter key are given.
\<close>

definition report_answer :: "exn + 'a \<Rightarrow> ('a \<Rightarrow> event) \<Rightarrow> exn + answer" where
  "report_answer r payload =
     (case r of
        Inl x \<Rightarrow> if is_tesera_error x then Inr failed else Inl x
      | Inr y \<Rightarrow> Inr (EXIT_OK, Some (payload y)))"

definition cmd_checkpoint ::
  "platform \<Rightarrow> string \<Rightarrow> fault \<Rightarrow> signer \<Rightarrow> nat \<Rightarrow> string option \<Rightarrow> bytes \<Rightarrow> idem_cache
     \<Rightarrow> (exn + answer) \<times> bytes \<times> idem_cache" where
  "cmd_checkpoint P path fault sg n witness f c =
     (case checkpoint_journal P path fault sg n f c of
        (r, f', c') \<Rightarrow>
          (report_answer r (\<lambda>(e, _).
             [(''journal'', JStr path), (''event_id'', jget e ''event_id''),
              (''checkpoint_count'', jget e ''checkpoint_count''), (''head_sha256'', jget e ''head_sha256''),
              (''witness_path'', JStr (case witness of Some w \<Rightarrow> w | None \<Rightarrow> path @ ''.checkpoint''))]), f', c'))"

definition cmd_resolve ::
  "platform \<Rightarrow> string \<Rightarrow> fault \<Rightarrow> signer \<Rightarrow> nat \<Rightarrow> string \<Rightarrow> string \<Rightarrow> string \<Rightarrow> bytes \<Rightarrow> idem_cache
     \<Rightarrow> (exn + answer) \<times> bytes \<times> idem_cache" where
  "cmd_resolve P path fault sg n decision result note f c =
     (let resolution = (if result = ''completed'' then ''confirmed_completed'' else ''confirmed_not_completed'')
      in case resolve_journal P path fault sg n decision resolution (Some note) f c of
        (r, f', c') \<Rightarrow>
          (report_answer r (\<lambda>e.
             [(''journal'', JStr path), (''event_id'', jget e ''event_id''), (''decision_event_id'', JStr decision),
              (''resolution'', JStr resolution)]), f', c'))"

text \<open>\<open>_password_from_env\<close>; None is the error for a variable that is not set or empty.\<close>

definition password_from_env :: "(string \<Rightarrow> string option) \<Rightarrow> string option \<Rightarrow> password option" where
  "password_from_env getenv var =
     (case var of
        None \<Rightarrow> Some NoPassword
      | Some v \<Rightarrow> (case getenv v of Some s \<Rightarrow> if s = [] then None else Some (TextPassword s) | None \<Rightarrow> None))"

definition cmd_countersign ::
  "platform \<Rightarrow> string \<Rightarrow> fault \<Rightarrow> (password \<Rightarrow> exn + signer) \<Rightarrow> (string \<Rightarrow> string option) \<Rightarrow> string option \<Rightarrow> nat
     \<Rightarrow> bytes \<Rightarrow> bytes \<Rightarrow> idem_cache \<Rightarrow> (exn + answer) \<times> bytes \<times> idem_cache" where
  "cmd_countersign P path fault load_signer getenv var n between f c =
     (case password_from_env getenv var of
        None \<Rightarrow> (Inr failed, f, c)
      | Some pw \<Rightarrow>
          (case countersign_journal P path fault (load_signer pw) n between f c of
             (r, f', c') \<Rightarrow>
               (report_answer r (\<lambda>cs.
                  [(''journal'', JStr path), (''event_id'', jget (cs_event cs) ''event_id''),
                   (''checkpoint_event_id'', JStr (cs_checkpoint_id cs)), (''checkpoint_count'', JInt (cs_count cs)),
                   (''head_sha256'', cs_head cs), (''key_id'', jget (cs_event cs) ''key_id''),
                   (''superseded'', JBool (cs_superseded cs))]), f', c')))"

text \<open>\<open>counter\<close> is the option \<open>--counter-key\<close>: how the key loads with a password.\<close>

definition cmd_witness ::
  "platform \<Rightarrow> string \<Rightarrow> fault \<Rightarrow> signer \<Rightarrow> (password \<Rightarrow> exn + signer) option \<Rightarrow> (string \<Rightarrow> string option) \<Rightarrow> string option
     \<Rightarrow> nat \<Rightarrow> string \<Rightarrow> nat \<Rightarrow> bytes \<Rightarrow> idem_cache \<Rightarrow> directory
     \<Rightarrow> (exn + answer) \<times> bytes \<times> idem_cache \<times> directory" where
  "cmd_witness P path fault sg counter getenv var n stamp mtime f c d =
     (case password_from_env getenv var of
        None \<Rightarrow> (Inr failed, f, c, d)
      | Some pw \<Rightarrow>
          (case witness_journal P path fault sg (map_option (\<lambda>load. load pw) counter) n stamp mtime f c d of
             (r, rest) \<Rightarrow>
               (report_answer r (\<lambda>(e, target, countersigned).
                  [(''journal'', JStr path), (''checkpoint_event_id'', jget e ''event_id''),
                   (''checkpoint_count'', jget e ''checkpoint_count''), (''head_sha256'', jget e ''head_sha256''),
                   (''witness_path'', JStr (path @ ''.checkpoint'')), (''shipped_path'', JStr target),
                   (''countersignature_event_id'', opt_json countersigned)]), rest)))"

definition cmd_archive ::
  "platform \<Rightarrow> rotation \<Rightarrow> string \<Rightarrow> int option \<Rightarrow> exn + signer \<Rightarrow> nat \<Rightarrow> directory \<Rightarrow> idem_cache
     \<Rightarrow> (exn + answer) \<times> directory \<times> idem_cache" where
  "cmd_archive P ro live keep signer n d c =
     (case archive_journal P ro live keep signer n d c of
        (r, d', c') \<Rightarrow>
          (report_answer r (\<lambda>a.
             [(''journal'', JStr live), (''archived_path'', JStr (ac_archived_path a)),
              (''event_id'', jget (ac_event a) ''event_id''), (''prior_count'', JInt (int (ac_prior_count a))),
              (''prior_head'', opt_json (ac_prior_head a)), (''pruned'', JArr (map JStr (ac_pruned a)))]), d', c'))"

definition cmd_witness_prune ::
  "string \<Rightarrow> nat \<Rightarrow> string list \<Rightarrow> directory option \<Rightarrow> (exn + answer) \<times> directory option" where
  "cmd_witness_prune name keep undeletable dir =
     (case prune_witnesses keep undeletable dir of
        (r, dir') \<Rightarrow>
          (report_answer r (\<lambda>(kept, deleted).
             [(''witness_dir'', JStr name), (''keep'', JInt (int keep)), (''kept'', JArr (map JStr kept)),
              (''deleted'', JArr (map JStr deleted))]), dir'))"

definition key_fields :: "platform \<Rightarrow> string \<Rightarrow> bytes \<Rightarrow> bytes list \<Rightarrow> event" where
  "key_fields P home_name pk trusted =
     [(''home'', JStr home_name), (''key_id'', JStr (key_id_for P pk)),
      (''fingerprint'', JStr (public_key_fingerprint P pk)), (''trusted_keys'', JInt (int (length trusted))),
      (''trusted_key_ids'', JArr (map (\<lambda>k. JStr (key_id_for P k)) trusted))]"

definition cmd_key_info :: "platform \<Rightarrow> string \<Rightarrow> string \<Rightarrow> bytes \<Rightarrow> home \<Rightarrow> (exn + answer) \<times> home" where
  "cmd_key_info P home_name public_path fresh hm =
     (case load_or_create P fresh hm of
        Inl x \<Rightarrow> (report_answer (Inl x) (\<lambda>e. e), hm)
      | Inr (sk, hm') \<Rightarrow>
          (report_answer (load_trusted_public_keys hm') (\<lambda>trusted.
             key_fields P home_name (ed_public P sk) trusted @ [(''public_key_path'', JStr public_path)]), hm'))"

definition cmd_key_rotate ::
  "platform \<Rightarrow> string \<Rightarrow> string \<Rightarrow> fault \<Rightarrow> nat \<Rightarrow> bool \<Rightarrow> bytes \<Rightarrow> home \<Rightarrow> bytes option \<Rightarrow> idem_cache
     \<Rightarrow> (exn + answer) \<times> home \<times> bytes option \<times> idem_cache" where
  "cmd_key_rotate P home_name path fault n rec new_key hm journal c =
     (case rotate_key P path fault n rec new_key hm journal c of
        (r, hm', rest) \<Rightarrow>
          (report_answer (bindR r (\<lambda>sk. bindR (load_trusted_public_keys hm') (\<lambda>trusted. Inr (sk, trusted))))
             (\<lambda>(sk, trusted). key_fields P home_name (ed_public P sk) trusted), hm', rest))"

definition cmd_keygen ::
  "platform \<Rightarrow> string \<Rightarrow> (string \<Rightarrow> string option) \<Rightarrow> string option \<Rightarrow> bytes \<Rightarrow> keyfile option
     \<Rightarrow> (exn + answer) \<times> keyfile option" where
  "cmd_keygen P output getenv var fresh existing =
     (case password_from_env getenv var of
        None \<Rightarrow> (Inr failed, existing)
      | Some pw \<Rightarrow>
          (case generate_private_key fresh pw existing of
             Inl x \<Rightarrow> (report_answer (Inl x) (\<lambda>e. e), existing)
           | Inr f \<Rightarrow>
               (report_answer (load_key f) (\<lambda>sk.
                  [(''path'', JStr output), (''key_id'', JStr (key_id_for P (ed_public P sk))),
                   (''fingerprint'', JStr (public_key_fingerprint P (ed_public P sk)))]), Some f)))"

section \<open>What exit code zero means\<close>

definition ready :: "environment \<Rightarrow> bytes option \<Rightarrow> bytes list \<Rightarrow> bool" where
  "ready E file keys \<longleftrightarrow> journal_file E = Some file \<and> resolve_verification_keys E = Inr keys \<and> keys \<noteq> []"

text \<open>The check each command stands for, over the operations of the components.\<close>

fun checked :: "platform \<Rightarrow> environment \<Rightarrow> command \<Rightarrow> bool" where
  "checked P E (Verify checkpoint age max_age) =
     (\<exists>file keys r. ready E file keys \<and> verify_journal P file keys checkpoint = Inr r \<and> r_valid r)"
| "checked P E (VerifyChain max_links) =
     (\<exists>file keys rep. ready E file keys
        \<and> verify_archive_chain P keys max_links (ev_directory E) (ev_journal E) = Some (Inr rep) \<and> chain_valid rep)"
| "checked P E (WitnessAudit dir d) =
     (\<exists>file keys statuses. ready E file keys \<and> audit_witnesses P d file keys = Inr statuses
        \<and> witness_audit_valid statuses)"
| "checked P E (Audit max_events statuses limit) =
     (\<exists>file keys r. ready E file keys \<and> audit_journal_streaming P file keys max_events = Inr r
        \<and> structurally_valid r \<and> \<not> needs_reconciliation r)"
| "checked P E (Export as_html to_file) =
     (\<exists>file keys snapshot r. ready E file keys \<and> load_journal_snapshot P file keys (\<lambda>e. e) = Inr snapshot
        \<and> r_valid (fst snapshot) \<and> audit_verified_snapshot P snapshot = Inr r \<and> structurally_valid r)"
| "checked P E Stats =
     (\<exists>file keys r es. ready E file keys \<and> load_journal_snapshot P file keys (\<lambda>e. e) = Inr (r, es) \<and> r_valid r)"
| "checked P E (Inspect ident) =
     (\<exists>file r. journal_file E = Some file
        \<and> inspect_journal P ident (ev_home E) (if ev_public_key E = [] then None else Some (ev_public_key E)) (Some file) = Inr r)"
| "checked P E (PolicyTest policy file action risk expect) =
     (\<exists>rules dflt. load_policy_file P file = Inr (rules, dflt)
        \<and> (expect = None \<or> expect = Some (ex_decision (rules_explain P rules dflt (synthetic_request action risk)))))"

lemma exit_simps [simp]:
  "exit_code ok = EXIT_OK \<longleftrightarrow> ok" "EXIT_FAILURE \<noteq> EXIT_OK" "EXIT_OK \<noteq> EXIT_FAILURE"
  by (simp_all add: exit_code_def EXIT_OK_def EXIT_FAILURE_def)

lemma failed_not_ok [simp]: "failed \<noteq> (EXIT_OK, p)" "(EXIT_OK, p) \<noteq> failed"
  by (simp_all add: failed_def)

lemma with_keys_ok:
  "with_keys E run = Inr (EXIT_OK, p) \<longleftrightarrow> (\<exists>file keys. ready E file keys \<and> run file keys = Inr (EXIT_OK, p))"
  by (auto simp: with_keys_def ready_def split: option.splits sum.splits if_splits)

lemma main_ok: "main P E cmd = Some (Inr (EXIT_OK, p)) \<longleftrightarrow> run_command P E cmd = Some (Inr (EXIT_OK, p))"
  by (cases "run_command P E cmd") (auto simp: main_def split: sum.splits if_splits)

lemma chain_ok:
  "(\<exists>p. cmd_verify_chain P E max_links = Some (Inr (EXIT_OK, p))) \<longleftrightarrow> checked P E (VerifyChain max_links)"
  by (auto simp: cmd_verify_chain_def ready_def bindR_Inr_iff split: option.splits sum.splits if_splits)

lemma pack_valid_snapshot:
  assumes "export_snapshot P vmsg amsg path now snapshot = Inr b"
  shows "pack_valid b \<longleftrightarrow> r_valid (fst snapshot)
    \<and> (\<exists>r. audit_verified_snapshot P snapshot = Inr r \<and> structurally_valid r)"
  using assms
  by (cases "audit_verified_snapshot P snapshot")
    (auto simp: export_snapshot_def pack_valid_def jget_def audit_payload_def split: if_splits)

lemma export_ok:
  "(\<exists>p. cmd_export P E as_html to_file = Inr (EXIT_OK, p)) \<longleftrightarrow> checked P E (Export as_html to_file)"
proof
  assume "\<exists>p. cmd_export P E as_html to_file = Inr (EXIT_OK, p)"
  then obtain f keys snapshot b where "ready E f keys" "load_journal_snapshot P f keys (\<lambda>e. e) = Inr snapshot"
    and e: "export_snapshot P (tx_verification (ev_texts E)) (tx_audit (ev_texts E)) (ev_journal E) (ev_now E) snapshot = Inr b"
    and "pack_valid b"
    by (auto simp: cmd_export_def with_keys_ok bindR_Inr_iff export_journal_def)
  with pack_valid_snapshot [OF e] show "checked P E (Export as_html to_file)"
    by (cases snapshot) (simp, blast)
next
  assume "checked P E (Export as_html to_file)"
  then obtain f keys snapshot r where s: "ready E f keys" "load_journal_snapshot P f keys (\<lambda>e. e) = Inr snapshot"
    "r_valid (fst snapshot)" "audit_verified_snapshot P snapshot = Inr r" "structurally_valid r" by auto
  let ?x = "export_snapshot P (tx_verification (ev_texts E)) (tx_audit (ev_texts E)) (ev_journal E) (ev_now E) snapshot"
  from s(4) obtain b where b: "?x = Inr b" by (auto simp: export_snapshot_def)
  from export_reads [OF b] obtain h where "render_html P b = Inr h" by (auto simp: render_html_def)
  with b s pack_valid_snapshot [OF b]
  have "cmd_export P E as_html to_file = Inr (EXIT_OK, if as_html \<or> to_file then None else Some b)"
    unfolding cmd_export_def with_keys_ok
    by (intro exI [of _ f] exI [of _ keys]) (simp add: export_journal_def)
  then show "\<exists>p. cmd_export P E as_html to_file = Inr (EXIT_OK, p)" by blast
qed


text \<open>The counts of the audit report cover every invocation, whatever the filter and the limit show.\<close>

lemma status_counts_total: "total_count (status_counts invs) = length invs"
proof -
  have "distinct (map fst d) \<Longrightarrow>
      total_count (fold (\<lambda>i. count_one (status_value (ai_status i))) invs d) = total_count d + length invs" for d
    by (induction invs arbitrary: d) simp_all
  from this [of "map (\<lambda>s. (status_value s, 0)) ALL_STATUSES"] show ?thesis
    by (simp add: status_counts_def ALL_STATUSES_def total_count_def)
qed

text \<open>An existing key file is never overwritten.\<close>

lemma keygen_keeps_existing: "snd (cmd_keygen P output getenv var fresh (Some f)) = Some f"
  by (auto simp: cmd_keygen_def generate_private_key_def split: option.splits)

end
