(* ===== verification/Observer.thy ===== *)
theory Observer
  imports Prelude
begin

text \<open>
  The notification tracker (\<open>observer.py\<close>) with several observers and threads. An observer has an
  identity, the value its equality compares (its identity, unless its class defines equality), the
  address \<open>id()\<close> gives, which a later object may reuse, and whether it is hashable and supports weak
  references. The weak dictionary compares by equality and forgets an entry when the object it was
  made for is collected.
\<close>

section \<open>The tracker\<close>

record watcher =
  wt_identity :: nat
  wt_value :: nat
  wt_address :: nat
  wt_weak :: bool

type_synonym buckets = "(nat, nat \<times> string list) dict" \<comment> \<open>with the identity of the object\<close>

record tracker =
  tk_weak :: buckets
  tk_strong :: buckets

definition new_tracker :: tracker where "new_tracker = \<lparr>tk_weak = [], tk_strong = []\<rparr>"

text \<open>\<open>_bucket\<close>: a missing entry, or a strong one of another object, is made anew.\<close>

definition bucket :: "watcher \<Rightarrow> tracker \<Rightarrow> string list \<times> tracker" where
  "bucket w t =
     (if wt_weak w then
        (case dget (tk_weak t) (wt_value w) of
           Some (_, b) \<Rightarrow> (b, t)
         | None \<Rightarrow> ([], t\<lparr>tk_weak := dset (wt_value w) (wt_identity w, []) (tk_weak t)\<rparr>))
      else
        (let fresh = ([], t\<lparr>tk_strong := dset (wt_address w) (wt_identity w, []) (tk_strong t)\<rparr>)
         in case dget (tk_strong t) (wt_address w) of
              Some (i, b) \<Rightarrow> if i = wt_identity w then (b, t) else fresh
            | None \<Rightarrow> fresh))"

definition store_bucket :: "watcher \<Rightarrow> string list \<Rightarrow> tracker \<Rightarrow> tracker" where
  "store_bucket w b t =
     (let put = (\<lambda>k d. case dget d k of Some (i, _) \<Rightarrow> dset k (i, b) d | None \<Rightarrow> d)
      in if wt_weak w then t\<lparr>tk_weak := put (wt_value w) (tk_weak t)\<rparr>
         else t\<lparr>tk_strong := put (wt_address w) (tk_strong t)\<rparr>)"

definition is_done :: "watcher \<Rightarrow> string \<Rightarrow> tracker \<Rightarrow> bool \<times> tracker" where
  "is_done w h t = (case bucket w t of (b, t') \<Rightarrow> (h \<in> set b, t'))"

definition mark_done :: "watcher \<Rightarrow> string \<Rightarrow> tracker \<Rightarrow> tracker" where
  "mark_done w h t = (case bucket w t of (b, t') \<Rightarrow> store_bucket w (if h \<in> set b then b else b @ [h]) t')"

text \<open>The collection of an object, by its identity.\<close>

definition collected :: "nat \<Rightarrow> tracker \<Rightarrow> tracker" where
  "collected i t = t\<lparr>tk_weak := filter (\<lambda>(_, j, _). j \<noteq> i) (tk_weak t)\<rparr>"

section \<open>Threads in \<open>notify_once\<close>\<close>

datatype notifying = Declaring watcher string | Marking watcher string | Notified watcher string

record watch =
  wa_tracker :: tracker
  wa_threads :: "nat \<Rightarrow> notifying option"
  wa_declared :: "(nat \<times> string) list" \<comment> \<open>successful declarations: identity and contract hash\<close>

definition start_watch :: watch where
  "start_watch = \<lparr>wa_tracker = new_tracker, wa_threads = (\<lambda>_. None), wa_declared = []\<rparr>"

text \<open>\<open>uses\<close> are the observers of the process. The tracker's lock makes each of its methods one step.\<close>

inductive notify :: "(watcher \<Rightarrow> bool) \<Rightarrow> watch \<Rightarrow> watch \<Rightarrow> bool" for uses where
  known: "uses w \<Longrightarrow> is_done w h (wa_tracker s) = (True, t) \<Longrightarrow>
    notify uses s (s\<lparr>wa_tracker := t, wa_threads := (wa_threads s)(p \<mapsto> Notified w h)\<rparr>)"
| unknown: "uses w \<Longrightarrow> is_done w h (wa_tracker s) = (False, t) \<Longrightarrow>
    notify uses s (s\<lparr>wa_tracker := t, wa_threads := (wa_threads s)(p \<mapsto> Declaring w h)\<rparr>)"
| declared: "wa_threads s p = Some (Declaring w h) \<Longrightarrow>
    notify uses s (s\<lparr>wa_threads := (wa_threads s)(p \<mapsto> Marking w h), wa_declared := wa_declared s @ [(wt_identity w, h)]\<rparr>)"
| refused: "wa_threads s p = Some (Declaring w h) \<Longrightarrow>
    notify uses s (s\<lparr>wa_threads := (wa_threads s)(p := None)\<rparr>)"
| marked: "wa_threads s p = Some (Marking w h) \<Longrightarrow>
    notify uses s (s\<lparr>wa_tracker := mark_done w h (wa_tracker s), wa_threads := (wa_threads s)(p \<mapsto> Notified w h)\<rparr>)"
| collect: "notify uses s (s\<lparr>wa_tracker := collected i (wa_tracker s)\<rparr>)"

section \<open>No execution without a declaration\<close>

text \<open>Every hash in a bucket was declared to the object the bucket was made for.\<close>

definition told_only :: "(nat \<times> string) set \<Rightarrow> buckets \<Rightarrow> bool" where
  "told_only told d \<longleftrightarrow> (\<forall>k i b. dget d k = Some (i, b) \<longrightarrow> (\<forall>h \<in> set b. (i, h) \<in> told))"

definition keyed_by_identity :: "buckets \<Rightarrow> bool" where
  "keyed_by_identity d \<longleftrightarrow> distinct (map fst d) \<and> (\<forall>(k, i, _) \<in> set d. k = i)"

definition tracker_ok :: "(nat \<times> string) set \<Rightarrow> tracker \<Rightarrow> bool" where
  "tracker_ok told t \<longleftrightarrow> told_only told (tk_weak t) \<and> keyed_by_identity (tk_weak t) \<and> told_only told (tk_strong t)"

lemma told_only_dset: "told_only told d \<Longrightarrow> \<forall>h \<in> set b. (i, h) \<in> told \<Longrightarrow> told_only told (dset k (i, b) d)"
  by (auto simp: told_only_def)

lemma told_only_mono: "told_only told d \<Longrightarrow> told \<subseteq> told' \<Longrightarrow> told_only told' d"
  by (fastforce simp: told_only_def)

lemma keyed_dset: "keyed_by_identity d \<Longrightarrow> keyed_by_identity (dset k (k, b) d)"
  by (auto simp: keyed_by_identity_def dest: dset_values)

lemma keyed_get: "keyed_by_identity d \<Longrightarrow> dget d k = Some (i, b) \<Longrightarrow> i = k"
  by (auto simp: keyed_by_identity_def dest: dget_mem)

lemma bucket_ok:
  assumes "tracker_ok told t" and "wt_value w = wt_identity w" and "bucket w t = (b, t')"
  shows "tracker_ok told t'" "\<forall>h \<in> set b. (wt_identity w, h) \<in> told"
    "if wt_weak w then dget (tk_weak t') (wt_value w) = Some (wt_identity w, b)
     else dget (tk_strong t') (wt_address w) = Some (wt_identity w, b)"
proof -
  have t: "told_only told (tk_weak t)" "keyed_by_identity (tk_weak t)" "told_only told (tk_strong t)"
    using assms(1) by (auto simp: tracker_ok_def)
  show "tracker_ok told t'"
    using assms(2,3) t told_only_dset [of told "tk_weak t" "[]"] told_only_dset [of told "tk_strong t" "[]"]
      keyed_dset [OF t(2), of "wt_identity w" "[]"]
    by (auto simp: bucket_def tracker_ok_def Let_def split: if_splits option.splits)
  show "if wt_weak w then dget (tk_weak t') (wt_value w) = Some (wt_identity w, b)
     else dget (tk_strong t') (wt_address w) = Some (wt_identity w, b)"
    using assms(2,3) keyed_get [OF t(2)]
    by (auto simp: bucket_def Let_def split: if_splits option.splits)
  then show "\<forall>h \<in> set b. (wt_identity w, h) \<in> told"
    using \<open>tracker_ok told t'\<close> by (auto simp: tracker_ok_def told_only_def split: if_splits)
qed

lemma mark_ok:
  assumes "tracker_ok told t" and "wt_value w = wt_identity w" and "(wt_identity w, h) \<in> told"
  shows "tracker_ok told (mark_done w h t)"
proof -
  obtain b t' where b: "bucket w t = (b, t')" by (cases "bucket w t")
  note k = bucket_ok [OF assms(1,2) b]
  have all: "\<forall>x \<in> set (if h \<in> set b then b else b @ [h]). (wt_identity w, x) \<in> told"
    using k(2) assms(3) by auto
  have t': "told_only told (tk_weak t')" "keyed_by_identity (tk_weak t')" "told_only told (tk_strong t')"
    using k(1) by (auto simp: tracker_ok_def)
  show ?thesis
    using k(3) t' told_only_dset [OF t'(1) all, of "wt_value w"] told_only_dset [OF t'(3) all, of "wt_address w"]
      keyed_dset [OF t'(2), of "wt_identity w" "if h \<in> set b then b else b @ [h]"] assms(2)
    by (auto simp: mark_done_def b store_bucket_def Let_def tracker_ok_def)
qed

lemma keyed_filter: "keyed_by_identity d \<Longrightarrow> keyed_by_identity (filter P d)"
  by (auto simp: keyed_by_identity_def distinct_map_filter)

lemma dget_kept: "distinct (map fst d) \<Longrightarrow> dget (filter P d) k = Some v \<Longrightarrow> dget d k = Some v"
  by (induction d) (auto split: if_splits dest: map_of_SomeD intro: rev_image_eqI)

lemma told_only_filter: "distinct (map fst d) \<Longrightarrow> told_only told d \<Longrightarrow> told_only told (filter P d)"
  unfolding told_only_def using dget_kept [of d P] by blast

lemma collected_ok: "tracker_ok told t \<Longrightarrow> tracker_ok told (collected i t)"
  by (auto simp: tracker_ok_def collected_def keyed_filter intro: told_only_filter simp: keyed_by_identity_def [of "tk_weak t"])

definition watch_ok :: "watch \<Rightarrow> bool" where
  "watch_ok s \<longleftrightarrow> tracker_ok (set (wa_declared s)) (wa_tracker s)
     \<and> (\<forall>p w h. wa_threads s p \<in> {Some (Marking w h), Some (Notified w h)} \<longrightarrow> (wt_identity w, h) \<in> set (wa_declared s))"

lemma tracker_ok_mono: "tracker_ok told t \<Longrightarrow> told \<subseteq> told' \<Longrightarrow> tracker_ok told' t"
  by (auto simp: tracker_ok_def intro: told_only_mono)

lemma notify_ok:
  assumes "notify uses s s'" and "watch_ok s" and "\<forall>w. uses w \<longrightarrow> wt_value w = wt_identity w"
    and "\<forall>p w h. wa_threads s p \<in> {Some (Declaring w h), Some (Marking w h)} \<longrightarrow> wt_value w = wt_identity w"
  shows "watch_ok s'"
    and "\<forall>p w h. wa_threads s' p \<in> {Some (Declaring w h), Some (Marking w h)} \<longrightarrow> wt_value w = wt_identity w"
  using assms
proof (induction rule: notify.induct)
  case (known w h s t p)
  {
    case 1
    then obtain b where b: "bucket w (wa_tracker s) = (b, t)" "h \<in> set b"
      using known by (auto simp: is_done_def split: prod.splits)
    with 1 known bucket_ok [OF _ _ b(1)] show ?case by (auto simp: watch_ok_def)
  next
    case 2
    then show ?case by auto
  }
next
  case (unknown w h s t p)
  {
    case 1
    then obtain b where b: "bucket w (wa_tracker s) = (b, t)"
      using unknown by (auto simp: is_done_def split: prod.splits)
    with 1 unknown bucket_ok [OF _ _ b(1)] show ?case by (auto simp: watch_ok_def)
  next
    case 2
    with unknown show ?case by auto
  }
next
  case (declared s p w h)
  {
    case 1
    with declared show ?case by (auto simp: watch_ok_def intro: tracker_ok_mono)
  next
    case 2
    with declared show ?case by auto
  }
next
  case (refused s p w h)
  {
    case 1
    then show ?case by (auto simp: watch_ok_def)
  next
    case 2
    then show ?case by auto
  }
next
  case (marked s p w h)
  {
    case 1
    with marked mark_ok [of "set (wa_declared s)" "wa_tracker s" w h] show ?case by (auto simp: watch_ok_def)
  next
    case 2
    then show ?case by auto
  }
next
  case (collect s i)
  {
    case 1
    then show ?case by (auto simp: watch_ok_def collected_ok)
  next
    case 2
    then show ?case by auto
  }
qed

lemma reachable_watch_ok:
  assumes "(notify uses)\<^sup>*\<^sup>* start_watch s" and "\<forall>w. uses w \<longrightarrow> wt_value w = wt_identity w"
  shows "watch_ok s \<and> (\<forall>p w h. wa_threads s p \<in> {Some (Declaring w h), Some (Marking w h)} \<longrightarrow> wt_value w = wt_identity w)"
  using assms
proof (induction rule: rtranclp_induct)
  case base
  show ?case
    by (simp add: watch_ok_def start_watch_def new_tracker_def tracker_ok_def told_only_def keyed_by_identity_def)
next
  case (step s s')
  with notify_ok [OF step(2)] show ?case by blast
qed

text \<open>
  C30: No execution without a declaration: whatever the threads do and whenever observers are collected, a
  call gets past \<open>notify_once\<close> only if this very observer has accepted this very contract before,
  for observers whose equality is their identity.
\<close>

theorem notified_means_declared:
  assumes "(notify uses)\<^sup>*\<^sup>* start_watch s" and "\<forall>w. uses w \<longrightarrow> wt_value w = wt_identity w"
    and "wa_threads s p = Some (Notified w h)"
  shows "(wt_identity w, h) \<in> set (wa_declared s)"
  using reachable_watch_ok [OF assms(1,2)] assms(3) unfolding watch_ok_def by blast

definition demo_watcher :: "nat \<Rightarrow> nat \<Rightarrow> watcher" where
  "demo_watcher i v = \<lparr>wt_identity = i, wt_value = v, wt_address = i, wt_weak = True\<rparr>"

definition told_watch :: "nat \<Rightarrow> watch" where
  "told_watch v =
     \<lparr>wa_tracker = \<lparr>tk_weak = [(v, 1, [''c''])], tk_strong = []\<rparr>,
      wa_threads = [0 \<mapsto> Notified (demo_watcher 1 v) ''c''], wa_declared = [(1, ''c'')]\<rparr>"

lemma told_reachable:
  assumes "uses (demo_watcher 1 v)"
  shows "(notify uses)\<^sup>*\<^sup>* start_watch (told_watch v)"
proof -
  let ?w = "demo_watcher 1 v"
  let ?s1 = "start_watch\<lparr>wa_tracker := \<lparr>tk_weak = [(v, 1, [])], tk_strong = []\<rparr>,
     wa_threads := [0 \<mapsto> Declaring ?w ''c'']\<rparr>"
  let ?s2 = "?s1\<lparr>wa_threads := [0 \<mapsto> Marking ?w ''c''], wa_declared := [(1, ''c'')]\<rparr>"
  have "is_done ?w ''c'' new_tracker = (False, \<lparr>tk_weak = [(v, 1, [])], tk_strong = []\<rparr>)"
    by (simp add: is_done_def bucket_def demo_watcher_def new_tracker_def)
  then have "notify uses start_watch ?s1"
    using notify.unknown [of uses ?w "''c''" start_watch _ 0] assms by (simp add: start_watch_def)
  moreover have "notify uses ?s1 ?s2"
    using notify.declared [of ?s1 0 ?w "''c''" uses] by (simp add: start_watch_def demo_watcher_def)
  moreover have "notify uses ?s2 (told_watch v)"
    using notify.marked [of ?s2 0 ?w "''c''" uses]
    by (simp add: start_watch_def told_watch_def mark_done_def bucket_def store_bucket_def demo_watcher_def)
  ultimately show ?thesis by (meson converse_rtranclp_into_rtranclp rtranclp.rtrancl_refl)
qed

lemma notified_means_declared_witness: "(1, ''c'') \<in> set (wa_declared (told_watch 1))"
  using notified_means_declared [OF told_reachable [of "\<lambda>w. w = demo_watcher 1 1" 1], of 0 "demo_watcher 1 1" "''c''"]
  by (simp add: demo_watcher_def told_watch_def)

text \<open>
  Observers whose class defines equality share a bucket when they are equal: the second one is never
  told of the contract, although each observer should get its own notification.
\<close>

lemma equal_observer_never_told:
  "\<exists>s. (notify (\<lambda>_. True))\<^sup>*\<^sup>* start_watch s \<and> wa_threads s 1 = Some (Notified (demo_watcher 2 7) ''c'')
     \<and> (2, ''c'') \<notin> set (wa_declared s)"
proof -
  let ?s = "(told_watch 7)\<lparr>wa_threads := (wa_threads (told_watch 7))(1 \<mapsto> Notified (demo_watcher 2 7) ''c'')\<rparr>"
  have "is_done (demo_watcher 2 7) ''c'' (wa_tracker (told_watch 7)) = (True, wa_tracker (told_watch 7))"
    by (simp add: is_done_def bucket_def demo_watcher_def told_watch_def)
  then have "notify (\<lambda>_. True) (told_watch 7) ?s"
    using notify.known [of "\<lambda>_. True" "demo_watcher 2 7" "''c''" "told_watch 7" _ 1] by (simp add: told_watch_def)
  with told_reachable [of "\<lambda>_. True" 7] have "(notify (\<lambda>_. True))\<^sup>*\<^sup>* start_watch ?s" by (simp add: rtranclp.rtrancl_into_rtrancl)
  then show ?thesis by (intro exI [of _ ?s]) (simp add: told_watch_def)
qed

end
