(* ===== verification/Spec2Isabelle.thy ===== *)
theory Spec2Isabelle
  imports WitnessShip KeyFiles PolicyFileProps Async Shipping AuditStream ArchiveDemo PrivacyProps
    Reconcile Gateway Guard ApproveServer Schemas Cli Observer
begin

text \<open>
  Tesera (\<open>src/src/tesera\<close>) guards function calls with policies and approvals and keeps signed,
  hash-chained evidence of what was decided and what happened. This development models its core
  over bytes: a journal is the content of its file, a key is its raw bytes, a policy state file is
  its content.

  The theories, in the order of the code they model:

  \<^item> \<open>Prelude\<close>, \<open>PyText\<close>, \<open>Codec\<close>, \<open>Platform\<close>: results, Python dictionaries and texts as UTF-8
    bytes, the exceptions of \<open>errors.py\<close>, and the record of what lies outside the repository
    (SHA-256, Ed25519, float printing, Unicode data, clock and identifiers). Theorems name what
    they need of it; \<open>toy_platform\<close> is the concrete platform of the examples.
  \<^item> \<open>Json\<close>, \<open>JsonRoundtrip\<close>, \<open>JsonAscii\<close>: Python's JSON reader and writer, and that one reads
    back what the other writes.
  \<^item> \<open>Canonical\<close> (\<open>canonical.py\<close>) and \<open>Redaction\<close> (\<open>redaction.py\<close>): canonical evidence over an
    explicit heap of Python objects, redaction, and the regular expressions that scrub secrets.
  \<^item> \<open>Contracts\<close> (\<open>contracts.py\<close>), \<open>Approval\<close> (\<open>approval.py\<close>).
  \<^item> \<open>Identity\<close> (\<open>identity.py\<close>), \<open>JournalFile\<close>, \<open>Idempotency\<close>, \<open>Journal\<close> (\<open>journal.py\<close>):
    signing identities, the file format, the backward read of the chain head, the idempotency scans
    and their index, and the locked append with its faults.
  \<^item> \<open>Verification\<close> and \<open>Chain\<close> (\<open>verification.py\<close>): the verifier, its specification
    \<open>journal_valid\<close>, and what a valid journal guarantees.
  \<^item> \<open>KeyFiles\<close> (\<open>identity.py\<close>): key files with permission bits, passwords and failing writes; where
    the evidence is.
  \<^item> \<open>Torn\<close>: what a write leaves that was cut at any byte; a part of an event line never reads as a
    value, and a lost newline hides two events.
  \<^item> \<open>Records\<close>, \<open>RecordProps\<close>, \<open>WitnessShip\<close> (\<open>checkpoint.py\<close>, \<open>cosign.py\<close>, \<open>resolve.py\<close>,
    \<open>witness.py\<close>, key rotation): the operator's records, and their shipping when copies fail.
  \<^item> \<open>Quota\<close>, \<open>Glob\<close>, \<open>Policy\<close>, \<open>PolicyProps\<close>, \<open>PolicyFiles\<close>, \<open>PolicyFileProps\<close> (\<open>policy.py\<close>):
    the providers in memory and in files. The locale \<open>quota\<close> is the contract of every budget; the
    bounds on whole runs are proved in it and interpreted for the four budgets.

  \<^item> \<open>Engine\<close>, \<open>EngineProps\<close>, \<open>Runs\<close> (\<open>engine.py\<close>): the guarded call from binding to outcome over a
    journal store; single calls and runs of calls in one process. The locale \<open>evidence_store\<close> is what
    the engine needs of a store; it is interpreted for the file journal and for the store that ships.
  \<^item> \<open>Locked\<close>, \<open>Processes\<close>: what one operation under the file lock does, and several processes on one
    journal as the step relation \<open>sys_step\<close>, where reservations, denials, outcomes and other appends
    interleave, fail, and are cut at any byte: no two executions of one action and key overlap and a key
    succeeds at most once. An uninterrupted preparation of the code is such a step.
  \<^item> \<open>Async\<close> (\<open>execute_async\<close>): a call as its two halves around the await.
  \<^item> \<open>Observer\<close> (\<open>observer.py\<close>): the notification tracker with several observers, threads and the
    collection of objects; the engine sees one observer.
  \<^item> \<open>Shipping\<close> (\<open>shipping.py\<close>): the store that hands each event to sinks before it returns.
  \<^item> \<open>AuditReport\<close>, \<open>AuditProps\<close>, \<open>AuditStream\<close> (\<open>audit.py\<close>): the operational audit, what its
    statuses mean, what a report without issues excludes, and that streaming changes nothing.
  \<^item> \<open>JsonSpace\<close>, \<open>Archive\<close>, \<open>ArchiveProps\<close>, \<open>ArchiveDemo\<close> (\<open>archive.py\<close>): rotation of the journal
    into archives with the other processes' actions in between, and the verification of the chain.
    Its loop is a \<open>partial_function\<close> and is proved to return.
  \<^item> \<open>Privacy\<close>, \<open>PrivacyProps\<close> (\<open>privacy.py\<close>): what a journal discloses; a report of safety is sound
    and agrees with what the engine recorded.
  \<^item> \<open>Reconcile\<close> (\<open>reconcile.py\<close>, \<open>providers.py\<close>) and \<open>Gateway\<close> (\<open>gateway.py\<close>).
  \<^item> \<open>Guard\<close> (\<open>guard.py\<close>, \<open>wrap_tool.py\<close>): decoration and wrapping build the same guarded function,
    the data every call hands to the engine.
  \<^item> \<open>Html\<close>, \<open>ApproveServer\<close> (\<open>approve_server.py\<close>): the approval server as a step relation over
    registrations, posts, page loads, expiry and time-outs; an allowance needs an operator's post
    with both tokens, and the page is inert.
  \<^item> \<open>Export\<close> (\<open>export.py\<close>) and \<open>Schemas\<close> (\<open>schemas.py\<close>): evidence packs, their statistics and the
    inert HTML report; tool schemas against a semantics of JSON Schema and of annotations.
  \<^item> \<open>Cli\<close> (\<open>cli.py\<close>): the commands over all of these; exit code 0 is exactly the check.

  Interactions: the journal's append reads the head and the blocking decision under one lock and
  hands both to the caller's \<open>build\<close>; every record builder is such a \<open>build\<close>; the verifier
  recomputes what \<open>finalize_event\<close> signed; audit, privacy, reconciliation and export read only
  snapshots the verifier accepted. Concurrency between processes, and between
  the tasks of an event loop, is the order in which locked operations happen; threads of the timeout provider are an explicit late completion, those
  of the approval server steps between its locked methods.

  Bounds and fuel: the canonical traversal carries the remaining depth (\<open>MAX_DEPTH\<close>), so it is
  total on cyclic heaps; the JSON reader is given fuel from the length of its input, and the round
  trip shows it is enough for every text the writer produces; the backward read doubles its window
  until it covers the file; the chain loop returns because it never visits a name twice.

  Not modelled: the message texts of verification and audit issues (parameters where a report embeds
  them), the permission bits of files other than keys, directory creation, sockets and threads of the approval
  server (its requests arrive parsed), argument parsing and the text form of the command line's output, the re-exports of
  \<open>__init__.py\<close>, the benchmarks, and the generator of the cross-language test vectors: they hold no
  behaviour of their own or only input and output.
\<close>

end
